(* ===== verification/Prelude.thy ===== *)
theory Prelude
  imports Main "HOL-Library.Char_ord" "HOL-Library.List_Lexorder" "HOL-Library.Product_Lexorder"
begin

text \<open>
  What every component shares. A Python method that reads and writes the database and may
  raise is an operation: a function from the state to an exception or a result, together
  with the state it leaves behind (the state is returned on the error branch too, because a
  method that raises keeps what its committed transactions wrote). This theory holds the
  combinators such operations are built from, the SQL-like helpers on lists of rows, the
  string helpers of the Python standard library the code uses, and the proof collections.
\<close>

named_theorems op_simps "unfolding rules of the operation combinators"
named_theorems keeps_intros "preservation rules for operations"

section \<open>Operations: state passing with exceptions\<close>

type_synonym ('s, 'e, 'a) op = "'s \<Rightarrow> ('e + 'a) \<times> 's"

definition ret :: "'a \<Rightarrow> ('s, 'e, 'a) op" where
  "ret x s = (Inr x, s)"

definition raise :: "'e \<Rightarrow> ('s, 'e, 'a) op" where
  "raise e s = (Inl e, s)"

definition op_bind :: "('s, 'e, 'a) op \<Rightarrow> ('a \<Rightarrow> ('s, 'e, 'b) op) \<Rightarrow> ('s, 'e, 'b) op" where
  "op_bind m f s = (case m s of (Inl e, t) \<Rightarrow> (Inl e, t) | (Inr x, t) \<Rightarrow> f x t)"

definition op_then :: "('s, 'e, 'a) op \<Rightarrow> ('s, 'e, 'b) op \<Rightarrow> ('s, 'e, 'b) op" where
  "op_then m k = op_bind m (\<lambda>_. k)"

definition asks :: "('s \<Rightarrow> 'a) \<Rightarrow> ('s, 'e, 'a) op" where
  "asks f s = (Inr (f s), s)"

definition put :: "('s \<Rightarrow> 's) \<Rightarrow> ('s, 'e, unit) op" where
  "put f s = (Inr (), f s)"

definition demand :: "bool \<Rightarrow> 'e \<Rightarrow> ('s, 'e, unit) op" where
  "demand b e = (if b then ret () else raise e)"

text \<open>A transaction: an exception rolls the state back before it propagates.\<close>

definition transaction :: "('s, 'e, 'a) op \<Rightarrow> ('s, 'e, 'a) op" where
  "transaction m s = (case m s of (Inl e, t) \<Rightarrow> (Inl e, s) | (Inr x, t) \<Rightarrow> (Inr x, t))"

text \<open>\<open>except p g m\<close> is \<open>try: m except p as e: raise g(e)\<close>.\<close>

definition except :: "('e \<Rightarrow> bool) \<Rightarrow> ('e \<Rightarrow> 'e) \<Rightarrow> ('s, 'e, 'a) op \<Rightarrow> ('s, 'e, 'a) op" where
  "except p g m s = (case m s of (Inl e, t) \<Rightarrow> (Inl (if p e then g e else e), t)
                               | (Inr x, t) \<Rightarrow> (Inr x, t))"

fun foreach :: "('a \<Rightarrow> ('s, 'e, unit) op) \<Rightarrow> 'a list \<Rightarrow> ('s, 'e, unit) op" where
  "foreach f [] = ret ()"
| "foreach f (x # xs) = op_then (f x) (foreach f xs)"

fun op_map :: "('a \<Rightarrow> ('s, 'e, 'b) op) \<Rightarrow> 'a list \<Rightarrow> ('s, 'e, 'b list) op" where
  "op_map f [] = ret []"
| "op_map f (x # xs) = op_bind (f x) (\<lambda>y. op_bind (op_map f xs) (\<lambda>ys. ret (y # ys)))"

lemmas op_defs = ret_def raise_def op_bind_def op_then_def asks_def put_def demand_def
  transaction_def except_def

declare op_defs [op_simps]

subsection \<open>Inversion of successful and failing runs\<close>

lemma op_bind_okE:
  assumes "op_bind m f s = (Inr y, u)"
  obtains x t where "m s = (Inr x, t)" and "f x t = (Inr y, u)"
  using assms by (auto simp: op_bind_def split: prod.splits sum.splits)

lemma op_then_okE:
  assumes "op_then m k s = (Inr y, u)"
  obtains x t where "m s = (Inr x, t)" and "k t = (Inr y, u)"
  using assms by (auto simp: op_then_def elim: op_bind_okE)

lemma transaction_okE:
  assumes "transaction m s = (Inr y, u)"
  shows "m s = (Inr y, u)"
  using assms by (auto simp: transaction_def split: prod.splits sum.splits)

lemma transaction_error_state: "transaction m s = (Inl e, t) \<Longrightarrow> t = s"
  by (auto simp: transaction_def split: prod.splits sum.splits)

lemma demand_ok_iff [simp]: "demand b e s = (Inr x, t) \<longleftrightarrow> b \<and> t = s"
  by (auto simp: demand_def ret_def raise_def)

lemma demand_err_iff [simp]: "demand b e s = (Inl e', t) \<longleftrightarrow> \<not> b \<and> e' = e \<and> t = s"
  by (auto simp: demand_def ret_def raise_def)

subsection \<open>Preservation\<close>

text \<open>
  \<open>keeps P m\<close>: whatever \<open>m\<close> does, returning or raising, a state with \<open>P\<close> is left with
  \<open>P\<close>. The rules below take a composed operation apart.
\<close>

definition keeps :: "('s \<Rightarrow> bool) \<Rightarrow> ('s, 'e, 'a) op \<Rightarrow> bool" where
  "keeps P m \<longleftrightarrow> (\<forall>s. P s \<longrightarrow> P (snd (m s)))"

lemma keepsI: "(\<And>s. P s \<Longrightarrow> P (snd (m s))) \<Longrightarrow> keeps P m"
  by (simp add: keeps_def)

lemma keepsD: "keeps P m \<Longrightarrow> P s \<Longrightarrow> P (snd (m s))"
  by (simp add: keeps_def)

lemma keeps_result: "keeps P m \<Longrightarrow> P s \<Longrightarrow> m s = (r, t) \<Longrightarrow> P t"
  by (metis keepsD snd_conv)

lemma keeps_ret [keeps_intros]: "keeps P (ret x)"
  by (simp add: keeps_def ret_def)

lemma keeps_raise [keeps_intros]: "keeps P (raise e)"
  by (simp add: keeps_def raise_def)

lemma keeps_asks [keeps_intros]: "keeps P (asks f)"
  by (simp add: keeps_def asks_def)

lemma keeps_demand [keeps_intros]: "keeps P (demand b e)"
  by (simp add: demand_def keeps_ret keeps_raise)

lemma keeps_put: "(\<And>s. P s \<Longrightarrow> P (f s)) \<Longrightarrow> keeps P (put f)"
  by (simp add: keeps_def put_def)

lemma keeps_bind [keeps_intros]:
  "keeps P m \<Longrightarrow> (\<And>x. keeps P (f x)) \<Longrightarrow> keeps P (op_bind m f)"
  by (force simp: keeps_def op_bind_def split: prod.splits sum.splits)

lemma keeps_then [keeps_intros]: "keeps P m \<Longrightarrow> keeps P k \<Longrightarrow> keeps P (op_then m k)"
  by (simp add: op_then_def keeps_bind)

lemma keeps_transaction [keeps_intros]: "keeps P m \<Longrightarrow> keeps P (transaction m)"
  by (force simp: keeps_def transaction_def split: prod.splits sum.splits)

lemma keeps_except [keeps_intros]: "keeps P m \<Longrightarrow> keeps P (except p g m)"
  by (force simp: keeps_def except_def split: prod.splits sum.splits)

lemma keeps_foreach [keeps_intros]: "(\<And>x. keeps P (f x)) \<Longrightarrow> keeps P (foreach f xs)"
  by (induction xs) (simp_all add: keeps_ret keeps_then)

lemma keeps_op_map [keeps_intros]: "(\<And>x. keeps P (f x)) \<Longrightarrow> keeps P (op_map f xs)"
  by (induction xs) (simp_all add: keeps_ret keeps_bind)

text \<open>A run that returns, composed with what follows it.\<close>

lemma op_bind_ok: "m s = (Inr x, t) \<Longrightarrow> op_bind m f s = f x t"
  by (simp add: op_bind_def)

lemma op_then_ok: "m s = (Inr x, t) \<Longrightarrow> op_then m k s = k t"
  by (simp add: op_then_def op_bind_ok)

lemma op_bind_asks: "op_bind (asks g) f s = f (g s) s"
  by (simp add: op_bind_def asks_def)

lemma op_then_ret: "op_then (ret x) k = k"
  by (simp add: op_then_def op_bind_def ret_def fun_eq_iff)

lemma op_bind_ret: "op_bind (ret x) f = f x"
  by (simp add: op_bind_def ret_def fun_eq_iff)

lemmas op_run = op_bind_ok op_then_ok op_bind_asks op_then_ret op_bind_ret

lemma keeps_if [keeps_intros]: "keeps P m \<Longrightarrow> keeps P k \<Longrightarrow> keeps P (if b then m else k)"
  by simp

lemma keeps_case_option [keeps_intros]:
  "keeps P m \<Longrightarrow> (\<And>x. keeps P (k x)) \<Longrightarrow> keeps P (case z of None \<Rightarrow> m | Some x \<Rightarrow> k x)"
  by (cases z) auto

section \<open>Rows of a table\<close>

text \<open>\<open>UPDATE t SET f WHERE p\<close> and \<open>DELETE FROM t WHERE p\<close> on the list of rows.\<close>

definition update_where :: "('r \<Rightarrow> bool) \<Rightarrow> ('r \<Rightarrow> 'r) \<Rightarrow> 'r list \<Rightarrow> 'r list" where
  "update_where p f rows = map (\<lambda>r. if p r then f r else r) rows"

definition delete_where :: "('r \<Rightarrow> bool) \<Rightarrow> 'r list \<Rightarrow> 'r list" where
  "delete_where p rows = filter (\<lambda>r. \<not> p r) rows"

text \<open>\<open>unique_by f t\<close>: no two rows of the table agree on \<open>f\<close> (a key or unique index).\<close>

definition unique_by :: "('r \<Rightarrow> 'k) \<Rightarrow> 'r list \<Rightarrow> bool" where
  "unique_by f rows \<longleftrightarrow> distinct (map f rows)"

lemma set_delete_where [simp]: "set (delete_where p rows) = {r \<in> set rows. \<not> p r}"
  by (simp add: delete_where_def)

lemma set_update_where:
  "set (update_where p f rows) = (\<lambda>r. if p r then f r else r) ` set rows"
  by (simp add: update_where_def)

lemma ball_update_where [simp]:
  "(\<forall>r \<in> set (update_where p f rows). P r) \<longleftrightarrow> (\<forall>r \<in> set rows. P (if p r then f r else r))"
  by (auto simp: set_update_where)

lemma bex_update_where:
  "(\<exists>r \<in> set (update_where p f rows). P r) \<longleftrightarrow> (\<exists>r \<in> set rows. P (if p r then f r else r))"
  by (auto simp: set_update_where)

lemma image_update_where [simp]:
  assumes "\<And>r. f (g r) = f r"
  shows "f ` set (update_where p g rows) = f ` set rows"
proof -
  have "f (if p r then g r else r) = f r" for r using assms by simp
  then have "map f (update_where p g rows) = map f rows" by (simp add: update_where_def)
  then show ?thesis by (metis set_map)
qed

lemma image_keys_without [simp]: "f ` {r \<in> S. f r \<noteq> k} = f ` S - {k}"
  by auto

lemma filter_delete_where: "filter q (delete_where p rows) = filter (\<lambda>r. q r \<and> \<not> p r) rows"
  by (simp add: delete_where_def conj_commute)

lemma delete_where_id: "(\<And>r. r \<in> set rows \<Longrightarrow> \<not> p r) \<Longrightarrow> delete_where p rows = rows"
  by (simp add: delete_where_def)

lemma distinct_delete_where [simp, intro]: "distinct rows \<Longrightarrow> distinct (delete_where p rows)"
  by (simp add: delete_where_def)

lemma unique_by_Nil [simp]: "unique_by f []"
  by (simp add: unique_by_def)

lemma unique_by_snoc [simp]:
  "unique_by f (rows @ [r]) \<longleftrightarrow> unique_by f rows \<and> f r \<notin> f ` set rows"
  by (auto simp: unique_by_def)

lemma unique_by_filter [simp, intro]: "unique_by f rows \<Longrightarrow> unique_by f (filter p rows)"
  by (simp add: unique_by_def distinct_map_filter)

lemma unique_by_delete [simp, intro]: "unique_by f rows \<Longrightarrow> unique_by f (delete_where p rows)"
  by (simp add: delete_where_def unique_by_filter)

lemma unique_by_filter_delete [simp]:
  assumes "unique_by f (filter p rows)"
  shows "unique_by f (filter p (delete_where q rows))"
proof -
  have "filter p (delete_where q rows) = delete_where q (filter p rows)"
    by (simp add: delete_where_def conj_commute)
  with assms show ?thesis by simp
qed

lemma unique_by_update [simp, intro]:
  assumes "\<And>r. f (g r) = f r"
  shows "unique_by f (update_where p g rows) = unique_by f rows"
proof -
  have "map f (update_where p g rows) = map f rows"
    using assms by (simp add: update_where_def)
  then show ?thesis by (simp add: unique_by_def)
qed

lemma unique_byD:
  "unique_by f rows \<Longrightarrow> r \<in> set rows \<Longrightarrow> q \<in> set rows \<Longrightarrow> f r = f q \<Longrightarrow> r = q"
  by (simp add: unique_by_def distinct_map inj_on_def)

lemma unique_by_filter_update:
  assumes "unique_by f (filter p rows)"
    and "\<And>r. f (g r) = f r" and "\<And>r. p (g r) = p r"
  shows "unique_by f (filter p (update_where q g rows))"
proof -
  have "filter p (update_where q g rows) = update_where q g (filter p rows)"
    using assms(3) by (induction rows) (auto simp: update_where_def)
  with assms(1,2) show ?thesis by simp
qed

text \<open>\<open>SELECT * FROM t WHERE key = k\<close>, \<open>fetchone\<close>.\<close>

lemma find_in_set: "find p rows = Some r \<Longrightarrow> r \<in> set rows \<and> p r"
  by (metis find_Some_iff nth_mem)

lemma find_unique_iff:
  assumes "unique_by f rows"
  shows "find (\<lambda>r. f r = k) rows = Some r \<longleftrightarrow> r \<in> set rows \<and> f r = k"
  using assms
proof (induction rows)
  case Nil
  then show ?case by simp
next
  case (Cons x rows)
  then show ?case by (auto simp: unique_by_def)
qed

lemma find_None_key [simp]: "find (\<lambda>r. f r = k) rows = None \<longleftrightarrow> k \<notin> f ` set rows"
  by (auto simp: find_None_iff)

lemma find_is_Some_key: "(find (\<lambda>r. f r = k) rows \<noteq> None) = (k \<in> f ` set rows)"
  by simp

section \<open>Strings\<close>

text \<open>
  Python's \<open>str\<close> is a list of characters; \<open>startswith\<close>, \<open>sep.join\<close> and \<open>split\<close> on one
  separator character are the standard library's.
\<close>

definition starts_with :: "string \<Rightarrow> string \<Rightarrow> bool" where
  "starts_with s p \<longleftrightarrow> take (length p) s = p"

fun join :: "string \<Rightarrow> string list \<Rightarrow> string" where
  "join sep [] = []"
| "join sep [w] = w"
| "join sep (w # v # ws) = w @ sep @ join sep (v # ws)"

fun split_on :: "char \<Rightarrow> string \<Rightarrow> string list" where
  "split_on c [] = [[]]"
| "split_on c (x # xs) =
     (if x = c then [] # split_on c xs
      else (case split_on c xs of [] \<Rightarrow> [[x]] | w # ws \<Rightarrow> (x # w) # ws))"

lemma split_on_nonempty: "split_on c xs \<noteq> []"
  by (induction xs) (auto split: list.splits)

lemma split_on_word: "c \<notin> set w \<Longrightarrow> split_on c w = [w]"
  by (induction w) auto

lemma split_on_append_sep: "c \<notin> set w \<Longrightarrow> split_on c (w @ c # xs) = w # split_on c xs"
  by (induction w) auto

lemma split_on_join:
  "ws \<noteq> [] \<Longrightarrow> \<forall>w \<in> set ws. c \<notin> set w \<Longrightarrow> split_on c (join [c] ws) = ws"
  by (induction "[c]" ws rule: join.induct) (auto simp: split_on_word split_on_append_sep)

text \<open>\<open>str.casefold\<close> on ASCII text, and \<open>sub in s\<close>.\<close>

definition fold_char :: "char \<Rightarrow> char" where
  "fold_char c = (let n = (of_char c :: nat) in if 65 \<le> n \<and> n \<le> 90 then char_of (n + 32) else c)"

definition casefold :: "string \<Rightarrow> string" where
  "casefold s = map fold_char s"

fun contains :: "string \<Rightarrow> string \<Rightarrow> bool" where
  "contains sub [] = (sub = [])"
| "contains sub (c # s) = (starts_with (c # s) sub \<or> contains sub s)"

lemma starts_with_iff: "starts_with s p \<longleftrightarrow> (\<exists>t. s = p @ t)"
  by (metis append_eq_conv_conj append_take_drop_id starts_with_def)

lemma contains_iff: "contains sub s \<longleftrightarrow> (\<exists>us vs. s = us @ sub @ vs)"
proof (induction s)
  case Nil
  then show ?case by simp
next
  case IH: (Cons c s)
  show ?case
  proof
    assume "contains sub (c # s)"
    then consider t where "c # s = sub @ t" | us vs where "s = us @ sub @ vs"
      using IH by (auto simp: starts_with_iff)
    then show "\<exists>us vs. c # s = us @ sub @ vs"
      by cases (metis append_Nil, metis append_Cons)
  next
    assume "\<exists>us vs. c # s = us @ sub @ vs"
    then obtain us vs where e: "c # s = us @ sub @ vs" by blast
    show "contains sub (c # s)"
    proof (cases us)
      case Nil
      with e have "starts_with (c # s) sub" by (auto simp: starts_with_iff)
      then show ?thesis by simp
    next
      case (Cons u ut)
      with e have "s = ut @ sub @ vs" by simp
      then have "contains sub s" using IH by blast
      then show ?thesis by simp
    qed
  qed
qed

lemma fold_char_idem [simp]: "fold_char (fold_char c) = fold_char c"
  by (simp add: fold_char_def Let_def)

lemma casefold_idem [simp]: "casefold (casefold s) = casefold s"
  by (simp add: casefold_def)

section \<open>Dictionaries and JSON values\<close>

text \<open>A Python \<open>dict\<close> as its list of items: a key keeps its first position, its last value.\<close>

fun dict_put :: "'k \<Rightarrow> 'v \<Rightarrow> ('k \<times> 'v) list \<Rightarrow> ('k \<times> 'v) list" where
  "dict_put k v [] = [(k, v)]"
| "dict_put k v (kv # kvs) = (if fst kv = k then (k, v) # kvs else kv # dict_put k v kvs)"

definition dict_of :: "('k \<times> 'v) list \<Rightarrow> ('k \<times> 'v) list" where
  "dict_of kvs = fold (\<lambda>(k, v). dict_put k v) kvs []"

lemma map_of_dict_put [simp]: "map_of (dict_put k v kvs) = (map_of kvs)(k \<mapsto> v)"
  by (induction kvs) (auto simp: fun_eq_iff)

lemma keys_dict_put [simp]: "fst ` set (dict_put k v kvs) = insert k (fst ` set kvs)"
  by (induction kvs) auto

lemma distinct_dict_put [simp]: "distinct (map fst kvs) \<Longrightarrow> distinct (map fst (dict_put k v kvs))"
proof (induction kvs)
  case (Cons kv kvs)
  then show ?case by (auto simp: image_iff)
qed simp

lemma map_of_fold_dict_put:
  "map_of (fold (\<lambda>(k, v). dict_put k v) kvs acc) = map_of acc ++ map_of (rev kvs)"
  by (induction kvs arbitrary: acc) (auto simp: map_add_assoc [symmetric])

lemma map_of_dict_of: "map_of (dict_of kvs) = map_of (rev kvs)"
  by (simp add: dict_of_def map_of_fold_dict_put)

lemma distinct_dict_of: "distinct (map fst (dict_of kvs))"
proof -
  have "distinct (map fst acc) \<Longrightarrow> distinct (map fst (fold (\<lambda>(k, v). dict_put k v) kvs acc))" for acc
    by (induction kvs arbitrary: acc) auto
  then show ?thesis by (simp add: dict_of_def)
qed

lemma keys_dict_of [simp]: "fst ` set (dict_of kvs) = fst ` set kvs"
  by (metis dom_map_of_conv_image_fst map_of_dict_of set_rev)

text \<open>What \<open>json.loads\<close> builds; a float is its text, which nothing here inspects.\<close>

datatype json =
    JNull
  | JBool bool
  | JInt int
  | JFloat string
  | JStr string
  | JList "json list"
  | JDict "(string \<times> json) list"

end
