(* ===== verification/Auth_Model.thy ===== *)
theory Auth_Model
  imports Prelude
begin

text \<open>
  The identity and permission domain model (\<open>auth/models.py\<close>), the fixed builtin-role
  policy (\<open>auth/policy.py\<close>), the exceptions of the \<open>auth\<close> package, and the instants of
  \<open>auth/clock.py\<close>. One record per frozen dataclass; an enum is a datatype whose
  \<open>_value\<close> function gives the string the code stores. A row is held with its columns
  decoded (an enum column as the enum, \<open>verbs\<close> as a set); \<open>encode_verbs\<close> and
  \<open>decode_verbs\<close> are the text codec of the one column that is not a plain enum.
\<close>

section \<open>Enums\<close>

datatype verb = GET | POST | PUT | PATCH | DELETE

fun verb_value :: "verb \<Rightarrow> string" where
  "verb_value GET = ''GET''"
| "verb_value POST = ''POST''"
| "verb_value PUT = ''PUT''"
| "verb_value PATCH = ''PATCH''"
| "verb_value DELETE = ''DELETE''"

definition verb_order :: "verb list" where
  "verb_order = [GET, POST, PUT, PATCH, DELETE]"

definition mutating_verbs :: "verb set" where
  "mutating_verbs = {POST, PUT, PATCH, DELETE}"

lemma set_verb_order [simp]: "set verb_order = UNIV"
proof -
  have "v \<in> set verb_order" for v by (cases v) (simp_all add: verb_order_def)
  then show ?thesis by blast
qed

lemma verb_value_inj [simp]: "verb_value v = verb_value w \<longleftrightarrow> v = w"
  by (cases v; cases w) simp_all

text \<open>The declaration order of the enum, as an instance of the library's class.\<close>

instantiation verb :: linorder
begin

fun verb_rank :: "verb \<Rightarrow> nat" where
  "verb_rank GET = 0"
| "verb_rank POST = 1"
| "verb_rank PUT = 2"
| "verb_rank PATCH = 3"
| "verb_rank DELETE = 4"

definition less_eq_verb :: "verb \<Rightarrow> verb \<Rightarrow> bool" where
  "less_eq_verb v w \<longleftrightarrow> verb_rank v \<le> verb_rank w"

definition less_verb :: "verb \<Rightarrow> verb \<Rightarrow> bool" where
  "less_verb v w \<longleftrightarrow> verb_rank v < verb_rank w"

instance
proof
  fix v w :: verb
  show "v \<le> w \<Longrightarrow> w \<le> v \<Longrightarrow> v = w"
    by (cases v; cases w) (simp_all add: less_eq_verb_def)
qed (auto simp: less_eq_verb_def less_verb_def)

end

datatype role_slug = READ | WRITE | MAINTAIN | ADMIN

fun role_slug_value :: "role_slug \<Rightarrow> string" where
  "role_slug_value READ = ''read''"
| "role_slug_value WRITE = ''write''"
| "role_slug_value MAINTAIN = ''maintain''"
| "role_slug_value ADMIN = ''admin''"

lemma role_slug_value_inj [simp]: "role_slug_value a = role_slug_value b \<longleftrightarrow> a = b"
  by (cases a; cases b) simp_all

datatype subject_type = USER | GROUP

fun subject_type_value :: "subject_type \<Rightarrow> string" where
  "subject_type_value USER = ''user''"
| "subject_type_value GROUP = ''group''"

datatype credential_type = PASSWORD | API_TOKEN | TOTP

datatype login_scope = USERNAME | IP

section \<open>Exceptions\<close>

text \<open>
  One constructor per exception class the modelled methods raise, with the parts of
  \<open>details\<close> the code computes; message texts are left out. The last five are exceptions
  that are not \<open>AuthError\<close>s: \<open>sqlite3.IntegrityError\<close>, \<open>ValueError\<close>,
  \<open>AssertionError\<close>, \<open>TypeError\<close> and \<open>struct.error\<close>.
\<close>

datatype err =
    BuiltinRoleError string
  | DuplicateError string
  | UnknownSubjectError subject_type string
  | RoleInUseError string "string list"
  | ForbiddenError string string
  | SudoRequiredError string string
  | SelfEscalationError "string list"
  | LastAdminError "string list"
  | NotFoundError string
  | BootstrapIdentityError string
  | InvalidGrantError "string list"
  | TotpAlreadyEnrolledError string
  | TokenAlreadyIssuedError string
  | SudoLockedOutError int
  | StepUpUnavailableError "string list"
  | LoginThrottledError int
  | EncryptionKeyMissingError
  | DecryptionError
  | OidcStateError
  | OidcCallbackError
  | OidcProviderError
  | OidcTokenError
  | OidcProvisioningError
  | RouteCoverageError "string list"
  | WeakPasswordError string
  | IntegrityError
  | ValueError
  | AssertionError
  | TypeError
  | StructError

section \<open>Instants\<close>

text \<open>
  A \<open>datetime\<close> in UTC is its number of microseconds since the epoch. A stored timestamp
  is the millisecond text of \<open>iso\<close>; since that text orders as the instants do (theory
  \<open>Clock\<close> proves it on the text), a stored timestamp is held as its number of
  milliseconds, and the code's string comparisons are comparisons of these numbers.
\<close>

type_synonym instant = int
type_synonym stamp = int

definition iso :: "instant \<Rightarrow> stamp" where
  "iso t = t div 1000"

definition parse_iso :: "stamp \<Rightarrow> instant" where
  "parse_iso m = m * 1000"

lemma iso_parse_iso [simp]: "iso (parse_iso m) = m"
  by (simp add: iso_def parse_iso_def)

lemma iso_mono: "t \<le> u \<Longrightarrow> iso t \<le> iso u"
  by (simp add: iso_def zdiv_mono1)

lemma parse_iso_iso_le: "parse_iso (iso t) \<le> t"
  using div_mult_mod_eq [of t 1000] pos_mod_sign [of 1000 t]
  by (simp add: iso_def parse_iso_def)

lemma parse_iso_iso_gt: "t - 1000 < parse_iso (iso t)"
  using div_mult_mod_eq [of t 1000] pos_mod_bound [of 1000 t]
  by (simp add: iso_def parse_iso_def)

section \<open>Rows\<close>

record resource =
  res_name :: string
  res_description :: string
  res_registered_at :: stamp
  res_verbs :: "verb set"

record role =
  rol_id :: string
  rol_slug :: string
  rol_name :: string
  rol_description :: string
  rol_builtin :: bool
  rol_created_at :: stamp

record role_permission =
  rp_role_id :: string
  rp_resource :: string
  rp_verb :: verb

record user =
  usr_id :: string
  usr_username :: string
  usr_display_name :: string
  usr_active :: bool
  usr_created_at :: stamp
  usr_deleted_at :: "stamp option"

record group =
  grp_id :: string
  grp_slug :: string
  grp_name :: string
  grp_description :: string
  grp_created_at :: stamp

record role_assignment =
  ra_id :: string
  ra_subject_type :: subject_type
  ra_subject_id :: string
  ra_role_id :: string
  ra_created_at :: stamp
  ra_source :: string

record role_mapping =
  rm_id :: string
  rm_provider :: string
  rm_claim :: string
  rm_value :: string
  rm_role_id :: string

text \<open>
  \<open>credentials.last_used_at\<close> holds an instant's text for an API token and a TOTP step
  index in decimal for a \<open>totp\<close> row (migration 0006).
\<close>

datatype last_used = At stamp | Step int

record credential =
  cred_id :: string
  cred_user_id :: string
  cred_type :: credential_type
  cred_hash :: string
  cred_salt :: "string option"
  cred_label :: string
  cred_created_at :: stamp
  cred_last_used_at :: "last_used option"
  cred_expires_at :: "stamp option"

record sudo_grant =
  sg_id :: string
  sg_user_id :: string
  sg_hash :: string
  sg_salt :: string
  sg_verifier :: string
  sg_issued_at :: stamp
  sg_expires_at :: stamp
  sg_revoked_at :: "stamp option"

text \<open>
  \<open>sudo_lockouts\<close> and \<open>login_attempts\<close> have the same three columns beside their key; a
  bucket is those columns.
\<close>

record bucket =
  bk_failed_count :: nat
  bk_first_failed_at :: "stamp option"
  bk_locked_until :: "stamp option"

record sudo_lockout =
  sl_user_id :: string
  sl_bucket :: bucket

record login_attempt =
  la_scope :: login_scope
  la_key :: string
  la_bucket :: bucket

record external_identity =
  ei_id :: string
  ei_user_id :: string
  ei_provider :: string
  ei_subject :: string
  ei_created_at :: stamp

record oidc_login_state =
  os_state :: string
  os_nonce :: string
  os_code_verifier :: string
  os_created_at :: stamp
  os_expires_at :: stamp

section \<open>The verb codec\<close>

definition ordered_verbs :: "verb set \<Rightarrow> verb list" where
  "ordered_verbs vs = filter (\<lambda>v. v \<in> vs) verb_order"

definition encode_verbs :: "verb set \<Rightarrow> string" where
  "encode_verbs vs = join '','' (map verb_value (ordered_verbs vs))"

text \<open>\<open>Verb(part)\<close>: the member with that value, or \<open>ValueError\<close>.\<close>

definition verb_of :: "string \<Rightarrow> err + verb" where
  "verb_of part = (case find (\<lambda>v. verb_value v = part) verb_order of
     None \<Rightarrow> Inl ValueError | Some v \<Rightarrow> Inr v)"

fun verbs_of :: "string list \<Rightarrow> err + verb set" where
  "verbs_of [] = Inr {}"
| "verbs_of (p # ps) = (case verb_of p of
     Inl e \<Rightarrow> Inl e
   | Inr v \<Rightarrow> (case verbs_of ps of Inl e \<Rightarrow> Inl e | Inr vs \<Rightarrow> Inr (insert v vs)))"

definition decode_verbs :: "string \<Rightarrow> err + verb set" where
  "decode_verbs raw = (if raw = [] then Inr {} else verbs_of (split_on CHR '','' raw))"

lemma verb_of_value [simp]: "verb_of (verb_value v) = Inr v"
  by (cases v) (simp_all add: verb_of_def verb_order_def)

lemma verbs_of_values: "verbs_of (map verb_value vs) = Inr (set vs)"
  by (induction vs) simp_all

lemma set_ordered_verbs [simp]: "set (ordered_verbs vs) = vs"
  by (auto simp: ordered_verbs_def)

lemma sorted_verb_order: "sorted verb_order \<and> distinct verb_order"
  by (simp add: verb_order_def less_eq_verb_def)

lemma ordered_verbs_sorted: "sorted (ordered_verbs vs) \<and> distinct (ordered_verbs vs)"
  using sorted_verb_order by (simp add: ordered_verbs_def sorted_wrt_filter)

lemma verb_value_no_comma: "CHR '','' \<notin> set (verb_value v)" and verb_value_ne: "verb_value v \<noteq> []"
  by (cases v; simp)+

lemma join_eq_Nil: "join sep ws = [] \<Longrightarrow> \<forall>w \<in> set ws. w \<noteq> [] \<Longrightarrow> ws = []"
  by (induction sep ws rule: join.induct) auto

text \<open>
  The text codec of \<open>resources.verbs\<close> loses nothing: decoding the column that
  \<open>encode_verbs\<close> wrote gives back exactly the set of verbs, for every set of verbs (the
  empty one included), and the list behind the text is the declaration-ordered enumeration
  of the set.
\<close>

theorem decode_encode_verbs:
  "decode_verbs (encode_verbs vs) = Inr vs
   \<and> ordered_verbs vs = sorted_list_of_set vs"
proof
  have fin: "finite vs" by (rule finite_subset [OF subset_UNIV]) (simp flip: set_verb_order)
  show "ordered_verbs vs = sorted_list_of_set vs"
    using ordered_verbs_sorted [of vs] fin
    by (metis set_ordered_verbs sorted_list_of_set.idem_if_sorted_distinct)
  show "decode_verbs (encode_verbs vs) = Inr vs"
  proof (cases "ordered_verbs vs = []")
    case True
    then have "vs = {}" using set_ordered_verbs [of vs] by simp
    with True show ?thesis by (simp add: encode_verbs_def decode_verbs_def)
  next
    case False
    then have "encode_verbs vs \<noteq> []"
      using join_eq_Nil [of "'',''" "map verb_value (ordered_verbs vs)"] verb_value_ne
      by (auto simp: encode_verbs_def)
    moreover have "split_on CHR '','' (encode_verbs vs) = map verb_value (ordered_verbs vs)"
      using False verb_value_no_comma by (simp add: encode_verbs_def split_on_join)
    ultimately show ?thesis by (simp add: decode_verbs_def verbs_of_values)
  qed
qed

section \<open>The builtin policy\<close>

definition is_sensitive_resource :: "string \<Rightarrow> bool" where
  "is_sensitive_resource r \<longleftrightarrow> starts_with r ''auth.''"

definition is_self_resource :: "string \<Rightarrow> bool" where
  "is_self_resource r \<longleftrightarrow> starts_with r ''me.''"

datatype policy_class = ORDINARY | AUTH | SELF

definition policy_class :: "string \<Rightarrow> policy_class" where
  "policy_class r = (if is_self_resource r then SELF
     else if is_sensitive_resource r then AUTH else ORDINARY)"

definition is_grantable :: "string \<Rightarrow> bool" where
  "is_grantable r \<longleftrightarrow> \<not> is_self_resource r"

definition permitted_verbs :: "role_slug \<Rightarrow> string \<Rightarrow> verb set" where
  "permitted_verbs role r =
     (if is_self_resource r then insert GET mutating_verbs
      else if is_sensitive_resource r \<and> role \<notin> {MAINTAIN, ADMIN} then {}
      else if role = READ then {GET}
      else if role = WRITE then {GET, POST, PUT, PATCH}
      else insert GET mutating_verbs)"

record role_spec =
  rs_slug :: role_slug
  rs_name :: string
  rs_description :: string

definition builtin_roles :: "role_spec list" where
  "builtin_roles =
    [\<lparr>rs_slug = READ, rs_name = ''Read'',
      rs_description = ''GET-only access to every non-sensitive resource.''\<rparr>,
     \<lparr>rs_slug = WRITE, rs_name = ''Write'',
      rs_description = ''GET/POST/PUT/PATCH access to every non-sensitive resource.''\<rparr>,
     \<lparr>rs_slug = MAINTAIN, rs_name = ''Maintain'',
      rs_description = ''Full access including DELETE; sensitive auth.* actions require an active sudo grant (issue #26).''\<rparr>,
     \<lparr>rs_slug = ADMIN, rs_name = ''Admin'',
      rs_description = ''Full access including DELETE and auth.*, with no sudo step-up required.''\<rparr>]"

record resource_spec =
  spec_name :: string
  spec_description :: string
  spec_verbs :: "verb set"

lemma all_verbs_UNIV [simp]: "insert GET mutating_verbs = UNIV"
proof -
  have "v \<in> insert GET mutating_verbs" for v by (cases v) (simp_all add: mutating_verbs_def)
  then show ?thesis by blast
qed

text \<open>
  The fixed policy, as its documentation promises it: grants only grow along Read,
  Write, Maintain, Admin; Maintain and Admin hold the same grants; Read and Write hold
  nothing on the access-control surface (policy class \<open>auth\<close>); everybody holds every verb
  on a \<open>me.*\<close> resource; and outside those two classes Read is GET only and Write is
  everything but DELETE.
\<close>

theorem permitted_verbs_policy:
  "permitted_verbs READ r \<subseteq> permitted_verbs WRITE r
   \<and> permitted_verbs WRITE r \<subseteq> permitted_verbs MAINTAIN r
   \<and> permitted_verbs MAINTAIN r = UNIV \<and> permitted_verbs ADMIN r = UNIV
   \<and> (case policy_class r of
        SELF \<Rightarrow> permitted_verbs READ r = UNIV
      | AUTH \<Rightarrow> permitted_verbs READ r = {} \<and> permitted_verbs WRITE r = {}
      | ORDINARY \<Rightarrow> permitted_verbs READ r = {GET} \<and> permitted_verbs WRITE r = - {DELETE})"
proof -
  have "{GET, POST, PUT, PATCH} = - {DELETE}"
    using verb.exhaust by auto
  then show ?thesis
    by (auto simp: permitted_verbs_def policy_class_def)
qed

end
