(* ===== verification/Repositories.thy ===== *)
theory Repositories
  imports Auth_Model
begin

text \<open>
  The database of \<open>storage/migrations\<close> (auth tables) and the CRUD layer of
  \<open>auth/repositories.py\<close>, one definition per method. A table is the list of its rows in
  insertion order. \<open>_new_id()\<close> (a random uuid), \<open>new_token_salt()\<close> and the clock that
  fills \<open>created_at\<close> are arguments; the SHA-256 digest and the argon2 verifier are
  arguments too. A primary key, unique index or foreign key that an \<open>INSERT\<close> violates is an
  \<open>IntegrityError\<close>, a \<open>DELETE\<close> cascades as the schema says. A frozenset that a method
  iterates over is the list of its elements in the iteration order.
\<close>

section \<open>The database\<close>

record db =
  t_resources :: "resource list"
  t_roles :: "role list"
  t_role_permissions :: "role_permission list"
  t_users :: "user list"
  t_groups :: "group list"
  t_user_groups :: "(string \<times> string) list"
  t_role_assignments :: "role_assignment list"
  t_role_mappings :: "role_mapping list"
  t_credentials :: "credential list"
  t_sudo_grants :: "sudo_grant list"
  t_sudo_lockouts :: "sudo_lockout list"
  t_login_attempts :: "login_attempt list"
  t_external_identities :: "external_identity list"
  t_oidc_login_states :: "oidc_login_state list"

type_synonym 'a db_op = "(db, err, 'a) op"

definition empty_db :: db where
  "empty_db = \<lparr>t_resources = [], t_roles = [], t_role_permissions = [], t_users = [],
     t_groups = [], t_user_groups = [], t_role_assignments = [], t_role_mappings = [],
     t_credentials = [], t_sudo_grants = [], t_sudo_lockouts = [], t_login_attempts = [],
     t_external_identities = [], t_oidc_login_states = []\<rparr>"

text \<open>\<open>except sqlite3.IntegrityError as exc: raise DuplicateError(...) from exc\<close>\<close>

definition on_integrity :: "err \<Rightarrow> 'a db_op \<Rightarrow> 'a db_op" where
  "on_integrity e m = except (\<lambda>x. x = IntegrityError) (\<lambda>_. e) m"

section \<open>Resources\<close>

definition resource_list_all :: "db \<Rightarrow> resource list" where
  "resource_list_all d = sort_key res_name (t_resources d)"

definition resource_upsert :: "string \<Rightarrow> string \<Rightarrow> verb set \<Rightarrow> stamp \<Rightarrow> unit db_op" where
  "resource_upsert name description vs now = transaction (put (\<lambda>d. d\<lparr>t_resources :=
     (if name \<in> res_name ` set (t_resources d)
      then update_where (\<lambda>r. res_name r = name)
             (\<lambda>r. r\<lparr>res_description := description, res_verbs := vs\<rparr>) (t_resources d)
      else t_resources d @ [\<lparr>res_name = name, res_description = description,
             res_registered_at = now, res_verbs = vs\<rparr>])\<rparr>))"

definition resource_delete :: "string \<Rightarrow> unit db_op" where
  "resource_delete name = transaction (put (\<lambda>d. d\<lparr>
     t_resources := delete_where (\<lambda>r. res_name r = name) (t_resources d),
     t_role_permissions := delete_where (\<lambda>p. rp_resource p = name) (t_role_permissions d)\<rparr>))"

section \<open>Roles\<close>

definition role_list_all :: "db \<Rightarrow> role list" where
  "role_list_all d = sort_key rol_slug (t_roles d)"

definition role_get :: "db \<Rightarrow> string \<Rightarrow> role option" where
  "role_get d role_id = find (\<lambda>r. rol_id r = role_id) (t_roles d)"

definition role_get_by_slug :: "db \<Rightarrow> string \<Rightarrow> role option" where
  "role_get_by_slug d slug = find (\<lambda>r. rol_slug r = slug) (t_roles d)"

definition insert_role :: "role \<Rightarrow> unit db_op" where
  "insert_role r d =
     (if rol_id r \<in> rol_id ` set (t_roles d) \<or> rol_slug r \<in> rol_slug ` set (t_roles d)
      then raise IntegrityError d
      else put (\<lambda>d. d\<lparr>t_roles := t_roles d @ [r]\<rparr>) d)"

text \<open>\<open>INSERT INTO role_permissions ... ON CONFLICT (role_id, resource, verb) DO NOTHING\<close>;
  the two foreign keys are checked either way.\<close>

definition insert_permission :: "string \<Rightarrow> string \<Rightarrow> verb \<Rightarrow> unit db_op" where
  "insert_permission role_id res v d =
     (let p = \<lparr>rp_role_id = role_id, rp_resource = res, rp_verb = v\<rparr> in
      if p \<in> set (t_role_permissions d) then ret () d
      else if role_id \<notin> rol_id ` set (t_roles d) \<or> res \<notin> res_name ` set (t_resources d)
      then raise IntegrityError d
      else put (\<lambda>d. d\<lparr>t_role_permissions := t_role_permissions d @ [p]\<rparr>) d)"

definition insert_permissions :: "string \<Rightarrow> (string \<times> verb) list \<Rightarrow> unit db_op" where
  "insert_permissions role_id grants = foreach (\<lambda>(res, v). insert_permission role_id res v) grants"

definition role_create ::
  "string \<Rightarrow> string \<Rightarrow> string \<Rightarrow> string \<Rightarrow> bool \<Rightarrow> (string \<times> verb) list \<Rightarrow> stamp \<Rightarrow> role db_op" where
  "role_create role_id slug name description builtin grants now =
     op_then (on_integrity (DuplicateError slug) (transaction (op_then
         (insert_role \<lparr>rol_id = role_id, rol_slug = slug, rol_name = name,
            rol_description = description, rol_builtin = builtin, rol_created_at = now\<rparr>)
         (insert_permissions role_id grants))))
     (op_bind (asks (\<lambda>d. role_get d role_id)) (\<lambda>r. case r of
         None \<Rightarrow> raise AssertionError
       | Some role \<Rightarrow> ret role))"

definition role_ensure_builtin ::
  "string \<Rightarrow> string \<Rightarrow> string \<Rightarrow> string \<Rightarrow> stamp \<Rightarrow> role db_op" where
  "role_ensure_builtin role_id slug name description now =
     op_bind (asks (\<lambda>d. role_get_by_slug d slug)) (\<lambda>existing. case existing of
         None \<Rightarrow> role_create role_id slug name description True [] now
       | Some r \<Rightarrow> ret r)"

definition delete_role :: "string \<Rightarrow> db \<Rightarrow> db" where
  "delete_role role_id d = d\<lparr>
     t_roles := delete_where (\<lambda>r. rol_id r = role_id) (t_roles d),
     t_role_permissions := delete_where (\<lambda>p. rp_role_id p = role_id) (t_role_permissions d),
     t_role_assignments := delete_where (\<lambda>a. ra_role_id a = role_id) (t_role_assignments d),
     t_role_mappings := delete_where (\<lambda>m. rm_role_id m = role_id) (t_role_mappings d)\<rparr>"

definition role_delete :: "string \<Rightarrow> unit db_op" where
  "role_delete role_id =
     op_bind (asks (\<lambda>d. role_get d role_id)) (\<lambda>r. case r of
         None \<Rightarrow> ret ()
       | Some role \<Rightarrow> op_then (demand (\<not> rol_builtin role) (BuiltinRoleError (rol_slug role)))
           (op_bind (asks (\<lambda>d. filter (\<lambda>a. ra_role_id a = role_id) (t_role_assignments d)))
             (\<lambda>assignments. op_then
                (demand (assignments = []) (RoleInUseError role_id
                   (sort (map (\<lambda>a. subject_type_value (ra_subject_type a) @ '':'' @ ra_subject_id a)
                     assignments))))
                (transaction (put (delete_role role_id))))))"

definition role_list_custom_with_grant_on :: "db \<Rightarrow> string \<Rightarrow> role list" where
  "role_list_custom_with_grant_on d res = sort_key rol_slug (remdups
     [r. r \<leftarrow> t_roles d, p \<leftarrow> t_role_permissions d,
         rp_role_id p = rol_id r \<and> rp_resource p = res \<and> \<not> rol_builtin r])"

section \<open>Role permissions\<close>

definition permission_list_for_role :: "db \<Rightarrow> string \<Rightarrow> role_permission list" where
  "permission_list_for_role d role_id =
     sort_key (\<lambda>p. (rp_resource p, verb_value (rp_verb p)))
       (filter (\<lambda>p. rp_role_id p = role_id) (t_role_permissions d))"

definition permission_grant :: "string \<Rightarrow> string \<Rightarrow> verb \<Rightarrow> unit db_op" where
  "permission_grant role_id res v = transaction (insert_permission role_id res v)"

definition permission_revoke :: "string \<Rightarrow> string \<Rightarrow> verb \<Rightarrow> unit db_op" where
  "permission_revoke role_id res v = transaction (put (\<lambda>d. d\<lparr>t_role_permissions :=
     delete_where (\<lambda>p. rp_role_id p = role_id \<and> rp_resource p = res \<and> rp_verb p = v)
       (t_role_permissions d)\<rparr>))"

definition permission_replace_for_role :: "string \<Rightarrow> (string \<times> verb) list \<Rightarrow> unit db_op" where
  "permission_replace_for_role role_id grants = transaction (op_then
     (put (\<lambda>d. d\<lparr>t_role_permissions :=
        delete_where (\<lambda>p. rp_role_id p = role_id) (t_role_permissions d)\<rparr>))
     (insert_permissions role_id grants))"

definition grants_for_roles :: "db \<Rightarrow> string set \<Rightarrow> (string \<times> verb) set" where
  "grants_for_roles d role_ids =
     (if role_ids = {} then {}
      else set (map (\<lambda>p. (rp_resource p, rp_verb p))
             (filter (\<lambda>p. rp_role_id p \<in> role_ids) (t_role_permissions d))))"

definition effective_verbs :: "db \<Rightarrow> string set \<Rightarrow> string \<Rightarrow> verb set" where
  "effective_verbs d role_ids res =
     (if role_ids = {} then {}
      else set (map rp_verb (filter (\<lambda>p. rp_resource p = res \<and> rp_role_id p \<in> role_ids)
             (t_role_permissions d))))"

section \<open>Users\<close>

definition user_list_all :: "db \<Rightarrow> user list" where
  "user_list_all d = sort_key usr_username (t_users d)"

definition user_get :: "db \<Rightarrow> string \<Rightarrow> user option" where
  "user_get d user_id = find (\<lambda>u. usr_id u = user_id) (t_users d)"

definition user_get_by_username :: "db \<Rightarrow> string \<Rightarrow> user option" where
  "user_get_by_username d username = find (\<lambda>u. usr_username u = username) (t_users d)"

definition insert_user :: "user \<Rightarrow> unit db_op" where
  "insert_user u d =
     (if usr_id u \<in> usr_id ` set (t_users d) \<or> usr_username u \<in> usr_username ` set (t_users d)
      then raise IntegrityError d
      else put (\<lambda>d. d\<lparr>t_users := t_users d @ [u]\<rparr>) d)"

definition insert_identity :: "external_identity \<Rightarrow> unit db_op" where
  "insert_identity i d =
     (if ei_id i \<in> ei_id ` set (t_external_identities d)
        \<or> (ei_provider i, ei_subject i)
            \<in> (\<lambda>i. (ei_provider i, ei_subject i)) ` set (t_external_identities d)
        \<or> ei_user_id i \<notin> usr_id ` set (t_users d)
      then raise IntegrityError d
      else put (\<lambda>d. d\<lparr>t_external_identities := t_external_identities d @ [i]\<rparr>) d)"

definition local_provider :: string where
  "local_provider = ''local''"

definition user_create ::
  "string \<Rightarrow> string \<Rightarrow> string \<Rightarrow> string \<Rightarrow> bool \<Rightarrow> stamp \<Rightarrow> user db_op" where
  "user_create user_id identity_id username display_name local_identity now =
     op_then (on_integrity (DuplicateError username) (transaction (op_then
         (insert_user \<lparr>usr_id = user_id, usr_username = username, usr_display_name = display_name,
            usr_active = True, usr_created_at = now, usr_deleted_at = None\<rparr>)
         (if local_identity
          then insert_identity \<lparr>ei_id = identity_id, ei_user_id = user_id,
                 ei_provider = local_provider, ei_subject = username, ei_created_at = now\<rparr>
          else ret ()))))
     (op_bind (asks (\<lambda>d. user_get d user_id)) (\<lambda>u. case u of
         None \<Rightarrow> raise AssertionError
       | Some user \<Rightarrow> ret user))"

definition user_set_active :: "string \<Rightarrow> bool \<Rightarrow> unit db_op" where
  "user_set_active user_id active = transaction (put (\<lambda>d. d\<lparr>t_users :=
     update_where (\<lambda>u. usr_id u = user_id) (\<lambda>u. u\<lparr>usr_active := active\<rparr>) (t_users d)\<rparr>))"

definition user_set_display_name :: "string \<Rightarrow> string \<Rightarrow> unit db_op" where
  "user_set_display_name user_id display_name = transaction (put (\<lambda>d. d\<lparr>t_users :=
     update_where (\<lambda>u. usr_id u = user_id) (\<lambda>u. u\<lparr>usr_display_name := display_name\<rparr>)
       (t_users d)\<rparr>))"

definition tombstone :: "string \<Rightarrow> stamp \<Rightarrow> db \<Rightarrow> db" where
  "tombstone user_id deleted_at d = d\<lparr>
     t_users := update_where (\<lambda>u. usr_id u = user_id)
       (\<lambda>u. u\<lparr>usr_active := False, usr_deleted_at := Some deleted_at\<rparr>) (t_users d),
     t_credentials := delete_where (\<lambda>c. cred_user_id c = user_id) (t_credentials d),
     t_role_assignments := delete_where
       (\<lambda>a. ra_subject_type a = USER \<and> ra_subject_id a = user_id) (t_role_assignments d),
     t_user_groups := delete_where (\<lambda>m. fst m = user_id) (t_user_groups d),
     t_sudo_grants := delete_where (\<lambda>g. sg_user_id g = user_id) (t_sudo_grants d)\<rparr>"

definition user_soft_delete :: "string \<Rightarrow> stamp \<Rightarrow> unit db_op" where
  "user_soft_delete user_id deleted_at = transaction (put (tombstone user_id deleted_at))"

section \<open>Groups\<close>

definition group_list_all :: "db \<Rightarrow> group list" where
  "group_list_all d = sort_key grp_slug (t_groups d)"

definition group_get :: "db \<Rightarrow> string \<Rightarrow> group option" where
  "group_get d group_id = find (\<lambda>g. grp_id g = group_id) (t_groups d)"

definition insert_group :: "group \<Rightarrow> unit db_op" where
  "insert_group g d =
     (if grp_id g \<in> grp_id ` set (t_groups d) \<or> grp_slug g \<in> grp_slug ` set (t_groups d)
      then raise IntegrityError d
      else put (\<lambda>d. d\<lparr>t_groups := t_groups d @ [g]\<rparr>) d)"

definition group_create :: "string \<Rightarrow> string \<Rightarrow> string \<Rightarrow> string \<Rightarrow> stamp \<Rightarrow> group db_op" where
  "group_create group_id slug name description now =
     op_then (on_integrity (DuplicateError slug) (transaction
         (insert_group \<lparr>grp_id = group_id, grp_slug = slug, grp_name = name,
            grp_description = description, grp_created_at = now\<rparr>)))
     (op_bind (asks (\<lambda>d. group_get d group_id)) (\<lambda>g. case g of
         None \<Rightarrow> raise AssertionError
       | Some gr \<Rightarrow> ret gr))"

definition group_update :: "string \<Rightarrow> string \<Rightarrow> string \<Rightarrow> group option db_op" where
  "group_update group_id name description =
     op_then (transaction (put (\<lambda>d. d\<lparr>t_groups := update_where (\<lambda>g. grp_id g = group_id)
         (\<lambda>g. g\<lparr>grp_name := name, grp_description := description\<rparr>) (t_groups d)\<rparr>)))
     (asks (\<lambda>d. group_get d group_id))"

definition delete_group :: "string \<Rightarrow> db \<Rightarrow> db" where
  "delete_group group_id d = d\<lparr>
     t_role_assignments := delete_where
       (\<lambda>a. ra_subject_type a = GROUP \<and> ra_subject_id a = group_id) (t_role_assignments d),
     t_groups := delete_where (\<lambda>g. grp_id g = group_id) (t_groups d),
     t_user_groups := delete_where (\<lambda>m. snd m = group_id) (t_user_groups d)\<rparr>"

definition group_delete :: "string \<Rightarrow> unit db_op" where
  "group_delete group_id = transaction (put (delete_group group_id))"

definition group_add_member :: "string \<Rightarrow> string \<Rightarrow> unit db_op" where
  "group_add_member group_id user_id = transaction (\<lambda>d.
     if (user_id, group_id) \<in> set (t_user_groups d) then ret () d
     else if user_id \<notin> usr_id ` set (t_users d) \<or> group_id \<notin> grp_id ` set (t_groups d)
     then raise IntegrityError d
     else put (\<lambda>d. d\<lparr>t_user_groups := t_user_groups d @ [(user_id, group_id)]\<rparr>) d)"

definition group_remove_member :: "string \<Rightarrow> string \<Rightarrow> unit db_op" where
  "group_remove_member group_id user_id = transaction (put (\<lambda>d. d\<lparr>t_user_groups :=
     delete_where (\<lambda>m. snd m = group_id \<and> fst m = user_id) (t_user_groups d)\<rparr>))"

definition group_list_members :: "db \<Rightarrow> string \<Rightarrow> user list" where
  "group_list_members d group_id = sort_key usr_username
     [u. u \<leftarrow> t_users d, m \<leftarrow> t_user_groups d, fst m = usr_id u \<and> snd m = group_id]"

definition groups_for_user :: "db \<Rightarrow> string \<Rightarrow> group list" where
  "groups_for_user d user_id = sort_key grp_slug
     [g. g \<leftarrow> t_groups d, m \<leftarrow> t_user_groups d, snd m = grp_id g \<and> fst m = user_id]"

section \<open>Role assignments\<close>

definition subject_exists :: "db \<Rightarrow> subject_type \<Rightarrow> string \<Rightarrow> bool" where
  "subject_exists d st sid = (case st of
     USER \<Rightarrow> sid \<in> usr_id ` set (t_users d)
   | GROUP \<Rightarrow> sid \<in> grp_id ` set (t_groups d))"

definition assignment_key :: "role_assignment \<Rightarrow> subject_type \<times> string \<times> string" where
  "assignment_key a = (ra_subject_type a, ra_subject_id a, ra_role_id a)"

text \<open>\<open>INSERT INTO role_assignments ... ON CONFLICT (subject_type, subject_id, role_id) DO
  NOTHING\<close>; the primary key and the role's foreign key still raise.\<close>

definition insert_assignment :: "role_assignment \<Rightarrow> unit db_op" where
  "insert_assignment a d =
     (if assignment_key a \<in> assignment_key ` set (t_role_assignments d) then ret () d
      else if ra_id a \<in> ra_id ` set (t_role_assignments d)
           \<or> ra_role_id a \<notin> rol_id ` set (t_roles d)
      then raise IntegrityError d
      else put (\<lambda>d. d\<lparr>t_role_assignments := t_role_assignments d @ [a]\<rparr>) d)"

definition assignment_find ::
  "db \<Rightarrow> subject_type \<Rightarrow> string \<Rightarrow> string \<Rightarrow> role_assignment option" where
  "assignment_find d st sid role_id =
     find (\<lambda>a. assignment_key a = (st, sid, role_id)) (t_role_assignments d)"

definition assign ::
  "string \<Rightarrow> subject_type \<Rightarrow> string \<Rightarrow> string \<Rightarrow> string \<Rightarrow> stamp \<Rightarrow> role_assignment db_op" where
  "assign assignment_id st sid role_id source now =
     op_bind (asks (\<lambda>d. subject_exists d st sid)) (\<lambda>ex. op_then
       (demand ex (UnknownSubjectError st sid))
       (transaction (op_then
          (insert_assignment \<lparr>ra_id = assignment_id, ra_subject_type = st, ra_subject_id = sid,
             ra_role_id = role_id, ra_created_at = now, ra_source = source\<rparr>)
          (op_bind (asks (\<lambda>d. assignment_find d st sid role_id)) (\<lambda>row. case row of
              None \<Rightarrow> raise TypeError
            | Some a \<Rightarrow> ret a)))))"

definition unassign ::
  "subject_type \<Rightarrow> string \<Rightarrow> string \<Rightarrow> string option \<Rightarrow> unit db_op" where
  "unassign st sid role_id source = transaction (put (\<lambda>d. d\<lparr>t_role_assignments :=
     delete_where (\<lambda>a. assignment_key a = (st, sid, role_id)
         \<and> (case source of None \<Rightarrow> True | Some s \<Rightarrow> ra_source a = s))
       (t_role_assignments d)\<rparr>))"

definition list_for_subject :: "db \<Rightarrow> subject_type \<Rightarrow> string \<Rightarrow> role list" where
  "list_for_subject d st sid = sort_key rol_slug
     [r. r \<leftarrow> t_roles d, a \<leftarrow> t_role_assignments d,
         ra_role_id a = rol_id r \<and> ra_subject_type a = st \<and> ra_subject_id a = sid]"

definition user_ids_with_role :: "db \<Rightarrow> string \<Rightarrow> string set" where
  "user_ids_with_role d role_id =
     (let direct = set (map ra_subject_id (filter
            (\<lambda>a. ra_subject_type a = USER \<and> ra_role_id a = role_id) (t_role_assignments d)));
          via = set [fst m. m \<leftarrow> t_user_groups d, a \<leftarrow> t_role_assignments d,
            ra_subject_type a = GROUP \<and> ra_subject_id a = snd m \<and> ra_role_id a = role_id]
      in set (map usr_id (filter
           (\<lambda>u. usr_active u \<and> usr_deleted_at u = None \<and> (usr_id u \<in> direct \<or> usr_id u \<in> via))
           (t_users d))))"

definition role_ids_for_subject :: "db \<Rightarrow> subject_type \<Rightarrow> string \<Rightarrow> string \<Rightarrow> string set" where
  "role_ids_for_subject d st sid source = set (map ra_role_id (filter
     (\<lambda>a. ra_subject_type a = st \<and> ra_subject_id a = sid \<and> ra_source a = source)
     (t_role_assignments d)))"

definition roles_for_user :: "db \<Rightarrow> string \<Rightarrow> role list" where
  "roles_for_user d user_id =
     (let member = set (map snd (filter (\<lambda>m. fst m = user_id) (t_user_groups d)))
      in sort_key rol_slug (remdups
           [r. r \<leftarrow> t_roles d, a \<leftarrow> t_role_assignments d,
               ra_role_id a = rol_id r
               \<and> (ra_subject_type a = USER \<and> ra_subject_id a = user_id
                  \<or> ra_subject_type a = GROUP \<and> ra_subject_id a \<in> member)]))"

section \<open>Role mappings\<close>

definition mapping_list_all :: "db \<Rightarrow> role_mapping list" where
  "mapping_list_all d =
     sort_key (\<lambda>m. (rm_provider m, rm_claim m, rm_value m)) (t_role_mappings d)"

definition mapping_list_for_provider :: "db \<Rightarrow> string \<Rightarrow> role_mapping list" where
  "mapping_list_for_provider d provider = sort_key (\<lambda>m. (rm_claim m, rm_value m))
     (filter (\<lambda>m. rm_provider m = provider) (t_role_mappings d))"

definition mapping_get :: "db \<Rightarrow> string \<Rightarrow> role_mapping option" where
  "mapping_get d mapping_id = find (\<lambda>m. rm_id m = mapping_id) (t_role_mappings d)"

definition mapping_tuple :: "role_mapping \<Rightarrow> string \<times> string \<times> string \<times> string" where
  "mapping_tuple m = (rm_provider m, rm_claim m, rm_value m, rm_role_id m)"

definition insert_mapping :: "role_mapping \<Rightarrow> unit db_op" where
  "insert_mapping m d =
     (if rm_id m \<in> rm_id ` set (t_role_mappings d)
        \<or> mapping_tuple m \<in> mapping_tuple ` set (t_role_mappings d)
        \<or> rm_role_id m \<notin> rol_id ` set (t_roles d)
      then raise IntegrityError d
      else put (\<lambda>d. d\<lparr>t_role_mappings := t_role_mappings d @ [m]\<rparr>) d)"

definition mapping_create ::
  "string \<Rightarrow> string \<Rightarrow> string \<Rightarrow> string \<Rightarrow> string \<Rightarrow> role_mapping db_op" where
  "mapping_create mapping_id provider claim value role_id =
     op_then (on_integrity (DuplicateError provider) (transaction
         (insert_mapping \<lparr>rm_id = mapping_id, rm_provider = provider, rm_claim = claim,
            rm_value = value, rm_role_id = role_id\<rparr>)))
     (op_bind (asks (\<lambda>d. mapping_get d mapping_id)) (\<lambda>m. case m of
         None \<Rightarrow> raise AssertionError
       | Some mapping \<Rightarrow> ret mapping))"

definition mapping_delete :: "string \<Rightarrow> unit db_op" where
  "mapping_delete mapping_id = transaction (put (\<lambda>d. d\<lparr>t_role_mappings :=
     delete_where (\<lambda>m. rm_id m = mapping_id) (t_role_mappings d)\<rparr>))"

section \<open>Credentials\<close>

text \<open>\<open>hash_token\<close> and \<open>verify_token_hash\<close> of \<open>auth/hashing.py\<close>, over the digest.\<close>

definition hash_token :: "(string \<Rightarrow> string) \<Rightarrow> string \<Rightarrow> string \<Rightarrow> string" where
  "hash_token sha256 token salt = sha256 (salt @ token)"

definition verify_token_hash :: "(string \<Rightarrow> string) \<Rightarrow> string \<Rightarrow> string \<Rightarrow> string \<Rightarrow> bool" where
  "verify_token_hash sha256 candidate salt stored \<longleftrightarrow> hash_token sha256 candidate salt = stored"

definition credential_of_type :: "string \<Rightarrow> credential_type \<Rightarrow> credential \<Rightarrow> bool" where
  "credential_of_type user_id ty c \<longleftrightarrow> cred_user_id c = user_id \<and> cred_type c = ty"

text \<open>The primary key, the foreign key and the two partial unique indexes.\<close>

definition insert_credential :: "credential \<Rightarrow> unit db_op" where
  "insert_credential c d =
     (if cred_id c \<in> cred_id ` set (t_credentials d)
        \<or> cred_user_id c \<notin> usr_id ` set (t_users d)
        \<or> cred_type c \<in> {PASSWORD, TOTP}
           \<and> (\<exists>other \<in> set (t_credentials d). credential_of_type (cred_user_id c) (cred_type c) other)
      then raise IntegrityError d
      else put (\<lambda>d. d\<lparr>t_credentials := t_credentials d @ [c]\<rparr>) d)"

definition delete_credentials_of :: "string \<Rightarrow> credential_type \<Rightarrow> db \<Rightarrow> db" where
  "delete_credentials_of user_id ty d =
     d\<lparr>t_credentials := delete_where (credential_of_type user_id ty) (t_credentials d)\<rparr>"

definition credential_get :: "db \<Rightarrow> string \<Rightarrow> credential option" where
  "credential_get d credential_id = find (\<lambda>c. cred_id c = credential_id) (t_credentials d)"

definition inserted_credential :: "credential \<Rightarrow> credential db_op" where
  "inserted_credential c = op_then (insert_credential c)
     (op_bind (asks (\<lambda>d. credential_get d (cred_id c))) (\<lambda>row. case row of
         None \<Rightarrow> raise TypeError
       | Some c \<Rightarrow> ret c))"

text \<open>\<open>password_hash\<close> is what \<open>hash_password(raw_password, params)\<close> returned.\<close>

definition set_password :: "string \<Rightarrow> string \<Rightarrow> string \<Rightarrow> stamp \<Rightarrow> credential db_op" where
  "set_password credential_id user_id password_hash now = transaction (op_then
     (put (delete_credentials_of user_id PASSWORD))
     (inserted_credential \<lparr>cred_id = credential_id, cred_user_id = user_id,
        cred_type = PASSWORD, cred_hash = password_hash, cred_salt = None, cred_label = [],
        cred_created_at = now, cred_last_used_at = None, cred_expires_at = None\<rparr>))"

definition verify_password :: "(string \<Rightarrow> string \<Rightarrow> bool) \<Rightarrow> db \<Rightarrow> string \<Rightarrow> string \<Rightarrow> bool" where
  "verify_password argon2_verify d user_id raw =
     (case find (credential_of_type user_id PASSWORD) (t_credentials d) of
        None \<Rightarrow> False
      | Some c \<Rightarrow> argon2_verify (cred_hash c) raw)"

definition any_credential_of_type :: "db \<Rightarrow> credential_type \<Rightarrow> bool" where
  "any_credential_of_type d ty \<longleftrightarrow> (\<exists>c \<in> set (t_credentials d). cred_type c = ty)"

definition has_credential :: "db \<Rightarrow> string \<Rightarrow> credential_type \<Rightarrow> bool" where
  "has_credential d user_id ty \<longleftrightarrow> (\<exists>c \<in> set (t_credentials d). credential_of_type user_id ty c)"

definition create_totp_secret :: "string \<Rightarrow> string \<Rightarrow> string \<Rightarrow> stamp \<Rightarrow> credential db_op" where
  "create_totp_secret credential_id user_id envelope now = transaction
     (inserted_credential \<lparr>cred_id = credential_id, cred_user_id = user_id, cred_type = TOTP,
        cred_hash = envelope, cred_salt = None, cred_label = [], cred_created_at = now,
        cred_last_used_at = None, cred_expires_at = None\<rparr>)"

definition get_totp_secret :: "db \<Rightarrow> string \<Rightarrow> credential option" where
  "get_totp_secret d user_id = find (credential_of_type user_id TOTP) (t_credentials d)"

definition create_api_token ::
  "(string \<Rightarrow> string) \<Rightarrow> string \<Rightarrow> string \<Rightarrow> string \<Rightarrow> string \<Rightarrow> string \<Rightarrow> stamp option \<Rightarrow> stamp
   \<Rightarrow> credential db_op" where
  "create_api_token sha256 salt credential_id user_id raw_token label expires_at now = transaction
     (inserted_credential \<lparr>cred_id = credential_id, cred_user_id = user_id,
        cred_type = API_TOKEN, cred_hash = hash_token sha256 raw_token salt,
        cred_salt = Some salt, cred_label = label, cred_created_at = now,
        cred_last_used_at = None, cred_expires_at = expires_at\<rparr>)"

definition delete_credentials :: "string \<Rightarrow> credential_type \<Rightarrow> unit db_op" where
  "delete_credentials user_id ty = transaction (put (delete_credentials_of user_id ty))"

definition replace_api_token ::
  "(string \<Rightarrow> string) \<Rightarrow> string \<Rightarrow> string \<Rightarrow> string \<Rightarrow> string \<Rightarrow> string \<Rightarrow> stamp
   \<Rightarrow> credential db_op" where
  "replace_api_token sha256 salt credential_id user_id raw_token label now = op_then
     (transaction (put (delete_credentials_of user_id API_TOKEN)))
     (create_api_token sha256 salt credential_id user_id raw_token label None now)"

definition list_api_tokens :: "db \<Rightarrow> string \<Rightarrow> credential list" where
  "list_api_tokens d user_id = sort_key (\<lambda>c. (cred_created_at c, cred_id c))
     (filter (credential_of_type user_id API_TOKEN) (t_credentials d))"

definition delete_api_token :: "string \<Rightarrow> string \<Rightarrow> bool db_op" where
  "delete_api_token credential_id user_id = transaction (\<lambda>d.
     let hit = (\<lambda>c. cred_id c = credential_id \<and> credential_of_type user_id API_TOKEN c)
     in op_then (put (\<lambda>d. d\<lparr>t_credentials := delete_where hit (t_credentials d)\<rparr>))
          (ret (0 < length (filter hit (t_credentials d)))) d)"

definition touch_last_used :: "string \<Rightarrow> last_used \<Rightarrow> unit db_op" where
  "touch_last_used credential_id now = transaction (put (\<lambda>d. d\<lparr>t_credentials :=
     update_where (\<lambda>c. cred_id c = credential_id) (\<lambda>c. c\<lparr>cred_last_used_at := Some now\<rparr>)
       (t_credentials d)\<rparr>))"

definition live_at :: "stamp \<Rightarrow> credential \<Rightarrow> bool" where
  "live_at now c \<longleftrightarrow> (case cred_expires_at c of None \<Rightarrow> True | Some e \<Rightarrow> now < e)"

definition token_matches :: "(string \<Rightarrow> string) \<Rightarrow> string \<Rightarrow> credential \<Rightarrow> bool" where
  "token_matches sha256 token c \<longleftrightarrow> (case cred_salt c of
     None \<Rightarrow> False
   | Some salt \<Rightarrow> verify_token_hash sha256 token salt (cred_hash c))"

definition find_api_token_credential ::
  "(string \<Rightarrow> string) \<Rightarrow> db \<Rightarrow> string \<Rightarrow> stamp \<Rightarrow> credential option" where
  "find_api_token_credential sha256 d token now = find (token_matches sha256 token)
     (filter (\<lambda>c. cred_type c = API_TOKEN \<and> live_at now c) (t_credentials d))"

definition find_user_by_api_token ::
  "(string \<Rightarrow> string) \<Rightarrow> db \<Rightarrow> string \<Rightarrow> stamp \<Rightarrow> user option" where
  "find_user_by_api_token sha256 d token now =
     (case find_api_token_credential sha256 d token now of
        None \<Rightarrow> None
      | Some c \<Rightarrow> user_get d (cred_user_id c))"

section \<open>Sudo grants\<close>

definition sudo_grant_get :: "db \<Rightarrow> string \<Rightarrow> sudo_grant option" where
  "sudo_grant_get d grant_id = find (\<lambda>g. sg_id g = grant_id) (t_sudo_grants d)"

definition insert_sudo_grant :: "sudo_grant \<Rightarrow> unit db_op" where
  "insert_sudo_grant g d =
     (if sg_id g \<in> sg_id ` set (t_sudo_grants d) \<or> sg_user_id g \<notin> usr_id ` set (t_users d)
      then raise IntegrityError d
      else put (\<lambda>d. d\<lparr>t_sudo_grants := t_sudo_grants d @ [g]\<rparr>) d)"

definition sudo_grant_create ::
  "(string \<Rightarrow> string) \<Rightarrow> string \<Rightarrow> string \<Rightarrow> string \<Rightarrow> string \<Rightarrow> string \<Rightarrow> stamp \<Rightarrow> stamp
   \<Rightarrow> sudo_grant db_op" where
  "sudo_grant_create sha256 salt grant_id user_id raw_token verifier issued_at expires_at =
     transaction (op_then
       (put (\<lambda>d. d\<lparr>t_sudo_grants := delete_where (\<lambda>g. sg_user_id g = user_id) (t_sudo_grants d)\<rparr>))
       (op_then
         (insert_sudo_grant \<lparr>sg_id = grant_id, sg_user_id = user_id,
            sg_hash = hash_token sha256 raw_token salt, sg_salt = salt, sg_verifier = verifier,
            sg_issued_at = issued_at, sg_expires_at = expires_at, sg_revoked_at = None\<rparr>)
         (op_bind (asks (\<lambda>d. sudo_grant_get d grant_id)) (\<lambda>row. case row of
             None \<Rightarrow> raise TypeError
           | Some g \<Rightarrow> ret g))))"

definition sudo_grant_find_active ::
  "(string \<Rightarrow> string) \<Rightarrow> db \<Rightarrow> string \<Rightarrow> string \<Rightarrow> stamp \<Rightarrow> sudo_grant option" where
  "sudo_grant_find_active sha256 d user_id token now =
     (case find (\<lambda>g. sg_user_id g = user_id \<and> sg_revoked_at g = None \<and> now < sg_expires_at g)
             (t_sudo_grants d) of
        None \<Rightarrow> None
      | Some g \<Rightarrow> if verify_token_hash sha256 token (sg_salt g) (sg_hash g) then Some g else None)"

definition sudo_grant_revoke_for_user :: "string \<Rightarrow> stamp \<Rightarrow> unit db_op" where
  "sudo_grant_revoke_for_user user_id now = transaction (put (\<lambda>d. d\<lparr>t_sudo_grants :=
     update_where (\<lambda>g. sg_user_id g = user_id \<and> sg_revoked_at g = None)
       (\<lambda>g. g\<lparr>sg_revoked_at := Some now\<rparr>) (t_sudo_grants d)\<rparr>))"

definition sudo_grant_revoke_all :: "stamp \<Rightarrow> unit db_op" where
  "sudo_grant_revoke_all now = transaction (put (\<lambda>d. d\<lparr>t_sudo_grants :=
     update_where (\<lambda>g. sg_revoked_at g = None) (\<lambda>g. g\<lparr>sg_revoked_at := Some now\<rparr>)
       (t_sudo_grants d)\<rparr>))"

section \<open>Failure buckets: \<open>sudo_lockouts\<close> and \<open>login_attempts\<close>\<close>

definition lockout_get :: "db \<Rightarrow> string \<Rightarrow> bucket option" where
  "lockout_get d user_id =
     map_option sl_bucket (find (\<lambda>l. sl_user_id l = user_id) (t_sudo_lockouts d))"

definition lockout_set :: "string \<Rightarrow> bucket \<Rightarrow> unit db_op" where
  "lockout_set user_id b = transaction (\<lambda>d.
     if user_id \<in> sl_user_id ` set (t_sudo_lockouts d)
     then put (\<lambda>d. d\<lparr>t_sudo_lockouts := update_where (\<lambda>l. sl_user_id l = user_id)
            (\<lambda>l. l\<lparr>sl_bucket := b\<rparr>) (t_sudo_lockouts d)\<rparr>) d
     else if user_id \<notin> usr_id ` set (t_users d) then raise IntegrityError d
     else put (\<lambda>d. d\<lparr>t_sudo_lockouts := t_sudo_lockouts d
            @ [\<lparr>sl_user_id = user_id, sl_bucket = b\<rparr>]\<rparr>) d)"

definition lockout_clear :: "string \<Rightarrow> unit db_op" where
  "lockout_clear user_id = transaction (put (\<lambda>d. d\<lparr>t_sudo_lockouts :=
     delete_where (\<lambda>l. sl_user_id l = user_id) (t_sudo_lockouts d)\<rparr>))"

definition attempt_key :: "login_attempt \<Rightarrow> login_scope \<times> string" where
  "attempt_key a = (la_scope a, la_key a)"

definition attempt_get :: "db \<Rightarrow> login_scope \<times> string \<Rightarrow> bucket option" where
  "attempt_get d k = map_option la_bucket (find (\<lambda>a. attempt_key a = k) (t_login_attempts d))"

definition attempt_set :: "login_scope \<times> string \<Rightarrow> bucket \<Rightarrow> unit db_op" where
  "attempt_set k b = transaction (put (\<lambda>d. d\<lparr>t_login_attempts :=
     (if k \<in> attempt_key ` set (t_login_attempts d)
      then update_where (\<lambda>a. attempt_key a = k) (\<lambda>a. a\<lparr>la_bucket := b\<rparr>) (t_login_attempts d)
      else t_login_attempts d @ [\<lparr>la_scope = fst k, la_key = snd k, la_bucket = b\<rparr>])\<rparr>))"

definition attempt_clear :: "login_scope \<times> string \<Rightarrow> unit db_op" where
  "attempt_clear k = transaction (put (\<lambda>d. d\<lparr>t_login_attempts :=
     delete_where (\<lambda>a. attempt_key a = k) (t_login_attempts d)\<rparr>))"

definition bucket_expired :: "stamp \<Rightarrow> stamp \<Rightarrow> bucket \<Rightarrow> bool" where
  "bucket_expired now first_failed_before b \<longleftrightarrow>
     (case bk_locked_until b of None \<Rightarrow> True | Some l \<Rightarrow> l \<le> now)
     \<and> (case bk_first_failed_at b of None \<Rightarrow> True | Some f \<Rightarrow> f \<le> first_failed_before)"

definition attempt_delete_expired :: "stamp \<Rightarrow> stamp \<Rightarrow> unit db_op" where
  "attempt_delete_expired now first_failed_before = transaction (put (\<lambda>d. d\<lparr>t_login_attempts :=
     delete_where (\<lambda>a. bucket_expired now first_failed_before (la_bucket a))
       (t_login_attempts d)\<rparr>))"

section \<open>External identities and OIDC login states\<close>

definition identity_get :: "db \<Rightarrow> string \<Rightarrow> string \<Rightarrow> external_identity option" where
  "identity_get d provider subject =
     find (\<lambda>i. (ei_provider i, ei_subject i) = (provider, subject)) (t_external_identities d)"

definition identity_list_for_user :: "db \<Rightarrow> string \<Rightarrow> external_identity list" where
  "identity_list_for_user d user_id =
     sort_key ei_provider (filter (\<lambda>i. ei_user_id i = user_id) (t_external_identities d))"

definition identity_create ::
  "string \<Rightarrow> string \<Rightarrow> string \<Rightarrow> string \<Rightarrow> stamp \<Rightarrow> external_identity db_op" where
  "identity_create identity_id user_id provider subject now =
     op_then (on_integrity (DuplicateError subject) (transaction
         (insert_identity \<lparr>ei_id = identity_id, ei_user_id = user_id, ei_provider = provider,
            ei_subject = subject, ei_created_at = now\<rparr>)))
     (op_bind (asks (\<lambda>d. identity_get d provider subject)) (\<lambda>i. case i of
         None \<Rightarrow> raise AssertionError
       | Some identity \<Rightarrow> ret identity))"

definition oidc_state_get :: "db \<Rightarrow> string \<Rightarrow> oidc_login_state option" where
  "oidc_state_get d state = find (\<lambda>s. os_state s = state) (t_oidc_login_states d)"

definition oidc_state_create ::
  "string \<Rightarrow> string \<Rightarrow> string \<Rightarrow> stamp \<Rightarrow> stamp \<Rightarrow> oidc_login_state db_op" where
  "oidc_state_create state nonce code_verifier expires_at now = transaction (op_then
     (\<lambda>d. if state \<in> os_state ` set (t_oidc_login_states d) then raise IntegrityError d
          else put (\<lambda>d. d\<lparr>t_oidc_login_states := t_oidc_login_states d
                 @ [\<lparr>os_state = state, os_nonce = nonce, os_code_verifier = code_verifier,
                      os_created_at = now, os_expires_at = expires_at\<rparr>]\<rparr>) d)
     (op_bind (asks (\<lambda>d. oidc_state_get d state)) (\<lambda>row. case row of
         None \<Rightarrow> raise TypeError
       | Some s \<Rightarrow> ret s)))"

definition oidc_state_take :: "string \<Rightarrow> stamp \<Rightarrow> oidc_login_state option db_op" where
  "oidc_state_take state now = op_bind
     (transaction (op_bind (asks (\<lambda>d. oidc_state_get d state)) (\<lambda>row. case row of
         None \<Rightarrow> ret None
       | Some s \<Rightarrow> op_then
           (put (\<lambda>d. d\<lparr>t_oidc_login_states :=
              delete_where (\<lambda>s. os_state s = state) (t_oidc_login_states d)\<rparr>))
           (ret (Some s)))))
     (\<lambda>row. ret (case row of
         None \<Rightarrow> None
       | Some s \<Rightarrow> if os_expires_at s \<le> now then None else Some s))"

definition oidc_state_delete_expired :: "stamp \<Rightarrow> unit db_op" where
  "oidc_state_delete_expired now = transaction (put (\<lambda>d. d\<lparr>t_oidc_login_states :=
     delete_where (\<lambda>s. os_expires_at s \<le> now) (t_oidc_login_states d)\<rparr>))"

end
