(* ===== verification/Access.thy ===== *)
theory Access
  imports Repositories
begin

text \<open>
  Who may do what: the resolved caller (\<open>auth/principal.py\<close>), the authorization decision
  (\<open>auth/authorization.py\<close>, \<open>api/authorization.py\<close>) and the management guards of
  \<open>auth/management.py\<close>. A guard is an operation that leaves the database as it found it
  and raises or returns.
\<close>

section \<open>The principal\<close>

datatype auth_method = API_TOKEN_METHOD

record principal =
  pr_user :: user
  pr_role_ids :: "string set"
  pr_role_slugs :: "string set"
  pr_auth_method :: auth_method
  pr_sudo_active :: bool
  pr_sudo_grant_id :: "string option"

definition actor :: "principal \<Rightarrow> string" where
  "actor p = usr_username (pr_user p)"

definition with_sudo :: "string \<Rightarrow> principal \<Rightarrow> principal" where
  "with_sudo grant_id p = p\<lparr>pr_sudo_active := True, pr_sudo_grant_id := Some grant_id\<rparr>"

definition is_admin_caller :: "principal \<Rightarrow> bool" where
  "is_admin_caller p \<longleftrightarrow> role_slug_value ADMIN \<in> pr_role_slugs p"

section \<open>Authorization\<close>

definition authorize :: "principal \<Rightarrow> string \<Rightarrow> verb \<Rightarrow> bool \<Rightarrow> unit db_op" where
  "authorize p res v sensitive d =
     (let granted = effective_verbs d (pr_role_ids p) res in
      if v \<notin> granted then raise (ForbiddenError res (verb_value v)) d
      else if sensitive \<and> role_slug_value ADMIN \<notin> pr_role_slugs p \<and> \<not> pr_sudo_active p
      then raise (SudoRequiredError res (verb_value v)) d
      else ret () d)"

text \<open>\<open>_VERB_BY_METHOD.get(request.method)\<close>\<close>

definition verb_by_method :: "string \<Rightarrow> verb option" where
  "verb_by_method m = find (\<lambda>v. verb_value v = m) verb_order"

text \<open>The dependency \<open>require(resource, sensitive=...)\<close> on a request with that method.\<close>

definition require_dep ::
  "bool \<Rightarrow> string \<Rightarrow> bool \<Rightarrow> principal option \<Rightarrow> string \<Rightarrow> unit db_op" where
  "require_dep enabled res sensitive p method_name =
     (if \<not> enabled then ret ()
      else case p of
          None \<Rightarrow> raise AssertionError
        | Some pr \<Rightarrow> (case verb_by_method method_name of
              None \<Rightarrow> raise (ForbiddenError res method_name)
            | Some v \<Rightarrow> authorize pr res v sensitive))"

lemma verb_by_method_Some [simp]: "verb_by_method m = Some v \<longleftrightarrow> m = verb_value v"
proof
  assume "verb_by_method m = Some v"
  then show "m = verb_value v" using find_in_set unfolding verb_by_method_def by fastforce
next
  assume "m = verb_value v"
  then show "verb_by_method m = Some v" by (cases v) (simp_all add: verb_by_method_def verb_order_def)
qed

lemma effective_verbs_iff:
  "v \<in> effective_verbs d rids res
   \<longleftrightarrow> (\<exists>rid \<in> rids. \<lparr>rp_role_id = rid, rp_resource = res, rp_verb = v\<rparr> \<in> set (t_role_permissions d))"
proof
  assume "v \<in> effective_verbs d rids res"
  then obtain p where "p \<in> set (t_role_permissions d)" "rp_resource p = res" "rp_role_id p \<in> rids"
    "rp_verb p = v"
    by (auto simp: effective_verbs_def split: if_splits)
  then show "\<exists>rid \<in> rids. \<lparr>rp_role_id = rid, rp_resource = res, rp_verb = v\<rparr> \<in> set (t_role_permissions d)"
    by (intro bexI [of _ "rp_role_id p"]) (cases p; auto)+
qed (force simp: effective_verbs_def)

lemma grants_for_roles_iff:
  "(res, v) \<in> grants_for_roles d rids \<longleftrightarrow> v \<in> effective_verbs d rids res"
  by (auto simp: grants_for_roles_def effective_verbs_def)

section \<open>Management guards\<close>

definition grant_text :: "string \<times> verb \<Rightarrow> string" where
  "grant_text g = fst g @ '':'' @ verb_value (snd g)"

definition assert_no_excess_grants :: "principal \<Rightarrow> (string \<times> verb) set \<Rightarrow> unit db_op" where
  "assert_no_excess_grants p grants d =
     (if \<not> is_admin_caller p \<and> (\<exists>g \<in> grants. is_sensitive_resource (fst g))
      then raise (SelfEscalationError []) d
      else let excess = grants - grants_for_roles d (pr_role_ids p) in
        if excess \<noteq> {} then raise (SelfEscalationError (sorted_list_of_set (grant_text ` excess))) d
        else ret () d)"

definition assert_may_assign_role :: "principal \<Rightarrow> role \<Rightarrow> unit db_op" where
  "assert_may_assign_role p r d =
     (if rol_slug r = role_slug_value ADMIN \<and> \<not> is_admin_caller p
      then raise (SelfEscalationError []) d
      else assert_no_excess_grants p (grants_for_roles d {rol_id r}) d)"

definition assert_may_grant_permissions :: "principal \<Rightarrow> (string \<times> verb) set \<Rightarrow> unit db_op" where
  "assert_may_grant_permissions p grants = assert_no_excess_grants p grants"

text \<open>The message list of \<open>assert_grants_grantable\<close>: one text per invalid grant.\<close>

definition invalid_grant :: "db \<Rightarrow> string \<times> verb \<Rightarrow> string option" where
  "invalid_grant d g = (case find (\<lambda>r. res_name r = fst g) (resource_list_all d) of
     None \<Rightarrow> Some (grant_text g @ '' (not a catalogued resource)'')
   | Some r \<Rightarrow>
       if \<not> is_grantable (fst g) then Some (grant_text g @ '' (not grantable)'')
       else if snd g \<notin> res_verbs r then Some (grant_text g @ '' (verb not served)'')
       else None)"

definition assert_grants_grantable :: "(string \<times> verb) list \<Rightarrow> unit db_op" where
  "assert_grants_grantable grants d =
     (let invalid = List.map_filter (invalid_grant d) grants in
      if invalid \<noteq> [] then raise (InvalidGrantError (sort invalid)) d else ret () d)"

definition assert_admin_remains :: "string set \<Rightarrow> unit db_op" where
  "assert_admin_remains losing d =
     (case role_get_by_slug d (role_slug_value ADMIN) of
        None \<Rightarrow> ret () d
      | Some admin_role \<Rightarrow>
          if user_ids_with_role d (rol_id admin_role) - losing \<noteq> {} then ret () d
          else raise (LastAdminError (sorted_list_of_set losing)) d)"

definition bootstrap_provider :: string where
  "bootstrap_provider = ''local-bootstrap''"

definition bootstrap_username :: string where
  "bootstrap_username = ''bootstrap-admin''"

definition is_bootstrap_identity :: "db \<Rightarrow> string \<Rightarrow> bool" where
  "is_bootstrap_identity d user_id =
     (case identity_get d bootstrap_provider bootstrap_username of
        None \<Rightarrow> False
      | Some i \<Rightarrow> ei_user_id i = user_id)"

definition assert_not_bootstrap_identity :: "string \<Rightarrow> unit db_op" where
  "assert_not_bootstrap_identity user_id d =
     (if is_bootstrap_identity d user_id then raise (BootstrapIdentityError user_id) d else ret () d)"

definition assert_no_existing_api_token :: "string \<Rightarrow> unit db_op" where
  "assert_no_existing_api_token user_id d =
     (if list_api_tokens d user_id \<noteq> [] then raise (TokenAlreadyIssuedError user_id) d else ret () d)"

definition assert_totp_not_enrolled :: "string \<Rightarrow> unit db_op" where
  "assert_totp_not_enrolled user_id d =
     (if has_credential d user_id TOTP then raise (TotpAlreadyEnrolledError user_id) d else ret () d)"

lemmas guard_defs = authorize_def require_dep_def assert_no_excess_grants_def
  assert_may_assign_role_def assert_may_grant_permissions_def assert_grants_grantable_def
  assert_admin_remains_def assert_not_bootstrap_identity_def assert_no_existing_api_token_def
  assert_totp_not_enrolled_def

subsection \<open>What a guard that passes has established\<close>

lemma guards_pure [simp]:
  "snd (authorize p res v sens d) = d"
  "snd (require_dep en res sens q m d) = d"
  "snd (assert_no_excess_grants p gs d) = d"
  "snd (assert_may_assign_role p r d) = d"
  "snd (assert_may_grant_permissions p gs d) = d"
  "snd (assert_grants_grantable gl d) = d"
  "snd (assert_admin_remains losing d) = d"
  "snd (assert_not_bootstrap_identity uid d) = d"
  "snd (assert_no_existing_api_token uid d) = d"
  "snd (assert_totp_not_enrolled uid d) = d"
  by (simp_all add: guard_defs ret_def raise_def Let_def split: option.splits)

lemma keeps_guard:
  "(\<And>d. snd (m d) = d) \<Longrightarrow> keeps P m"
  by (simp add: keeps_def)

lemma no_excess_ok:
  "assert_no_excess_grants p gs d = (Inr x, d') \<longleftrightarrow>
   d' = d \<and> gs \<subseteq> grants_for_roles d (pr_role_ids p)
   \<and> (is_admin_caller p \<or> (\<forall>g \<in> gs. \<not> is_sensitive_resource (fst g)))"
  by (auto simp: assert_no_excess_grants_def ret_def raise_def Let_def split: if_splits)

lemma may_assign_ok:
  "assert_may_assign_role p r d = (Inr x, d') \<longleftrightarrow>
   d' = d \<and> (rol_slug r = role_slug_value ADMIN \<longrightarrow> is_admin_caller p)
   \<and> grants_for_roles d {rol_id r} \<subseteq> grants_for_roles d (pr_role_ids p)
   \<and> (is_admin_caller p \<or> (\<forall>g \<in> grants_for_roles d {rol_id r}. \<not> is_sensitive_resource (fst g)))"
  by (auto simp: assert_may_assign_role_def no_excess_ok raise_def split: if_splits)

lemma find_catalog:
  assumes "unique_by res_name (t_resources d)"
  shows "find (\<lambda>r. res_name r = n) (resource_list_all d) = Some r
         \<longleftrightarrow> r \<in> set (t_resources d) \<and> res_name r = n"
proof -
  have "unique_by res_name (resource_list_all d)"
    using assms by (simp add: unique_by_def resource_list_all_def distinct_map)
  then show ?thesis by (simp add: find_unique_iff resource_list_all_def)
qed

lemma grants_grantable_ok:
  assumes "unique_by res_name (t_resources d)"
  shows "assert_grants_grantable gs d = (Inr x, d') \<longleftrightarrow>
   d' = d \<and> (\<forall>(n, v) \<in> set gs. is_grantable n
                \<and> (\<exists>r \<in> set (t_resources d). res_name r = n \<and> v \<in> res_verbs r))"
proof -
  have none: "invalid_grant d g = None \<longleftrightarrow>
      is_grantable (fst g) \<and> (\<exists>r \<in> set (t_resources d). res_name r = fst g \<and> snd g \<in> res_verbs r)" for g
    using find_catalog [OF assms]
    by (force simp: invalid_grant_def resource_list_all_def dest: unique_byD [OF assms]
        split: option.splits)
  have "List.map_filter (invalid_grant d) gs = [] \<longleftrightarrow> (\<forall>g \<in> set gs. invalid_grant d g = None)"
    by (auto simp: List.map_filter_def filter_empty_conv)
  then show ?thesis
    by (simp add: assert_grants_grantable_def ret_def raise_def Let_def none case_prod_beta)
      blast
qed

lemma admin_remains_ok:
  "assert_admin_remains losing d = (Inr x, d') \<longleftrightarrow>
   d' = d \<and> (\<forall>r. role_get_by_slug d (role_slug_value ADMIN) = Some r
                \<longrightarrow> user_ids_with_role d (rol_id r) - losing \<noteq> {})"
  by (auto simp: assert_admin_remains_def ret_def raise_def split: option.splits if_splits)

section \<open>The decision\<close>

text \<open>
  The authorization decision: exactly one of the three outcomes, and each for its
  documented reason. A verb no held role grants on the resource is refused as forbidden,
  before sudo is considered; a granted verb on a sensitive resource is let through only to
  the holder of the builtin \<open>admin\<close> role or under a live sudo grant; everything else that
  is granted passes. The decision writes nothing.
\<close>

theorem authorize_decides:
  "authorize p res v sensitive d =
     (if \<not> (\<exists>rid \<in> pr_role_ids p.
              \<lparr>rp_role_id = rid, rp_resource = res, rp_verb = v\<rparr> \<in> set (t_role_permissions d))
      then (Inl (ForbiddenError res (verb_value v)), d)
      else if sensitive \<and> ''admin'' \<notin> pr_role_slugs p \<and> \<not> pr_sudo_active p
      then (Inl (SudoRequiredError res (verb_value v)), d)
      else (Inr (), d))"
  by (auto simp: authorize_def effective_verbs_iff ret_def raise_def Let_def)

text \<open>
  C2. The route dependency fails closed: with security enabled, a request goes through only
  when a principal was resolved, its method is one of the five verbs, some role of the
  principal grants that verb on the resource and, on a sensitive resource, the principal is
  an admin or holds a live sudo grant.
\<close>

theorem require_fails_closed:
  assumes "require_dep True res sensitive p m d = (Inr x, d')"
  shows "\<exists>pr v. p = Some pr \<and> m = verb_value v \<and> (res, v) \<in> grants_for_roles d (pr_role_ids pr)
     \<and> (sensitive \<longrightarrow> is_admin_caller pr \<or> pr_sudo_active pr)"
  using assms
  by (auto simp: require_dep_def authorize_def grants_for_roles_iff is_admin_caller_def
      ret_def raise_def Let_def split: if_splits option.splits)

definition sample_user :: user where
  "sample_user = \<lparr>usr_id = ''u'', usr_username = ''ann'', usr_display_name = [], usr_active = True,
     usr_created_at = 0, usr_deleted_at = None\<rparr>"

definition sample_principal :: principal where
  "sample_principal = \<lparr>pr_user = sample_user, pr_role_ids = {''r''}, pr_role_slugs = {''ops''},
     pr_auth_method = API_TOKEN_METHOD, pr_sudo_active = True, pr_sudo_grant_id = Some ''g''\<rparr>"

definition sample_db :: db where
  "sample_db = empty_db\<lparr>t_role_permissions :=
     [\<lparr>rp_role_id = ''r'', rp_resource = ''auth.users'', rp_verb = DELETE\<rparr>]\<rparr>"

theorem require_fails_closed_witness:
  "\<exists>pr v. Some sample_principal = Some pr \<and> ''DELETE'' = verb_value v
     \<and> (''auth.users'', v) \<in> grants_for_roles sample_db (pr_role_ids pr)
     \<and> (True \<longrightarrow> is_admin_caller pr \<or> pr_sudo_active pr)"
proof (rule require_fails_closed)
  show "require_dep True ''auth.users'' True (Some sample_principal) ''DELETE'' sample_db
        = (Inr (), sample_db)"
    by (simp add: require_dep_def verb_by_method_def verb_order_def authorize_decides
        sample_principal_def sample_db_def)
qed

end
