(* ===== verification/Lockout.thy ===== *)
theory Lockout
  imports Access
begin

text \<open>
  Failure buckets. \<open>SudoService._record_failure\<close> and \<open>LoginThrottle._bump\<close> are the same
  arithmetic over two tables; it is modelled once, over the three methods both repositories
  offer. The locale states what those methods promise and proves what a streak of failures
  does; both tables interpret it.
\<close>

section \<open>The arithmetic\<close>

text \<open>Durations are in microseconds, like instants.\<close>

record lockout_policy =
  lp_max_failed :: nat
  lp_window :: int
  lp_lockout :: int

text \<open>\<open>_active_lockout\<close> and \<open>_active\<close>: the instant of a lock still in force.\<close>

definition active_lock :: "bucket option \<Rightarrow> instant \<Rightarrow> instant option" where
  "active_lock b now = (case b of
     None \<Rightarrow> None
   | Some b \<Rightarrow> (case bk_locked_until b of
        None \<Rightarrow> None
      | Some l \<Rightarrow> if parse_iso l > now then Some (parse_iso l) else None))"

definition failed_bucket :: "lockout_policy \<Rightarrow> bucket option \<Rightarrow> instant \<Rightarrow> bucket" where
  "failed_bucket pol current now =
     (let first0 = (case current of
            Some b \<Rightarrow> (case bk_first_failed_at b of Some f \<Rightarrow> parse_iso f | None \<Rightarrow> now)
          | None \<Rightarrow> now);
          fresh = now - first0 > lp_window pol;
          count = (if fresh then 1
                   else (case current of Some b \<Rightarrow> bk_failed_count b | None \<Rightarrow> 0) + 1);
          first = (if fresh then now else first0)
      in \<lparr>bk_failed_count = count, bk_first_failed_at = Some (iso first),
          bk_locked_until = (if count \<ge> lp_max_failed pol then Some (iso (now + lp_lockout pol))
                             else None)\<rparr>)"

definition bump ::
  "(db \<Rightarrow> 'k \<Rightarrow> bucket option) \<Rightarrow> ('k \<Rightarrow> bucket \<Rightarrow> unit db_op) \<Rightarrow> lockout_policy \<Rightarrow> 'k \<Rightarrow> instant
   \<Rightarrow> unit db_op" where
  "bump get_b set_b pol k now =
     op_bind (asks (\<lambda>d. get_b d k)) (\<lambda>current. set_b k (failed_bucket pol current now))"

subsection \<open>A streak\<close>

text \<open>The failures of one bucket, oldest first, each at its instant.\<close>

definition streak :: "lockout_policy \<Rightarrow> instant list \<Rightarrow> bucket option \<Rightarrow> bucket option" where
  "streak pol ts b = fold (\<lambda>t b. Some (failed_bucket pol b t)) ts b"

lemma streak_Nil [simp]: "streak pol [] b = b"
  by (simp add: streak_def)

lemma streak_snoc [simp]: "streak pol (ts @ [t]) b = Some (failed_bucket pol (streak pol ts b) t)"
  by (simp add: streak_def)

text \<open>Failures that stay within one window of the first: an exact count, and a lock from the
  \<open>max\<close>-th one on, renewed by every further failure.\<close>

lemma streak_within:
  assumes "ts \<noteq> []" and "\<forall>t \<in> set ts. t - parse_iso (iso (hd ts)) \<le> lp_window pol"
  shows "streak pol ts None = Some \<lparr>bk_failed_count = length ts, bk_first_failed_at = Some (iso (hd ts)),
     bk_locked_until = (if length ts \<ge> lp_max_failed pol then Some (iso (last ts + lp_lockout pol))
                        else None)\<rparr>"
  using assms
proof (induction ts rule: rev_induct)
  case (snoc t ts)
  show ?case
  proof (cases "ts = []")
    case True
    have "0 \<le> t - parse_iso (iso t)" using parse_iso_iso_le [of t] by simp
    with snoc.prems(2) True have "0 \<le> lp_window pol" by simp
    with True show ?thesis by (simp add: streak_def failed_bucket_def Let_def)
  next
    case False
    then have "streak pol ts None = Some \<lparr>bk_failed_count = length ts,
        bk_first_failed_at = Some (iso (hd ts)),
        bk_locked_until = (if length ts \<ge> lp_max_failed pol then Some (iso (last ts + lp_lockout pol))
                        else None)\<rparr>"
      using snoc by simp
    moreover have "t - parse_iso (iso (hd ts)) \<le> lp_window pol" using snoc.prems(2) False by simp
    ultimately show ?thesis using False by (simp add: failed_bucket_def Let_def)
  qed
qed simp

lemma active_lock_iff:
  "active_lock b now = Some l \<longleftrightarrow>
   (\<exists>bk s. b = Some bk \<and> bk_locked_until bk = Some s \<and> l = parse_iso s \<and> l > now)"
  by (auto simp: active_lock_def split: option.splits)

section \<open>What a bucket table promises\<close>

locale bucket_store =
  fixes get_b :: "db \<Rightarrow> 'k \<Rightarrow> bucket option"
    and set_b :: "'k \<Rightarrow> bucket \<Rightarrow> unit db_op"
    and clear_b :: "'k \<Rightarrow> unit db_op"
    and writable :: "db \<Rightarrow> 'k \<Rightarrow> bool"
  assumes set_returns: "writable d k \<Longrightarrow> fst (set_b k b d) = Inr ()"
    and get_set: "writable d k \<Longrightarrow>
      get_b (snd (set_b k b d)) j = (if j = k then Some b else get_b d j)"
    and writable_set: "writable d k \<Longrightarrow> writable (snd (set_b k b d)) j = writable d j"
    and clear_returns: "fst (clear_b k d) = Inr ()"
    and get_clear: "get_b (snd (clear_b k d)) j = (if j = k then None else get_b d j)"
begin

lemma bump_returns: "writable d k \<Longrightarrow> fst (bump get_b set_b pol k now d) = Inr ()"
  by (simp add: bump_def op_bind_asks set_returns)

lemma get_bump:
  "writable d k \<Longrightarrow> get_b (snd (bump get_b set_b pol k now d)) j
     = (if j = k then Some (failed_bucket pol (get_b d k) now) else get_b d j)"
  by (simp add: bump_def op_bind_asks get_set)

lemma writable_bump:
  "writable d k \<Longrightarrow> writable (snd (bump get_b set_b pol k now d)) j = writable d j"
  by (simp add: bump_def op_bind_asks writable_set)

text \<open>A bucket after any number of its own failures, and every other bucket.\<close>

lemma writable_bumps:
  "writable d k \<Longrightarrow> writable (fold (\<lambda>t d. snd (bump get_b set_b pol k t d)) ts d) j = writable d j"
proof (induction ts arbitrary: d)
  case (Cons t ts)
  then have "writable (snd (bump get_b set_b pol k t d)) k" by (simp only: writable_bump)
  with Cons show ?case by (simp add: writable_bump)
qed simp

lemma get_bumps:
  "writable d k \<Longrightarrow> get_b (fold (\<lambda>t d. snd (bump get_b set_b pol k t d)) ts d) j
     = (if j = k then streak pol ts (get_b d k) else get_b d j)"
proof (induction ts arbitrary: j rule: rev_induct)
  case (snoc t ts)
  then show ?case by (simp add: get_bump writable_bumps)
qed simp

text \<open>\<open>max\<close> failures within a window lock the bucket until the last one plus the lockout.\<close>

lemma locked_after_streak:
  assumes "writable d k" and "get_b d k = None" and "ts \<noteq> []"
    and "\<forall>t \<in> set ts. t - parse_iso (iso (hd ts)) \<le> lp_window pol"
    and "length ts \<ge> lp_max_failed pol" and "now < parse_iso (iso (last ts + lp_lockout pol))"
  shows "active_lock (get_b (fold (\<lambda>t d. snd (bump get_b set_b pol k t d)) ts d) k) now
     = Some (parse_iso (iso (last ts + lp_lockout pol)))"
  using assms by (simp add: get_bumps streak_within active_lock_def)

lemma clear_unlocks: "active_lock (get_b (snd (clear_b k d)) k) now = None"
  by (simp add: get_clear active_lock_def)

end

section \<open>The two tables\<close>

lemma find_update_key:
  assumes "\<And>r. key (f r) = key r"
  shows "find (\<lambda>r. key r = j) (update_where (\<lambda>r. key r = k) f rows)
    = (if j = k then map_option f (find (\<lambda>r. key r = k) rows) else find (\<lambda>r. key r = j) rows)"
  using assms by (induction rows) (auto simp: update_where_def)

lemma find_append: "find p (xs @ ys) = (case find p xs of None \<Rightarrow> find p ys | Some x \<Rightarrow> Some x)"
  by (induction xs) auto

lemma find_delete_key:
  "find (\<lambda>r. key r = j) (delete_where (\<lambda>r. key r = k) rows)
    = (if j = k then None else find (\<lambda>r. key r = j) rows)"
  by (induction rows) (auto simp: delete_where_def)

definition lockout_writable :: "db \<Rightarrow> string \<Rightarrow> bool" where
  "lockout_writable d u \<longleftrightarrow> u \<in> usr_id ` set (t_users d) \<or> u \<in> sl_user_id ` set (t_sudo_lockouts d)"

definition attempt_writable :: "db \<Rightarrow> login_scope \<times> string \<Rightarrow> bool" where
  "attempt_writable d k \<longleftrightarrow> True"

interpretation sudo_buckets: bucket_store lockout_get lockout_set lockout_clear lockout_writable
proof
  fix d :: db and k j :: string and b :: bucket
  assume w: "lockout_writable d k"
  have none: "find (\<lambda>l. sl_user_id l = k) (t_sudo_lockouts d) = None
      \<longleftrightarrow> k \<notin> sl_user_id ` set (t_sudo_lockouts d)" by simp
  show "fst (lockout_set k b d) = Inr ()"
    using w by (auto simp: lockout_set_def lockout_writable_def op_defs)
  show "lockout_get (snd (lockout_set k b d)) j = (if j = k then Some b else lockout_get d j)"
  proof (cases "k \<in> sl_user_id ` set (t_sudo_lockouts d)")
    case True
    then obtain l where "find (\<lambda>l. sl_user_id l = k) (t_sudo_lockouts d) = Some l" using none by blast
    with True show ?thesis
      by (simp add: lockout_set_def lockout_get_def op_defs find_update_key)
  next
    case False
    then have "find (\<lambda>l. sl_user_id l = k) (t_sudo_lockouts d) = None" using none by simp
    with False w show ?thesis
      by (simp add: lockout_set_def lockout_get_def lockout_writable_def op_defs find_append
          del: find_None_key split: option.split)
  qed
  show "lockout_writable (snd (lockout_set k b d)) j = lockout_writable d j"
    using w by (auto simp: lockout_set_def lockout_writable_def op_defs)
qed (auto simp: lockout_clear_def lockout_get_def op_defs find_delete_key)

interpretation login_buckets: bucket_store attempt_get attempt_set attempt_clear attempt_writable
proof
  fix d :: db and k j :: "login_scope \<times> string" and b :: bucket
  have none: "find (\<lambda>a. attempt_key a = k) (t_login_attempts d) = None
      \<longleftrightarrow> k \<notin> attempt_key ` set (t_login_attempts d)" by simp
  have key: "attempt_key (a\<lparr>la_bucket := b\<rparr>) = attempt_key a" for a by (simp add: attempt_key_def)
  have new: "attempt_key \<lparr>la_scope = fst k, la_key = snd k, la_bucket = b\<rparr> = k"
    by (simp add: attempt_key_def)
  show "attempt_get (snd (attempt_set k b d)) j = (if j = k then Some b else attempt_get d j)"
  proof (cases "k \<in> attempt_key ` set (t_login_attempts d)")
    case True
    then obtain a where "find (\<lambda>a. attempt_key a = k) (t_login_attempts d) = Some a" using none by blast
    with True show ?thesis
      by (simp add: attempt_set_def attempt_get_def op_defs find_update_key key)
  next
    case False
    then have "find (\<lambda>a. attempt_key a = k) (t_login_attempts d) = None" using none by simp
    with False show ?thesis
      by (simp add: attempt_set_def attempt_get_def op_defs find_append new
          del: find_None_key split: option.split)
  qed
qed (auto simp: attempt_set_def attempt_clear_def attempt_get_def attempt_writable_def op_defs
    find_delete_key)

end
