(* ===== verification/Integrity.thy ===== *)
theory Integrity
  imports Repositories
begin

text \<open>
  The integrity of the auth database: what the schema declares (primary keys, unique
  indexes, foreign keys) together with what only the repositories keep (a role assignment's
  subject exists although \<open>subject_id\<close> is no foreign key; at most one sudo grant per
  user). Every mutating repository method keeps it, so every sequence of calls does.
\<close>

section \<open>The invariant\<close>

definition keys_ok :: "db \<Rightarrow> bool" where
  "keys_ok d \<longleftrightarrow>
     unique_by res_name (t_resources d) \<and>
     unique_by rol_id (t_roles d) \<and> unique_by rol_slug (t_roles d) \<and>
     distinct (t_role_permissions d) \<and>
     unique_by usr_id (t_users d) \<and> unique_by usr_username (t_users d) \<and>
     unique_by grp_id (t_groups d) \<and> unique_by grp_slug (t_groups d) \<and>
     distinct (t_user_groups d) \<and>
     unique_by ra_id (t_role_assignments d) \<and> unique_by assignment_key (t_role_assignments d) \<and>
     unique_by rm_id (t_role_mappings d) \<and> unique_by mapping_tuple (t_role_mappings d)"

definition secrets_ok :: "db \<Rightarrow> bool" where
  "secrets_ok d \<longleftrightarrow>
     unique_by cred_id (t_credentials d) \<and>
     unique_by cred_user_id (filter (\<lambda>c. cred_type c = PASSWORD) (t_credentials d)) \<and>
     unique_by cred_user_id (filter (\<lambda>c. cred_type c = TOTP) (t_credentials d)) \<and>
     unique_by sg_id (t_sudo_grants d) \<and> unique_by sg_user_id (t_sudo_grants d) \<and>
     unique_by sl_user_id (t_sudo_lockouts d) \<and>
     unique_by attempt_key (t_login_attempts d) \<and>
     unique_by ei_id (t_external_identities d) \<and>
     unique_by (\<lambda>i. (ei_provider i, ei_subject i)) (t_external_identities d) \<and>
     unique_by os_state (t_oidc_login_states d)"

definition refs_ok :: "db \<Rightarrow> bool" where
  "refs_ok d \<longleftrightarrow>
     (\<forall>p \<in> set (t_role_permissions d). rp_role_id p \<in> rol_id ` set (t_roles d)
        \<and> rp_resource p \<in> res_name ` set (t_resources d)) \<and>
     (\<forall>m \<in> set (t_user_groups d). fst m \<in> usr_id ` set (t_users d)
        \<and> snd m \<in> grp_id ` set (t_groups d)) \<and>
     (\<forall>a \<in> set (t_role_assignments d). ra_role_id a \<in> rol_id ` set (t_roles d)
        \<and> subject_exists d (ra_subject_type a) (ra_subject_id a)) \<and>
     (\<forall>m \<in> set (t_role_mappings d). rm_role_id m \<in> rol_id ` set (t_roles d)) \<and>
     (\<forall>c \<in> set (t_credentials d). cred_user_id c \<in> usr_id ` set (t_users d)) \<and>
     (\<forall>g \<in> set (t_sudo_grants d). sg_user_id g \<in> usr_id ` set (t_users d)) \<and>
     (\<forall>l \<in> set (t_sudo_lockouts d). sl_user_id l \<in> usr_id ` set (t_users d)) \<and>
     (\<forall>i \<in> set (t_external_identities d). ei_user_id i \<in> usr_id ` set (t_users d))"

definition db_ok :: "db \<Rightarrow> bool" where
  "db_ok d \<longleftrightarrow> keys_ok d \<and> secrets_ok d \<and> refs_ok d"

lemmas ok_defs = keys_ok_def secrets_ok_def refs_ok_def

lemma db_ok_empty: "db_ok empty_db"
  by (simp add: db_ok_def ok_defs empty_db_def)

lemma keeps_db_ok:
  "keeps keys_ok m \<Longrightarrow> keeps secrets_ok m \<Longrightarrow> keeps refs_ok m \<Longrightarrow> keeps db_ok m"
  by (simp add: keeps_def db_ok_def)

lemma subject_exists_frame [simp]:
  "subject_exists (d\<lparr>t_resources := v0\<rparr>) st sid = subject_exists d st sid"
  "subject_exists (d\<lparr>t_roles := v1\<rparr>) st sid = subject_exists d st sid"
  "subject_exists (d\<lparr>t_role_permissions := v2\<rparr>) st sid = subject_exists d st sid"
  "subject_exists (d\<lparr>t_user_groups := v3\<rparr>) st sid = subject_exists d st sid"
  "subject_exists (d\<lparr>t_role_assignments := v4\<rparr>) st sid = subject_exists d st sid"
  "subject_exists (d\<lparr>t_role_mappings := v5\<rparr>) st sid = subject_exists d st sid"
  "subject_exists (d\<lparr>t_credentials := v6\<rparr>) st sid = subject_exists d st sid"
  "subject_exists (d\<lparr>t_sudo_grants := v7\<rparr>) st sid = subject_exists d st sid"
  "subject_exists (d\<lparr>t_sudo_lockouts := v8\<rparr>) st sid = subject_exists d st sid"
  "subject_exists (d\<lparr>t_login_attempts := v9\<rparr>) st sid = subject_exists d st sid"
  "subject_exists (d\<lparr>t_external_identities := v10\<rparr>) st sid = subject_exists d st sid"
  "subject_exists (d\<lparr>t_oidc_login_states := v11\<rparr>) st sid = subject_exists d st sid"
  by (simp_all add: subject_exists_def split: subject_type.splits)

lemma subject_exists_update [simp]:
  "(\<And>u. usr_id (f u) = usr_id u) \<Longrightarrow>
   subject_exists (d\<lparr>t_users := update_where p f (t_users d)\<rparr>) st sid = subject_exists d st sid"
  "(\<And>g. grp_id (h g) = grp_id g) \<Longrightarrow>
   subject_exists (d\<lparr>t_groups := update_where q h (t_groups d)\<rparr>) st sid = subject_exists d st sid"
  by (simp_all add: subject_exists_def split: subject_type.splits)

section \<open>Every method keeps it\<close>

lemma keeps_on_integrity [keeps_intros]: "keeps P m \<Longrightarrow> keeps P (on_integrity e m)"
  by (simp add: on_integrity_def keeps_except)

lemma keeps_insert_role [keeps_intros]: "keeps db_ok (insert_role r)"
  by (rule keepsI) (auto simp: insert_role_def op_defs db_ok_def ok_defs)

lemma keeps_insert_permission [keeps_intros]: "keeps db_ok (insert_permission rid res v)"
  by (rule keepsI) (auto simp: insert_permission_def op_defs Let_def db_ok_def ok_defs)

lemma keeps_insert_user [keeps_intros]: "keeps db_ok (insert_user u)"
  by (rule keepsI)
     (auto simp: insert_user_def op_defs db_ok_def ok_defs subject_exists_def split: subject_type.splits)

lemma keeps_insert_identity [keeps_intros]: "keeps db_ok (insert_identity i)"
  by (rule keepsI) (auto simp: insert_identity_def op_defs db_ok_def ok_defs)

lemma keeps_insert_group [keeps_intros]: "keeps db_ok (insert_group g)"
  by (rule keepsI)
     (auto simp: insert_group_def op_defs db_ok_def ok_defs subject_exists_def split: subject_type.splits)

lemma keeps_insert_mapping [keeps_intros]: "keeps db_ok (insert_mapping m)"
  by (rule keepsI) (auto simp: insert_mapping_def op_defs db_ok_def ok_defs)

lemma keeps_insert_credential [keeps_intros]: "keeps db_ok (insert_credential c)"
  by (rule keepsI)
     (auto simp: insert_credential_def op_defs db_ok_def ok_defs credential_of_type_def)

lemma keeps_resource_upsert [keeps_intros]: "keeps db_ok (resource_upsert name descr vs now)"
  by (rule keepsI) (auto simp: resource_upsert_def op_defs db_ok_def ok_defs )

lemma keeps_resource_delete [keeps_intros]: "keeps db_ok (resource_delete name)"
  by (rule keepsI) (auto simp: resource_delete_def op_defs db_ok_def ok_defs )

lemma keeps_insert_permissions [keeps_intros]: "keeps db_ok (insert_permissions rid grants)"
  unfolding insert_permissions_def
  by (intro keeps_intros) (auto intro: keeps_intros split: prod.splits)

lemma keeps_role_create [keeps_intros]: "keeps db_ok (role_create rid slug name descr b grants now)"
  unfolding role_create_def by (intro keeps_intros)

lemma keeps_role_ensure_builtin [keeps_intros]: "keeps db_ok (role_ensure_builtin rid slug name descr now)"
  unfolding role_ensure_builtin_def by (intro keeps_intros)

lemma keeps_put_delete_role [keeps_intros]: "keeps db_ok (put (delete_role rid))"
  by (rule keepsI) (auto simp: delete_role_def op_defs db_ok_def ok_defs)

lemma keeps_role_delete [keeps_intros]: "keeps db_ok (role_delete rid)"
  unfolding role_delete_def by (intro keeps_intros)

lemma keeps_permission_grant [keeps_intros]: "keeps db_ok (permission_grant rid res v)"
  unfolding permission_grant_def by (intro keeps_intros)

lemma keeps_permission_revoke [keeps_intros]: "keeps db_ok (permission_revoke rid res v)"
  by (rule keepsI) (auto simp: permission_revoke_def op_defs db_ok_def ok_defs)

lemma keeps_permission_replace_for_role [keeps_intros]:
  "keeps db_ok (permission_replace_for_role rid grants)"
  unfolding permission_replace_for_role_def
  by (intro keeps_intros keeps_put) (auto simp: db_ok_def ok_defs delete_where_def)

lemma keeps_user_create [keeps_intros]: "keeps db_ok (user_create uid iid name dn li now)"
  unfolding user_create_def by (intro keeps_intros)

lemma keeps_user_set_active [keeps_intros]: "keeps db_ok (user_set_active uid b)"
  by (rule keepsI) (auto simp: user_set_active_def op_defs db_ok_def ok_defs )

lemma keeps_user_set_display_name [keeps_intros]: "keeps db_ok (user_set_display_name uid b)"
  by (rule keepsI) (auto simp: user_set_display_name_def op_defs db_ok_def ok_defs )

lemma keeps_user_soft_delete [keeps_intros]: "keeps db_ok (user_soft_delete uid now)"
  by (rule keepsI) (auto simp: user_soft_delete_def op_defs db_ok_def ok_defs tombstone_def )

lemma keeps_group_create [keeps_intros]: "keeps db_ok (group_create gid slug name descr now)"
  unfolding group_create_def by (intro keeps_intros)

lemma keeps_group_update [keeps_intros]: "keeps db_ok (group_update gid name descr)"
  by (rule keepsI) (auto simp: group_update_def op_defs db_ok_def ok_defs )

lemma keeps_group_delete [keeps_intros]: "keeps db_ok (group_delete gid)"
  by (rule keepsI) (auto simp: group_delete_def op_defs db_ok_def ok_defs delete_group_def subject_exists_def split: subject_type.splits)

lemma keeps_group_add_member [keeps_intros]: "keeps db_ok (group_add_member gid uid)"
  by (rule keepsI) (auto simp: group_add_member_def op_defs db_ok_def ok_defs )

lemma keeps_group_remove_member [keeps_intros]: "keeps db_ok (group_remove_member gid uid)"
  by (rule keepsI) (auto simp: group_remove_member_def op_defs db_ok_def ok_defs)

lemma keeps_assign [keeps_intros]: "keeps db_ok (assign aid st sid rid src now)"
  by (rule keepsI)
     (auto simp: assign_def insert_assignment_def op_defs db_ok_def ok_defs split: option.splits)

lemma keeps_unassign [keeps_intros]: "keeps db_ok (unassign st sid rid src)"
  by (rule keepsI) (auto simp: unassign_def op_defs db_ok_def ok_defs )

lemma keeps_mapping_create [keeps_intros]: "keeps db_ok (mapping_create mid p c v rid)"
  unfolding mapping_create_def by (intro keeps_intros)

lemma keeps_mapping_delete [keeps_intros]: "keeps db_ok (mapping_delete mid)"
  by (rule keepsI) (auto simp: mapping_delete_def op_defs db_ok_def ok_defs )

lemma keeps_inserted_credential [keeps_intros]: "keeps db_ok (inserted_credential c)"
  unfolding inserted_credential_def by (intro keeps_intros)

lemma keeps_delete_credentials_of [keeps_intros]: "keeps db_ok (put (delete_credentials_of uid ty))"
  by (rule keepsI) (auto simp: delete_credentials_of_def op_defs db_ok_def ok_defs)

lemma keeps_set_password [keeps_intros]: "keeps db_ok (set_password cid uid h now)"
  unfolding set_password_def by (intro keeps_intros)

lemma keeps_create_totp_secret [keeps_intros]: "keeps db_ok (create_totp_secret cid uid env now)"
  unfolding create_totp_secret_def by (intro keeps_intros)

lemma keeps_create_api_token [keeps_intros]: "keeps db_ok (create_api_token sha salt cid uid tok lab ex now)"
  unfolding create_api_token_def by (intro keeps_intros)

lemma keeps_delete_credentials [keeps_intros]: "keeps db_ok (delete_credentials uid ty)"
  unfolding delete_credentials_def by (intro keeps_intros)

lemma keeps_replace_api_token [keeps_intros]: "keeps db_ok (replace_api_token sha salt cid uid tok lab now)"
  unfolding replace_api_token_def by (intro keeps_intros)

lemma keeps_delete_api_token [keeps_intros]: "keeps db_ok (delete_api_token cid uid)"
  by (rule keepsI) (auto simp: delete_api_token_def op_defs db_ok_def ok_defs Let_def )

lemma keeps_touch_last_used [keeps_intros]: "keeps db_ok (touch_last_used cid now)"
  by (rule keepsI) (auto simp: touch_last_used_def op_defs db_ok_def ok_defs unique_by_filter_update )

lemma keeps_sudo_grant_create [keeps_intros]: "keeps db_ok (sudo_grant_create sha salt gid uid tok vf ia ea)"
  by (rule keepsI) (auto simp: sudo_grant_create_def op_defs db_ok_def ok_defs insert_sudo_grant_def split: option.splits)

lemma keeps_sudo_grant_revoke_for_user [keeps_intros]: "keeps db_ok (sudo_grant_revoke_for_user uid now)"
  by (rule keepsI) (auto simp: sudo_grant_revoke_for_user_def op_defs db_ok_def ok_defs )

lemma keeps_sudo_grant_revoke_all [keeps_intros]: "keeps db_ok (sudo_grant_revoke_all now)"
  by (rule keepsI) (auto simp: sudo_grant_revoke_all_def op_defs db_ok_def ok_defs )

lemma keeps_lockout_set [keeps_intros]: "keeps db_ok (lockout_set uid b)"
  by (rule keepsI) (auto simp: lockout_set_def op_defs db_ok_def ok_defs )

lemma keeps_lockout_clear [keeps_intros]: "keeps db_ok (lockout_clear uid)"
  by (rule keepsI) (auto simp: lockout_clear_def op_defs db_ok_def ok_defs )

lemma keeps_attempt_set [keeps_intros]: "keeps db_ok (attempt_set k b)"
  by (rule keepsI) (auto simp: attempt_set_def op_defs db_ok_def ok_defs attempt_key_def )

lemma keeps_attempt_clear [keeps_intros]: "keeps db_ok (attempt_clear k)"
  by (rule keepsI) (auto simp: attempt_clear_def op_defs db_ok_def ok_defs )

lemma keeps_attempt_delete_expired [keeps_intros]: "keeps db_ok (attempt_delete_expired now w)"
  by (rule keepsI) (auto simp: attempt_delete_expired_def op_defs db_ok_def ok_defs )

lemma keeps_identity_create [keeps_intros]: "keeps db_ok (identity_create iid uid p s now)"
  unfolding identity_create_def by (intro keeps_intros)

lemma keeps_oidc_state_create [keeps_intros]: "keeps db_ok (oidc_state_create st n v ea now)"
  by (rule keepsI) (auto simp: oidc_state_create_def op_defs db_ok_def ok_defs split: option.splits)

lemma keeps_oidc_state_take [keeps_intros]: "keeps db_ok (oidc_state_take st now)"
  by (rule keepsI) (auto simp: oidc_state_take_def op_defs db_ok_def ok_defs split: option.splits)

lemma keeps_oidc_state_delete_expired [keeps_intros]: "keeps db_ok (oidc_state_delete_expired now)"
  by (rule keepsI) (auto simp: oidc_state_delete_expired_def op_defs db_ok_def ok_defs )

section \<open>Any sequence of calls\<close>

text \<open>
  One rule per mutating repository method, with its arguments arbitrary. A call whose method
  raises leaves the database as the exception left it; the next call goes on from there.
\<close>

inductive repo_step :: "db \<Rightarrow> db \<Rightarrow> bool" where
  "repo_step s (snd (resource_upsert a b c d s))"
| "repo_step s (snd (resource_delete a s))"
| "repo_step s (snd (role_create a b c d e f g s))"
| "repo_step s (snd (role_ensure_builtin a b c d e s))"
| "repo_step s (snd (role_delete a s))"
| "repo_step s (snd (permission_grant a b c s))"
| "repo_step s (snd (permission_revoke a b c s))"
| "repo_step s (snd (permission_replace_for_role a b s))"
| "repo_step s (snd (user_create a b c d e f s))"
| "repo_step s (snd (user_set_active a b s))"
| "repo_step s (snd (user_set_display_name a b s))"
| "repo_step s (snd (user_soft_delete a b s))"
| "repo_step s (snd (group_create a b c d e s))"
| "repo_step s (snd (group_update a b c s))"
| "repo_step s (snd (group_delete a s))"
| "repo_step s (snd (group_add_member a b s))"
| "repo_step s (snd (group_remove_member a b s))"
| "repo_step s (snd (assign a b c d e f s))"
| "repo_step s (snd (unassign a b c d s))"
| "repo_step s (snd (mapping_create a b c d e s))"
| "repo_step s (snd (mapping_delete a s))"
| "repo_step s (snd (set_password a b c d s))"
| "repo_step s (snd (create_totp_secret a b c d s))"
| "repo_step s (snd (create_api_token a b c d e f g h s))"
| "repo_step s (snd (replace_api_token a b c d e f g s))"
| "repo_step s (snd (delete_credentials a b s))"
| "repo_step s (snd (delete_api_token a b s))"
| "repo_step s (snd (touch_last_used a b s))"
| "repo_step s (snd (sudo_grant_create a b c d e f g h s))"
| "repo_step s (snd (sudo_grant_revoke_for_user a b s))"
| "repo_step s (snd (sudo_grant_revoke_all a s))"
| "repo_step s (snd (lockout_set a b s))"
| "repo_step s (snd (lockout_clear a s))"
| "repo_step s (snd (attempt_set a b s))"
| "repo_step s (snd (attempt_clear a s))"
| "repo_step s (snd (attempt_delete_expired a b s))"
| "repo_step s (snd (identity_create a b c d e s))"
| "repo_step s (snd (oidc_state_create a b c d e s))"
| "repo_step s (snd (oidc_state_take a b s))"
| "repo_step s (snd (oidc_state_delete_expired a s))"

inductive repo_reachable :: "db \<Rightarrow> bool" where
  start: "repo_reachable empty_db"
| step: "repo_reachable s \<Longrightarrow> repo_step s t \<Longrightarrow> repo_reachable t"

lemma repo_step_db_ok: "repo_step s t \<Longrightarrow> db_ok s \<Longrightarrow> db_ok t"
  by (induction rule: repo_step.induct) (rule keepsD, (rule keeps_intros)?, assumption)+

text \<open>
  C1. Whatever sequence of repository calls runs from an empty database, whatever their
  arguments and whichever of them raise, the database keeps its integrity: every primary
  key, unique index and foreign key of the schema, at most one password and one TOTP secret
  per user, at most one sudo grant per user, and no role assignment whose user or group does
  not exist.
\<close>

theorem repositories_keep_integrity:
  assumes "repo_reachable d"
  shows "db_ok d"
  using assms by induction (auto intro: db_ok_empty repo_step_db_ok)

text \<open>A run of two calls: the second user's name is taken, the call raises, the invariant
  holds afterwards.\<close>

lemma repositories_keep_integrity_witness:
  "let d = snd (user_create ''u1'' ''i1'' ''ann'' [] True 5 empty_db);
       e = snd (user_create ''u2'' ''i2'' ''ann'' [] True 6 d)
   in length (t_users e) = 1 \<and> fst (user_create ''u2'' ''i2'' ''ann'' [] True 6 d)
        = Inl (DuplicateError ''ann'') \<and> db_ok e"
proof -
  let ?d = "snd (user_create ''u1'' ''i1'' ''ann'' [] True 5 empty_db)"
  let ?e = "snd (user_create ''u2'' ''i2'' ''ann'' [] True 6 ?d)"
  have "repo_reachable ?e"
    by (rule repo_reachable.step [OF repo_reachable.step [OF repo_reachable.start]])
       (rule repo_step.intros)+
  then have "db_ok ?e" by (rule repositories_keep_integrity)
  moreover have "length (t_users ?e) = 1"
    and "fst (user_create ''u2'' ''i2'' ''ann'' [] True 6 ?d) = Inl (DuplicateError ''ann'')"
    by (simp_all add: user_create_def on_integrity_def op_defs insert_user_def
        insert_identity_def empty_db_def user_get_def)
  ultimately show ?thesis by simp
qed

end
