(* ===== verification/Management.thy ===== *)
theory Management
  imports Access Integrity
begin

text \<open>
  The management API: the password policy (\<open>auth/password_policy.py\<close>), the token helpers
  (\<open>api/tokens.py\<close>) and the synchronous handlers of \<open>api/routes/users.py\<close>, \<open>groups.py\<close>,
  \<open>roles.py\<close>, \<open>role_assignments.py\<close>, \<open>role_mappings.py\<close> and the self-service password of
  \<open>me.py\<close>. A handler returns the row its response model copies. Generated ids, tokens,
  salts, password hashes and the clock reading are arguments; \<open>caller\<close> is what
  \<open>current_principal\<close> returns (\<open>None\<close> when security is disabled).
\<close>

section \<open>Password policy\<close>

record password_policy =
  pp_min_length :: nat
  pp_max_length :: nat
  pp_reject_common :: bool

text \<open>The set \<open>_common_passwords\<close> builds from the lines of the bundled file.\<close>

definition common_passwords :: "string list \<Rightarrow> string set" where
  "common_passwords lines = set (map casefold
     (filter (\<lambda>l. l \<noteq> [] \<and> \<not> starts_with l ''#'') lines))"

definition assert_password_acceptable ::
  "password_policy \<Rightarrow> string set \<Rightarrow> string \<Rightarrow> string \<Rightarrow> unit db_op" where
  "assert_password_acceptable policy common password username =
     (if length password < pp_min_length policy then raise (WeakPasswordError ''min_length'')
      else if length password > pp_max_length policy then raise (WeakPasswordError ''max_length'')
      else let folded = casefold password in
        if username \<noteq> [] \<and> contains (casefold username) folded
        then raise (WeakPasswordError ''contains_username'')
        else if pp_reject_common policy \<and> folded \<in> common
        then raise (WeakPasswordError ''common_password'')
        else ret ())"

section \<open>Lookups that answer 404\<close>

definition get_live_user :: "string \<Rightarrow> user db_op" where
  "get_live_user user_id = op_bind (asks (\<lambda>d. user_get d user_id)) (\<lambda>u. case u of
       None \<Rightarrow> raise (NotFoundError user_id)
     | Some u \<Rightarrow> if usr_deleted_at u \<noteq> None then raise (NotFoundError user_id) else ret u)"

definition get_user :: "string \<Rightarrow> user db_op" where
  "get_user user_id = op_bind (asks (\<lambda>d. user_get d user_id)) (\<lambda>u. case u of
       None \<Rightarrow> raise (NotFoundError user_id)
     | Some u \<Rightarrow> ret u)"

definition get_group_or_404 :: "string \<Rightarrow> group db_op" where
  "get_group_or_404 group_id = op_bind (asks (\<lambda>d. group_get d group_id)) (\<lambda>g. case g of
       None \<Rightarrow> raise (NotFoundError group_id)
     | Some g \<Rightarrow> ret g)"

definition get_role_or_404 :: "string \<Rightarrow> role db_op" where
  "get_role_or_404 role_id = op_bind (asks (\<lambda>d. role_get d role_id)) (\<lambda>r. case r of
       None \<Rightarrow> raise (NotFoundError role_id)
     | Some r \<Rightarrow> ret r)"

definition get_mapping_or_404 :: "string \<Rightarrow> role_mapping db_op" where
  "get_mapping_or_404 mapping_id = op_bind (asks (\<lambda>d. mapping_get d mapping_id)) (\<lambda>m. case m of
       None \<Rightarrow> raise (NotFoundError mapping_id)
     | Some m \<Rightarrow> ret m)"

section \<open>Tokens\<close>

text \<open>\<open>ttl\<close> is \<open>timedelta(seconds=ttl_seconds)\<close> in microseconds.\<close>

definition issue_token ::
  "(string \<Rightarrow> string) \<Rightarrow> string \<Rightarrow> string \<Rightarrow> string \<Rightarrow> string \<Rightarrow> string \<Rightarrow> int option \<Rightarrow> instant
   \<Rightarrow> (credential \<times> string) db_op" where
  "issue_token sha256 salt credential_id token user_id label ttl now = op_then
     (assert_not_bootstrap_identity user_id)
     (if (case ttl of None \<Rightarrow> False | Some t \<Rightarrow> t \<le> 0) then raise ValueError
      else op_bind
        (create_api_token sha256 salt credential_id user_id token label
           (map_option (\<lambda>t. iso (now + t)) ttl) (iso now))
        (\<lambda>c. ret (c, token)))"

definition list_tokens :: "db \<Rightarrow> string \<Rightarrow> credential list" where
  "list_tokens d user_id = list_api_tokens d user_id"

definition revoke_token :: "string \<Rightarrow> string \<Rightarrow> unit db_op" where
  "revoke_token user_id credential_id = op_then
     (assert_not_bootstrap_identity user_id)
     (op_bind (delete_api_token credential_id user_id) (\<lambda>deleted.
        demand deleted (NotFoundError credential_id)))"

section \<open>Users\<close>

definition route_create_user ::
  "password_policy \<Rightarrow> string set \<Rightarrow> string \<Rightarrow> string \<Rightarrow> string \<Rightarrow> string
   \<Rightarrow> string \<Rightarrow> string \<Rightarrow> string option \<Rightarrow> stamp \<Rightarrow> user db_op" where
  "route_create_user policy common user_id identity_id credential_id password_hash
       username display_name password now = op_then
     (case password of None \<Rightarrow> ret ()
      | Some pw \<Rightarrow> assert_password_acceptable policy common pw username)
     (op_bind (user_create user_id identity_id username display_name True now) (\<lambda>u. op_then
        (case password of None \<Rightarrow> ret ()
         | Some pw \<Rightarrow> op_then (set_password credential_id (usr_id u) password_hash now) (ret ()))
        (ret u)))"

definition route_update_user :: "string \<Rightarrow> string option \<Rightarrow> bool option \<Rightarrow> user db_op" where
  "route_update_user user_id display_name active = op_bind (get_live_user user_id) (\<lambda>u. op_then
     (if active = Some False then assert_admin_remains {usr_id u} else ret ())
     (op_then (case display_name of None \<Rightarrow> ret () | Some n \<Rightarrow> user_set_display_name (usr_id u) n)
     (op_then (case active of None \<Rightarrow> ret () | Some b \<Rightarrow> user_set_active (usr_id u) b)
     (op_bind (asks (\<lambda>d. user_get d (usr_id u))) (\<lambda>r. case r of
          None \<Rightarrow> raise AssertionError
        | Some refreshed \<Rightarrow> ret refreshed)))))"

definition route_delete_user :: "string \<Rightarrow> instant \<Rightarrow> unit db_op" where
  "route_delete_user user_id now = op_bind (get_live_user user_id) (\<lambda>u. op_then
     (assert_admin_remains {usr_id u})
     (user_soft_delete (usr_id u) (iso now)))"

definition route_set_password ::
  "password_policy \<Rightarrow> string set \<Rightarrow> string \<Rightarrow> string \<Rightarrow> string \<Rightarrow> string \<Rightarrow> stamp \<Rightarrow> unit db_op" where
  "route_set_password policy common credential_id password_hash user_id password now =
     op_bind (get_live_user user_id) (\<lambda>u. op_then
       (assert_password_acceptable policy common password (usr_username u))
       (op_then (set_password credential_id (usr_id u) password_hash now) (ret ())))"

definition route_issue_token ::
  "(string \<Rightarrow> string) \<Rightarrow> string \<Rightarrow> string \<Rightarrow> string \<Rightarrow> string \<Rightarrow> string \<Rightarrow> instant
   \<Rightarrow> (credential \<times> string) db_op" where
  "route_issue_token sha256 salt credential_id token user_id label now =
     op_bind (get_live_user user_id) (\<lambda>u. op_then
       (assert_not_bootstrap_identity (usr_id u)) (op_then
       (assert_no_existing_api_token (usr_id u))
       (issue_token sha256 salt credential_id token (usr_id u) label None now)))"

definition route_list_tokens :: "string \<Rightarrow> credential list db_op" where
  "route_list_tokens user_id = op_bind (get_live_user user_id) (\<lambda>u.
     asks (\<lambda>d. list_tokens d (usr_id u)))"

definition route_revoke_token :: "string \<Rightarrow> string \<Rightarrow> unit db_op" where
  "route_revoke_token user_id token_id = op_bind (get_live_user user_id) (\<lambda>u.
     revoke_token (usr_id u) token_id)"

definition route_reset_totp :: "string \<Rightarrow> unit db_op" where
  "route_reset_totp user_id = op_bind (get_live_user user_id) (\<lambda>u.
     delete_credentials (usr_id u) TOTP)"

text \<open>\<open>PUT /auth/me/password\<close>: \<open>False\<close> is the failed proof of possession.\<close>

definition change_own_password ::
  "(string \<Rightarrow> string \<Rightarrow> bool) \<Rightarrow> password_policy \<Rightarrow> string set \<Rightarrow> string \<Rightarrow> string
   \<Rightarrow> principal \<Rightarrow> string option \<Rightarrow> string \<Rightarrow> stamp \<Rightarrow> bool db_op" where
  "change_own_password argon2_verify policy common credential_id password_hash p current new now =
     op_bind (asks (\<lambda>d. has_credential d (usr_id (pr_user p)) PASSWORD
         \<and> (case current of None \<Rightarrow> True
            | Some c \<Rightarrow> \<not> verify_password argon2_verify d (usr_id (pr_user p)) c)))
       (\<lambda>unproven. if unproven then ret False
         else op_then
           (assert_password_acceptable policy common new (usr_username (pr_user p)))
           (op_then (set_password credential_id (usr_id (pr_user p)) password_hash now) (ret True)))"

section \<open>Groups\<close>

definition carries_admin :: "db \<Rightarrow> string \<Rightarrow> bool" where
  "carries_admin d group_id \<longleftrightarrow>
     (\<exists>r \<in> set (list_for_subject d GROUP group_id). rol_slug r = role_slug_value ADMIN)"

definition member_ids :: "db \<Rightarrow> string \<Rightarrow> string set" where
  "member_ids d group_id = set (map usr_id (group_list_members d group_id))"

definition guard_admin_group_delete :: "string \<Rightarrow> unit db_op" where
  "guard_admin_group_delete group_id d =
     (if \<not> carries_admin d group_id then ret () d
      else assert_admin_remains (member_ids d group_id) d)"

definition route_create_group :: "string \<Rightarrow> string \<Rightarrow> string \<Rightarrow> string \<Rightarrow> stamp \<Rightarrow> group db_op" where
  "route_create_group group_id slug name description now =
     group_create group_id slug name description now"

definition route_update_group :: "string \<Rightarrow> string \<Rightarrow> string \<Rightarrow> group db_op" where
  "route_update_group group_id name description = op_then (get_group_or_404 group_id)
     (op_bind (group_update group_id name description) (\<lambda>g. case g of
          None \<Rightarrow> raise AssertionError
        | Some g \<Rightarrow> ret g))"

definition route_delete_group :: "string \<Rightarrow> unit db_op" where
  "route_delete_group group_id = op_then (get_group_or_404 group_id)
     (op_then (guard_admin_group_delete group_id) (group_delete group_id))"

definition route_add_member :: "string \<Rightarrow> string \<Rightarrow> unit db_op" where
  "route_add_member group_id user_id = op_then (get_group_or_404 group_id)
     (group_add_member group_id user_id)"

definition route_remove_member :: "string \<Rightarrow> string \<Rightarrow> unit db_op" where
  "route_remove_member group_id user_id = op_then (get_group_or_404 group_id) (op_then
     (\<lambda>d. if carries_admin d group_id then assert_admin_remains {user_id} d else ret () d)
     (group_remove_member group_id user_id))"

section \<open>Roles, role assignments, role mappings\<close>

definition role_out :: "db \<Rightarrow> role \<Rightarrow> role \<times> (string \<times> verb) list" where
  "role_out d r = (r, map (\<lambda>p. (rp_resource p, rp_verb p)) (permission_list_for_role d (rol_id r)))"

definition route_list_roles :: "db \<Rightarrow> (role \<times> (string \<times> verb) list) list" where
  "route_list_roles d = map (role_out d) (role_list_all d)"

definition may_grant :: "principal option \<Rightarrow> (string \<times> verb) list \<Rightarrow> unit db_op" where
  "may_grant caller grants = (case caller of None \<Rightarrow> ret ()
     | Some p \<Rightarrow> assert_may_grant_permissions p (set grants))"

definition may_assign :: "principal option \<Rightarrow> role \<Rightarrow> unit db_op" where
  "may_assign caller r = (case caller of None \<Rightarrow> ret () | Some p \<Rightarrow> assert_may_assign_role p r)"

definition route_create_role ::
  "principal option \<Rightarrow> string \<Rightarrow> string \<Rightarrow> string \<Rightarrow> string \<Rightarrow> (string \<times> verb) list \<Rightarrow> stamp
   \<Rightarrow> (role \<times> (string \<times> verb) list) db_op" where
  "route_create_role caller role_id slug name description permissions now =
     (let grants = remdups permissions in op_then
        (assert_grants_grantable grants) (op_then
        (may_grant caller grants)
        (op_bind (role_create role_id slug name description False grants now)
          (\<lambda>r. asks (\<lambda>d. role_out d r)))))"

definition route_update_role ::
  "principal option \<Rightarrow> string \<Rightarrow> (string \<times> verb) list \<Rightarrow> (role \<times> (string \<times> verb) list) db_op" where
  "route_update_role caller role_id permissions = op_bind (get_role_or_404 role_id) (\<lambda>r. op_then
     (demand (\<not> rol_builtin r) (BuiltinRoleError (rol_slug r)))
     (let grants = remdups permissions in op_then
        (assert_grants_grantable grants) (op_then
        (may_grant caller grants) (op_then
        (permission_replace_for_role (rol_id r) grants)
        (op_bind (asks (\<lambda>d. role_get d (rol_id r))) (\<lambda>x. case x of
            None \<Rightarrow> raise AssertionError
          | Some refreshed \<Rightarrow> asks (\<lambda>d. role_out d refreshed)))))))"

definition route_delete_role :: "string \<Rightarrow> unit db_op" where
  "route_delete_role role_id = op_then (get_role_or_404 role_id) (role_delete role_id)"

definition local_source :: string where
  "local_source = ''local''"

definition route_assign ::
  "principal option \<Rightarrow> string \<Rightarrow> subject_type \<Rightarrow> string \<Rightarrow> string \<Rightarrow> stamp \<Rightarrow> unit db_op" where
  "route_assign caller assignment_id st sid role_id now = op_bind (get_role_or_404 role_id) (\<lambda>r. op_then
     (may_assign caller r) (op_then
     (assign assignment_id st sid (rol_id r) local_source now) (ret ())))"

definition route_unassign_from_user :: "string \<Rightarrow> string \<Rightarrow> unit db_op" where
  "route_unassign_from_user user_id role_id = op_bind (get_role_or_404 role_id) (\<lambda>r. op_then
     (if rol_slug r = role_slug_value ADMIN then assert_admin_remains {user_id} else ret ())
     (unassign USER user_id (rol_id r) None))"

definition route_unassign_from_group :: "string \<Rightarrow> string \<Rightarrow> unit db_op" where
  "route_unassign_from_group group_id role_id = op_bind (get_role_or_404 role_id) (\<lambda>r. op_then
     (if rol_slug r = role_slug_value ADMIN
      then (\<lambda>d. assert_admin_remains (member_ids d group_id) d) else ret ())
     (unassign GROUP group_id (rol_id r) None))"

definition route_create_mapping ::
  "principal option \<Rightarrow> string \<Rightarrow> string \<Rightarrow> string \<Rightarrow> string \<Rightarrow> string \<Rightarrow> role_mapping db_op" where
  "route_create_mapping caller mapping_id provider claim value role_id =
     op_bind (get_role_or_404 role_id) (\<lambda>r. op_then
       (may_assign caller r)
       (mapping_create mapping_id provider claim value role_id))"

definition route_delete_mapping :: "string \<Rightarrow> unit db_op" where
  "route_delete_mapping mapping_id = op_then (get_mapping_or_404 mapping_id)
     (mapping_delete mapping_id)"

lemmas route_defs = route_create_user_def route_update_user_def route_delete_user_def
  route_set_password_def route_issue_token_def route_list_tokens_def route_revoke_token_def
  route_reset_totp_def change_own_password_def route_create_group_def route_update_group_def
  route_delete_group_def route_add_member_def route_remove_member_def route_create_role_def
  route_update_role_def route_delete_role_def route_assign_def route_unassign_from_user_def
  route_unassign_from_group_def route_create_mapping_def route_delete_mapping_def

lemmas lookup_defs = get_live_user_def get_user_def get_group_or_404_def get_role_or_404_def
  get_mapping_or_404_def

lemma lookups_pure [simp]:
  "snd (get_live_user uid d) = d" "snd (get_user uid d) = d" "snd (get_group_or_404 gid d) = d"
  "snd (get_role_or_404 rid d) = d" "snd (get_mapping_or_404 mid d) = d"
  "snd (assert_password_acceptable pol common pw un d) = d"
  "snd (may_grant c gs d) = d" "snd (may_assign c r d) = d"
  "snd (guard_admin_group_delete gid d) = d"
  by (simp_all add: lookup_defs assert_password_acceptable_def may_grant_def may_assign_def
      guard_admin_group_delete_def op_defs Let_def split: option.splits)

section \<open>What an insertion that returns has done\<close>

lemma find_snoc_fresh:
  "key r \<notin> key ` set rows \<Longrightarrow> find (\<lambda>x. key x = key r) (rows @ [r]) = Some r"
  by (induction rows) auto

lemma inserted_credential_ok:
  assumes "inserted_credential c d = (Inr c', d')"
  shows "c' = c \<and> d' = d\<lparr>t_credentials := t_credentials d @ [c]\<rparr>
     \<and> cred_id c \<notin> cred_id ` set (t_credentials d) \<and> cred_user_id c \<in> usr_id ` set (t_users d)"
proof -
  obtain x e where i: "insert_credential c d = (Inr x, e)"
    and rest: "op_bind (asks (\<lambda>d. credential_get d (cred_id c))) (\<lambda>row. case row of
         None \<Rightarrow> raise TypeError | Some c \<Rightarrow> ret c) e = (Inr c', d')"
    using assms unfolding inserted_credential_def by (elim op_then_okE)
  from i have e: "e = d\<lparr>t_credentials := t_credentials d @ [c]\<rparr>"
    and fresh: "cred_id c \<notin> cred_id ` set (t_credentials d)" "cred_user_id c \<in> usr_id ` set (t_users d)"
    by (auto simp: insert_credential_def raise_def put_def split: if_splits)
  then have "credential_get e (cred_id c) = Some c"
    by (simp add: credential_get_def find_snoc_fresh)
  with rest have "c' = c" "d' = e" by (simp_all add: op_bind_asks ret_def)
  with e fresh show ?thesis by blast
qed

lemma create_api_token_ok:
  assumes "create_api_token sha256 salt cid uid token label e now d = (Inr c, d')"
  shows "c = \<lparr>cred_id = cid, cred_user_id = uid, cred_type = API_TOKEN,
        cred_hash = hash_token sha256 token salt, cred_salt = Some salt, cred_label = label,
        cred_created_at = now, cred_last_used_at = None, cred_expires_at = e\<rparr>
     \<and> d' = d\<lparr>t_credentials := t_credentials d @ [c]\<rparr>
     \<and> cid \<notin> cred_id ` set (t_credentials d) \<and> uid \<in> usr_id ` set (t_users d)"
  using inserted_credential_ok [OF transaction_okE [OF assms [unfolded create_api_token_def]]] by auto

lemma issue_token_ok:
  assumes "issue_token sha256 salt cid token uid label ttl now d = (Inr issued, d')"
  shows "\<not> is_bootstrap_identity d uid \<and> snd issued = token
     \<and> fst issued = \<lparr>cred_id = cid, cred_user_id = uid, cred_type = API_TOKEN,
        cred_hash = hash_token sha256 token salt, cred_salt = Some salt, cred_label = label,
        cred_created_at = iso now, cred_last_used_at = None,
        cred_expires_at = map_option (\<lambda>t. iso (now + t)) ttl\<rparr>
     \<and> d' = d\<lparr>t_credentials := t_credentials d @ [fst issued]\<rparr>
     \<and> (\<forall>t. ttl = Some t \<longrightarrow> 0 < t)"
  using assms unfolding issue_token_def
  by (elim op_then_okE)
     (auto simp: assert_not_bootstrap_identity_def ret_def raise_def split: if_splits option.splits
       elim!: op_bind_okE dest!: create_api_token_ok)

end
