(* ===== verification/Escalation.thy ===== *)
theory Escalation
  imports Management
begin

text \<open>
  What the management routes guarantee together. A step relation has one rule per mutating
  route; \<open>grant_step\<close> leaves out \<open>PUT /auth/groups/{id}/members/{user}\<close>, the one route with
  no escalation guard. Two results: no step of \<open>grant_step\<close> widens anybody's grants beyond
  what the caller itself holds, and no step at all removes the last active admin.
\<close>

section \<open>Grants in force\<close>

definition held :: "db \<Rightarrow> string \<Rightarrow> string \<Rightarrow> bool" where
  "held d u rid \<longleftrightarrow> (\<exists>a \<in> set (t_role_assignments d). ra_role_id a = rid \<and>
     (ra_subject_type a = USER \<and> ra_subject_id a = u
      \<or> ra_subject_type a = GROUP \<and> (u, ra_subject_id a) \<in> set (t_user_groups d)))"

definition user_grants :: "db \<Rightarrow> string \<Rightarrow> (string \<times> verb) set" where
  "user_grants d u = grants_for_roles d (rol_id ` set (roles_for_user d u))"

definition holds_admin :: "db \<Rightarrow> string \<Rightarrow> bool" where
  "holds_admin d u \<longleftrightarrow> role_slug_value ADMIN \<in> rol_slug ` set (roles_for_user d u)"

lemma roles_for_user_iff:
  "r \<in> set (roles_for_user d u) \<longleftrightarrow> r \<in> set (t_roles d) \<and> held d u (rol_id r)"
  by (force simp: roles_for_user_def held_def Let_def)

lemma user_grants_iff:
  "(res, v) \<in> user_grants d u \<longleftrightarrow>
   (\<exists>r \<in> set (t_roles d). held d u (rol_id r)
      \<and> \<lparr>rp_role_id = rol_id r, rp_resource = res, rp_verb = v\<rparr> \<in> set (t_role_permissions d))"
  by (auto simp: user_grants_def grants_for_roles_iff effective_verbs_iff roles_for_user_iff)

lemma holds_admin_iff:
  "holds_admin d u \<longleftrightarrow> (\<exists>r \<in> set (t_roles d). rol_slug r = role_slug_value ADMIN \<and> held d u (rol_id r))"
proof -
  have "holds_admin d u \<longleftrightarrow> (\<exists>r. r \<in> set (roles_for_user d u) \<and> rol_slug r = role_slug_value ADMIN)"
    unfolding holds_admin_def image_iff by metis
  then show ?thesis by (auto simp: roles_for_user_iff)
qed

lemma user_ids_with_role_iff:
  "w \<in> user_ids_with_role d rid \<longleftrightarrow>
   (\<exists>u \<in> set (t_users d). usr_id u = w \<and> usr_active u \<and> usr_deleted_at u = None \<and> held d w rid)"
  by (force simp: user_ids_with_role_def held_def Let_def)

lemma held_frame [simp]:
  "held (d\<lparr>t_roles := v1\<rparr>) u rid = held d u rid"
  "held (d\<lparr>t_role_permissions := v2\<rparr>) u rid = held d u rid"
  "held (d\<lparr>t_users := v3\<rparr>) u rid = held d u rid"
  "held (d\<lparr>t_groups := v4\<rparr>) u rid = held d u rid"
  "held (d\<lparr>t_role_mappings := v5\<rparr>) u rid = held d u rid"
  by (simp_all add: held_def)

section \<open>Taking handlers apart\<close>

text \<open>A pure guard first: the state after it is the one before, or the rest ran from there.\<close>

lemma through_then:
  assumes "\<And>d. snd (m d) = d" and "Q d" and "\<And>x. m d = (Inr x, d) \<Longrightarrow> Q (snd (k d))"
  shows "Q (snd (op_then m k d))"
  using assms(1) [of d] assms(2,3)
  by (cases "m d"; cases "fst (m d)") (auto simp: op_then_def op_bind_def)

lemma through_bind:
  assumes "\<And>d. snd (m d) = d" and "Q d" and "\<And>x. m d = (Inr x, d) \<Longrightarrow> Q (snd (f x d))"
  shows "Q (snd (op_bind m f d))"
  using assms(1) [of d] assms(2,3)
  by (cases "m d"; cases "fst (m d)") (auto simp: op_bind_def)

lemma snd_then_ret [simp]: "snd (op_then m (ret x) d) = snd (m d)"
  by (auto simp: op_defs split: prod.splits sum.splits)

lemma snd_bind_asks [simp]: "snd (op_bind m (\<lambda>x. asks (g x)) d) = snd (m d)"
  by (auto simp: op_defs split: prod.splits sum.splits)

lemma snd_bind_asks_then [simp]:
  "snd (op_bind (asks g) (\<lambda>x. case x of None \<Rightarrow> raise e | Some y \<Rightarrow> asks (h y)) d) = d"
  "snd (op_bind (asks g) (\<lambda>x. case x of None \<Rightarrow> raise e | Some y \<Rightarrow> ret y) d) = d"
  by (auto simp: op_defs split: option.splits)

lemma snd_then_pure: "(\<And>d. snd (k d) = d) \<Longrightarrow> snd (op_then m k d) = snd (m d)"
  by (auto simp: op_then_def op_bind_def split: prod.splits sum.splits)

lemma snd_bind_pure: "(\<And>x d. snd (f x d) = d) \<Longrightarrow> snd (op_bind m f d) = snd (m d)"
  by (auto simp: op_bind_def split: prod.splits sum.splits)

lemma snd_transaction: "snd (transaction m d) = d \<or> snd (transaction m d) = snd (m d)"
  by (auto simp: transaction_def split: prod.splits sum.splits)

lemma live_user_ok: "get_live_user uid d = (Inr u, d') \<Longrightarrow>
    d' = d \<and> u \<in> set (t_users d) \<and> usr_id u = uid \<and> usr_deleted_at u = None"
  by (auto simp: get_live_user_def user_get_def op_defs split: option.splits if_splits dest: find_in_set)

lemma role_or_404_ok: "get_role_or_404 rid d = (Inr r, d') \<Longrightarrow>
    d' = d \<and> r \<in> set (t_roles d) \<and> rol_id r = rid"
  by (auto simp: get_role_or_404_def role_get_def op_defs split: option.splits dest: find_in_set)

lemma keeps_pure_guards [keeps_intros]:
  "keeps P (get_live_user uid)" "keeps P (get_user uid)" "keeps P (get_group_or_404 gid)"
  "keeps P (get_role_or_404 rid)" "keeps P (get_mapping_or_404 mid)"
  "keeps P (assert_password_acceptable pol common pw un)"
  "keeps P (may_grant c gs)" "keeps P (may_assign c r)" "keeps P (guard_admin_group_delete gid)"
  "keeps P (assert_admin_remains losing)" "keeps P (assert_not_bootstrap_identity uid)"
  "keeps P (assert_no_existing_api_token uid)" "keeps P (assert_grants_grantable gl)"
  by (simp_all add: keeps_guard)

lemma keeps_guarded_admin [keeps_intros]:
  "keeps P (\<lambda>d. if c d then assert_admin_remains (f d) d else ret () d)"
  "keeps P (\<lambda>d. assert_admin_remains (f d) d)"
  by (simp_all add: keeps_def ret_def)

lemma keeps_issue_token [keeps_intros]:
  "(\<And>e. keeps P (create_api_token sha salt cid uid tok label e (iso now))) \<Longrightarrow>
   keeps P (issue_token sha salt cid tok uid label ttl now)"
  unfolding issue_token_def by (intro keeps_intros)

lemma keeps_revoke_token [keeps_intros]:
  "keeps P (delete_api_token cid uid) \<Longrightarrow> keeps P (revoke_token uid cid)"
  unfolding revoke_token_def by (intro keeps_intros)

section \<open>The steps\<close>

text \<open>One rule per mutating route but \<open>add_member\<close>; the database after it, whether the route
  returned or raised.\<close>

inductive grant_step :: "principal option \<Rightarrow> db \<Rightarrow> db \<Rightarrow> bool" for c :: "principal option" where
  create_user: "grant_step c d (snd (route_create_user pol common uid iid cid ph un dn pw now d))"
| update_user: "grant_step c d (snd (route_update_user uid dn active d))"
| delete_user: "grant_step c d (snd (route_delete_user uid t d))"
| set_pw: "grant_step c d (snd (route_set_password pol common cid ph uid pw now d))"
| issue_tok: "grant_step c d (snd (route_issue_token sha salt cid tok uid label t d))"
| revoke_tok: "grant_step c d (snd (route_revoke_token uid cid d))"
| reset_totp: "grant_step c d (snd (route_reset_totp uid d))"
| change_pw: "grant_step c d (snd (change_own_password av pol common cid ph p cur new now d))"
| create_group: "grant_step c d (snd (route_create_group gid slug name descr now d))"
| update_group: "grant_step c d (snd (route_update_group gid name descr d))"
| delete_group: "grant_step c d (snd (route_delete_group gid d))"
| remove_member: "grant_step c d (snd (route_remove_member gid uid d))"
| create_role: "grant_step c d (snd (route_create_role c rid slug name descr gs now d))"
| update_role: "grant_step c d (snd (route_update_role c rid gs d))"
| delete_role: "grant_step c d (snd (route_delete_role rid d))"
| assign_role: "grant_step c d (snd (route_assign c aid st sid rid now d))"
| unassign_user: "grant_step c d (snd (route_unassign_from_user uid rid d))"
| unassign_group: "grant_step c d (snd (route_unassign_from_group gid rid d))"
| create_mapping: "grant_step c d (snd (route_create_mapping c mid prov claim val rid d))"
| delete_mapping: "grant_step c d (snd (route_delete_mapping mid d))"

inductive management_step :: "principal option \<Rightarrow> db \<Rightarrow> db \<Rightarrow> bool" for c :: "principal option" where
  grant: "grant_step c d d' \<Longrightarrow> management_step c d d'"
| add_member: "management_step c d (snd (route_add_member gid uid d))"

text \<open>A handler keeps whatever the methods it calls keep.\<close>

lemma keeps_user_routes:
  assumes "\<And>un dn li. keeps P (user_create uid iid un dn li now)"
    and "\<And>u. keeps P (set_password cid u ph now)"
  shows "keeps P (route_create_user pol common uid iid cid ph un dn pw now)"
    and "keeps P (route_set_password pol common cid ph uid newpw now)"
    and "keeps P (change_own_password av pol common cid ph p cur newpw now)"
  unfolding route_create_user_def route_set_password_def change_own_password_def
  by (intro keeps_intros assms)+

lemma keeps_token_routes:
  assumes "\<And>u e. keeps P (create_api_token sha salt cid u tok label e (iso t))"
    and "\<And>u. keeps P (delete_api_token cid u)" and "\<And>u ty. keeps P (delete_credentials u ty)"
  shows "keeps P (route_issue_token sha salt cid tok uid label t)"
    and "keeps P (route_revoke_token uid cid)" and "keeps P (route_reset_totp uid)"
  unfolding route_issue_token_def route_revoke_token_def route_reset_totp_def
  by (intro keeps_intros assms)+

lemma keeps_update_user_route:
  assumes "\<And>u n. keeps P (user_set_display_name u n)" and "\<And>u b. keeps P (user_set_active u b)"
  shows "keeps P (route_update_user uid dn active)"
  unfolding route_update_user_def by (intro keeps_intros assms)

lemma keeps_group_routes:
  assumes "keeps P (group_create gid slug name descr now)" and "keeps P (group_update gid name descr)"
  shows "keeps P (route_create_group gid slug name descr now)"
    and "keeps P (route_update_group gid name descr)"
  unfolding route_create_group_def route_update_group_def by (intro keeps_intros assms)+

lemma keeps_removal_routes:
  assumes "keeps P (group_delete gid)" and "keeps P (group_remove_member gid uid)"
    and "\<And>u. keeps P (user_soft_delete u (iso t))" and "\<And>st u r. keeps P (unassign st u r None)"
  shows "keeps P (route_delete_group gid)" and "keeps P (route_remove_member gid uid)"
    and "keeps P (route_delete_user uid t)" and "keeps P (route_unassign_from_user uid rid)"
    and "keeps P (route_unassign_from_group gid rid)"
  unfolding route_delete_group_def route_remove_member_def route_delete_user_def
    route_unassign_from_user_def route_unassign_from_group_def
  by (intro keeps_intros assms)+

lemma keeps_role_routes:
  assumes "\<And>r. keeps P (permission_replace_for_role r (remdups gs))"
    and "keeps P (role_create rid slug name descr False (remdups gs) now)"
  shows "keeps P (route_create_role c rid slug name descr gs now)"
    and "keeps P (route_update_role c rid gs)"
  unfolding route_create_role_def route_update_role_def Let_def
  by (intro keeps_intros assms)+

lemma keeps_delete_role_route: "keeps P (role_delete rid) \<Longrightarrow> keeps P (route_delete_role rid)"
  unfolding route_delete_role_def by (intro keeps_intros)

lemma keeps_assign_route:
  "(\<And>r. keeps P (assign aid st sid r local_source now)) \<Longrightarrow> keeps P (route_assign c aid st sid rid now)"
  unfolding route_assign_def by (intro keeps_intros)

lemma keeps_mapping_routes:
  assumes "keeps P (mapping_create mid prov claim val rid)" and "keeps P (mapping_delete mid)"
  shows "keeps P (route_create_mapping c mid prov claim val rid)" and "keeps P (route_delete_mapping mid)"
  unfolding route_create_mapping_def route_delete_mapping_def by (intro keeps_intros assms)+

lemmas keeps_routes = keeps_user_routes keeps_token_routes keeps_update_user_route keeps_group_routes
  keeps_removal_routes keeps_role_routes keeps_delete_role_route keeps_assign_route
  keeps_mapping_routes

lemma grant_step_db_ok: "grant_step c d d' \<Longrightarrow> db_ok d \<Longrightarrow> db_ok d'"
proof (induction rule: grant_step.induct)
qed ((rule keepsD [where P = db_ok], (rule keeps_routes; intro keeps_intros), assumption)+)

lemma management_step_db_ok: "management_step c d d' \<Longrightarrow> db_ok d \<Longrightarrow> db_ok d'"
proof (induction rule: management_step.induct)
  case (add_member d gid uid)
  have "keeps db_ok (route_add_member gid uid)"
    unfolding route_add_member_def by (intro keeps_intros)
  with add_member show ?case by (simp add: keepsD)
qed (rule grant_step_db_ok)

section \<open>Nobody gains more than the caller holds\<close>

definition no_wider :: "db \<Rightarrow> db \<Rightarrow> bool" where
  "no_wider d0 d \<longleftrightarrow> set (t_roles d) \<subseteq> set (t_roles d0)
     \<and> set (t_role_permissions d) \<subseteq> set (t_role_permissions d0)
     \<and> set (t_role_assignments d) \<subseteq> set (t_role_assignments d0)
     \<and> set (t_user_groups d) \<subseteq> set (t_user_groups d0)"

definition bounded_by :: "principal option \<Rightarrow> db \<Rightarrow> db \<Rightarrow> bool" where
  "bounded_by c d d' \<longleftrightarrow> (\<forall>p u. c = Some p \<longrightarrow>
     user_grants d' u \<subseteq> user_grants d u \<union> grants_for_roles d (pr_role_ids p)
     \<and> (holds_admin d' u \<longrightarrow> holds_admin d u \<or> is_admin_caller p))"

lemma no_wider_refl [simp]: "no_wider d d"
  by (simp add: no_wider_def)

lemma held_mono:
  "set (t_role_assignments d') \<subseteq> set (t_role_assignments d) \<Longrightarrow>
   set (t_user_groups d') \<subseteq> set (t_user_groups d) \<Longrightarrow> held d' u rid \<Longrightarrow> held d u rid"
  unfolding held_def by blast

lemma no_wider_bounded: "no_wider d d' \<Longrightarrow> bounded_by c d d'"
  unfolding bounded_by_def no_wider_def
  by (auto simp: user_grants_iff holds_admin_iff) (meson held_mono subsetD)+

lemma keeps_no_wider_inserts [keeps_intros]:
  "keeps (no_wider d0) (insert_user u)" "keeps (no_wider d0) (insert_identity i)"
  "keeps (no_wider d0) (insert_group g)" "keeps (no_wider d0) (insert_mapping m)"
  "keeps (no_wider d0) (insert_credential c)"
  by (rule keepsI; simp add: insert_user_def insert_identity_def insert_group_def
      insert_mapping_def insert_credential_def op_defs no_wider_def)+

lemma keeps_no_wider_puts [keeps_intros]:
  "keeps (no_wider d0) (put (delete_credentials_of uid ty))"
  "keeps (no_wider d0) (put (delete_role rid))"
  "keeps (no_wider d0) (put (tombstone uid t))" "keeps (no_wider d0) (put (delete_group gid))"
  by (rule keepsI; auto simp: put_def no_wider_def delete_credentials_of_def delete_role_def
      tombstone_def delete_group_def)+

lemma keeps_no_wider_updates [keeps_intros]:
  "keeps (no_wider d0) (user_set_active uid b)" "keeps (no_wider d0) (user_set_display_name uid n)"
  "keeps (no_wider d0) (group_update gid n descr)" "keeps (no_wider d0) (group_remove_member gid uid)"
  "keeps (no_wider d0) (unassign st sid rid src)" "keeps (no_wider d0) (mapping_delete mid)"
  "keeps (no_wider d0) (delete_api_token cid uid)"
  by (rule keepsI; auto simp: user_set_active_def user_set_display_name_def group_update_def
      group_remove_member_def unassign_def mapping_delete_def delete_api_token_def op_defs
      no_wider_def Let_def)+

lemma keeps_no_wider_methods [keeps_intros]:
  "keeps (no_wider d0) (user_create uid iid un dn li now)"
  "keeps (no_wider d0) (group_create gid slug name descr now)"
  "keeps (no_wider d0) (mapping_create mid prov claim val rid)"
  "keeps (no_wider d0) (set_password cid uid ph now)"
  "keeps (no_wider d0) (create_api_token sha salt cid uid tok label e now)"
  "keeps (no_wider d0) (delete_credentials uid ty)" "keeps (no_wider d0) (role_delete rid)"
  "keeps (no_wider d0) (user_soft_delete uid t)" "keeps (no_wider d0) (group_delete gid)"
  unfolding user_create_def group_create_def mapping_create_def set_password_def
    inserted_credential_def create_api_token_def delete_credentials_def role_delete_def
    user_soft_delete_def group_delete_def
  by (intro keeps_intros)+

text \<open>The three methods that add rows to the access tables.\<close>

lemma assign_cases:
  obtains "snd (assign aid st sid rid src now d) = d"
  | a where "snd (assign aid st sid rid src now d)
             = d\<lparr>t_role_assignments := t_role_assignments d @ [a]\<rparr>" and "ra_role_id a = rid"
proof (cases "subject_exists d st sid")
  case True
  let ?a = "\<lparr>ra_id = aid, ra_subject_type = st, ra_subject_id = sid, ra_role_id = rid,
              ra_created_at = now, ra_source = src\<rparr>"
  let ?find = "\<lambda>_. op_bind (asks (\<lambda>d. assignment_find d st sid rid)) (\<lambda>row. case row of
              None \<Rightarrow> raise TypeError | Some a \<Rightarrow> ret a)"
  have "snd (op_then (insert_assignment ?a) (?find ()) d) = snd (insert_assignment ?a d)"
    by (rule snd_then_pure) simp
  moreover have "snd (insert_assignment ?a d) = d
      \<or> snd (insert_assignment ?a d) = d\<lparr>t_role_assignments := t_role_assignments d @ [?a]\<rparr>"
    by (simp add: insert_assignment_def op_defs)
  moreover have "snd (assign aid st sid rid src now d)
      = snd (transaction (op_then (insert_assignment ?a) (?find ())) d)"
    using True by (simp add: assign_def op_bind_def op_then_def asks_def demand_def ret_def)
  ultimately show thesis
    using that snd_transaction [of "op_then (insert_assignment ?a) (?find ())" d] by force
next
  case False
  then show thesis using that by (simp add: assign_def op_defs)
qed

text \<open>A database that is \<open>d\<close> but for its grants, which are among \<open>X\<close> and the given ones.\<close>

definition granted_within :: "db \<Rightarrow> role_permission set \<Rightarrow> string \<Rightarrow> (string \<times> verb) set \<Rightarrow> db \<Rightarrow> bool" where
  "granted_within d X rid gs s \<longleftrightarrow> (\<exists>perms. s = d\<lparr>t_role_permissions := perms\<rparr>
     \<and> set perms \<subseteq> X \<union> {p. rp_role_id p = rid \<and> (rp_resource p, rp_verb p) \<in> gs})"

lemma granted_within_snoc:
  assumes "granted_within d X rid G s" and "rp_role_id p = rid" and "(rp_resource p, rp_verb p) \<in> G"
  shows "granted_within d X rid G (s\<lparr>t_role_permissions := t_role_permissions s @ [p]\<rparr>)"
proof -
  obtain perms where "s = d\<lparr>t_role_permissions := perms\<rparr>"
    and "set perms \<subseteq> X \<union> {p. rp_role_id p = rid \<and> (rp_resource p, rp_verb p) \<in> G}"
    using assms(1) by (auto simp: granted_within_def)
  then show ?thesis using assms(2,3)
    unfolding granted_within_def by (intro exI [of _ "perms @ [p]"]) auto
qed

lemma keeps_insert_permissions_in:
  "keeps (granted_within d X rid (set gs)) (insert_permissions rid gs)"
proof -
  have "keeps (granted_within d X rid (set gs))
          (foreach (\<lambda>(res, v). insert_permission rid res v) hs)" if "set hs \<subseteq> set gs" for hs
    using that
  proof (induction hs)
    case Nil
    then show ?case by (simp add: keeps_ret)
  next
    case (Cons h hs)
    obtain res v where h: "h = (res, v)" by (cases h)
    have "keeps (granted_within d X rid (set gs)) (insert_permission rid res v)"
      using Cons.prems h
      by (intro keepsI) (simp add: insert_permission_def op_defs Let_def granted_within_snoc)
    with Cons h show ?case by (simp add: keeps_then)
  qed
  then show ?thesis by (simp add: insert_permissions_def)
qed

lemma granted_within_self: "granted_within d (set (t_role_permissions d)) rid G d"
  unfolding granted_within_def by (intro exI [of _ "t_role_permissions d"]) auto

lemma replace_within:
  "granted_within d (set (t_role_permissions d)) rid (set gs) (snd (permission_replace_for_role rid gs d))"
proof -
  have "granted_within d X rid G (s\<lparr>t_role_permissions := delete_where q (t_role_permissions s)\<rparr>)"
    if "granted_within d X rid G s" for s X G q
  proof -
    obtain perms where "s = d\<lparr>t_role_permissions := perms\<rparr>"
      and "set perms \<subseteq> X \<union> {p. rp_role_id p = rid \<and> (rp_resource p, rp_verb p) \<in> G}"
      using \<open>granted_within d X rid G s\<close> by (auto simp: granted_within_def)
    then show ?thesis
      unfolding granted_within_def by (intro exI [of _ "delete_where q perms"]) auto
  qed
  then have "keeps (granted_within d (set (t_role_permissions d)) rid (set gs))
               (permission_replace_for_role rid gs)"
    unfolding permission_replace_for_role_def
    by (intro keeps_intros keeps_put keeps_insert_permissions_in)
  then show ?thesis using granted_within_self by (rule keepsD)
qed

lemma role_create_cases:
  obtains "snd (role_create rid slug name descr b gs now d) = d"
  | r where "rol_id r = rid" and "rid \<notin> rol_id ` set (t_roles d)"
      and "granted_within (d\<lparr>t_roles := t_roles d @ [r]\<rparr>) (set (t_role_permissions d)) rid (set gs)
             (snd (role_create rid slug name descr b gs now d))"
proof -
  let ?r = "\<lparr>rol_id = rid, rol_slug = slug, rol_name = name, rol_description = descr,
              rol_builtin = b, rol_created_at = now\<rparr>"
  let ?m = "op_then (insert_role ?r) (insert_permissions rid gs)"
  have st: "snd (role_create rid slug name descr b gs now d) = snd (transaction ?m d)"
    unfolding role_create_def on_integrity_def
    by (subst snd_then_pure) (auto simp: except_def split: prod.splits sum.splits)
  show thesis
  proof (cases "rid \<in> rol_id ` set (t_roles d) \<or> slug \<in> rol_slug ` set (t_roles d)")
    case True
    then have "snd (transaction ?m d) = d"
      by (auto simp: insert_role_def op_defs)
    with st that(1) show thesis by simp
  next
    case False
    then have "snd (?m d) = snd (insert_permissions rid gs (d\<lparr>t_roles := t_roles d @ [?r]\<rparr>))"
      by (simp add: op_then_def op_bind_def insert_role_def put_def)
    moreover have "granted_within (d\<lparr>t_roles := t_roles d @ [?r]\<rparr>) (set (t_role_permissions d)) rid (set gs)
        (snd (insert_permissions rid gs (d\<lparr>t_roles := t_roles d @ [?r]\<rparr>)))"
      using granted_within_self [of "d\<lparr>t_roles := t_roles d @ [?r]\<rparr>" rid "set gs"]
      by (intro keepsD [OF keeps_insert_permissions_in]) simp
    ultimately show thesis
      using st that False snd_transaction [of ?m d] by force
  qed
qed

lemma held_role_exists: "db_ok d \<Longrightarrow> held d u rid \<Longrightarrow> rid \<in> rol_id ` set (t_roles d)"
  by (auto simp: held_def db_ok_def refs_ok_def)

lemma granted_within_bounded:
  assumes "granted_within (d\<lparr>t_roles := t_roles d @ rs\<rparr>) (set (t_role_permissions d)) rid G d'"
    and "\<And>p. c = Some p \<Longrightarrow> G \<subseteq> grants_for_roles d (pr_role_ids p)"
    and "\<And>r u. r \<in> set rs \<Longrightarrow> \<not> held d u (rol_id r)"
  shows "bounded_by c d d'"
proof -
  obtain perms where d': "d' = d\<lparr>t_roles := t_roles d @ rs, t_role_permissions := perms\<rparr>"
    and ps: "set perms \<subseteq> set (t_role_permissions d)
              \<union> {p. rp_role_id p = rid \<and> (rp_resource p, rp_verb p) \<in> G}"
    using assms(1) by (auto simp: granted_within_def)
  have "(n, v) \<in> user_grants d u \<union> G" if g: "(n, v) \<in> user_grants d' u" for n v u
  proof -
    obtain r where "r \<in> set (t_roles d) \<union> set rs" and h: "held d u (rol_id r)"
      and "\<lparr>rp_role_id = rol_id r, rp_resource = n, rp_verb = v\<rparr> \<in> set perms"
      using g by (auto simp: d' user_grants_iff)
    moreover from this have "r \<in> set (t_roles d)" using assms(3) by blast
    ultimately show ?thesis using subsetD [OF ps] by (fastforce simp: user_grants_iff)
  qed
  moreover have "holds_admin d' u \<Longrightarrow> holds_admin d u" for u
    using assms(3) by (auto simp: d' holds_admin_iff)
  ultimately show ?thesis using assms(2) unfolding bounded_by_def by fastforce
qed

lemma may_grant_ok: "may_grant c gs d = (Inr x, d') \<Longrightarrow> c = Some p \<Longrightarrow>
   set gs \<subseteq> grants_for_roles d (pr_role_ids p)"
  by (simp add: may_grant_def assert_may_grant_permissions_def no_excess_ok)

lemma may_assign_role_ok: "may_assign c r d = (Inr x, d') \<Longrightarrow> c = Some p \<Longrightarrow>
   grants_for_roles d {rol_id r} \<subseteq> grants_for_roles d (pr_role_ids p)
   \<and> (rol_slug r = role_slug_value ADMIN \<longrightarrow> is_admin_caller p)"
  by (simp add: may_assign_def may_assign_ok)

lemma bounded_refl: "bounded_by c d d"
  by (rule no_wider_bounded) simp

lemma create_role_bounded:
  assumes "db_ok d"
  shows "bounded_by c d (snd (route_create_role c rid slug name descr gs now d))"
proof -
  let ?create = "role_create rid slug name descr False (remdups gs) now"
  have "bounded_by c d (snd (?create d))" if "may_grant c (remdups gs) d = (Inr x, d)" for x
  proof (rule role_create_cases [of rid slug name descr False "remdups gs" now d])
    fix r assume r: "rol_id r = rid" "rid \<notin> rol_id ` set (t_roles d)"
      "granted_within (d\<lparr>t_roles := t_roles d @ [r]\<rparr>) (set (t_role_permissions d)) rid
         (set (remdups gs)) (snd (?create d))"
    show ?thesis
      using r(1,2) held_role_exists [OF assms] may_grant_ok [OF that]
      by (intro granted_within_bounded [OF r(3)]) auto
  qed (simp add: bounded_refl)
  then show ?thesis
    unfolding route_create_role_def Let_def
    by (intro through_then [where Q = "bounded_by c d"] bounded_refl) simp_all
qed

lemma update_role_bounded: "bounded_by c d (snd (route_update_role c rid gs d))"
proof -
  have "bounded_by c d (snd (permission_replace_for_role r (remdups gs) d))"
    if "may_grant c (remdups gs) d = (Inr x, d)" for r x
    using may_grant_ok [OF that] replace_within [of d r "remdups gs"]
    by (intro granted_within_bounded [where rs = "[]"]) auto
  then have "bounded_by c d (snd (op_then (may_grant c (remdups gs))
       (op_then (permission_replace_for_role (rol_id r) (remdups gs))
          (op_bind (asks (\<lambda>d. role_get d (rol_id r))) (\<lambda>x. case x of None \<Rightarrow> raise AssertionError
             | Some r \<Rightarrow> asks (\<lambda>d. role_out d r)))) d))" for r
    by (intro through_then [where Q = "bounded_by c d" and m = "may_grant c (remdups gs)"] bounded_refl)
       (simp_all add: snd_then_pure)
  then show ?thesis
    unfolding route_update_role_def Let_def
    by (intro through_bind [where Q = "bounded_by c d" and m = "get_role_or_404 rid"] bounded_refl
        through_then [where Q = "bounded_by c d" and m = "assert_grants_grantable (remdups gs)"]
        through_then [where Q = "bounded_by c d" and m = "demand _ _"])
       (simp_all add: demand_def ret_def raise_def)
qed

lemma assign_bounded:
  assumes "db_ok d"
  shows "bounded_by c d (snd (route_assign c aid st sid rid now d))"
proof -
  have "bounded_by c d (snd (assign aid st sid (rol_id r) src now d))"
    if ok: "may_assign c r d = (Inr x, d)" and r: "r \<in> set (t_roles d)" for r x src
  proof (rule assign_cases [of aid st sid "rol_id r" src now d])
    fix a assume d': "snd (assign aid st sid (rol_id r) src now d)
        = d\<lparr>t_role_assignments := t_role_assignments d @ [a]\<rparr>" (is "_ = ?d'") and a: "ra_role_id a = rol_id r"
    have held: "held ?d' u i \<Longrightarrow> held d u i \<or> i = rol_id r" for u i
      using a by (auto simp: held_def)
    have uniq: "q = r" if "q \<in> set (t_roles d)" "rol_id q = rol_id r" for q
      using assms r that unique_byD by (fastforce simp: db_ok_def keys_ok_def)
    have "user_grants ?d' u \<subseteq> user_grants d u \<union> grants_for_roles d {rol_id r}" for u
      by (auto simp: user_grants_iff grants_for_roles_iff effective_verbs_iff dest!: held)
    moreover have "holds_admin ?d' u \<Longrightarrow> holds_admin d u \<or> rol_slug r = role_slug_value ADMIN" for u
      using uniq by (auto simp: holds_admin_iff dest!: held)
    ultimately show ?thesis
      using may_assign_role_ok [OF ok] unfolding bounded_by_def d' by blast
  qed (simp add: bounded_refl)
  then show ?thesis
    unfolding route_assign_def
    by (intro through_then [where Q = "bounded_by c d" and m = "may_assign c _"]
        through_bind [where Q = "bounded_by c d"] bounded_refl) (auto dest: role_or_404_ok)
qed

lemma grant_step_bounded: "grant_step c d d' \<Longrightarrow> db_ok d \<Longrightarrow> bounded_by c d d'"
proof (induction rule: grant_step.induct)
qed ((rule update_role_bounded | rule create_role_bounded assign_bounded, assumption
   | rule no_wider_bounded,
   rule keepsD [where P = "no_wider _", OF _ no_wider_refl],
   (rule keeps_routes; intro keeps_intros))+)

end
