(* ===== verification/LastAdmin.thy ===== *)
theory LastAdmin
  imports Escalation
begin

text \<open>
  The way back is never lost: an active, undeleted holder of the builtin \<open>admin\<close> role
  survives every management route, whatever it returned. The routes that take something
  away are covered one by one through \<open>assert_admin_remains\<close>; every other one only adds.
\<close>

definition active_user :: "db \<Rightarrow> string \<Rightarrow> bool" where
  "active_user d w \<longleftrightarrow> (\<exists>u \<in> set (t_users d). usr_id u = w \<and> usr_active u \<and> usr_deleted_at u = None)"

definition admin_by :: "db \<Rightarrow> string \<Rightarrow> bool" where
  "admin_by d w \<longleftrightarrow> active_user d w
     \<and> (\<exists>r \<in> set (t_roles d). rol_slug r = role_slug_value ADMIN \<and> rol_builtin r \<and> held d w (rol_id r))"

definition recoverable :: "db \<Rightarrow> bool" where
  "recoverable d \<longleftrightarrow> (\<exists>w. admin_by d w)"

lemma role_by_id: "db_ok d \<Longrightarrow> r \<in> set (t_roles d) \<Longrightarrow> q \<in> set (t_roles d) \<Longrightarrow> rol_id r = rol_id q \<Longrightarrow> r = q"
  by (auto simp: db_ok_def keys_ok_def dest: unique_byD)

lemma role_by_slug:
  "db_ok d \<Longrightarrow> role_get_by_slug d s = Some r \<longleftrightarrow> r \<in> set (t_roles d) \<and> rol_slug r = s"
  by (simp add: role_get_by_slug_def db_ok_def keys_ok_def find_unique_iff)

text \<open>What a passed \<open>assert_admin_remains\<close> leaves: an admin outside the losing set.\<close>

lemma survivor:
  assumes "db_ok d" and "recoverable d" and "assert_admin_remains losing d = (Inr x, d')"
  obtains w where "admin_by d w" and "w \<notin> losing"
proof -
  obtain r where r: "r \<in> set (t_roles d)" "rol_slug r = role_slug_value ADMIN" "rol_builtin r"
    using assms(2) by (auto simp: recoverable_def admin_by_def)
  then have "role_get_by_slug d (role_slug_value ADMIN) = Some r"
    by (simp only: role_by_slug [OF assms(1)])
  then obtain w where w: "w \<in> user_ids_with_role d (rol_id r)" "w \<notin> losing"
    using assms(3) by (auto simp: admin_remains_ok)
  with r have "admin_by d w"
    by (auto simp: admin_by_def active_user_def user_ids_with_role_iff)
  with w that show thesis by blast
qed

section \<open>Methods that only add\<close>

definition no_narrower :: "db \<Rightarrow> db \<Rightarrow> bool" where
  "no_narrower d0 d \<longleftrightarrow> set (t_roles d0) \<subseteq> set (t_roles d)
     \<and> set (t_role_assignments d0) \<subseteq> set (t_role_assignments d)
     \<and> set (t_user_groups d0) \<subseteq> set (t_user_groups d)
     \<and> (\<forall>w. active_user d0 w \<longrightarrow> active_user d w)"

lemma no_narrower_refl [simp]: "no_narrower d d"
  by (auto simp: no_narrower_def)

lemma no_narrower_admin: "no_narrower d d' \<Longrightarrow> admin_by d w \<Longrightarrow> admin_by d' w"
  unfolding no_narrower_def admin_by_def by (meson held_mono subsetD)

lemma no_narrower_recoverable: "no_narrower d d' \<Longrightarrow> recoverable d \<Longrightarrow> recoverable d'"
  unfolding recoverable_def by (meson no_narrower_admin)

lemma keeps_recoverable:
  assumes "keeps (no_narrower d) m" and "recoverable d"
  shows "recoverable (snd (m d))"
  by (rule no_narrower_recoverable [OF keepsD [where P = "no_narrower d", OF assms(1)] assms(2)]) simp

lemma recoverableI: "admin_by d w \<Longrightarrow> recoverable d"
  by (auto simp: recoverable_def)

lemma active_user_frame [simp]:
  "active_user (d\<lparr>t_roles := v1\<rparr>) w = active_user d w"
  "active_user (d\<lparr>t_role_permissions := v2\<rparr>) w = active_user d w"
  "active_user (d\<lparr>t_groups := v3\<rparr>) w = active_user d w"
  "active_user (d\<lparr>t_user_groups := v4\<rparr>) w = active_user d w"
  "active_user (d\<lparr>t_role_assignments := v5\<rparr>) w = active_user d w"
  "active_user (d\<lparr>t_role_mappings := v6\<rparr>) w = active_user d w"
  "active_user (d\<lparr>t_credentials := v7\<rparr>) w = active_user d w"
  "active_user (d\<lparr>t_external_identities := v8\<rparr>) w = active_user d w"
  by (simp_all add: active_user_def)

lemma active_user_update:
  assumes "active_user d w" and "\<And>u. usr_id (f u) = usr_id u"
    and "\<And>u. p u \<Longrightarrow> usr_id u = w \<Longrightarrow> usr_active u \<Longrightarrow> usr_active (f u)"
    and "\<And>u. p u \<Longrightarrow> usr_id u = w \<Longrightarrow> usr_deleted_at (f u) = usr_deleted_at u"
  shows "active_user (d\<lparr>t_users := update_where p f (t_users d)\<rparr>) w"
proof -
  obtain u where u: "u \<in> set (t_users d)" "usr_id u = w" "usr_active u" "usr_deleted_at u = None"
    using assms(1) by (auto simp: active_user_def)
  let ?u = "if p u then f u else u"
  have "?u \<in> set (update_where p f (t_users d))" using u(1) by (auto simp: set_update_where)
  moreover have "usr_id ?u = w \<and> usr_active ?u \<and> usr_deleted_at ?u = None"
    using u assms(2,3,4) by simp
  ultimately show ?thesis unfolding active_user_def by auto
qed

lemma no_narrower_users:
  assumes "no_narrower d0 d" and "\<And>u. usr_id (f u) = usr_id u"
    and "\<And>u. usr_active u \<Longrightarrow> usr_active (f u)" and "\<And>u. usr_deleted_at (f u) = usr_deleted_at u"
  shows "no_narrower d0 (d\<lparr>t_users := update_where p f (t_users d)\<rparr>)"
  using assms by (simp add: no_narrower_def active_user_update)

lemma keeps_no_narrower_inserts [keeps_intros]:
  "keeps (no_narrower d0) (insert_identity i)"
  "keeps (no_narrower d0) (insert_group g)" "keeps (no_narrower d0) (insert_mapping m)"
  "keeps (no_narrower d0) (insert_credential c)" "keeps (no_narrower d0) (insert_role r)"
  "keeps (no_narrower d0) (insert_permission rid res v)"
  "keeps (no_narrower d0) (insert_assignment a)" "keeps (no_narrower d0) (group_add_member gid uid)"
  by (rule keepsI; auto simp: insert_identity_def insert_group_def
      insert_mapping_def insert_credential_def insert_role_def insert_permission_def
      insert_assignment_def group_add_member_def op_defs no_narrower_def Let_def)+

lemma keeps_no_narrower_insert_user [keeps_intros]: "keeps (no_narrower d0) (insert_user u)"
  by (rule keepsI) (auto simp: insert_user_def op_defs no_narrower_def active_user_def)

lemma keeps_no_narrower_updates [keeps_intros]:
  "keeps (no_narrower d0) (user_set_active uid True)"
  "keeps (no_narrower d0) (user_set_display_name uid n)"
  "keeps (no_narrower d0) (put (delete_credentials_of uid ty))"
  "keeps (no_narrower d0) (group_update gid n descr)" "keeps (no_narrower d0) (mapping_delete mid)"
  "keeps (no_narrower d0) (delete_api_token cid uid)"
  by (rule keepsI; simp add: user_set_active_def user_set_display_name_def group_update_def
      mapping_delete_def delete_api_token_def delete_credentials_of_def op_defs Let_def
      no_narrower_users; simp add: no_narrower_def)+

lemma keeps_no_narrower_methods [keeps_intros]:
  "keeps (no_narrower d0) (user_create uid iid un dn li now)"
  "keeps (no_narrower d0) (group_create gid slug name descr now)"
  "keeps (no_narrower d0) (mapping_create mid prov claim val rid)"
  "keeps (no_narrower d0) (set_password cid uid ph now)"
  "keeps (no_narrower d0) (create_api_token sha salt cid uid tok label e now)"
  "keeps (no_narrower d0) (delete_credentials uid ty)"
  "keeps (no_narrower d0) (assign aid st sid rid src now)"
  unfolding user_create_def group_create_def mapping_create_def set_password_def
    inserted_credential_def create_api_token_def delete_credentials_def assign_def
  by (intro keeps_intros)+

lemma keeps_no_narrower_grants [keeps_intros]:
  "keeps (no_narrower d0) (insert_permissions rid gs)"
  unfolding insert_permissions_def by (intro keeps_intros) (auto intro: keeps_intros split: prod.splits)

lemma keeps_no_narrower_roles [keeps_intros]:
  "keeps (no_narrower d0) (role_create rid slug name descr b gs now)"
  "keeps (no_narrower d0) (permission_replace_for_role rid gs)"
  unfolding role_create_def permission_replace_for_role_def
  by (intro keeps_intros keeps_put; simp add: no_narrower_def)+

section \<open>Methods that take away\<close>

lemma admin_by_frame:
  assumes "admin_by d w" and "t_roles d' = t_roles d" and "active_user d w \<Longrightarrow> active_user d' w"
    and "\<And>r. r \<in> set (t_roles d) \<Longrightarrow> rol_slug r = role_slug_value ADMIN \<Longrightarrow>
           held d w (rol_id r) \<Longrightarrow> held d' w (rol_id r)"
  shows "admin_by d' w"
  using assms unfolding admin_by_def by metis

lemma admin_by_deactivated:
  "admin_by d w \<Longrightarrow> w \<noteq> uid \<Longrightarrow> admin_by (snd (user_set_active uid b d)) w"
  by (rule admin_by_frame) (auto simp: user_set_active_def op_defs intro!: active_user_update)

lemma admin_by_soft_delete:
  assumes "admin_by d w" and "w \<noteq> uid"
  shows "admin_by (snd (user_soft_delete uid t d)) w"
proof (rule admin_by_frame [OF assms(1)])
  let ?d = "d\<lparr>t_users := t_users (tombstone uid t d)\<rparr>"
  assume "active_user d w"
  then have "active_user ?d w"
    using assms(2) unfolding tombstone_def by (auto intro!: active_user_update)
  then show "active_user (snd (user_soft_delete uid t d)) w"
    by (simp add: user_soft_delete_def op_defs active_user_def)
qed (use assms(2) in \<open>auto simp: user_soft_delete_def tombstone_def op_defs held_def\<close>)

lemma admin_by_unassign:
  assumes "admin_by d w" and "db_ok d" and "r \<in> set (t_roles d)"
    and "rol_slug r = role_slug_value ADMIN \<Longrightarrow> st = USER \<and> w \<noteq> sid
           \<or> st = GROUP \<and> (w, sid) \<notin> set (t_user_groups d)"
  shows "admin_by (snd (unassign st sid (rol_id r) None d)) w"
proof (rule admin_by_frame [OF assms(1)])
  fix q assume q: "q \<in> set (t_roles d)" "rol_slug q = role_slug_value ADMIN" "held d w (rol_id q)"
  show "held (snd (unassign st sid (rol_id r) None d)) w (rol_id q)"
  proof (cases "rol_id q = rol_id r")
    case True
    then have "q = r" using q(1) assms(2,3) role_by_id by blast
    with q assms(4) show ?thesis
      by (fastforce simp: unassign_def op_defs held_def assignment_key_def)
  next
    case False
    with q(3) show ?thesis by (fastforce simp: unassign_def op_defs held_def assignment_key_def)
  qed
qed (simp_all add: unassign_def op_defs)

lemma carries_admin_iff:
  "carries_admin d gid \<longleftrightarrow> (\<exists>r \<in> set (t_roles d). rol_slug r = role_slug_value ADMIN
     \<and> (\<exists>a \<in> set (t_role_assignments d). ra_role_id a = rol_id r \<and> ra_subject_type a = GROUP
          \<and> ra_subject_id a = gid))"
  by (auto simp: carries_admin_def list_for_subject_def)

lemma member_ids_iff: "w \<in> member_ids d gid \<longleftrightarrow>
   (\<exists>u \<in> set (t_users d). usr_id u = w) \<and> (w, gid) \<in> set (t_user_groups d)"
proof -
  have "u \<in> set (group_list_members d gid) \<longleftrightarrow> u \<in> set (t_users d) \<and> (usr_id u, gid) \<in> set (t_user_groups d)" for u
    by (force simp: group_list_members_def)
  then show ?thesis by (auto simp: member_ids_def)
qed

lemma admin_by_member: "admin_by d w \<Longrightarrow> w \<notin> member_ids d gid \<Longrightarrow> (w, gid) \<notin> set (t_user_groups d)"
  by (auto simp: admin_by_def active_user_def member_ids_iff)

lemma admin_by_group_delete:
  assumes "admin_by d w" and "carries_admin d gid \<Longrightarrow> (w, gid) \<notin> set (t_user_groups d)"
  shows "admin_by (snd (group_delete gid d)) w"
  using assms(2)
  by (intro admin_by_frame [OF assms(1)])
     (fastforce simp: group_delete_def delete_group_def op_defs held_def carries_admin_iff)+

lemma admin_by_remove_member:
  assumes "admin_by d w" and "carries_admin d gid \<Longrightarrow> w \<noteq> uid"
  shows "admin_by (snd (group_remove_member gid uid d)) w"
  using assms(2)
  by (intro admin_by_frame [OF assms(1)])
     (fastforce simp: group_remove_member_def op_defs held_def carries_admin_iff)+

lemma admin_by_role_delete:
  assumes "admin_by d w" and "db_ok d"
  shows "admin_by (snd (role_delete rid d)) w"
proof -
  consider "snd (role_delete rid d) = d"
    | r where "role_get d rid = Some r" and "\<not> rol_builtin r" and "snd (role_delete rid d) = delete_role rid d"
  proof (cases "role_get d rid")
    case (Some r)
    then show thesis
      using that by (cases "filter (\<lambda>a. ra_role_id a = rid) (t_role_assignments d) = []"; cases "rol_builtin r")
        (auto simp: role_delete_def op_defs)
  qed (use that in \<open>simp add: role_delete_def op_defs\<close>)
  then show ?thesis
  proof cases
    case 2
    then have r: "r \<in> set (t_roles d)" "rol_id r = rid" "\<not> rol_builtin r"
      by (auto simp: role_get_def dest: find_in_set)
    obtain q where q: "q \<in> set (t_roles d)" "rol_slug q = role_slug_value ADMIN" "rol_builtin q"
        "held d w (rol_id q)" and u: "active_user d w"
      using assms(1) by (auto simp: admin_by_def)
    then have "rol_id q \<noteq> rid" using r assms(2) role_by_id by metis
    then have "q \<in> set (t_roles (delete_role rid d))" and "held (delete_role rid d) w (rol_id q)"
      using q by (auto simp: delete_role_def held_def)
    then show ?thesis
      using q u unfolding 2(3) admin_by_def by (auto simp: active_user_def delete_role_def)
  qed (use assms in simp)
qed

section \<open>Every route\<close>

lemma keeps_admin_display_name [keeps_intros]:
  "keeps (\<lambda>s. admin_by s w) (user_set_display_name uid n)"
proof (rule keepsI)
  fix s assume "admin_by s w"
  then show "admin_by (snd (user_set_display_name uid n s)) w"
    using keepsD [OF keeps_no_narrower_updates(2) no_narrower_refl] no_narrower_admin by blast
qed

lemma update_user_recoverable:
  assumes ok: "db_ok d" "recoverable d"
  shows "recoverable (snd (route_update_user uid dn active d))"
proof -
  let ?rest = "\<lambda>u. op_then (case dn of None \<Rightarrow> ret () | Some n \<Rightarrow> user_set_display_name (usr_id u) n)
     (op_then (case active of None \<Rightarrow> ret () | Some b \<Rightarrow> user_set_active (usr_id u) b)
     (op_bind (asks (\<lambda>d. user_get d (usr_id u))) (\<lambda>r. case r of
          None \<Rightarrow> raise AssertionError | Some refreshed \<Rightarrow> ret refreshed)))"
  have "recoverable (snd (?rest u d))"
    if g: "active = Some False \<Longrightarrow> assert_admin_remains {usr_id u} d = (Inr x, d)" for u x
  proof (cases "active = Some False")
    case True
    obtain w where w: "admin_by d w" "w \<noteq> usr_id u" using survivor [OF ok g [OF True]] by blast
    have "keeps (\<lambda>s. admin_by s w) (user_set_active (usr_id u) False)"
      using w(2) by (intro keepsI admin_by_deactivated) auto
    then have "keeps (\<lambda>s. admin_by s w) (?rest u)"
      unfolding True option.case by (intro keeps_intros)
    then have "admin_by (snd (?rest u d)) w" using w(1) by (rule keepsD [where P = "\<lambda>s. admin_by s w"])
    then show ?thesis by (auto simp: recoverable_def)
  next
    case False
    have a: "keeps (no_narrower d) (case active of None \<Rightarrow> ret () | Some b \<Rightarrow> user_set_active (usr_id u) b)"
    proof (cases active)
      case (Some b)
      with False have "active = Some True" by (cases b) auto
      then show ?thesis by (simp add: keeps_no_narrower_updates)
    qed (simp add: keeps_ret)
    have "keeps (no_narrower d) (?rest u)" by (intro a keeps_intros)
    then show ?thesis using ok(2) by (rule keeps_recoverable)
  qed
  then have "recoverable (snd (?rest u d))"
    if "(if active = Some False then assert_admin_remains {usr_id u} else ret ()) d = (Inr x, d)" for u x
    using that by (cases "active = Some False") (simp_all del: One_nat_def)
  then show ?thesis
    unfolding route_update_user_def
    by (intro through_bind [where Q = recoverable and m = "get_live_user uid"]
          through_then [where Q = recoverable and m = "if _ then _ else _"] ok)
       (simp_all add: ret_def)
qed

lemma delete_user_recoverable:
  assumes ok: "db_ok d" "recoverable d"
  shows "recoverable (snd (route_delete_user uid t d))"
  unfolding route_delete_user_def
proof (intro through_bind [where Q = recoverable] through_then [where Q = recoverable] ok)
  fix u x assume g: "assert_admin_remains {usr_id u} d = (Inr x, d)"
  obtain w where "admin_by d w" "w \<noteq> usr_id u" using survivor [OF ok g] by blast
  then show "recoverable (snd (user_soft_delete (usr_id u) (iso t) d))"
    by (intro recoverableI admin_by_soft_delete)
qed simp_all

lemma unassign_user_recoverable:
  assumes ok: "db_ok d" "recoverable d"
  shows "recoverable (snd (route_unassign_from_user uid rid d))"
  unfolding route_unassign_from_user_def
proof (intro through_bind [where Q = recoverable] through_then [where Q = recoverable] ok)
  fix r x
  assume r: "get_role_or_404 rid d = (Inr r, d)"
    and g: "(if rol_slug r = role_slug_value ADMIN then assert_admin_remains {uid} else ret ()) d = (Inr x, d)"
  obtain w where "admin_by d w" and "rol_slug r = role_slug_value ADMIN \<Longrightarrow> w \<noteq> uid"
  proof (cases "rol_slug r = role_slug_value ADMIN")
    case True
    then have "assert_admin_remains {uid} d = (Inr x, d)" using g by simp
    then show thesis using survivor [OF ok] that by blast
  qed (use ok that in \<open>auto simp: recoverable_def\<close>)
  then have "admin_by (snd (unassign USER uid (rol_id r) None d)) w"
    by (intro admin_by_unassign ok(1)) (use role_or_404_ok [OF r] in blast)+
  then show "recoverable (snd (unassign USER uid (rol_id r) None d))"
    by (rule recoverableI)
qed (simp_all add: ret_def)

lemma unassign_group_recoverable:
  assumes ok: "db_ok d" "recoverable d"
  shows "recoverable (snd (route_unassign_from_group gid rid d))"
  unfolding route_unassign_from_group_def
proof (intro through_bind [where Q = recoverable] through_then [where Q = recoverable] ok)
  fix r x
  assume r: "get_role_or_404 rid d = (Inr r, d)"
    and g: "(if rol_slug r = role_slug_value ADMIN then (\<lambda>d. assert_admin_remains (member_ids d gid) d)
             else ret ()) d = (Inr x, d)"
  obtain w where "admin_by d w"
    and "rol_slug r = role_slug_value ADMIN \<Longrightarrow> (w, gid) \<notin> set (t_user_groups d)"
  proof (cases "rol_slug r = role_slug_value ADMIN")
    case True
    then have "assert_admin_remains (member_ids d gid) d = (Inr x, d)" using g by simp
    then obtain w where "admin_by d w" "w \<notin> member_ids d gid" by (rule survivor [OF ok])
    then show thesis using that [of w] admin_by_member by blast
  qed (use ok that in \<open>auto simp: recoverable_def\<close>)
  then have "admin_by (snd (unassign GROUP gid (rol_id r) None d)) w"
    by (intro admin_by_unassign ok(1)) (use role_or_404_ok [OF r] in blast)+
  then show "recoverable (snd (unassign GROUP gid (rol_id r) None d))"
    by (rule recoverableI)
qed (simp_all add: ret_def)

lemma delete_group_recoverable:
  assumes ok: "db_ok d" "recoverable d"
  shows "recoverable (snd (route_delete_group gid d))"
  unfolding route_delete_group_def
proof (intro through_then [where Q = recoverable] ok)
  fix x y assume g: "guard_admin_group_delete gid d = (Inr y, d)"
  obtain w where "admin_by d w" and "carries_admin d gid \<Longrightarrow> (w, gid) \<notin> set (t_user_groups d)"
  proof (cases "carries_admin d gid")
    case True
    then have "assert_admin_remains (member_ids d gid) d = (Inr y, d)"
      using g by (simp add: guard_admin_group_delete_def)
    then obtain w where "admin_by d w" "w \<notin> member_ids d gid" by (rule survivor [OF ok])
    then show thesis using that [of w] admin_by_member by blast
  qed (use ok that in \<open>auto simp: recoverable_def\<close>)
  then show "recoverable (snd (group_delete gid d))"
    by (intro recoverableI admin_by_group_delete)
qed simp_all

lemma remove_member_recoverable:
  assumes ok: "db_ok d" "recoverable d"
  shows "recoverable (snd (route_remove_member gid uid d))"
  unfolding route_remove_member_def
proof (intro through_then [where Q = recoverable] ok)
  fix x y assume g: "(if carries_admin d gid then assert_admin_remains {uid} d else ret () d) = (Inr y, d)"
  obtain w where "admin_by d w" and "carries_admin d gid \<Longrightarrow> w \<noteq> uid"
  proof (cases "carries_admin d gid")
    case True
    then show thesis using g survivor [OF ok] that by auto
  qed (use ok that in \<open>auto simp: recoverable_def\<close>)
  then show "recoverable (snd (group_remove_member gid uid d))"
    by (intro recoverableI admin_by_remove_member)
qed (simp_all add: ret_def)

lemma delete_role_recoverable:
  assumes ok: "db_ok d" "recoverable d"
  shows "recoverable (snd (route_delete_role rid d))"
  unfolding route_delete_role_def
proof (intro through_then [where Q = recoverable] ok)
  show "recoverable (snd (role_delete rid d))"
    using ok admin_by_role_delete unfolding recoverable_def by blast
qed simp

lemmas recoverable_routes = update_user_recoverable delete_user_recoverable
  unassign_user_recoverable unassign_group_recoverable delete_group_recoverable
  remove_member_recoverable delete_role_recoverable

lemma grant_step_recoverable: "grant_step c d d' \<Longrightarrow> db_ok d \<Longrightarrow> recoverable d \<Longrightarrow> recoverable d'"
proof (induction rule: grant_step.induct)
qed ((rule recoverable_routes, assumption, assumption
  | rule keeps_recoverable,
    (rule keeps_routes; intro keeps_intros), assumption)+)

lemma management_step_recoverable:
  "management_step c d d' \<Longrightarrow> db_ok d \<Longrightarrow> recoverable d \<Longrightarrow> recoverable d'"
proof (induction rule: management_step.induct)
  case (add_member d gid uid)
  have "keeps (no_narrower d) (route_add_member gid uid)"
    unfolding route_add_member_def by (intro keeps_intros)
  then show ?case using add_member(2) by (rule keeps_recoverable)
qed (rule grant_step_recoverable)

end
