(* ===== verification/Governance.thy ===== *)
theory Governance
  imports LastAdmin
begin

text \<open>
  The two guarantees of the management API, with the organisation they are tried on, and
  the one route that escapes the first.
\<close>

section \<open>A small organisation\<close>

text \<open>\<open>bob\<close> is the only admin, through the group \<open>staff\<close>; \<open>ann\<close> holds \<open>maintain\<close>.\<close>

definition mk_role :: "string \<Rightarrow> role" where
  "mk_role s = \<lparr>rol_id = s, rol_slug = s, rol_name = s, rol_description = [], rol_builtin = True,
     rol_created_at = 0\<rparr>"

definition mk_user :: "string \<Rightarrow> user" where
  "mk_user s = \<lparr>usr_id = s, usr_username = s, usr_display_name = [], usr_active = True,
     usr_created_at = 0, usr_deleted_at = None\<rparr>"

definition mk_grant :: "string \<Rightarrow> string \<Rightarrow> verb \<Rightarrow> role_permission" where
  "mk_grant rid res v = \<lparr>rp_role_id = rid, rp_resource = res, rp_verb = v\<rparr>"

definition mk_assignment :: "string \<Rightarrow> subject_type \<Rightarrow> string \<Rightarrow> string \<Rightarrow> role_assignment" where
  "mk_assignment i st sid rid = \<lparr>ra_id = i, ra_subject_type = st, ra_subject_id = sid,
     ra_role_id = rid, ra_created_at = 0, ra_source = local_source\<rparr>"

definition org :: db where
  "org = empty_db\<lparr>
     t_resources := [\<lparr>res_name = ''auth.groups'', res_description = [], res_registered_at = 0,
                      res_verbs = {PUT}\<rparr>],
     t_roles := [mk_role ''admin'', mk_role ''maintain'', mk_role ''read''],
     t_role_permissions := [mk_grant ''admin'' ''auth.groups'' PUT, mk_grant ''maintain'' ''auth.groups'' PUT],
     t_users := [mk_user ''ann'', mk_user ''bob'', mk_user ''cy''],
     t_groups := [\<lparr>grp_id = ''staff'', grp_slug = ''staff'', grp_name = [], grp_description = [],
                   grp_created_at = 0\<rparr>],
     t_user_groups := [(''bob'', ''staff'')],
     t_role_assignments := [mk_assignment ''1'' GROUP ''staff'' ''admin'',
                            mk_assignment ''2'' USER ''ann'' ''maintain'']\<rparr>"

definition ann :: principal where
  "ann = \<lparr>pr_user = mk_user ''ann'', pr_role_ids = {''maintain''}, pr_role_slugs = {''maintain''},
     pr_auth_method = API_TOKEN_METHOD, pr_sudo_active = True, pr_sudo_grant_id = Some ''g''\<rparr>"

lemmas org_defs = org_def mk_role_def mk_user_def mk_grant_def mk_assignment_def empty_db_def
  local_source_def

lemma org_ok: "db_ok org"
  by (simp add: db_ok_def ok_defs org_defs unique_by_def assignment_key_def subject_exists_def)

lemma org_recoverable: "recoverable org"
  by (rule recoverableI [where w = "''bob''"])
     (simp add: admin_by_def active_user_def held_def org_defs)

section \<open>No escalation\<close>



text \<open>
  The exception. A caller that holds only \<open>maintain\<close> passes the authorization of the route,
  adds itself to a group that carries \<open>admin\<close> and is an admin from then on.
\<close>

lemma add_member_escalates:
  "\<not> is_admin_caller ann
   \<and> fst (authorize ann ''auth.groups'' PUT True org) = Inr ()
   \<and> \<not> holds_admin org ''ann''
   \<and> fst (route_add_member ''staff'' ''ann'' org) = Inr ()
   \<and> holds_admin (snd (route_add_member ''staff'' ''ann'' org)) ''ann''"
proof -
  have "\<not> is_admin_caller ann \<and> fst (authorize ann ''auth.groups'' PUT True org) = Inr ()"
    by (simp add: authorize_def effective_verbs_def is_admin_caller_def ann_def org_defs ret_def)
  moreover have "\<not> holds_admin org ''ann''"
    by (simp add: holds_admin_iff held_def org_defs)
  moreover have "route_add_member ''staff'' ''ann'' org
      = (Inr (), org\<lparr>t_user_groups := t_user_groups org @ [(''ann'', ''staff'')]\<rparr>)"
    by (simp add: route_add_member_def get_group_or_404_def group_get_def group_add_member_def
        op_defs org_defs)
  moreover have "holds_admin (org\<lparr>t_user_groups := t_user_groups org @ [(''ann'', ''staff'')]\<rparr>) ''ann''"
    by (simp add: holds_admin_iff held_def org_defs)
  ultimately show ?thesis by simp
qed

section \<open>The last admin\<close>

definition any_step :: "db \<Rightarrow> db \<Rightarrow> bool" where
  "any_step d d' \<longleftrightarrow> (\<exists>c. management_step c d d')"

text \<open>
  C4. The last admin stays: from a consistent database in which some active, undeleted user
  holds the builtin \<open>admin\<close> role, every sequence of management routes, by any callers, with
  any arguments and whatever each returned, leads to a consistent database in which some
  active, undeleted user holds it.
\<close>

theorem admin_always_remains:
  assumes "any_step\<^sup>*\<^sup>* d d'" and "db_ok d" and "recoverable d"
  shows "db_ok d' \<and> recoverable d'"
  using assms
proof (induction rule: rtranclp_induct)
  case (step d1 d2)
  then show ?case
    using management_step_db_ok management_step_recoverable by (auto simp: any_step_def)
qed simp

theorem admin_always_remains_witness:
  "db_ok (snd (route_delete_user ''bob'' 7 (snd (route_delete_group ''staff'' org))))
   \<and> recoverable (snd (route_delete_user ''bob'' 7 (snd (route_delete_group ''staff'' org))))"
proof (rule admin_always_remains [OF _ org_ok org_recoverable])
  have "any_step org (snd (route_delete_group ''staff'' org))"
    and "any_step d (snd (route_delete_user ''bob'' 7 d))" for d
    unfolding any_step_def
    by (blast intro: management_step.grant grant_step.delete_group grant_step.delete_user)+
  then show "any_step\<^sup>*\<^sup>* org (snd (route_delete_user ''bob'' 7 (snd (route_delete_group ''staff'' org))))"
    by (meson rtranclp.rtrancl_into_rtrancl rtranclp.rtrancl_refl)
qed

end
