(* ===== verification/Login.thy ===== *)
theory Login
  imports Lockout Governance
begin

text \<open>
  \<open>auth/login_throttle.py\<close> and the synchronous sequence of \<open>POST /auth/login\<close>
  (\<open>api/routes/login.py\<close>). The dummy hash that equalises timing has no effect and is left
  out.
\<close>

section \<open>The throttle\<close>

record login_policy =
  lg_max_per_username :: nat
  lg_max_per_ip :: nat
  lg_window :: int
  lg_lockout :: int
  lg_token_ttl :: int

definition throttle_check :: "string \<Rightarrow> string \<Rightarrow> instant \<Rightarrow> unit db_op" where
  "throttle_check username ip now d =
     (let locks = List.map_filter (\<lambda>k. active_lock (attempt_get d k) now)
            [(USERNAME, casefold username), (IP, ip)];
          retry_afters = map (\<lambda>l. l - now) locks
      in if retry_afters = [] then ret () d
         else raise (LoginThrottledError (max 0 (Max (set retry_afters)))) d)"

definition bump_policy :: "login_policy \<Rightarrow> login_scope \<Rightarrow> lockout_policy" where
  "bump_policy pol scope = \<lparr>
     lp_max_failed = (case scope of USERNAME \<Rightarrow> lg_max_per_username pol | IP \<Rightarrow> lg_max_per_ip pol),
     lp_window = lg_window pol, lp_lockout = lg_lockout pol\<rparr>"

definition login_bump :: "login_policy \<Rightarrow> login_scope \<Rightarrow> string \<Rightarrow> instant \<Rightarrow> unit db_op" where
  "login_bump pol scope key now = bump attempt_get attempt_set (bump_policy pol scope) (scope, key) now"

definition throttle_record_failure :: "login_policy \<Rightarrow> string \<Rightarrow> string \<Rightarrow> instant \<Rightarrow> unit db_op" where
  "throttle_record_failure pol username ip now = op_then
     (attempt_delete_expired (iso now) (iso (now - lg_window pol))) (op_then
     (login_bump pol USERNAME (casefold username) now)
     (login_bump pol IP ip now))"

definition throttle_record_success :: "string \<Rightarrow> string \<Rightarrow> unit db_op" where
  "throttle_record_success username ip = op_then
     (attempt_clear (USERNAME, casefold username)) (attempt_clear (IP, ip))"

section \<open>The login sequence\<close>

definition login_refused :: "db \<Rightarrow> user option \<Rightarrow> bool" where
  "login_refused d u \<longleftrightarrow> (case u of
     None \<Rightarrow> True
   | Some u \<Rightarrow> \<not> usr_active u \<or> usr_deleted_at u \<noteq> None \<or> is_bootstrap_identity d (usr_id u))"

definition login_token_label :: string where
  "login_token_label = ''password login''"

definition login ::
  "(string \<Rightarrow> string \<Rightarrow> bool) \<Rightarrow> (string \<Rightarrow> string) \<Rightarrow> string \<Rightarrow> string \<Rightarrow> string \<Rightarrow> login_policy
   \<Rightarrow> string \<Rightarrow> string \<Rightarrow> string \<Rightarrow> instant \<Rightarrow> (credential \<times> string) option db_op" where
  "login argon2_verify sha256 salt credential_id token pol username password ip now = op_then
     (throttle_check username ip now)
     (op_bind (asks (\<lambda>d. user_get_by_username d username)) (\<lambda>u.
      op_bind (asks (\<lambda>d. login_refused d u)) (\<lambda>refused.
      if refused then op_then (throttle_record_failure pol username ip now) (ret None)
      else case u of
          None \<Rightarrow> raise AssertionError
        | Some u \<Rightarrow> op_bind (asks (\<lambda>d. has_credential d (usr_id u) PASSWORD)) (\<lambda>has.
            if \<not> has then op_then (throttle_record_failure pol username ip now) (ret None)
            else op_bind (asks (\<lambda>d. verify_password argon2_verify d (usr_id u) password)) (\<lambda>ok.
              if \<not> ok then op_then (throttle_record_failure pol username ip now) (ret None)
              else op_then (throttle_record_success username ip)
                (op_bind (issue_token sha256 salt credential_id token (usr_id u) login_token_label
                    (Some (lg_token_ttl pol)) now) (\<lambda>issued. ret (Some issued))))))))"

section \<open>The throttle's arithmetic\<close>

lemma check_passes_iff:
  "throttle_check u ip now d = (Inr x, d') \<longleftrightarrow>
   d' = d \<and> active_lock (attempt_get d (USERNAME, casefold u)) now = None
   \<and> active_lock (attempt_get d (IP, ip)) now = None"
  by (auto simp: throttle_check_def List.map_filter_def ret_def raise_def Let_def)

lemma check_pure [simp]: "snd (throttle_check u ip now d) = d"
  by (simp add: throttle_check_def ret_def raise_def Let_def)

lemma check_refuses:
  assumes "active_lock (attempt_get d k) now = Some l" and "k \<in> {(USERNAME, casefold u), (IP, ip)}"
  shows "\<exists>r. throttle_check u ip now d = (Inl (LoginThrottledError r), d) \<and> l - now \<le> r"
proof -
  let ?locks = "List.map_filter (\<lambda>k. active_lock (attempt_get d k) now)
      [(USERNAME, casefold u), (IP, ip)]"
  have "l \<in> set ?locks" using assms by (auto simp: List.map_filter_def)
  then have "l - now \<in> set (map (\<lambda>l. l - now) ?locks)" by simp
  then have "l - now \<le> Max (set (map (\<lambda>l. l - now) ?locks))" by (intro Max_ge) auto
  moreover have "map (\<lambda>l. l - now) ?locks \<noteq> []" using \<open>l \<in> set ?locks\<close> by auto
  ultimately show ?thesis unfolding throttle_check_def raise_def Let_def
    by (auto simp: max_def)
qed

text \<open>The sweep takes no bucket whose streak is still inside the window.\<close>

lemma sweep_keeps:
  assumes "\<And>b. attempt_get d k = Some b \<Longrightarrow> \<exists>f. bk_first_failed_at b = Some f \<and> before < f"
  shows "attempt_get (snd (attempt_delete_expired now before d)) k = attempt_get d k"
proof -
  have gone: "find (\<lambda>a. attempt_key a = k) (delete_where p rows) = find (\<lambda>a. attempt_key a = k) rows"
    if "\<And>a. find (\<lambda>a. attempt_key a = k) rows = Some a \<Longrightarrow> \<not> p a"
      and "p = (\<lambda>a. bucket_expired now before (la_bucket a))" for p rows
    using that
  proof (induction rows)
    case (Cons a rows)
    then show ?case by (cases "attempt_key a = k") (auto simp: delete_where_def)
  qed (simp add: delete_where_def)
  have "\<not> bucket_expired now before (la_bucket a)"
    if "find (\<lambda>a. attempt_key a = k) (t_login_attempts d) = Some a" for a
    using assms [of "la_bucket a"] that by (auto simp: attempt_get_def bucket_expired_def)
  then show ?thesis
    by (auto simp: attempt_delete_expired_def attempt_get_def op_defs gone)
qed

text \<open>The instants at which a run of failures bumps one bucket.\<close>

fun hits :: "login_scope \<times> string \<Rightarrow> string \<times> string \<times> instant \<Rightarrow> bool" where
  "hits (USERNAME, key) (u, ip, t) = (casefold u = key)"
| "hits (IP, key) (u, ip, t) = (ip = key)"

definition hit_times :: "login_scope \<times> string \<Rightarrow> (string \<times> string \<times> instant) list \<Rightarrow> instant list" where
  "hit_times k evs = map (\<lambda>(u, ip, t). t) (filter (hits k) evs)"

definition record_failures ::
  "login_policy \<Rightarrow> (string \<times> string \<times> instant) list \<Rightarrow> db \<Rightarrow> db" where
  "record_failures pol evs d = fold (\<lambda>(u, ip, t) d. snd (throttle_record_failure pol u ip t d)) evs d"

lemma op_then_returns: "fst (m s) = Inr x \<Longrightarrow> op_then m k s = k (snd (m s))"
  by (cases "m s") (simp add: op_then_def op_bind_def)

lemma record_failure_get:
  assumes "\<And>b. attempt_get d k = Some b \<Longrightarrow>
      \<exists>f. bk_first_failed_at b = Some f \<and> iso (t - lg_window pol) < f"
  shows "attempt_get (snd (throttle_record_failure pol u ip t d)) k
    = (if hits k (u, ip, t) then Some (failed_bucket (bump_policy pol (fst k)) (attempt_get d k) t)
       else attempt_get d k)"
proof -
  let ?d = "snd (attempt_delete_expired (iso t) (iso (t - lg_window pol)) d)"
  have swept: "attempt_get ?d k = attempt_get d k" using assms by (rule sweep_keeps)
  have w: "attempt_writable e j" for e j by (simp add: attempt_writable_def)
  have "fst (attempt_delete_expired (iso t) (iso (t - lg_window pol)) d) = Inr ()"
    by (simp add: attempt_delete_expired_def op_defs)
  moreover have "fst (login_bump pol USERNAME (casefold u) t ?d) = Inr ()"
    by (simp add: login_bump_def login_buckets.bump_returns [OF w])
  ultimately have "snd (throttle_record_failure pol u ip t d)
      = snd (login_bump pol IP ip t (snd (login_bump pol USERNAME (casefold u) t ?d)))"
    unfolding throttle_record_failure_def by (simp add: op_then_returns)
  then show ?thesis
    using swept by (cases k; cases "fst k")
      (auto simp: login_bump_def login_buckets.get_bump [OF w])
qed

lemma record_failures_get:
  assumes "attempt_get d k = None"
    and "\<forall>(u, ip, t) \<in> set evs. t0 \<le> t \<and> t \<le> t0 + lg_window pol - 1000"
  shows "attempt_get (record_failures pol evs d) k = streak (bump_policy pol (fst k)) (hit_times k evs) None"
  using assms(2)
proof (induction evs rule: rev_induct)
  case Nil
  show ?case using assms(1) by (simp add: record_failures_def hit_times_def)
next
  case (snoc ev evs)
  obtain u ip t where ev: "ev = (u, ip, t)" by (cases ev)
  let ?d = "record_failures pol evs d" and ?p = "bump_policy pol (fst k)"
  let ?ts = "hit_times k evs"
  have ih: "attempt_get ?d k = streak ?p ?ts None" using snoc by simp
  have open_b: "\<exists>f. bk_first_failed_at b = Some f \<and> iso (t - lg_window pol) < f"
    if "attempt_get ?d k = Some b" for b
  proof -
    have ne: "?ts \<noteq> []" using that ih by auto
    have times: "t0 \<le> s \<and> s \<le> t0 + lg_window pol - 1000" if "s \<in> set ?ts" for s
      using that snoc.prems by (auto simp: hit_times_def)
    have gt: "t0 - 1000 < parse_iso (iso (hd ?ts))"
      using parse_iso_iso_gt [of "hd ?ts"] times [of "hd ?ts"] ne by simp
    then have "\<forall>s \<in> set ?ts. s - parse_iso (iso (hd ?ts)) \<le> lp_window ?p"
      using times by (fastforce simp: bump_policy_def)
    then have "bk_first_failed_at b = Some (iso (hd ?ts))"
      using streak_within [OF ne] that ih by auto
    moreover have "t - lg_window pol < parse_iso (iso (hd ?ts))" using snoc.prems ev gt by simp
    then have "iso (t - lg_window pol) < iso (hd ?ts)"
      by (simp add: iso_def parse_iso_def div_less_iff_less_mult)
    ultimately show ?thesis by simp
  qed
  have get: "attempt_get (snd (throttle_record_failure pol u ip t ?d)) k
    = (if hits k (u, ip, t) then Some (failed_bucket ?p (attempt_get ?d k) t) else attempt_get ?d k)"
    by (rule record_failure_get) (rule open_b)
  have run: "record_failures pol (evs @ [ev]) d = snd (throttle_record_failure pol u ip t ?d)"
    by (simp add: record_failures_def ev)
  have ts: "hit_times k (evs @ [ev]) = (if hits k ev then ?ts @ [t] else ?ts)"
    by (simp add: hit_times_def ev)
  show ?case
    unfolding run ts using get ih ev by simp
qed

section \<open>What a login can do\<close>


definition quick_policy :: login_policy where
  "quick_policy = \<lparr>lg_max_per_username = 2, lg_max_per_ip = 20, lg_window = 900000000,
     lg_lockout = 900000000, lg_token_ttl = 3600000000\<rparr>"


text \<open>
  C8. A token is minted only on proof: when the login sequence returns a token, neither the
  name's nor the address's bucket is locked, the name is that of a live, undeleted account
  that is not the bootstrap identity, the submitted password verifies against its stored
  hash, and the credential is an API token of that very account, expiring after the
  configured time.
\<close>

theorem login_token_needs_password:
  assumes "login argon2_verify sha256 salt cid token pol name password ip now d = (Inr (Some issued), d')"
  shows "active_lock (attempt_get d (USERNAME, casefold name)) now = None
     \<and> active_lock (attempt_get d (IP, ip)) now = None
     \<and> (\<exists>u. user_get_by_username d name = Some u \<and> usr_active u \<and> usr_deleted_at u = None
          \<and> \<not> is_bootstrap_identity d (usr_id u)
          \<and> verify_password argon2_verify d (usr_id u) password
          \<and> snd issued = token
          \<and> credential_of_type (usr_id u) API_TOKEN (fst issued)
          \<and> cred_expires_at (fst issued) = Some (iso (now + lg_token_ttl pol)))"
proof -
  from assms obtain u where live: "user_get_by_username d name = Some u" "\<not> login_refused d (Some u)"
    and locks: "active_lock (attempt_get d (USERNAME, casefold name)) now = None"
      "active_lock (attempt_get d (IP, ip)) now = None"
    and pw: "verify_password argon2_verify d (usr_id u) password"
    and rest: "op_then (throttle_record_success name ip)
       (op_bind (issue_token sha256 salt cid token (usr_id u) login_token_label
          (Some (lg_token_ttl pol)) now) (\<lambda>issued. ret (Some issued))) d = (Inr (Some issued), d')"
    unfolding login_def
    by (elim op_then_okE)
      (auto simp: check_passes_iff op_bind_asks ret_def login_refused_def raise_def
        split: if_splits option.splits elim!: op_then_okE [where m = "throttle_record_failure _ _ _ _"])
  from rest obtain e where "issue_token sha256 salt cid token (usr_id u) login_token_label
      (Some (lg_token_ttl pol)) now e = (Inr issued, d')"
    by (elim op_then_okE op_bind_okE) (auto simp: ret_def)
  then have "snd issued = token \<and> credential_of_type (usr_id u) API_TOKEN (fst issued)
      \<and> cred_expires_at (fst issued) = Some (iso (now + lg_token_ttl pol))"
    by (auto dest!: issue_token_ok simp: credential_of_type_def)
  then show ?thesis
    using live locks pw by (auto simp: login_refused_def)
qed

definition login_org :: db where
  "login_org = org\<lparr>t_credentials := [\<lparr>cred_id = ''p'', cred_user_id = ''ann'', cred_type = PASSWORD,
     cred_hash = ''secret'', cred_salt = None, cred_label = [], cred_created_at = 0,
     cred_last_used_at = None, cred_expires_at = None\<rparr>]\<rparr>"

theorem login_token_needs_password_witness:
  "\<exists>u. user_get_by_username login_org ''ann'' = Some u
     \<and> verify_password (\<lambda>h p. h = p) login_org (usr_id u) ''secret''"
proof -
  let ?issued = "(\<lparr>cred_id = ''c'', cred_user_id = ''ann'', cred_type = API_TOKEN, cred_hash = ''t'',
     cred_salt = Some [], cred_label = login_token_label, cred_created_at = 5,
     cred_last_used_at = None, cred_expires_at = Some 3600005\<rparr>, ''t'')"
  have "login (\<lambda>h p. h = p) (\<lambda>x. x) [] ''c'' ''t'' quick_policy ''ann'' ''secret'' ''ip'' 5000 login_org
      = (Inr (Some ?issued), login_org\<lparr>t_credentials := t_credentials login_org @ [fst ?issued]\<rparr>)"
    by (simp add: login_def throttle_check_def attempt_get_def active_lock_def List.map_filter_def
        login_refused_def user_get_by_username_def is_bootstrap_identity_def identity_get_def
        has_credential_def verify_password_def credential_of_type_def throttle_record_success_def
        attempt_clear_def issue_token_def assert_not_bootstrap_identity_def create_api_token_def
        inserted_credential_def insert_credential_def credential_get_def hash_token_def
        quick_policy_def login_org_def org_defs op_defs iso_def delete_where_def)
  from login_token_needs_password [OF this] show ?thesis by auto
qed

end
