(* ===== verification/Totp.thy ===== *)
theory Totp
  imports Prelude Auth_Model "HOL-Library.Word"
begin

text \<open>
  \<open>auth/totp.py\<close>: HOTP and TOTP on bytes (\<open>8 word\<close>), with HMAC-SHA1 as the parameter
  \<open>hmac\<close>; what the code relies on is that a digest has 20 bytes. A \<open>str\<close> that is compared
  with \<open>hmac.compare_digest\<close> must be ASCII or the call raises \<open>TypeError\<close>.
\<close>

unbundle bit_operations_syntax

type_synonym bytes = "8 word list"

section \<open>Bytes and decimal text\<close>

text \<open>\<open>struct.pack(">Q", n)\<close> and \<open>int.from_bytes(bs, "big")\<close>.\<close>

definition pack_q :: "int \<Rightarrow> err + bytes" where
  "pack_q n = (if 0 \<le> n \<and> n < 2 ^ 64
     then Inr (map (\<lambda>i. word_of_int (n div 2 ^ (8 * i))) [7, 6, 5, 4, 3, 2, 1, 0])
     else Inl StructError)"

definition from_bytes :: "bytes \<Rightarrow> nat" where
  "from_bytes bs = fold (\<lambda>b acc. acc * 256 + unat b) bs 0"

definition digit :: "nat \<Rightarrow> char" where
  "digit n = char_of (48 + n)"

fun decimal :: "nat \<Rightarrow> string" where
  "decimal n = (if n < 10 then [digit n] else decimal (n div 10) @ [digit (n mod 10)])"

declare decimal.simps [simp del]

definition zfill :: "nat \<Rightarrow> string \<Rightarrow> string" where
  "zfill w s = replicate (w - length s) CHR ''0'' @ s"

definition is_ascii :: "string \<Rightarrow> bool" where
  "is_ascii s \<longleftrightarrow> list_all (\<lambda>c. (of_char c :: nat) < 128) s"

definition compare_digest :: "string \<Rightarrow> string \<Rightarrow> err + bool" where
  "compare_digest a b = (if is_ascii a \<and> is_ascii b then Inr (a = b) else Inl TypeError)"

section \<open>HOTP and TOTP\<close>

definition hotp :: "(bytes \<Rightarrow> bytes \<Rightarrow> bytes) \<Rightarrow> bytes \<Rightarrow> int \<Rightarrow> nat \<Rightarrow> err + string" where
  "hotp hmac secret counter digits = (case pack_q counter of
     Inl e \<Rightarrow> Inl e
   | Inr counter_bytes \<Rightarrow>
       (let mac = hmac secret counter_bytes;
            offset = unat (last mac AND 0x0F);
            truncated = take 4 (drop offset mac);
            code_int = (from_bytes truncated AND 0x7FFFFFFF) mod 10 ^ digits
        in Inr (zfill digits (decimal code_int))))"

definition step_index :: "int \<Rightarrow> int \<Rightarrow> int" where
  "step_index at_time step_seconds = at_time div step_seconds"

definition totp_code ::
  "(bytes \<Rightarrow> bytes \<Rightarrow> bytes) \<Rightarrow> bytes \<Rightarrow> int \<Rightarrow> int \<Rightarrow> nat \<Rightarrow> err + string" where
  "totp_code hmac secret at_time step_seconds digits =
     hotp hmac secret (step_index at_time step_seconds) digits"

text \<open>The loop of \<open>find_valid_step\<close> over the candidate steps.\<close>

fun scan_steps ::
  "(bytes \<Rightarrow> bytes \<Rightarrow> bytes) \<Rightarrow> bytes \<Rightarrow> string \<Rightarrow> nat \<Rightarrow> int option \<Rightarrow> int list \<Rightarrow> err + int option" where
  "scan_steps hmac secret code digits floor [] = Inr None"
| "scan_steps hmac secret code digits floor (step # steps) =
     (if (case floor of None \<Rightarrow> False | Some f \<Rightarrow> step \<le> f)
      then scan_steps hmac secret code digits floor steps
      else case hotp hmac secret step digits of
          Inl e \<Rightarrow> Inl e
        | Inr candidate \<Rightarrow> (case compare_digest candidate code of
              Inl e \<Rightarrow> Inl e
            | Inr b \<Rightarrow> if b then Inr (Some step)
                       else scan_steps hmac secret code digits floor steps))"

definition find_valid_step ::
  "(bytes \<Rightarrow> bytes \<Rightarrow> bytes) \<Rightarrow> bytes \<Rightarrow> string \<Rightarrow> int \<Rightarrow> int \<Rightarrow> nat \<Rightarrow> int \<Rightarrow> int option
   \<Rightarrow> err + int option" where
  "find_valid_step hmac secret code at_time step_seconds digits window floor =
     scan_steps hmac secret code digits floor
       (map (\<lambda>delta. step_index at_time step_seconds + delta) [- window..window])"

definition default_digits :: nat where "default_digits = 6"
definition default_step_seconds :: int where "default_step_seconds = 30"
definition default_window :: int where "default_window = 1"

section \<open>The code is a decimal number of the given width\<close>

definition is_digit :: "char \<Rightarrow> bool" where
  "is_digit c \<longleftrightarrow> 48 \<le> (of_char c :: nat) \<and> of_char c \<le> (57 :: nat)"

lemma is_digit_digit: "n < 10 \<Longrightarrow> is_digit (digit n)"
  by (simp add: is_digit_def digit_def)

lemma decimal_digits: "list_all is_digit (decimal n)"
proof (induction n rule: decimal.induct)
  case (1 n)
  then show ?case by (subst decimal.simps) (simp add: is_digit_digit)
qed

lemma decimal_length: "n < 10 ^ w \<Longrightarrow> 0 < w \<Longrightarrow> length (decimal n) \<le> w"
proof (induction n arbitrary: w rule: decimal.induct)
  case (1 n)
  show ?case
  proof (cases "n < 10")
    case True
    then show ?thesis using 1(3) by (subst decimal.simps) simp
  next
    case False
    then have "10 \<le> n" by simp
    have w: "1 < w"
    proof (rule ccontr)
      assume "\<not> 1 < w"
      then have "w = 1" using 1(3) by simp
      then show False using 1(2) \<open>10 \<le> n\<close> by simp
    qed
    then have "n div 10 < 10 ^ (w - 1)"
      using 1(2) by (cases w) (auto simp: div_less_iff_less_mult mult.commute)
    then have "length (decimal (n div 10)) \<le> w - 1" using 1(1) [OF False] w by simp
    then show ?thesis using False w by (subst decimal.simps) simp
  qed
qed

lemma and_15_less: "unat (b AND 0x0F :: 8 word) < 16"
proof -
  have "b AND 0x0F = take_bit 4 b" by (simp add: take_bit_eq_mask mask_eq_exp_minus_1)
  moreover have "take_bit 4 (unat b) < 2 ^ 4" by (rule take_bit_nat_less_exp)
  ultimately show ?thesis by (simp add: unsigned_take_bit_eq)
qed

text \<open>
  The one-time code is well formed whatever the digest says: with a 20-byte MAC the
  dynamic truncation always reads four bytes inside it, and for every counter that fits in 64
  bits \<open>hotp\<close> returns exactly \<open>digits\<close> decimal digits; any other counter is a
  \<open>struct.error\<close>.
\<close>

theorem hotp_well_formed:
  assumes "\<And>m. length (hmac secret m) = 20" and "0 < digits"
  shows "(\<forall>m. length (take 4 (drop (unat (last (hmac secret m) AND 0x0F)) (hmac secret m))) = 4)
     \<and> (if 0 \<le> counter \<and> counter < 2 ^ 64
        then \<exists>code. hotp hmac secret counter digits = Inr code \<and> length code = digits
               \<and> list_all is_digit code
        else hotp hmac secret counter digits = Inl StructError)"
proof -
  have "length (take 4 (drop (unat (last (hmac secret m) AND 0x0F)) (hmac secret m))) = 4" for m
    using and_15_less [of "last (hmac secret m)"] assms(1) [of m] by simp
  moreover have "\<exists>code. hotp hmac secret counter digits = Inr code \<and> length code = digits
      \<and> list_all is_digit code" if range: "0 \<le> counter \<and> counter < 2 ^ 64"
  proof -
    obtain m where "pack_q counter = Inr m" using range by (simp add: pack_q_def)
    then have "\<exists>k. hotp hmac secret counter digits = Inr (zfill digits (decimal (k mod 10 ^ digits)))"
      by (simp add: hotp_def Let_def) blast
    then obtain n where n: "hotp hmac secret counter digits = Inr (zfill digits (decimal n))" "n < 10 ^ digits"
      by (metis mod_less_divisor zero_less_numeral zero_less_power)
    have "length (decimal n) \<le> digits" using n(2) assms(2) by (rule decimal_length)
    then have "length (zfill digits (decimal n)) = digits" by (simp add: zfill_def)
    moreover have "list_all is_digit (zfill digits (decimal n))"
      using decimal_digits [of n] by (auto simp: zfill_def list_all_iff is_digit_def)
    ultimately show ?thesis using n(1) by blast
  qed
  moreover have "hotp hmac secret counter digits = Inl StructError" if "\<not> (0 \<le> counter \<and> counter < 2 ^ 64)"
    using that by (auto simp: hotp_def pack_q_def)
  ultimately show ?thesis by simp
qed

text \<open>The digest of RFC 4226's worked example, section 5.4; its code is 872921.\<close>

definition rfc4226_mac :: bytes where
  "rfc4226_mac = [0x1f, 0x86, 0x98, 0x69, 0x0e, 0x02, 0xca, 0x16, 0x61, 0x85, 0x50, 0xef, 0x7f,
     0x19, 0xda, 0x8e, 0x94, 0x5b, 0x55, 0x5a]"

lemma rfc4226_truncation:
  "unat (last rfc4226_mac AND 0x0F) = 10" "take 4 (drop 10 rfc4226_mac) = [0x50, 0xef, 0x7f, 0x19]"
  "from_bytes [0x50, 0xef, 0x7f, 0x19] = 0x50ef7f19" "(0x50ef7f19 AND 0x7FFFFFFF) mod 10 ^ 6 = (872921::nat)"
  by (simp_all add: rfc4226_mac_def from_bytes_def)

lemma rfc4226_text: "zfill 6 (decimal 872921) = ''872921''"
  by (simp add: decimal.simps digit_def char_of_def bit_0 zfill_def)

lemma rfc4226_example:
  assumes "0 \<le> counter" and "counter < 2 ^ 64"
    and "\<And>m. pack_q counter = Inr m \<Longrightarrow> hmac key m = rfc4226_mac"
  shows "hotp hmac key counter 6 = Inr ''872921''"
  using assms by (simp add: hotp_def pack_q_def rfc4226_truncation rfc4226_text)

theorem hotp_well_formed_witness:
  "\<exists>code. hotp (\<lambda>_ _. rfc4226_mac) [] 0 6 = Inr code \<and> length code = 6 \<and> list_all is_digit code"
  using hotp_well_formed [of "\<lambda>_ _. rfc4226_mac" "[]" 6 0] by (simp add: rfc4226_mac_def)

section \<open>The accepted step\<close>

definition past_floor :: "int option \<Rightarrow> int \<Rightarrow> bool" where
  "past_floor floor step \<longleftrightarrow> (case floor of None \<Rightarrow> True | Some f \<Rightarrow> f < step)"

lemma scan_steps_Some:
  "scan_steps hmac secret code digits floor steps = Inr (Some s) \<Longrightarrow>
   s \<in> set steps \<and> past_floor floor s \<and> hotp hmac secret s digits = Inr code"
  by (induction hmac secret code digits floor steps rule: scan_steps.induct)
     (auto simp: past_floor_def compare_digest_def split: if_splits option.splits sum.splits)

lemma scan_steps_None:
  "scan_steps hmac secret code digits floor steps = Inr None \<Longrightarrow> s \<in> set steps \<Longrightarrow>
   past_floor floor s \<Longrightarrow> hotp hmac secret s digits \<noteq> Inr code"
proof (induction steps)
  case (Cons t steps)
  then show ?case
    by (cases "hotp hmac secret t digits")
      (auto simp: past_floor_def compare_digest_def split: if_splits option.splits)
qed simp

lemma candidate_steps: "set (map (\<lambda>delta. c + delta) [- w..w]) = {c - w..c + w}" for c :: int
proof -
  have "(+) c ` {- w..w} = {- w + c..w + c}" by (simp add: add.commute)
  then show ?thesis by (simp add: add.commute)
qed

lemma find_valid_step_Some:
  assumes "find_valid_step hmac secret code at_time step_seconds digits window floor = Inr (Some s)"
  shows "\<bar>s - step_index at_time step_seconds\<bar> \<le> window \<and> past_floor floor s
     \<and> hotp hmac secret s digits = Inr code"
  using scan_steps_Some assms unfolding find_valid_step_def candidate_steps by fastforce

lemma digits_ascii: "list_all is_digit s \<Longrightarrow> is_ascii s"
  by (auto simp: is_ascii_def is_digit_def list_all_iff)

lemma scan_steps_returns:
  assumes "\<And>m. length (hmac secret m) = 20" and "0 < digits" and "is_ascii code"
    and "\<forall>s \<in> set steps. 0 \<le> s \<and> s < 2 ^ 64"
  shows "\<exists>r. scan_steps hmac secret code digits floor steps = Inr r"
  using assms(4)
proof (induction steps)
  case (Cons s steps)
  obtain c where "hotp hmac secret s digits = Inr c" "list_all is_digit c"
    using hotp_well_formed [where hmac = hmac and secret = secret and digits = digits and counter = s]
      Cons.prems assms(1,2) by auto
  then show ?case using Cons digits_ascii assms(3) by (simp add: compare_digest_def)
qed simp

text \<open>
  What \<open>find_valid_step\<close> accepts. On an ASCII code it always returns; a returned step is
  within the window of the current one, strictly past the anti-replay floor, and its own code
  is the submitted text; and when it returns \<open>None\<close> no step of the window past the floor has
  that code.
\<close>

theorem find_valid_step_exact:
  assumes "\<And>m. length (hmac secret m) = 20" and "0 < digits" and "is_ascii code"
    and "now = step_index at_time step_seconds" and "window \<le> now" and "now + window < 2 ^ 64"
  shows "\<exists>r. find_valid_step hmac secret code at_time step_seconds digits window floor = Inr r
     \<and> (case r of
          Some s \<Rightarrow> \<bar>s - now\<bar> \<le> window \<and> past_floor floor s \<and> hotp hmac secret s digits = Inr code
        | None \<Rightarrow> \<forall>s. \<bar>s - now\<bar> \<le> window \<and> past_floor floor s \<longrightarrow> hotp hmac secret s digits \<noteq> Inr code)"
proof -
  let ?steps = "map (\<lambda>delta. now + delta) [- window..window]"
  have mem: "s \<in> set ?steps \<longleftrightarrow> \<bar>s - now\<bar> \<le> window" for s
    unfolding candidate_steps by auto
  then have "\<forall>s \<in> set ?steps. 0 \<le> s \<and> s < 2 ^ 64" using assms(5,6) by fastforce
  then obtain r where r: "scan_steps hmac secret code digits floor ?steps = Inr r"
    using scan_steps_returns [where hmac = hmac and secret = secret and digits = digits and code = code
        and steps = ?steps and floor = floor] assms(1-3) by blast
  have "case r of
          Some s \<Rightarrow> \<bar>s - now\<bar> \<le> window \<and> past_floor floor s \<and> hotp hmac secret s digits = Inr code
        | None \<Rightarrow> \<forall>s. \<bar>s - now\<bar> \<le> window \<and> past_floor floor s \<longrightarrow> hotp hmac secret s digits \<noteq> Inr code"
    using scan_steps_Some [of hmac secret code digits floor ?steps]
      scan_steps_None [of hmac secret code digits floor ?steps] r mem by (cases r) auto
  then show ?thesis using r by (simp add: find_valid_step_def assms(4))
qed

text \<open>Without a floor, the code of the current step is always accepted.\<close>

lemma find_valid_step_hits:
  assumes "\<And>k m. length (hmac k m) = 20" and "hotp hmac secret (step_index at_time step_seconds) 6 = Inr code"
    and "1 \<le> step_index at_time step_seconds" and "step_index at_time step_seconds + 1 < 2 ^ 64"
  shows "\<exists>s. find_valid_step hmac secret code at_time step_seconds 6 1 None = Inr (Some s)"
proof -
  let ?now = "step_index at_time step_seconds"
  let ?steps = "map (\<lambda>delta. ?now + delta) [- 1..1]"
  have "is_ascii code"
    using hotp_well_formed [where hmac = hmac and secret = secret and counter = ?now and digits = 6]
      assms digits_ascii by auto
  moreover have "\<forall>s \<in> set ?steps. 0 \<le> s \<and> s < 2 ^ 64" using assms(3,4) by auto
  ultimately obtain r where r: "scan_steps hmac secret code 6 None ?steps = Inr r"
    using scan_steps_returns [where hmac = hmac and secret = secret and digits = 6 and code = code
        and steps = ?steps and floor = None] assms(1) by auto
  moreover have "?now \<in> set ?steps" by (simp add: image_iff)
  then have "r \<noteq> None"
    using scan_steps_None [of hmac secret code 6 None ?steps ?now] r assms(2) by (auto simp: past_floor_def)
  ultimately show ?thesis by (auto simp: find_valid_step_def)
qed

theorem find_valid_step_exact_witness:
  "\<exists>r. find_valid_step (\<lambda>_ _. rfc4226_mac) [] ''872921'' 300 30 6 1 (Some 9) = Inr r
     \<and> (case r of
          Some s \<Rightarrow> \<bar>s - 10\<bar> \<le> 1 \<and> past_floor (Some 9) s
            \<and> hotp (\<lambda>_ _. rfc4226_mac) [] s 6 = Inr ''872921''
        | None \<Rightarrow> \<forall>s. \<bar>s - 10\<bar> \<le> 1 \<and> past_floor (Some 9) s
            \<longrightarrow> hotp (\<lambda>_ _. rfc4226_mac) [] s 6 \<noteq> Inr ''872921'')"
  by (rule find_valid_step_exact) (simp_all add: rfc4226_mac_def is_ascii_def step_index_def)

text \<open>At step 10 with step 9 used up, the code of step 10 is accepted, at step 10.\<close>

lemma replay_moves_on:
  "find_valid_step (\<lambda>_ _. rfc4226_mac) [] ''872921'' 300 30 6 1 (Some 9) = Inr (Some 10)"
proof -
  have "[- 1..1] = [- 1, 0, 1::int]" by (simp add: upto_rec1)
  moreover have "hotp (\<lambda>_ _. rfc4226_mac) [] 10 6 = Inr ''872921''"
    by (rule rfc4226_example) simp_all
  ultimately show ?thesis
    by (simp add: find_valid_step_def step_index_def compare_digest_def is_ascii_def)
qed

end
