(* ===== verification/Sudo.thy ===== *)
theory Sudo
  imports Lockout Totp Governance
begin

text \<open>
  Step-up (\<open>auth/step_up.py\<close>) and the sudo service (\<open>auth/sudo.py\<close>). A verifier is the record
  of its three methods; the registry is the ordered list of verifiers. HMAC, argon2, the
  envelope decryption (\<open>None\<close> is \<open>DecryptionError\<close>) and the clock readings are arguments: the
  service and the TOTP verifier each read their own clock.
\<close>

section \<open>Verifiers\<close>

type_synonym payload = "(string \<times> json) list"

record verifier =
  vf_name :: string
  vf_verify :: "principal \<Rightarrow> payload \<Rightarrow> bool db_op"
  vf_enrolled :: "db \<Rightarrow> principal \<Rightarrow> bool"

text \<open>A \<open>payload.get(key)\<close> that must be a non-empty \<open>str\<close>.\<close>

definition text_field :: "payload \<Rightarrow> string \<Rightarrow> string option" where
  "text_field payload key = (case map_of payload key of
       Some (JStr s) \<Rightarrow> if s = [] then None else Some s
     | _ \<Rightarrow> None)"

definition uid :: "principal \<Rightarrow> string" where
  "uid p = usr_id (pr_user p)"

definition password_verifier :: "(string \<Rightarrow> string \<Rightarrow> bool) \<Rightarrow> verifier" where
  "password_verifier argon2_verify = \<lparr>
     vf_name = ''password'',
     vf_verify = (\<lambda>p payload. case text_field payload ''password'' of
         None \<Rightarrow> ret False
       | Some pw \<Rightarrow> asks (\<lambda>d. verify_password argon2_verify d (uid p) pw)),
     vf_enrolled = (\<lambda>d p. has_credential d (uid p) PASSWORD)\<rparr>"

text \<open>\<open>int(credential.last_used_at)\<close>: the text of an instant is no integer literal.\<close>

definition replay_floor :: "credential \<Rightarrow> err + int option" where
  "replay_floor c = (case cred_last_used_at c of
       None \<Rightarrow> Inr None
     | Some (Step n) \<Rightarrow> Inr (Some n)
     | Some (At _) \<Rightarrow> Inl ValueError)"

definition lift_result :: "err + 'a \<Rightarrow> 'a db_op" where
  "lift_result r = (case r of Inl e \<Rightarrow> raise e | Inr x \<Rightarrow> ret x)"

definition totp_verify ::
  "(bytes \<Rightarrow> bytes \<Rightarrow> bytes) \<Rightarrow> (string \<Rightarrow> bytes \<Rightarrow> bytes option) \<Rightarrow> bytes option \<Rightarrow> instant
   \<Rightarrow> principal \<Rightarrow> payload \<Rightarrow> bool db_op" where
  "totp_verify hmac decrypt key now p payload = (case text_field payload ''code'' of
       None \<Rightarrow> ret False
     | Some code \<Rightarrow> (case key of
         None \<Rightarrow> ret False
       | Some key \<Rightarrow> op_bind (asks (\<lambda>d. get_totp_secret d (uid p))) (\<lambda>credential. case credential of
           None \<Rightarrow> ret False
         | Some c \<Rightarrow> (case decrypt (cred_hash c) key of
             None \<Rightarrow> ret False
           | Some secret \<Rightarrow> op_bind (lift_result (replay_floor c)) (\<lambda>not_before.
               op_bind (lift_result (find_valid_step hmac secret code (now div 10 ^ 6)
                   default_step_seconds default_digits default_window not_before))
                 (\<lambda>matched. case matched of
                     None \<Rightarrow> ret False
                   | Some step \<Rightarrow> op_then (touch_last_used (cred_id c) (Step step)) (ret True)))))))"

definition totp_verifier ::
  "(bytes \<Rightarrow> bytes \<Rightarrow> bytes) \<Rightarrow> (string \<Rightarrow> bytes \<Rightarrow> bytes option) \<Rightarrow> bytes option \<Rightarrow> instant
   \<Rightarrow> verifier" where
  "totp_verifier hmac decrypt key now = \<lparr>
     vf_name = ''totp'',
     vf_verify = totp_verify hmac decrypt key now,
     vf_enrolled = (\<lambda>d p. has_credential d (uid p) TOTP)\<rparr>"

definition for_principal :: "verifier list \<Rightarrow> db \<Rightarrow> principal \<Rightarrow> verifier list" where
  "for_principal registry d p = filter (\<lambda>v. vf_enrolled v d p) registry"

definition build_step_up_verifiers ::
  "(string \<Rightarrow> string \<Rightarrow> bool) \<Rightarrow> (bytes \<Rightarrow> bytes \<Rightarrow> bytes) \<Rightarrow> (string \<Rightarrow> bytes \<Rightarrow> bytes option)
   \<Rightarrow> bytes option \<Rightarrow> instant \<Rightarrow> verifier list" where
  "build_step_up_verifiers argon2_verify hmac decrypt key now =
     [password_verifier argon2_verify, totp_verifier hmac decrypt key now]"

section \<open>The sudo service\<close>

record issued_grant =
  ig_token :: string
  ig_grant_id :: string
  ig_verifier :: string
  ig_expires_at :: stamp

definition resolve_factor :: "verifier list \<Rightarrow> principal \<Rightarrow> payload \<Rightarrow> verifier db_op" where
  "resolve_factor registry p payload d =
     (let factors = for_principal registry d p; available = map vf_name factors
      in case text_field payload ''factor'' of
          Some requested \<Rightarrow> (case find (\<lambda>v. vf_name v = requested) factors of
              Some v \<Rightarrow> ret v d
            | None \<Rightarrow> raise (StepUpUnavailableError available) d)
        | None \<Rightarrow> (case factors of
              [v] \<Rightarrow> ret v d
            | _ \<Rightarrow> raise (StepUpUnavailableError available) d))"

definition enrolled_factors :: "verifier list \<Rightarrow> db \<Rightarrow> principal \<Rightarrow> string list" where
  "enrolled_factors registry d p = map vf_name (for_principal registry d p)"

definition sudo_record_failure :: "lockout_policy \<Rightarrow> string \<Rightarrow> instant \<Rightarrow> unit db_op" where
  "sudo_record_failure pol user_id now = bump lockout_get lockout_set pol user_id now"

definition grant_step_up ::
  "(string \<Rightarrow> string) \<Rightarrow> string \<Rightarrow> string \<Rightarrow> string \<Rightarrow> int \<Rightarrow> string \<Rightarrow> string \<Rightarrow> instant
   \<Rightarrow> issued_grant option db_op" where
  "grant_step_up sha256 salt grant_id token ttl name user_id now = op_then (lockout_clear user_id)
     (op_bind (sudo_grant_create sha256 salt grant_id user_id token name (iso now) (iso (now + ttl)))
       (\<lambda>g. ret (Some \<lparr>ig_token = token, ig_grant_id = sg_id g, ig_verifier = name,
                        ig_expires_at = sg_expires_at g\<rparr>)))"

text \<open>\<open>step_up\<close>: \<open>ttl\<close> is \<open>ttl_seconds\<close> in microseconds.\<close>

definition step_up ::
  "(string \<Rightarrow> string) \<Rightarrow> string \<Rightarrow> string \<Rightarrow> string \<Rightarrow> lockout_policy \<Rightarrow> int \<Rightarrow> verifier list
   \<Rightarrow> principal \<Rightarrow> payload \<Rightarrow> instant \<Rightarrow> issued_grant option db_op" where
  "step_up sha256 salt grant_id token pol ttl registry p payload now =
     op_bind (asks (\<lambda>d. active_lock (lockout_get d (uid p)) now)) (\<lambda>locked. case locked of
         Some until \<Rightarrow> raise (SudoLockedOutError (max 0 (until - now)))
       | None \<Rightarrow> op_bind (resolve_factor registry p payload) (\<lambda>v.
           op_bind (vf_verify v p payload) (\<lambda>ok.
             if \<not> ok then op_then (sudo_record_failure pol (uid p) now) (ret None)
             else grant_step_up sha256 salt grant_id token ttl (vf_name v) (uid p) now)))"

definition sudo_resolve :: "(string \<Rightarrow> string) \<Rightarrow> db \<Rightarrow> string \<Rightarrow> string \<Rightarrow> instant \<Rightarrow> sudo_grant option" where
  "sudo_resolve sha256 d user_id token now = sudo_grant_find_active sha256 d user_id token (iso now)"

definition sudo_revoke_for_user :: "string \<Rightarrow> instant \<Rightarrow> unit db_op" where
  "sudo_revoke_for_user user_id now = sudo_grant_revoke_for_user user_id (iso now)"

definition sudo_revoke_all :: "instant \<Rightarrow> unit db_op" where
  "sudo_revoke_all now = sudo_grant_revoke_all (iso now)"

section \<open>What a verifier promises\<close>

text \<open>
  A check reads what it likes but writes at most the credentials table, keeps the database
  consistent, and succeeds only for a principal it counts as enrolled.
\<close>

locale step_up_verifier =
  fixes v :: verifier
  assumes touches: "\<exists>cs. snd (vf_verify v p payload d) = d\<lparr>t_credentials := cs\<rparr>"
    and keeps_ok: "keeps db_ok (vf_verify v p payload)"
    and verified_enrolled: "fst (vf_verify v p payload d) = Inr True \<Longrightarrow> vf_enrolled v d p"
begin

lemma leaves_rest:
  assumes "vf_verify v p payload d = (r, d')"
  shows "t_sudo_grants d' = t_sudo_grants d" "t_sudo_lockouts d' = t_sudo_lockouts d"
    "t_users d' = t_users d" "t_role_assignments d' = t_role_assignments d"
    "lockout_get d' u = lockout_get d u"
  using touches [of p payload d] assms by (auto simp: lockout_get_def)

end

lemma lift_result_iff [simp]: "lift_result r d = (x, d') \<longleftrightarrow> x = r \<and> d' = d"
  by (auto simp: lift_result_def raise_def ret_def split: sum.splits)

lemma snd_lift_result [simp]: "snd (lift_result r d) = d"
  by (metis lift_result_iff prod.collapse)

lemma find_credential_has: "find (credential_of_type u ty) (t_credentials d) = Some c \<Longrightarrow> has_credential d u ty"
  by (auto simp: has_credential_def find_Some_iff dest: nth_mem)

lemma touch_run:
  "touch_last_used cid l d = (Inr (), d\<lparr>t_credentials :=
     update_where (\<lambda>c. cred_id c = cid) (\<lambda>c. c\<lparr>cred_last_used_at := Some l\<rparr>) (t_credentials d)\<rparr>)"
  by (simp add: touch_last_used_def op_defs)

text \<open>What an accepted TOTP code was.\<close>

lemma totp_verify_True:
  "totp_verify hmac decrypt key now p payload d = (Inr True, d') \<longleftrightarrow>
   (\<exists>code k c secret not_before step. text_field payload ''code'' = Some code \<and> key = Some k
      \<and> get_totp_secret d (uid p) = Some c \<and> decrypt (cred_hash c) k = Some secret
      \<and> replay_floor c = Inr not_before
      \<and> find_valid_step hmac secret code (now div 10 ^ 6) default_step_seconds default_digits
          default_window not_before = Inr (Some step)
      \<and> d' = snd (touch_last_used (cred_id c) (Step step) d))"
proof -
  have body: "op_bind (lift_result r1) f d = (case r1 of Inl e \<Rightarrow> (Inl e, d) | Inr x \<Rightarrow> f x d)"
    for r1 :: "err + 'x" and f :: "'x \<Rightarrow> bool db_op"
    by (auto simp: op_bind_def lift_result_def ret_def raise_def split: sum.splits)
  have touch: "op_then (touch_last_used cid l) (ret True) d = (Inr True, snd (touch_last_used cid l d))" for cid l
    by (simp add: op_then_def op_bind_def touch_run ret_def)
  show ?thesis
    by (simp add: totp_verify_def op_bind_asks body touch split: option.split sum.split)
      (auto simp: ret_def body touch raise_def split: option.splits sum.splits)
qed

lemma verifier_simps [simp]:
  "vf_name (password_verifier a) = ''password''" "vf_name (totp_verifier h dc k t) = ''totp''"
  "vf_verify (totp_verifier h dc k t) = totp_verify h dc k t"
  "vf_enrolled (password_verifier a) d p = has_credential d (uid p) PASSWORD"
  "vf_enrolled (totp_verifier h dc k t) d p = has_credential d (uid p) TOTP"
  by (simp_all add: password_verifier_def totp_verifier_def)

lemma totp_verify_else:
  "totp_verify hmac decrypt key now p payload d = (r, d') \<Longrightarrow> r \<noteq> Inr True \<Longrightarrow> d' = d"
  by (auto simp: totp_verify_def op_bind_def asks_def ret_def op_then_def touch_run
      split: option.splits sum.splits prod.splits)

lemma keeps_totp_verify: "keeps db_ok (totp_verify hmac decrypt key now p payload)"
  unfolding totp_verify_def lift_result_def
  by (auto intro!: keeps_intros split: option.splits sum.splits)

interpretation password_step_up: step_up_verifier "password_verifier argon2_verify"
  for argon2_verify
proof
  fix p payload and d :: db
  show "\<exists>cs. snd (vf_verify (password_verifier argon2_verify) p payload d) = d\<lparr>t_credentials := cs\<rparr>"
    by (intro exI [of _ "t_credentials d"]) (auto simp: password_verifier_def ret_def asks_def split: option.split)
  show "keeps db_ok (vf_verify (password_verifier argon2_verify) p payload)"
    by (auto simp: password_verifier_def intro!: keeps_intros split: option.split)
  show "vf_enrolled (password_verifier argon2_verify) d p"
    if "fst (vf_verify (password_verifier argon2_verify) p payload d) = Inr True"
    using that by (auto simp: password_verifier_def ret_def asks_def verify_password_def
        split: option.splits dest: find_credential_has)
qed

interpretation totp_step_up: step_up_verifier "totp_verifier hmac decrypt key now"
  for hmac decrypt key now
proof
  fix p payload and d :: db
  obtain r d' where run: "totp_verify hmac decrypt key now p payload d = (r, d')" by fastforce
  have "\<exists>cs. d' = d\<lparr>t_credentials := cs\<rparr>"
  proof (cases "r = Inr True")
    case True
    then show ?thesis using run totp_verify_True by (auto simp: touch_run)
  next
    case False
    then have "d' = d\<lparr>t_credentials := t_credentials d\<rparr>" using totp_verify_else [OF run] by simp
    then show ?thesis ..
  qed
  then show "\<exists>cs. snd (vf_verify (totp_verifier hmac decrypt key now) p payload d) = d\<lparr>t_credentials := cs\<rparr>"
    using run by (simp add: totp_verifier_def)
  show "keeps db_ok (vf_verify (totp_verifier hmac decrypt key now) p payload)"
    by (simp add: totp_verifier_def keeps_totp_verify)
  show "vf_enrolled (totp_verifier hmac decrypt key now) d p"
    if "fst (vf_verify (totp_verifier hmac decrypt key now) p payload d) = Inr True"
    using that run totp_verify_True
    by (auto simp: totp_verifier_def get_totp_secret_def dest: find_credential_has)
qed

section \<open>One step-up\<close>

lemma resolve_factor_pure [simp]: "snd (resolve_factor registry p payload d) = d"
  by (simp add: resolve_factor_def Let_def ret_def raise_def split: option.split list.split)

lemma resolve_factor_ok:
  "resolve_factor registry p payload d = (Inr v, d') \<Longrightarrow> v \<in> set registry \<and> vf_enrolled v d p \<and> d' = d
     \<and> (case text_field payload ''factor'' of
          Some n \<Rightarrow> vf_name v = n | None \<Rightarrow> for_principal registry d p = [v])"
proof -
  assume ok: "resolve_factor registry p payload d = (Inr v, d')"
  have "v \<in> set (for_principal registry d p)"
  proof (cases "text_field payload ''factor''")
    case None
    then show ?thesis
      using ok by (auto simp: resolve_factor_def Let_def ret_def raise_def split: list.splits)
  next
    case (Some n)
    then have "find (\<lambda>v. vf_name v = n) (for_principal registry d p) = Some v"
      using ok by (auto simp: resolve_factor_def Let_def ret_def raise_def split: option.splits)
    then show ?thesis by (auto simp: find_Some_iff)
  qed
  moreover have "case text_field payload ''factor'' of
          Some n \<Rightarrow> vf_name v = n | None \<Rightarrow> for_principal registry d p = [v]"
    using ok by (auto simp: resolve_factor_def Let_def ret_def raise_def find_Some_iff
        split: option.splits list.splits)
  moreover have "d' = d" using ok resolve_factor_pure by (metis snd_conv)
  ultimately show ?thesis by (simp add: for_principal_def)
qed

lemma grant_step_up_ok:
  assumes "grant_step_up sha256 salt gid token ttl name u now d = (Inr r, d')"
  shows "r = Some \<lparr>ig_token = token, ig_grant_id = gid, ig_verifier = name, ig_expires_at = iso (now + ttl)\<rparr>
     \<and> t_sudo_grants d' = delete_where (\<lambda>g. sg_user_id g = u) (t_sudo_grants d) @
         [\<lparr>sg_id = gid, sg_user_id = u, sg_hash = hash_token sha256 token salt, sg_salt = salt,
           sg_verifier = name, sg_issued_at = iso now, sg_expires_at = iso (now + ttl),
           sg_revoked_at = None\<rparr>]
     \<and> lockout_get d' u = None"
proof -
  let ?g = "\<lparr>sg_id = gid, sg_user_id = u, sg_hash = hash_token sha256 token salt, sg_salt = salt,
           sg_verifier = name, sg_issued_at = iso now, sg_expires_at = iso (now + ttl),
           sg_revoked_at = None\<rparr>"
  let ?d1 = "snd (lockout_clear u d)"
  have c: "lockout_clear u d = (Inr (), ?d1)" by (simp add: prod_eq_iff sudo_buckets.clear_returns)
  obtain g where g: "sudo_grant_create sha256 salt gid u token name (iso now) (iso (now + ttl)) ?d1 = (Inr g, d')"
    and r: "r = Some \<lparr>ig_token = token, ig_grant_id = sg_id g, ig_verifier = name, ig_expires_at = sg_expires_at g\<rparr>"
    using assms unfolding grant_step_up_def op_then_ok [of "lockout_clear u" d "()" ?d1, OF c]
    by (elim op_bind_okE) (auto simp: ret_def)
  have fresh: "find (\<lambda>x. sg_id x = gid) (rows @ [?g]) = Some ?g" if "gid \<notin> sg_id ` set rows" for rows
    using find_snoc_fresh [of sg_id ?g rows] that by simp
  have "g = ?g \<and> d' = ?d1\<lparr>t_sudo_grants := delete_where (\<lambda>g. sg_user_id g = u) (t_sudo_grants ?d1) @ [?g]\<rparr>"
    using transaction_okE [OF g [unfolded sudo_grant_create_def]]
    by (auto simp: op_then_def op_bind_def put_def insert_sudo_grant_def asks_def raise_def ret_def
        sudo_grant_get_def fresh split: if_splits)
  moreover have "t_sudo_grants ?d1 = t_sudo_grants d" by (simp add: lockout_clear_def op_defs)
  moreover have "lockout_get ?d1 u = None" by (simp add: sudo_buckets.get_clear)
  ultimately show ?thesis using r by (simp add: lockout_get_def)
qed

text \<open>A live grant is found by its own token, and only before it expires.\<close>

lemma resolve_granted:
  assumes "t_sudo_grants d = delete_where (\<lambda>g. sg_user_id g = u) rows @
      [\<lparr>sg_id = gid, sg_user_id = u, sg_hash = hash_token sha256 token salt, sg_salt = salt,
        sg_verifier = name, sg_issued_at = i, sg_expires_at = e, sg_revoked_at = None\<rparr>]"
  shows "sudo_resolve sha256 d u token t \<noteq> None \<longleftrightarrow> iso t < e"
proof -
  have "find (\<lambda>g. sg_user_id g = u \<and> P g) (delete_where (\<lambda>g. sg_user_id g = u) rows @ [g])
      = (if sg_user_id g = u \<and> P g then Some g else None)" for P g
    by (induction rows) (auto simp: delete_where_def)
  then show ?thesis
    by (simp add: sudo_resolve_def sudo_grant_find_active_def assms verify_token_hash_def)
qed

lemma step_up_granted:
  assumes "step_up sha256 salt gid token pol ttl registry p payload now d = (Inr (Some g), d')"
  obtains v d1 where "active_lock (lockout_get d (uid p)) now = None"
    and "resolve_factor registry p payload d = (Inr v, d)"
    and "vf_verify v p payload d = (Inr True, d1)"
    and "grant_step_up sha256 salt gid token ttl (vf_name v) (uid p) now d1 = (Inr (Some g), d')"
proof -
  have free: "active_lock (lockout_get d (uid p)) now = None"
    using assms by (auto simp: step_up_def op_bind_asks raise_def split: option.splits)
  have "op_bind (resolve_factor registry p payload) (\<lambda>v. op_bind (vf_verify v p payload) (\<lambda>ok.
             if \<not> ok then op_then (sudo_record_failure pol (uid p) now) (ret None)
             else grant_step_up sha256 salt gid token ttl (vf_name v) (uid p) now)) d = (Inr (Some g), d')"
    using assms free by (simp add: step_up_def op_bind_asks)
  then obtain v ok d1 where r: "resolve_factor registry p payload d = (Inr v, d)"
    and v: "vf_verify v p payload d = (Inr ok, d1)"
    and rest: "(if \<not> ok then op_then (sudo_record_failure pol (uid p) now) (ret None)
             else grant_step_up sha256 salt gid token ttl (vf_name v) (uid p) now) d1 = (Inr (Some g), d')"
    by (elim op_bind_okE) (metis resolve_factor_pure snd_conv)
  have "ok" using rest by (auto simp: ret_def split: if_splits elim!: op_then_okE)
  with rest v r free that show thesis by auto
qed

text \<open>
  C9. A sudo grant is issued only on proof, and is exactly what was asked for. When the
  service steps a caller up through the configured verifiers, the caller was not locked out
  and either its password verified against its stored hash, or the submitted code is the
  one-time code of its own decrypted TOTP secret at a step at most one away from the current
  one and past the last accepted step. The grant bears the name of that verifier, ends the
  failure streak, and from then on its token, for that user, is honoured at exactly the
  instants before its expiry.
\<close>

theorem step_up_sound:
  assumes "step_up sha256 salt gid token pol ttl
      (build_step_up_verifiers argon2_verify hmac decrypt key totp_now) p payload now d = (Inr (Some g), d')"
  shows "active_lock (lockout_get d (uid p)) now = None
     \<and> (ig_verifier g = ''password''
          \<and> (\<exists>pw. text_field payload ''password'' = Some pw \<and> verify_password argon2_verify d (uid p) pw)
        \<or> ig_verifier g = ''totp''
          \<and> (\<exists>code k c secret not_before step. text_field payload ''code'' = Some code \<and> key = Some k
               \<and> get_totp_secret d (uid p) = Some c \<and> decrypt (cred_hash c) k = Some secret
               \<and> replay_floor c = Inr not_before \<and> past_floor not_before step
               \<and> \<bar>step - totp_now div (30 * 10 ^ 6)\<bar> \<le> 1 \<and> hotp hmac secret step 6 = Inr code))
     \<and> ig_token g = token \<and> ig_expires_at g = iso (now + ttl) \<and> lockout_get d' (uid p) = None
     \<and> (\<forall>t. sudo_resolve sha256 d' (uid p) token t \<noteq> None \<longleftrightarrow> iso t < iso (now + ttl))"
proof -
  obtain v d1 where free: "active_lock (lockout_get d (uid p)) now = None"
    and r: "resolve_factor (build_step_up_verifiers argon2_verify hmac decrypt key totp_now) p payload d = (Inr v, d)"
    and v: "vf_verify v p payload d = (Inr True, d1)"
    and gr: "grant_step_up sha256 salt gid token ttl (vf_name v) (uid p) now d1 = (Inr (Some g), d')"
    using assms(1) by (rule step_up_granted)
  note g = grant_step_up_ok [OF gr]
  have "v = password_verifier argon2_verify \<or> v = totp_verifier hmac decrypt key totp_now"
    using resolve_factor_ok [OF r] by (auto simp: build_step_up_verifiers_def)
  then have "ig_verifier g = ''password''
          \<and> (\<exists>pw. text_field payload ''password'' = Some pw \<and> verify_password argon2_verify d (uid p) pw)
        \<or> ig_verifier g = ''totp''
          \<and> (\<exists>code k c secret not_before step. text_field payload ''code'' = Some code \<and> key = Some k
               \<and> get_totp_secret d (uid p) = Some c \<and> decrypt (cred_hash c) k = Some secret
               \<and> replay_floor c = Inr not_before \<and> past_floor not_before step
               \<and> \<bar>step - totp_now div (30 * 10 ^ 6)\<bar> \<le> 1 \<and> hotp hmac secret step 6 = Inr code)"
  proof
    assume "v = password_verifier argon2_verify"
    then show ?thesis
      using v g by (auto simp: password_verifier_def ret_def asks_def split: option.splits)
  next
    assume vt: "v = totp_verifier hmac decrypt key totp_now"
    then obtain code k c secret not_before step where t: "text_field payload ''code'' = Some code"
      "key = Some k" "get_totp_secret d (uid p) = Some c" "decrypt (cred_hash c) k = Some secret"
      "replay_floor c = Inr not_before"
      "find_valid_step hmac secret code (totp_now div 10 ^ 6) default_step_seconds default_digits
          default_window not_before = Inr (Some step)"
      using v totp_verify_True [of hmac decrypt key totp_now p payload d d1]
      by (auto simp: totp_verifier_def)
    have now: "step_index (totp_now div 10 ^ 6) default_step_seconds = totp_now div (30 * 10 ^ 6)"
      by (simp add: step_index_def default_step_seconds_def zdiv_zmult2_eq)
    have "\<bar>step - totp_now div (30 * 10 ^ 6)\<bar> \<le> 1 \<and> past_floor not_before step
        \<and> hotp hmac secret step 6 = Inr code"
      using find_valid_step_Some [OF t(6)] unfolding now default_digits_def default_window_def .
    then show ?thesis using t vt g by (auto simp: totp_verifier_def)
  qed
  then show ?thesis using free g resolve_granted by auto
qed

definition totp_org :: "last_used option \<Rightarrow> db" where
  "totp_org used = org\<lparr>t_credentials := [\<lparr>cred_id = ''s'', cred_user_id = ''ann'', cred_type = TOTP,
     cred_hash = ''envelope'', cred_salt = None, cred_label = [], cred_created_at = 0,
     cred_last_used_at = used, cred_expires_at = None\<rparr>]\<rparr>"

definition code_payload :: payload where
  "code_payload = [(''code'', JStr ''872921'')]"

abbreviation sample_verifiers :: "verifier list" where
  "sample_verifiers \<equiv>
     build_step_up_verifiers (\<lambda>_ _. False) (\<lambda>_ _. rfc4226_mac) (\<lambda>_ _. Some []) (Some []) (300 * 10 ^ 6)"

abbreviation sample_totp :: verifier where
  "sample_totp \<equiv> totp_verifier (\<lambda>_ _. rfc4226_mac) (\<lambda>_ _. Some []) (Some []) (300 * 10 ^ 6)"

definition sample_pol :: lockout_policy where
  "sample_pol = \<lparr>lp_max_failed = 2, lp_window = 10 ^ 9, lp_lockout = 10 ^ 9\<rparr>"

lemma sample_code_accepted:
  "totp_verify (\<lambda>_ _. rfc4226_mac) (\<lambda>_ _. Some []) (Some []) (300 * 10 ^ 6) ann code_payload
     (totp_org (Some (Step 9))) = (Inr True, totp_org (Some (Step 10)))"
  using replay_moves_on
  by (simp add: totp_verify_True code_payload_def text_field_def totp_org_def ann_def uid_def mk_user_def
      get_totp_secret_def credential_of_type_def replay_floor_def default_step_seconds_def
      default_digits_def default_window_def touch_run update_where_def)

theorem step_up_sound_witness:
  "\<exists>d'. sudo_resolve (\<lambda>x. x) d' ''ann'' ''tok'' (300 * 10 ^ 6) \<noteq> None
     \<and> sudo_resolve (\<lambda>x. x) d' ''ann'' ''tok'' (360 * 10 ^ 6) = None"
proof -
  let ?d1 = "totp_org (Some (Step 10))"
  obtain g d' where g: "grant_step_up (\<lambda>x. x) [] ''g'' ''tok'' (60 * 10 ^ 6) ''totp'' ''ann'' (300 * 10 ^ 6) ?d1
      = (Inr (Some g), d')"
    by (simp add: grant_step_up_def lockout_clear_def sudo_grant_create_def insert_sudo_grant_def
        sudo_grant_get_def totp_org_def org_defs op_defs delete_where_def)
  have free: "active_lock (lockout_get (totp_org (Some (Step 9))) (uid ann)) (300 * 10 ^ 6) = None"
    by (simp add: active_lock_def lockout_get_def totp_org_def org_defs)
  have factor: "resolve_factor sample_verifiers ann code_payload (totp_org (Some (Step 9)))
      = (Inr sample_totp, totp_org (Some (Step 9)))"
    by (simp add: totp_org_def uid_def ann_def org_defs resolve_factor_def for_principal_def
        build_step_up_verifiers_def password_verifier_def totp_verifier_def has_credential_def
        credential_of_type_def text_field_def code_payload_def ret_def)
  have check: "vf_verify sample_totp ann code_payload (totp_org (Some (Step 9))) = (Inr True, ?d1)"
    unfolding verifier_simps by (rule sample_code_accepted)
  have u: "uid ann = ''ann''" by (simp add: uid_def ann_def org_defs)
  have "step_up (\<lambda>x. x) [] ''g'' ''tok'' sample_pol (60 * 10 ^ 6) sample_verifiers ann code_payload
      (300 * 10 ^ 6) (totp_org (Some (Step 9))) = (Inr (Some g), d')"
    unfolding step_up_def op_bind_asks free option.case op_bind_ok [of "resolve_factor _ _ _", OF factor]
      op_bind_ok [of "vf_verify _ _ _", OF check] using g by (simp add: u)
  note r = step_up_sound [OF this]
  have "\<forall>t. sudo_resolve (\<lambda>x. x) d' ''ann'' ''tok'' t \<noteq> None \<longleftrightarrow> iso t < iso (300 * 10 ^ 6 + 60 * 10 ^ 6)"
    using r unfolding u by blast
  from this [THEN spec, of "300 * 10 ^ 6"] this [THEN spec, of "360 * 10 ^ 6"]
  show ?thesis by (intro exI [of _ d']) (simp add: iso_def)
qed

text \<open>
  A refusal costs nothing. A locked-out caller, and a caller with no usable factor
  (none enrolled, an unknown \<open>factor\<close>, or several without a choice), is answered with the
  matching error and an unchanged database, whatever the verifiers are: no verifier runs, no
  attempt is counted, and the wait reported to a locked-out caller is exactly the rest of the
  lock. In every other case the resolved verifier runs, and the outcome follows its answer.
\<close>

theorem step_up_refusals_free:
  "step_up sha256 salt gid token pol ttl registry p payload now d =
     (case active_lock (lockout_get d (uid p)) now of
        Some until \<Rightarrow> (Inl (SudoLockedOutError (until - now)), d)
      | None \<Rightarrow>
         (let enrolled = filter (\<lambda>v. vf_enrolled v d p) registry in
          case (case text_field payload ''factor'' of
                  Some n \<Rightarrow> find (\<lambda>v. vf_name v = n) enrolled
                | None \<Rightarrow> if length enrolled = 1 then Some (hd enrolled) else None) of
            None \<Rightarrow> (Inl (StepUpUnavailableError (map vf_name enrolled)), d)
          | Some v \<Rightarrow> (case vf_verify v p payload d of
                (Inl e, d1) \<Rightarrow> (Inl e, d1)
              | (Inr False, d1) \<Rightarrow> op_then (bump lockout_get lockout_set pol (uid p) now) (ret None) d1
              | (Inr True, d1) \<Rightarrow> grant_step_up sha256 salt gid token ttl (vf_name v) (uid p) now d1)))"
proof (cases "active_lock (lockout_get d (uid p)) now")
  case (Some until)
  then have "now < until" by (auto simp: active_lock_iff)
  with Some show ?thesis by (simp add: step_up_def op_bind_asks raise_def)
next
  case None
  let ?es = "filter (\<lambda>v. vf_enrolled v d p) registry"
  let ?choice = "case text_field payload ''factor'' of
        Some n \<Rightarrow> find (\<lambda>v. vf_name v = n) ?es
      | None \<Rightarrow> if length ?es = 1 then Some (hd ?es) else None"
  have r: "resolve_factor registry p payload d = (case ?choice of
        None \<Rightarrow> (Inl (StepUpUnavailableError (map vf_name ?es)), d) | Some v \<Rightarrow> (Inr v, d))"
  proof (cases "text_field payload ''factor''")
    case None
    then show ?thesis unfolding resolve_factor_def for_principal_def Let_def ret_def raise_def
      by (cases ?es rule: list.exhaust; cases "tl ?es") (simp_all split: list.split)
  next
    case (Some n)
    then show ?thesis unfolding resolve_factor_def for_principal_def Let_def ret_def raise_def
      by (simp split: option.split)
  qed
  let ?rest = "\<lambda>v. op_bind (vf_verify v p payload) (\<lambda>ok.
             if \<not> ok then op_then (sudo_record_failure pol (uid p) now) (ret None)
             else grant_step_up sha256 salt gid token ttl (vf_name v) (uid p) now)"
  have s: "step_up sha256 salt gid token pol ttl registry p payload now d
      = op_bind (resolve_factor registry p payload) ?rest d"
    by (simp add: step_up_def op_bind_asks None)
  have rest: "?rest v d = (case vf_verify v p payload d of
                (Inl e, d1) \<Rightarrow> (Inl e, d1)
              | (Inr False, d1) \<Rightarrow> op_then (bump lockout_get lockout_set pol (uid p) now) (ret None) d1
              | (Inr True, d1) \<Rightarrow> grant_step_up sha256 salt gid token ttl (vf_name v) (uid p) now d1)" for v
    by (simp add: op_bind_def sudo_record_failure_def split: prod.split sum.split bool.split)
  show ?thesis
  proof (cases ?choice)
    case None
    then have "resolve_factor registry p payload d = (Inl (StepUpUnavailableError (map vf_name ?es)), d)"
      using r by simp
    then show ?thesis unfolding s Let_def None using \<open>active_lock _ _ = None\<close> by (simp add: op_bind_def)
  next
    case (Some v)
    then have "resolve_factor registry p payload d = (Inr v, d)" using r by simp
    then have "op_bind (resolve_factor registry p payload) ?rest d = ?rest v d" by (rule op_bind_ok)
    then show ?thesis unfolding s Let_def Some using \<open>active_lock _ _ = None\<close> rest by simp
  qed
qed

section \<open>No replay\<close>

definition floor_of :: "db \<Rightarrow> string \<Rightarrow> int option" where
  "floor_of d u = (case get_totp_secret d u of
     Some c \<Rightarrow> (case cred_last_used_at c of Some (Step n) \<Rightarrow> Some n | _ \<Rightarrow> None)
   | None \<Rightarrow> None)"

text \<open>The steps a run of checks, of any principals, accepts for one user.\<close>

fun accepted_steps ::
  "(bytes \<Rightarrow> bytes \<Rightarrow> bytes) \<Rightarrow> (string \<Rightarrow> bytes \<Rightarrow> bytes option) \<Rightarrow> bytes option \<Rightarrow> string
   \<Rightarrow> (principal \<times> payload \<times> instant) list \<Rightarrow> db \<Rightarrow> int list" where
  "accepted_steps hmac decrypt key u [] d = []"
| "accepted_steps hmac decrypt key u ((p, payload, now) # evs) d =
     (case totp_verify hmac decrypt key now p payload d of (r, d') \<Rightarrow>
        (if r = Inr True \<and> uid p = u then [the (floor_of d' u)] else [])
        @ accepted_steps hmac decrypt key u evs d')"

lemma find_update_where:
  assumes "\<And>x. P (f x) = P x"
  shows "find P (update_where q f xs) = map_option (\<lambda>x. if q x then f x else x) (find P xs)"
  using assms by (induction xs) (auto simp: update_where_def)

lemma floor_touched:
  "floor_of (snd (touch_last_used cid l d)) u = (case get_totp_secret d u of
      None \<Rightarrow> None
    | Some c \<Rightarrow> if cred_id c = cid then (case l of Step n \<Rightarrow> Some n | At _ \<Rightarrow> None) else floor_of d u)"
  by (auto simp: floor_of_def touch_run get_totp_secret_def find_update_where credential_of_type_def
      split: option.split last_used.split)

lemma accepted_moves_floor:
  assumes "totp_verify hmac decrypt key now p payload d = (Inr True, d')"
  shows "\<exists>s. floor_of d' (uid p) = Some s \<and> past_floor (floor_of d (uid p)) s"
proof -
  obtain code k c secret not_before step where t: "get_totp_secret d (uid p) = Some c"
      "replay_floor c = Inr not_before"
      "find_valid_step hmac secret code (now div 10 ^ 6) default_step_seconds default_digits
          default_window not_before = Inr (Some step)"
      "d' = snd (touch_last_used (cred_id c) (Step step) d)"
    using assms totp_verify_True by blast
  have "not_before = floor_of d (uid p)"
    using t(1,2) by (auto simp: floor_of_def replay_floor_def split: option.splits last_used.splits)
  then have "past_floor (floor_of d (uid p)) step" using find_valid_step_Some [OF t(3)] by simp
  moreover have "floor_of d' (uid p) = Some step" using t(1,4) by (simp add: floor_touched)
  ultimately show ?thesis by blast
qed

lemma others_keep_floor:
  assumes "totp_verify hmac decrypt key now p payload d = (r, d')" and "r \<noteq> Inr True \<or> uid p \<noteq> u"
    and "db_ok d"
  shows "floor_of d' u = floor_of d u"
proof (cases "r = Inr True")
  case False
  then show ?thesis using totp_verify_else [OF assms(1)] by simp
next
  case True
  then obtain c step where t: "get_totp_secret d (uid p) = Some c"
      "d' = snd (touch_last_used (cred_id c) (Step step) d)"
    using assms(1) totp_verify_True by blast
  have "c \<in> set (t_credentials d)" "cred_user_id c = uid p"
    using t(1) by (auto simp: get_totp_secret_def find_Some_iff credential_of_type_def)
  moreover have "c' \<in> set (t_credentials d) \<and> cred_user_id c' = u" if "get_totp_secret d u = Some c'" for c'
    using that by (auto simp: get_totp_secret_def find_Some_iff credential_of_type_def)
  moreover have "unique_by cred_id (t_credentials d)" using assms(3) by (simp add: db_ok_def secrets_ok_def)
  ultimately have other: "cred_id c' \<noteq> cred_id c" if "get_totp_secret d u = Some c'" for c'
    using that True assms(2) by (auto simp: unique_by_def distinct_map inj_on_def)
  show ?thesis
  proof (cases "get_totp_secret d u")
    case None
    then show ?thesis using t(2) by (simp add: floor_touched) (simp add: floor_of_def)
  next
    case (Some c')
    then show ?thesis using t(2) other by (simp add: floor_touched)
  qed
qed

text \<open>
  C10. A one-time code is one-time. Over any run of TOTP checks, of any callers, at any
  instants, with any submitted codes, the steps accepted for one user strictly increase, and
  all lie past the step last accepted before the run: no code is accepted twice, nor an older
  one after a newer one, even when the clock goes backwards.
\<close>

theorem totp_never_replayed:
  assumes "db_ok d"
  shows "sorted_wrt (<) (accepted_steps hmac decrypt key u evs d)
     \<and> (\<forall>s \<in> set (accepted_steps hmac decrypt key u evs d).
          case floor_of d u of None \<Rightarrow> True | Some f \<Rightarrow> f < s)"
  using assms
proof (induction evs arbitrary: d)
  case (Cons e evs)
  obtain p payload now where e: "e = (p, payload, now)" by (cases e)
  obtain r d' where run: "totp_verify hmac decrypt key now p payload d = (r, d')" by fastforce
  have "db_ok d'"
    using keepsD [OF keeps_totp_verify Cons.prems, of hmac decrypt key now p payload] run by simp
  note IH = Cons.IH [OF this]
  show ?case
  proof (cases "r = Inr True \<and> uid p = u")
    case True
    then obtain s where "floor_of d' u = Some s" "past_floor (floor_of d u) s"
      using accepted_moves_floor run by blast
    then show ?thesis
      using IH run True e by (auto simp: past_floor_def split: option.splits)
  next
    case False
    then have "floor_of d' u = floor_of d u" using others_keep_floor [OF run] Cons.prems by blast
    then show ?thesis using IH run False e by auto
  qed
qed simp

lemma totp_org_ok: "db_ok (totp_org l)"
  by (simp add: db_ok_def ok_defs totp_org_def org_defs unique_by_def assignment_key_def
      subject_exists_def credential_of_type_def)

theorem totp_never_replayed_witness:
  "sorted_wrt (<) (accepted_steps (\<lambda>_ _. rfc4226_mac) (\<lambda>_ _. Some []) (Some []) ''ann''
     [(ann, code_payload, 300 * 10 ^ 6), (ann, code_payload, 300 * 10 ^ 6)] (totp_org (Some (Step 9))))"
  using totp_never_replayed [OF totp_org_ok] by blast

section \<open>No guessing\<close>

text \<open>A run of denied step-ups of one user, with the instants of the denials.\<close>

inductive denied :: "lockout_policy \<Rightarrow> string \<Rightarrow> db \<Rightarrow> instant list \<Rightarrow> db \<Rightarrow> bool"
  for pol u d where
  start: "denied pol u d [] d"
| deny: "denied pol u d ts d1 \<Longrightarrow> uid p = u \<Longrightarrow>
    step_up sha256 salt gid token pol ttl
      (build_step_up_verifiers argon2_verify hmac decrypt key totp_now) p payload t d1 = (Inr None, d2) \<Longrightarrow>
    denied pol u d (ts @ [t]) d2"

lemma lockout_writable_frame:
  "t_users d' = t_users d \<Longrightarrow> t_sudo_lockouts d' = t_sudo_lockouts d \<Longrightarrow>
   lockout_writable d' u = lockout_writable d u"
  by (simp add: lockout_writable_def)

lemma step_up_denied:
  assumes "step_up sha256 salt gid token pol ttl
      (build_step_up_verifiers argon2_verify hmac decrypt key totp_now) p payload t d = (Inr None, d')"
    and "lockout_writable d (uid p)"
  shows "lockout_get d' (uid p) = Some (failed_bucket pol (lockout_get d (uid p)) t)
     \<and> lockout_writable d' (uid p)"
proof -
  let ?reg = "build_step_up_verifiers argon2_verify hmac decrypt key totp_now"
  have "op_bind (resolve_factor ?reg p payload) (\<lambda>v. op_bind (vf_verify v p payload) (\<lambda>ok.
             if \<not> ok then op_then (sudo_record_failure pol (uid p) t) (ret None)
             else grant_step_up sha256 salt gid token ttl (vf_name v) (uid p) t)) d = (Inr None, d')"
    using assms(1) by (auto simp: step_up_def op_bind_asks raise_def split: option.splits)
  then obtain v ok d1 where r: "resolve_factor ?reg p payload d = (Inr v, d)"
    and v: "vf_verify v p payload d = (Inr ok, d1)"
    and rest: "(if \<not> ok then op_then (sudo_record_failure pol (uid p) t) (ret None)
             else grant_step_up sha256 salt gid token ttl (vf_name v) (uid p) t) d1 = (Inr None, d')"
    by (elim op_bind_okE) (metis resolve_factor_pure snd_conv)
  have "v = password_verifier argon2_verify \<or> v = totp_verifier hmac decrypt key totp_now"
    using resolve_factor_ok [OF r] by (auto simp: build_step_up_verifiers_def)
  then have "step_up_verifier v"
    using password_step_up.step_up_verifier_axioms totp_step_up.step_up_verifier_axioms by blast
  note same = step_up_verifier.leaves_rest [OF this v]
  have w: "lockout_writable d1 (uid p)" using assms(2) lockout_writable_frame [OF same(3,2)] by simp
  have "\<not> ok"
  proof
    assume ok
    with rest have "grant_step_up sha256 salt gid token ttl (vf_name v) (uid p) t d1 = (Inr None, d')" by simp
    from grant_step_up_ok [OF this] show False by simp
  qed
  with rest have "op_then (sudo_record_failure pol (uid p) t) (ret (None :: issued_grant option)) d1
      = (Inr None, d')" by simp
  then have "d' = snd (bump lockout_get lockout_set pol (uid p) t d1)"
    by (auto simp: sudo_record_failure_def ret_def elim!: op_then_okE)
  then show ?thesis
    using sudo_buckets.get_bump [OF w] sudo_buckets.writable_bump [OF w] same(5) w by simp
qed

lemma denied_streak:
  "denied pol u d ts d' \<Longrightarrow> lockout_writable d u \<Longrightarrow>
   lockout_get d' u = streak pol ts (lockout_get d u) \<and> lockout_writable d' u"
  by (induction rule: denied.induct) (auto dest: step_up_denied)

text \<open>
  Guessing is stopped. After a run of denied step-ups of a known user that had no failure
  recorded, with any factors and payloads, all within one window of the first and at least the
  configured maximum in number, every further step-up, the one with the right proof included,
  is refused until the last denial plus the lockout has passed: nothing is written, and the
  reported wait is exactly what is left.
\<close>

theorem sudo_brute_force_locked:
  assumes "denied pol u d ts d'" and "lockout_get d u = None" and "u \<in> usr_id ` set (t_users d)"
    and "ts \<noteq> []" and "\<forall>t \<in> set ts. t - parse_iso (iso (hd ts)) \<le> lp_window pol"
    and "lp_max_failed pol \<le> length ts" and "now < parse_iso (iso (last ts + lp_lockout pol))"
    and "uid p = u"
  shows "step_up sha256 salt gid token pol ttl registry p payload now d'
     = (Inl (SudoLockedOutError (parse_iso (iso (last ts + lp_lockout pol)) - now)), d')"
proof -
  have "lockout_writable d u" using assms(3) by (simp add: lockout_writable_def)
  then have "lockout_get d' u = streak pol ts None" using denied_streak [OF assms(1)] assms(2) by simp
  then have "active_lock (lockout_get d' (uid p)) now = Some (parse_iso (iso (last ts + lp_lockout pol)))"
    using streak_within [OF assms(4,5)] assms(6-8) by (simp add: active_lock_def)
  then show ?thesis using assms(7) by (simp add: step_up_def op_bind_asks raise_def)
qed

definition one_try :: lockout_policy where
  "one_try = \<lparr>lp_max_failed = 1, lp_window = 10 ^ 9, lp_lockout = 10 ^ 9\<rparr>"

theorem sudo_brute_force_locked_witness:
  "\<exists>d' wait. step_up (\<lambda>x. x) [] ''g'' ''tok'' one_try (60 * 10 ^ 6) sample_verifiers ann code_payload
      (300 * 10 ^ 6) d' = (Inl (SudoLockedOutError wait), d')"
proof -
  let ?d = "totp_org None" and ?wrong = "[(''code'', JStr [])]"
  let ?d' = "snd (bump lockout_get lockout_set one_try ''ann'' (300 * 10 ^ 6) ?d)"
  have u: "uid ann = ''ann''" by (simp add: uid_def ann_def mk_user_def)
  have free: "active_lock (lockout_get ?d (uid ann)) (300 * 10 ^ 6) = None"
    by (simp add: active_lock_def lockout_get_def totp_org_def org_defs)
  have factor: "resolve_factor sample_verifiers ann ?wrong ?d = (Inr sample_totp, ?d)"
    by (simp add: totp_org_def uid_def ann_def org_defs resolve_factor_def for_principal_def
        build_step_up_verifiers_def has_credential_def credential_of_type_def text_field_def ret_def)
  have check: "vf_verify sample_totp ann ?wrong ?d = (Inr False, ?d)"
    by (simp add: totp_verify_def text_field_def ret_def)
  have known: "''ann'' \<in> usr_id ` set (t_users ?d)" by (simp add: totp_org_def org_defs)
  then have "fst (bump lockout_get lockout_set one_try ''ann'' (300 * 10 ^ 6) ?d) = Inr ()"
    by (simp add: sudo_buckets.bump_returns lockout_writable_def)
  then have "sudo_record_failure one_try (uid ann) (300 * 10 ^ 6) ?d = (Inr (), ?d')"
    by (simp add: sudo_record_failure_def u prod_eq_iff)
  then have "step_up (\<lambda>x. x) [] ''g'' ''tok'' one_try (60 * 10 ^ 6) sample_verifiers ann ?wrong
      (300 * 10 ^ 6) ?d = (Inr None, ?d')"
    unfolding step_up_def op_bind_asks free option.case op_bind_ok [of "resolve_factor _ _ _", OF factor]
      op_bind_ok [of "vf_verify _ _ _", OF check] by (simp add: op_then_def op_bind_def ret_def)
  from denied.deny [OF denied.start u this]
  have "denied one_try ''ann'' ?d [300 * 10 ^ 6] ?d'" by simp
  then have "step_up (\<lambda>x. x) [] ''g'' ''tok'' one_try (60 * 10 ^ 6) sample_verifiers ann code_payload
      (300 * 10 ^ 6) ?d' = (Inl (SudoLockedOutError
        (parse_iso (iso (last [300 * 10 ^ 6] + lp_lockout one_try)) - 300 * 10 ^ 6)), ?d')"
    by (rule sudo_brute_force_locked [OF _ _ known _ _ _ _ u])
      (simp_all add: lockout_get_def totp_org_def org_defs one_try_def iso_def parse_iso_def)
  then show ?thesis by blast
qed

end
