(* ===== verification/Encryption.thy ===== *)
theory Encryption
  imports Totp Repositories
begin

text \<open>
  \<open>auth/encryption.py\<close>: the versioned envelope of a TOTP secret. URL-safe base64 is modelled
  as the standard library has it (the decoder skips characters outside the alphabet and stops
  at a completed padding); AES-GCM is the parameter pair \<open>seal key nonce plaintext\<close> and
  \<open>open_sealed key nonce ciphertext\<close>, whose \<open>None\<close> is \<open>InvalidTag\<close> or \<open>ValueError\<close>.
\<close>

section \<open>Base64\<close>

definition b64_char :: "nat \<Rightarrow> char" where
  "b64_char n = (if n < 26 then char_of (65 + n) else if n < 52 then char_of (71 + n)
     else if n < 62 then char_of (n - 4) else if n = 62 then CHR ''-'' else CHR ''_'')"

text \<open>\<open>-\<close> and \<open>_\<close> are translated to \<open>+\<close> and \<open>/\<close> first, so either spelling is accepted.\<close>

definition b64_value :: "char \<Rightarrow> nat option" where
  "b64_value c = (let n = of_char c in
     if 65 \<le> n \<and> n \<le> 90 then Some (n - 65) else if 97 \<le> n \<and> n \<le> 122 then Some (n - 71)
     else if 48 \<le> n \<and> n \<le> 57 then Some (n + 4)
     else if c \<in> {CHR ''+'', CHR ''-''} then Some 62 else if c \<in> {CHR ''/'', CHR ''_''} then Some 63
     else None)"

text \<open>The four sextets of three bytes.\<close>

definition sextet1 :: "nat \<Rightarrow> nat" where "sextet1 a = a div 4"
definition sextet2 :: "nat \<Rightarrow> nat \<Rightarrow> nat" where "sextet2 a b = a mod 4 * 16 + b div 16"
definition sextet3 :: "nat \<Rightarrow> nat \<Rightarrow> nat" where "sextet3 b c = b mod 16 * 4 + c div 64"
definition sextet4 :: "nat \<Rightarrow> nat" where "sextet4 c = c mod 64"

fun b64_encode :: "bytes \<Rightarrow> string" where
  "b64_encode [] = []"
| "b64_encode [a] = [b64_char (sextet1 (unat a)), b64_char (sextet2 (unat a) 0), CHR ''='', CHR ''='']"
| "b64_encode [a, b] = [b64_char (sextet1 (unat a)), b64_char (sextet2 (unat a) (unat b)),
     b64_char (sextet3 (unat b) 0), CHR ''='']"
| "b64_encode (a # b # c # bs) =
     [b64_char (sextet1 (unat a)), b64_char (sextet2 (unat a) (unat b)),
      b64_char (sextet3 (unat b) (unat c)), b64_char (sextet4 (unat c))] @ b64_encode bs"

text \<open>The decoder's state: position in the quad, the bits left over, the pads seen.\<close>

fun b64_scan :: "nat \<Rightarrow> nat \<Rightarrow> nat \<Rightarrow> bytes \<Rightarrow> string \<Rightarrow> bytes option" where
  "b64_scan pos left pads acc [] = (if pos = 0 then Some (rev acc) else None)"
| "b64_scan pos left pads acc (c # cs) =
     (if c = CHR ''='' then
        (if 2 \<le> pos \<and> 4 \<le> pos + pads + 1 then Some (rev acc)
         else b64_scan pos left (if 2 \<le> pos then pads + 1 else pads) acc cs)
      else case b64_value c of
          None \<Rightarrow> b64_scan pos left pads acc cs
        | Some v \<Rightarrow>
            if pos = 0 then b64_scan 1 v 0 acc cs
            else if pos = 1 then b64_scan 2 (v mod 16) 0 (of_nat (left * 4 + v div 16) # acc) cs
            else if pos = 2 then b64_scan 3 (v mod 4) 0 (of_nat (left * 16 + v div 4) # acc) cs
            else b64_scan 0 0 0 (of_nat (left * 64 + v) # acc) cs)"

definition b64_decode :: "string \<Rightarrow> bytes option" where
  "b64_decode s = (if is_ascii s then b64_scan 0 0 0 [] s else None)"

lemma b64_char_value: "n < 64 \<Longrightarrow> b64_value (b64_char n) = Some n"
  by (auto simp: b64_char_def b64_value_def Let_def)

lemma b64_char_ascii: "n < 64 \<Longrightarrow> (of_char (b64_char n) :: nat) < 128"
  by (auto simp: b64_char_def)

lemma b64_char_no_mark: "n < 64 \<Longrightarrow> b64_char n \<noteq> CHR ''='' \<and> b64_char n \<noteq> CHR '':''"
  by (auto simp: b64_char_def dest!: arg_cong [where f = "of_char :: char \<Rightarrow> nat"])

lemma byte_bound: "unat (a :: 8 word) < 256"
  using unsigned_less [of a] by simp

lemma sextet_bounds:
  "a < 256 \<Longrightarrow> sextet1 a < 64" "b < 256 \<Longrightarrow> sextet2 a b < 64" "c < 256 \<Longrightarrow> sextet3 b c < 64" "sextet4 c < 64"
  unfolding sextet1_def sextet2_def sextet3_def sextet4_def by linarith+

lemma sextet_values:
  "b < 256 \<Longrightarrow> sextet1 a * 4 + sextet2 a b div 16 = a"
  "b < 256 \<Longrightarrow> c < 256 \<Longrightarrow> sextet2 a b mod 16 * 16 + sextet3 b c div 4 = b"
  "c < 256 \<Longrightarrow> sextet3 b c mod 4 * 64 + sextet4 c = c"
proof -
  have "(a mod 4 * 16 + b div 16) div 16 = a mod 4" if "b < 256" using that by linarith
  then show "b < 256 \<Longrightarrow> sextet1 a * 4 + sextet2 a b div 16 = a"
    by (simp add: sextet1_def sextet2_def)
  have "b div 16 < 16" "c div 64 < 4" if "b < 256" "c < 256" using that by linarith+
  then show "b < 256 \<Longrightarrow> c < 256 \<Longrightarrow> sextet2 a b mod 16 * 16 + sextet3 b c div 4 = b"
    by (simp add: sextet2_def sextet3_def)
  have "c div 64 < 4" if "c < 256" using that by linarith
  then show "c < 256 \<Longrightarrow> sextet3 b c mod 4 * 64 + sextet4 c = c"
    by (simp add: sextet3_def sextet4_def)
qed

lemmas sextet_simps = b64_char_value b64_char_no_mark sextet_bounds sextet_values byte_bound

lemma b64_scan_encode: "b64_scan 0 0 0 acc (b64_encode bs) = Some (rev acc @ bs)"
proof (induction bs arbitrary: acc rule: b64_encode.induct)
  case (4 a b c bs)
  then show ?case by (simp add: sextet_simps del: of_nat_add of_nat_mult)
qed (simp_all add: sextet_simps del: of_nat_add of_nat_mult)

lemma b64_encode_ascii: "list_all (\<lambda>c. (of_char c :: nat) < 128 \<and> c \<noteq> CHR '':'') (b64_encode bs)"
  by (induction bs rule: b64_encode.induct)
    (simp_all add: b64_char_ascii b64_char_no_mark sextet_bounds byte_bound)

section \<open>The envelope\<close>

definition envelope_version :: string where
  "envelope_version = ''v1''"

definition encrypt :: "(bytes \<Rightarrow> bytes \<Rightarrow> bytes \<Rightarrow> bytes) \<Rightarrow> bytes \<Rightarrow> bytes \<Rightarrow> bytes \<Rightarrow> string" where
  "encrypt seal nonce plaintext key =
     join '':'' [envelope_version, b64_encode nonce, b64_encode (seal key nonce plaintext)]"

text \<open>\<open>None\<close> is \<open>DecryptionError\<close>: a wrong number of fields, another version, text that is not
  base64, or a failed authentication.\<close>

definition decrypt_envelope ::
  "(bytes \<Rightarrow> bytes \<Rightarrow> bytes \<Rightarrow> bytes option) \<Rightarrow> string \<Rightarrow> bytes \<Rightarrow> bytes option" where
  "decrypt_envelope open_sealed envelope key = (case split_on CHR '':'' envelope of
       [version, nonce_b64, ciphertext_b64] \<Rightarrow>
         if version \<noteq> envelope_version then None
         else (case b64_decode nonce_b64 of
             None \<Rightarrow> None
           | Some nonce \<Rightarrow> (case b64_decode ciphertext_b64 of
               None \<Rightarrow> None
             | Some ciphertext \<Rightarrow> open_sealed key nonce ciphertext))
     | _ \<Rightarrow> None)"

text \<open>\<open>resolve_key\<close> on the text of \<open>[security.encryption] key\<close>: padded to a multiple of four.\<close>

definition resolve_key :: "string option \<Rightarrow> err + bytes option" where
  "resolve_key setting = (case setting of
       None \<Rightarrow> Inr None
     | Some raw \<Rightarrow> (case b64_decode (raw @ replicate ((4 - length raw mod 4) mod 4) CHR ''='') of
           None \<Rightarrow> Inl ValueError
         | Some key \<Rightarrow> Inr (Some key)))"

definition ensure_key_configured_if_needed :: "bytes option \<Rightarrow> unit db_op" where
  "ensure_key_configured_if_needed key = (if key \<noteq> None then ret ()
     else op_bind (asks (\<lambda>d. any_credential_of_type d TOTP))
       (\<lambda>held. if held then raise EncryptionKeyMissingError else ret ()))"

lemma b64_decode_encode [simp]: "b64_decode (b64_encode bs) = Some bs"
  using b64_encode_ascii [of bs]
  by (simp add: b64_decode_def is_ascii_def b64_scan_encode list_all_iff)

lemma b64_no_colon [simp]: "CHR '':'' \<notin> set (b64_encode bs)"
  using b64_encode_ascii [of bs] by (auto simp: list_all_iff)

text \<open>The text of a key survives the loss of its padding.\<close>

definition unpadded :: "string \<Rightarrow> string" where
  "unpadded s = takeWhile (\<lambda>c. c \<noteq> CHR ''='') s"

lemma b64_encode_unpadded:
  "unpadded (b64_encode bs) @ replicate ((4 - length (unpadded (b64_encode bs)) mod 4) mod 4) CHR ''=''
     = b64_encode bs"
proof (induction bs rule: b64_encode.induct)
  case (4 a b c bs)
  then show ?case by (simp add: unpadded_def sextet_simps)
qed (simp_all add: unpadded_def sextet_simps numeral_2_eq_2)

lemma decrypt_encrypt_law:
  assumes "\<And>k n p. open_sealed k n (seal k n p) = Some p"
  shows "decrypt_envelope open_sealed (encrypt seal nonce plaintext key) key = Some plaintext"
proof -
  have "CHR '':'' \<notin> set envelope_version" by (simp add: envelope_version_def)
  then have "split_on CHR '':'' (encrypt seal nonce plaintext key)
      = [envelope_version, b64_encode nonce, b64_encode (seal key nonce plaintext)]"
    unfolding encrypt_def by (intro split_on_join) auto
  then show ?thesis by (simp add: decrypt_envelope_def assms)
qed

text \<open>
  The envelope loses nothing and gives nothing away by its shape: with an AES-GCM whose
  opening undoes its sealing, decrypting what \<open>encrypt\<close> wrote under the same key returns the
  plaintext, for every nonce; the key itself survives its base64 setting with or without
  padding; and no text that carries another version tag is ever opened.
\<close>

theorem decrypt_encrypt:
  assumes "\<And>k n p. open_sealed k n (seal k n p) = Some p"
  shows "decrypt_envelope open_sealed (encrypt seal nonce plaintext key) key = Some plaintext
     \<and> resolve_key (Some (b64_encode key)) = Inr (Some key)
     \<and> resolve_key (Some (unpadded (b64_encode key))) = Inr (Some key)
     \<and> (\<forall>v rest. CHR '':'' \<notin> set v \<and> v \<noteq> ''v1''
          \<longrightarrow> decrypt_envelope open_sealed (v @ CHR '':'' # rest) key = None)"
proof -
  have "length (b64_encode key) mod 4 = 0"
    by (induction key rule: b64_encode.induct) simp_all
  moreover have "decrypt_envelope open_sealed (v @ CHR '':'' # rest) key = None"
    if "CHR '':'' \<notin> set v" "v \<noteq> ''v1''" for v rest
    using that by (simp add: decrypt_envelope_def split_on_append_sep envelope_version_def split: list.split)
  ultimately show ?thesis
    using decrypt_encrypt_law [of open_sealed seal nonce plaintext key, OF assms] by (simp add: resolve_key_def b64_encode_unpadded)
qed

theorem decrypt_encrypt_witness:
  "decrypt_envelope (\<lambda>k n c. Some (map (\<lambda>b. b XOR 7) c)) (encrypt (\<lambda>k n p. map (\<lambda>b. b XOR 7) p) [1, 2] [3] [4]) [4]
     = Some [3]"
proof -
  have "map (\<lambda>b. b XOR 7) (map (\<lambda>b. b XOR 7) p) = p" for p :: bytes
    by (induction p) (simp_all add: xor.assoc)
  then show ?thesis
    using decrypt_encrypt [of "\<lambda>k n c. Some (map (\<lambda>b. b XOR 7) c)" "\<lambda>k n p. map (\<lambda>b. b XOR 7) p"
        "[1, 2]" "[3]" "[4]"] by simp
qed

end
