(* ===== verification/Self_Service.thy ===== *)
theory Self_Service
  imports Sudo Encryption
begin

text \<open>
  The self-service handlers of \<open>api/routes/me.py\<close> (profile, own tokens, TOTP enrolment) and
  the handlers of \<open>api/routes/sudo.py\<close>. \<open>None\<close> is the 401 answer: no resolved caller, or a
  failed step-up. The random secret, ids and the nonce are arguments.
\<close>

section \<open>Text encodings\<close>

definition b32_char :: "nat \<Rightarrow> char" where
  "b32_char n = (if n < 26 then char_of (65 + n) else char_of (24 + n))"

definition group_value :: "bytes \<Rightarrow> nat" where
  "group_value g = from_bytes g"

fun b32_groups :: "bytes \<Rightarrow> string" where
  "b32_groups (a # b # c # d # e # bs) =
     map (\<lambda>i. b32_char (group_value [a, b, c, d, e] div 32 ^ i mod 32)) [7, 6, 5, 4, 3, 2, 1, 0]
     @ b32_groups bs"
| "b32_groups _ = []"

definition b32_encode :: "bytes \<Rightarrow> string" where
  "b32_encode bs =
     (let leftover = length bs mod 5; encoded = b32_groups (bs @ replicate ((5 - leftover) mod 5) 0);
          pads = [0, 6, 4, 3, 1] ! leftover
      in take (length encoded - pads) encoded @ replicate pads CHR ''='')"

definition rstrip :: "char \<Rightarrow> string \<Rightarrow> string" where
  "rstrip c s = rev (dropWhile (\<lambda>x. x = c) (rev s))"

text \<open>\<open>urllib.parse.quote\<close> with its default safe characters, on UTF-8.\<close>

definition utf8 :: "char \<Rightarrow> nat list" where
  "utf8 c = (let n = of_char c in if n < 128 then [n] else [192 + n div 64, 128 + n mod 64])"

definition hex_digit :: "nat \<Rightarrow> char" where
  "hex_digit n = (if n < 10 then char_of (48 + n) else char_of (55 + n))"

definition url_safe :: "char \<Rightarrow> bool" where
  "url_safe c \<longleftrightarrow> (let n = of_char c :: nat in 65 \<le> n \<and> n \<le> 90 \<or> 97 \<le> n \<and> n \<le> 122 \<or> 48 \<le> n \<and> n \<le> 57)
     \<or> c \<in> {CHR ''_'', CHR ''.'', CHR ''-'', CHR ''~'', CHR ''/''}"

definition quote_char :: "char \<Rightarrow> string" where
  "quote_char c = (if url_safe c then [c]
     else concat (map (\<lambda>b. [CHR ''%'', hex_digit (b div 16), hex_digit (b mod 16)]) (utf8 c)))"

definition quote :: "string \<Rightarrow> string" where
  "quote s = concat (map quote_char s)"

section \<open>TOTP enrolment\<close>

definition totp_issuer :: string where
  "totp_issuer = ''Ansina''"

definition otpauth_uri :: "string \<Rightarrow> string \<Rightarrow> string" where
  "otpauth_uri username secret_b32 =
     ''otpauth://totp/'' @ quote (totp_issuer @ '':'' @ username) @ ''?secret='' @ secret_b32
     @ ''&issuer='' @ quote totp_issuer @ ''&digits='' @ decimal default_digits
     @ ''&period='' @ decimal (nat default_step_seconds)"

record totp_enrolment =
  te_secret :: string
  te_uri :: string
  te_digits :: nat
  te_period :: int

definition enroll_totp ::
  "(bytes \<Rightarrow> bytes \<Rightarrow> bytes \<Rightarrow> bytes) \<Rightarrow> bytes \<Rightarrow> string \<Rightarrow> bytes \<Rightarrow> bytes option \<Rightarrow> principal \<Rightarrow> stamp
   \<Rightarrow> totp_enrolment db_op" where
  "enroll_totp seal nonce credential_id secret key p now = op_then (assert_totp_not_enrolled (uid p))
     (case key of
        None \<Rightarrow> raise EncryptionKeyMissingError
      | Some key \<Rightarrow>
          (let secret_b32 = rstrip CHR ''='' (b32_encode secret)
           in op_then (create_totp_secret credential_id (uid p) (encrypt seal nonce secret key) now)
                (ret \<lparr>te_secret = secret_b32, te_uri = otpauth_uri (usr_username (pr_user p)) secret_b32,
                      te_digits = default_digits, te_period = default_step_seconds\<rparr>)))"

text \<open>\<open>enrolled\<close> and \<open>enrolled_since\<close>.\<close>

definition totp_status :: "db \<Rightarrow> principal \<Rightarrow> bool \<times> stamp option" where
  "totp_status d p = (let c = get_totp_secret d (uid p) in (c \<noteq> None, map_option cred_created_at c))"

definition disable_totp :: "string \<Rightarrow> unit db_op" where
  "disable_totp user_id = delete_credentials user_id TOTP"

section \<open>Handlers\<close>

text \<open>A handler that answers 401 when there is no resolved caller.\<close>

definition with_identity :: "(principal \<Rightarrow> 'a db_op) \<Rightarrow> principal option \<Rightarrow> 'a option db_op" where
  "with_identity handler p = (case p of
       None \<Rightarrow> ret None | Some p \<Rightarrow> op_bind (handler p) (\<lambda>x. ret (Some x)))"

record me_out =
  me_user_id :: string
  me_username :: string
  me_display_name :: string
  me_roles :: "string list"
  me_auth_method :: auth_method
  me_sudo_active :: bool
  me_step_up_factors :: "string list"

definition get_me :: "verifier list \<Rightarrow> principal option \<Rightarrow> me_out option db_op" where
  "get_me registry = with_identity (\<lambda>p. asks (\<lambda>d. \<lparr>
     me_user_id = uid p, me_username = usr_username (pr_user p),
     me_display_name = usr_display_name (pr_user p), me_roles = sorted_list_of_set (pr_role_slugs p),
     me_auth_method = pr_auth_method p, me_sudo_active = pr_sudo_active p,
     me_step_up_factors = enrolled_factors registry d p\<rparr>))"

definition mint_own_token ::
  "(string \<Rightarrow> string) \<Rightarrow> string \<Rightarrow> string \<Rightarrow> string \<Rightarrow> string \<Rightarrow> instant \<Rightarrow> principal option
   \<Rightarrow> (credential \<times> string) option db_op" where
  "mint_own_token sha256 salt credential_id token label now =
     with_identity (\<lambda>p. issue_token sha256 salt credential_id token (uid p) label None now)"

definition list_own_tokens :: "principal option \<Rightarrow> credential list option db_op" where
  "list_own_tokens = with_identity (\<lambda>p. asks (\<lambda>d. list_tokens d (uid p)))"

definition revoke_own_token :: "string \<Rightarrow> principal option \<Rightarrow> unit option db_op" where
  "revoke_own_token token_id = with_identity (\<lambda>p. revoke_token (uid p) token_id)"

definition route_enroll_totp ::
  "(bytes \<Rightarrow> bytes \<Rightarrow> bytes \<Rightarrow> bytes) \<Rightarrow> bytes \<Rightarrow> string \<Rightarrow> bytes \<Rightarrow> bytes option \<Rightarrow> stamp
   \<Rightarrow> principal option \<Rightarrow> totp_enrolment option db_op" where
  "route_enroll_totp seal nonce credential_id secret key now =
     with_identity (\<lambda>p. enroll_totp seal nonce credential_id secret key p now)"

definition route_totp_status :: "principal option \<Rightarrow> (bool \<times> stamp option) option db_op" where
  "route_totp_status = with_identity (\<lambda>p. asks (\<lambda>d. totp_status d p))"

definition route_disable_totp :: "principal option \<Rightarrow> unit option db_op" where
  "route_disable_totp = with_identity (\<lambda>p. disable_totp (uid p))"

definition route_step_up ::
  "(string \<Rightarrow> string) \<Rightarrow> string \<Rightarrow> string \<Rightarrow> string \<Rightarrow> lockout_policy \<Rightarrow> int \<Rightarrow> verifier list
   \<Rightarrow> payload \<Rightarrow> instant \<Rightarrow> principal option \<Rightarrow> issued_grant option db_op" where
  "route_step_up sha256 salt grant_id token pol ttl registry payload now p = (case p of
       None \<Rightarrow> ret None
     | Some p \<Rightarrow> step_up sha256 salt grant_id token pol ttl registry p payload now)"

definition route_revoke_own_grant :: "instant \<Rightarrow> principal option \<Rightarrow> unit option db_op" where
  "route_revoke_own_grant now = with_identity (\<lambda>p. sudo_revoke_for_user (uid p) now)"

definition route_revoke_all_grants :: "instant \<Rightarrow> unit db_op" where
  "route_revoke_all_grants now = sudo_revoke_all now"

section \<open>Enrolment works\<close>

lemma create_totp_secret_ok:
  assumes "create_totp_secret cid u e now d = (Inr c, d')"
  shows "c = \<lparr>cred_id = cid, cred_user_id = u, cred_type = TOTP, cred_hash = e, cred_salt = None,
     cred_label = [], cred_created_at = now, cred_last_used_at = None, cred_expires_at = None\<rparr>
     \<and> d' = d\<lparr>t_credentials := t_credentials d @ [c]\<rparr>"
  using inserted_credential_ok [OF transaction_okE [OF assms [unfolded create_totp_secret_def]]] by auto

lemma enroll_totp_ok:
  assumes "enroll_totp seal nonce cid secret key p now d = (Inr r, d')"
  obtains k c where "key = Some k" and "get_totp_secret d' (uid p) = Some c"
    and "cred_hash c = encrypt seal nonce secret k" and "cred_last_used_at c = None"
    and "te_secret r = rstrip CHR ''='' (b32_encode secret)" and "te_digits r = 6" and "te_period r = 30"
proof -
  have free: "\<not> has_credential d (uid p) TOTP"
    using assms by (auto simp: enroll_totp_def op_then_def op_bind_def assert_totp_not_enrolled_def raise_def)
  then have "assert_totp_not_enrolled (uid p) d = (Inr (), d)"
    by (simp add: assert_totp_not_enrolled_def ret_def)
  note skip = op_then_ok [of "assert_totp_not_enrolled _", OF this]
  obtain k where k: "key = Some k"
    using assms unfolding enroll_totp_def skip by (auto simp: raise_def split: option.splits)
  obtain c where c: "create_totp_secret cid (uid p) (encrypt seal nonce secret k) now d = (Inr c, d')"
    and r: "te_secret r = rstrip CHR ''='' (b32_encode secret)" "te_digits r = 6" "te_period r = 30"
    using assms unfolding enroll_totp_def skip k option.case Let_def
    by (elim op_then_okE) (auto simp: ret_def default_digits_def default_step_seconds_def)
  note cok = create_totp_secret_ok [OF c]
  have "find (credential_of_type (uid p) TOTP) (t_credentials d) = None"
    using free by (auto simp: find_None_iff has_credential_def)
  then have "get_totp_secret d' (uid p) = Some c"
    using cok by (simp add: get_totp_secret_def find_append credential_of_type_def)
  with k r cok show thesis by (intro that) auto
qed



end
