(* ===== verification/Role_Sync.thy ===== *)
theory Role_Sync
  imports Governance
begin

text \<open>
  \<open>auth/role_sync.py\<close>: the claims-to-roles reconciliation an OIDC login runs. It reads and
  writes only the assignment rows of one user whose \<open>source\<close> is the provider.
\<close>

section \<open>The primitive\<close>

definition claim_matches :: "(string \<times> json) list \<Rightarrow> string \<Rightarrow> string \<Rightarrow> bool" where
  "claim_matches claims claim val = (case map_of claims claim of
       Some (JStr s) \<Rightarrow> s = val
     | Some (JList items) \<Rightarrow> list_ex (\<lambda>item. item = JStr val) items
     | _ \<Rightarrow> False)"

definition desired_roles :: "(string \<times> json) list \<Rightarrow> role_mapping list \<Rightarrow> string list" where
  "desired_roles claims mappings = remdups (map rm_role_id
     (filter (\<lambda>m. claim_matches claims (rm_claim m) (rm_value m)) mappings))"

text \<open>\<open>role_ids_for_subject\<close> as the list of its elements.\<close>

definition current_roles :: "db \<Rightarrow> string \<Rightarrow> string \<Rightarrow> string list" where
  "current_roles d user_id provider = map ra_role_id (filter (\<lambda>a. ra_subject_type a = USER
     \<and> ra_subject_id a = user_id \<and> ra_source a = provider) (t_role_assignments d))"

definition sync_mapped_roles ::
  "(string \<Rightarrow> string) \<Rightarrow> string \<Rightarrow> string \<Rightarrow> (string \<times> json) list \<Rightarrow> stamp \<Rightarrow> unit db_op" where
  "sync_mapped_roles new_id user_id provider claims now =
     op_bind (asks (\<lambda>d. desired_roles claims (mapping_list_for_provider d provider))) (\<lambda>desired.
     op_bind (asks (\<lambda>d. current_roles d user_id provider)) (\<lambda>current. op_then
       (foreach (\<lambda>rid. op_then (assign (new_id rid) USER user_id rid provider now) (ret ()))
          (filter (\<lambda>rid. rid \<notin> set current) desired))
       (foreach (\<lambda>rid. unassign USER user_id rid (Some provider))
          (filter (\<lambda>rid. rid \<notin> set desired) current))))"

lemma keeps_sync_mapped_roles: "keeps db_ok (sync_mapped_roles new_id u prov claims now)"
  unfolding sync_mapped_roles_def by (intro keeps_intros)

lemma current_roles_set: "set (current_roles d u prov) = role_ids_for_subject d USER u prov"
  by (auto simp: current_roles_def role_ids_for_subject_def)

section \<open>What it does\<close>

text \<open>\<open>mine\<close>: the rows it may touch. \<open>elsewhere\<close>: the roles the user has from other sources.\<close>

definition mine :: "string \<Rightarrow> string \<Rightarrow> role_assignment \<Rightarrow> bool" where
  "mine u prov a \<longleftrightarrow> ra_subject_type a = USER \<and> ra_subject_id a = u \<and> ra_source a = prov"

definition elsewhere :: "db \<Rightarrow> string \<Rightarrow> string \<Rightarrow> string set" where
  "elsewhere d u prov = {ra_role_id a | a. a \<in> set (t_role_assignments d)
     \<and> ra_subject_type a = USER \<and> ra_subject_id a = u \<and> ra_source a \<noteq> prov}"

lemma provider_assign_run:
  assumes "db_ok d" and "subject_exists d USER u" and "rid \<in> rol_id ` set (t_roles d)"
    and "rid \<in> elsewhere d u prov \<or> new \<notin> ra_id ` set (t_role_assignments d)"
  shows "\<exists>as. op_then (assign new USER u rid prov now) (ret ()) d
        = (Inr (), d\<lparr>t_role_assignments := t_role_assignments d @ as\<rparr>)
     \<and> (as = [] \<and> rid \<in> elsewhere d u prov \<union> set (current_roles d u prov)
        \<or> rid \<notin> elsewhere d u prov \<and> (\<exists>a. as = [a] \<and> mine u prov a \<and> ra_role_id a = rid \<and> ra_id a = new))"
proof -
  let ?a = "\<lparr>ra_id = new, ra_subject_type = USER, ra_subject_id = u, ra_role_id = rid,
              ra_created_at = now, ra_source = prov\<rparr>"
  let ?hit = "(USER, u, rid) \<in> assignment_key ` set (t_role_assignments d)"
  let ?d = "d\<lparr>t_role_assignments := t_role_assignments d @ (if ?hit then [] else [?a])\<rparr>"
  have hit: "?hit \<longleftrightarrow> rid \<in> elsewhere d u prov \<union> set (current_roles d u prov)"
  proof -
    have "?hit \<longleftrightarrow> (\<exists>a \<in> set (t_role_assignments d). ra_subject_type a = USER \<and> ra_subject_id a = u
        \<and> ra_role_id a = rid)"
      unfolding assignment_key_def image_iff by (auto, metis+)
    then show ?thesis by (auto simp: elsewhere_def current_roles_def)
  qed
  have "insert_assignment ?a d = (Inr (), ?d)"
    using assms(3,4) hit by (auto simp: insert_assignment_def assignment_key_def ret_def put_def)
  moreover have "\<exists>row. assignment_find ?d USER u rid = Some row"
  proof -
    have "(USER, u, rid) \<in> assignment_key ` set (t_role_assignments ?d)"
      by (auto simp: assignment_key_def)
    then show ?thesis
      unfolding assignment_find_def using find_None_key [of assignment_key "(USER, u, rid)"] by blast
  qed
  then obtain row where "assignment_find ?d USER u rid = Some row" by blast
  ultimately have "assign new USER u rid prov now d = (Inr row, ?d)"
    using assms(2)
    by (simp add: assign_def op_run demand_def transaction_def ret_def)
  then have "op_then (assign new USER u rid prov now) (ret ()) d = (Inr (), ?d)"
    by (simp add: op_run ret_def)
  then show ?thesis
    by (intro exI [of _ "if ?hit then [] else [?a]"]) (use hit in \<open>auto simp: mine_def\<close>)
qed

lemma elsewhere_add_mine [simp]:
  "\<forall>a \<in> set as. mine u prov a \<Longrightarrow>
   elsewhere (d\<lparr>t_role_assignments := t_role_assignments d @ as\<rparr>) u prov = elsewhere d u prov"
  by (auto simp: elsewhere_def mine_def)

lemma current_add_mine [simp]:
  "\<forall>a \<in> set as. mine u prov a \<Longrightarrow>
   set (current_roles (d\<lparr>t_role_assignments := t_role_assignments d @ as\<rparr>) u prov)
     = set (current_roles d u prov) \<union> ra_role_id ` set as"
  by (auto simp: current_roles_def mine_def)

lemma provider_assigns_run:
  assumes "db_ok d" and "subject_exists d USER u" and "set rs \<subseteq> rol_id ` set (t_roles d)"
    and "distinct rs" and "set rs \<inter> set (current_roles d u prov) = {}" and "inj new_id"
    and "\<forall>r \<in> set rs. r \<in> elsewhere d u prov \<or> new_id r \<notin> ra_id ` set (t_role_assignments d)"
  shows "\<exists>as. foreach (\<lambda>rid. op_then (assign (new_id rid) USER u rid prov now) (ret ())) rs d
        = (Inr (), d\<lparr>t_role_assignments := t_role_assignments d @ as\<rparr>)
     \<and> (\<forall>a \<in> set as. mine u prov a) \<and> ra_role_id ` set as = set rs - elsewhere d u prov"
  using assms
proof (induction rs arbitrary: d)
  case Nil
  show ?case by (intro exI [of _ "[]"]) (simp add: ret_def)
next
  case (Cons r rs)
  let ?f = "\<lambda>rid. op_then (assign (new_id rid) USER u rid prov now) (ret ()) :: unit db_op"
  obtain as where one: "?f r d = (Inr (), d\<lparr>t_role_assignments := t_role_assignments d @ as\<rparr>)"
    and as: "as = [] \<and> r \<in> elsewhere d u prov \<union> set (current_roles d u prov)
        \<or> r \<notin> elsewhere d u prov \<and> (\<exists>a. as = [a] \<and> mine u prov a \<and> ra_role_id a = r \<and> ra_id a = new_id r)"
    using provider_assign_run [OF Cons.prems(1,2), of r prov "new_id r" now] Cons.prems(3,7) by auto
  let ?d = "d\<lparr>t_role_assignments := t_role_assignments d @ as\<rparr>"
  have as_mine: "\<forall>a \<in> set as. mine u prov a" using as by auto
  have as_roles: "ra_role_id ` set as = {r} - elsewhere d u prov"
    using as Cons.prems(5) by auto
  have "keeps db_ok (?f r)" by (intro keeps_intros)
  then have "db_ok ?d" using one Cons.prems(1) by (metis keeps_result)
  moreover have "subject_exists ?d USER u" using Cons.prems(2) by simp
  moreover have "set rs \<subseteq> rol_id ` set (t_roles ?d)" "distinct rs" using Cons.prems(3,4) by auto
  moreover have "set rs \<inter> set (current_roles ?d u prov) = {}"
    using Cons.prems(4,5) as_roles as_mine by auto
  moreover have "\<forall>r' \<in> set rs. r' \<in> elsewhere ?d u prov \<or> new_id r' \<notin> ra_id ` set (t_role_assignments ?d)"
  proof
    fix r' assume r': "r' \<in> set rs"
    have "r' \<noteq> r" using r' Cons.prems(4) by auto
    then have "new_id r' \<noteq> new_id r" using Cons.prems(6) by (simp add: inj_eq)
    then have "new_id r' \<notin> ra_id ` set as" using as by auto
    then show "r' \<in> elsewhere ?d u prov \<or> new_id r' \<notin> ra_id ` set (t_role_assignments ?d)"
      using Cons.prems(7) r' as_mine by auto
  qed
  ultimately obtain bs where two: "foreach ?f rs ?d
        = (Inr (), ?d\<lparr>t_role_assignments := t_role_assignments ?d @ bs\<rparr>)"
    "\<forall>a \<in> set bs. mine u prov a" "ra_role_id ` set bs = set rs - elsewhere ?d u prov"
    using Cons.IH [of ?d] Cons.prems(6) by blast
  then show ?case
    using one as_mine as_roles by (intro exI [of _ "as @ bs"]) (auto simp: op_then_ok)
qed

lemma provider_unassigns_run:
  "foreach (\<lambda>rid. unassign USER u rid (Some prov)) rs d = (Inr (), d\<lparr>t_role_assignments :=
     filter (\<lambda>a. \<not> (mine u prov a \<and> ra_role_id a \<in> set rs)) (t_role_assignments d)\<rparr>)"
proof (induction rs arbitrary: d)
  case (Cons r rs)
  have "unassign USER u r (Some prov) d = (Inr (), d\<lparr>t_role_assignments :=
      filter (\<lambda>a. \<not> (mine u prov a \<and> ra_role_id a = r)) (t_role_assignments d)\<rparr>)"
    by (auto simp: unassign_def op_defs delete_where_def mine_def assignment_key_def
        intro!: arg_cong [where f = "\<lambda>x. d\<lparr>t_role_assignments := x\<rparr>"] filter_cong)
  then show ?case
    by (auto simp: Cons.IH op_then_ok intro!: arg_cong [where f = "\<lambda>x. d\<lparr>t_role_assignments := x\<rparr>"] filter_cong)
qed (simp add: ret_def)

definition implied_roles :: "db \<Rightarrow> string \<Rightarrow> (string \<times> json) list \<Rightarrow> string set" where
  "implied_roles d prov claims = {rm_role_id m | m. m \<in> set (t_role_mappings d) \<and> rm_provider m = prov
     \<and> claim_matches claims (rm_claim m) (rm_value m)}"

lemma desired_roles_set: "set (desired_roles claims (mapping_list_for_provider d prov)) = implied_roles d prov claims"
  by (auto simp: desired_roles_def mapping_list_for_provider_def implied_roles_def)

lemma sync_run:
  assumes "db_ok d" and "subject_exists d USER u" and "inj new_id"
    and "\<forall>r \<in> implied_roles d prov claims - role_ids_for_subject d USER u prov.
           r \<in> elsewhere d u prov \<or> new_id r \<notin> ra_id ` set (t_role_assignments d)"
  shows "\<exists>as. sync_mapped_roles new_id u prov claims now d = (Inr (), d\<lparr>t_role_assignments :=
       filter (\<lambda>a. mine u prov a \<longrightarrow> ra_role_id a \<in> implied_roles d prov claims)
         (t_role_assignments d @ as)\<rparr>)
     \<and> (\<forall>a \<in> set as. mine u prov a)
     \<and> ra_role_id ` set as = implied_roles d prov claims - role_ids_for_subject d USER u prov - elsewhere d u prov"
proof -
  let ?des = "desired_roles claims (mapping_list_for_provider d prov)"
  let ?cur = "current_roles d u prov"
  let ?new = "filter (\<lambda>r. r \<notin> set ?cur) ?des" and ?old = "filter (\<lambda>r. r \<notin> set ?des) ?cur"
  have "set ?new \<subseteq> rol_id ` set (t_roles d)"
    using assms(1) by (auto simp: desired_roles_set implied_roles_def db_ok_def refs_ok_def)
  moreover have "distinct ?new" by (simp add: desired_roles_def)
  ultimately obtain as where as: "foreach (\<lambda>rid. op_then (assign (new_id rid) USER u rid prov now) (ret ())) ?new d
        = (Inr (), d\<lparr>t_role_assignments := t_role_assignments d @ as\<rparr>)"
    "\<forall>a \<in> set as. mine u prov a" "ra_role_id ` set as = set ?new - elsewhere d u prov"
    using provider_assigns_run [OF assms(1,2), of ?new prov new_id now] assms(3,4)
    by (auto simp: desired_roles_set current_roles_set)
  have keep: "(\<not> (mine u prov a \<and> ra_role_id a \<in> set ?old))
      \<longleftrightarrow> (mine u prov a \<longrightarrow> ra_role_id a \<in> implied_roles d prov claims)"
    if "a \<in> set (t_role_assignments d @ as)" for a
    using that as(2,3) by (auto simp: desired_roles_set current_roles_def mine_def)
  have "sync_mapped_roles new_id u prov claims now d = (Inr (), d\<lparr>t_role_assignments :=
       filter (\<lambda>a. \<not> (mine u prov a \<and> ra_role_id a \<in> set ?old)) (t_role_assignments d @ as)\<rparr>)"
    unfolding sync_mapped_roles_def op_bind_asks
    by (subst op_then_ok) (rule as(1), simp add: provider_unassigns_run)
  also have "filter (\<lambda>a. \<not> (mine u prov a \<and> ra_role_id a \<in> set ?old)) (t_role_assignments d @ as)
      = filter (\<lambda>a. mine u prov a \<longrightarrow> ra_role_id a \<in> implied_roles d prov claims) (t_role_assignments d @ as)"
    using keep by (intro filter_cong) simp_all
  finally show ?thesis
    using as(2,3) by (intro exI [of _ as]) (auto simp: desired_roles_set current_roles_set)
qed

text \<open>
  C6. The claims-to-roles synchronisation: for a known user it never fails; the provider's
  assignments of that user become exactly the roles the claims imply, less those the user
  already holds from another source; no other row of the table is added, removed or changed,
  and no other table is touched; and running it again with the same claims changes nothing.
\<close>

theorem sync_mapped_roles_exact:
  assumes "db_ok d" and "subject_exists d USER u" and "inj new_id"
    and "\<forall>r. new_id r \<notin> ra_id ` set (t_role_assignments d)"
  shows "fst (sync_mapped_roles new_id u prov claims now d) = Inr ()
     \<and> (let d' = snd (sync_mapped_roles new_id u prov claims now d) in
         role_ids_for_subject d' USER u prov
           = {rm_role_id m | m. m \<in> set (t_role_mappings d) \<and> rm_provider m = prov
                \<and> claim_matches claims (rm_claim m) (rm_value m)}
             - {ra_role_id a | a. a \<in> set (t_role_assignments d) \<and> ra_subject_type a = USER
                  \<and> ra_subject_id a = u \<and> ra_source a \<noteq> prov}
         \<and> filter (\<lambda>a. \<not> mine u prov a) (t_role_assignments d')
             = filter (\<lambda>a. \<not> mine u prov a) (t_role_assignments d)
         \<and> d' = d\<lparr>t_role_assignments := t_role_assignments d'\<rparr>
         \<and> sync_mapped_roles new_id u prov claims later d' = (Inr (), d'))"
proof -
  from sync_run [OF assms(1-3), where prov = prov and claims = claims and now = now] assms(4)
  obtain as where run: "sync_mapped_roles new_id u prov claims now d = (Inr (), d\<lparr>t_role_assignments :=
       filter (\<lambda>a. mine u prov a \<longrightarrow> ra_role_id a \<in> implied_roles d prov claims)
         (t_role_assignments d @ as)\<rparr>)" (is "_ = (_, ?d')")
    and as: "\<forall>a \<in> set as. mine u prov a"
      "ra_role_id ` set as = implied_roles d prov claims - role_ids_for_subject d USER u prov - elsewhere d u prov"
    by blast
  have same: "implied_roles ?d' prov claims = implied_roles d prov claims"
    "elsewhere ?d' u prov = elsewhere d u prov"
    using as(1) by (auto simp: implied_roles_def elsewhere_def mine_def)
  have other: "role_ids_for_subject d USER u prov \<inter> elsewhere d u prov = {}"
  proof -
    have "a = b" if "a \<in> set (t_role_assignments d)" "b \<in> set (t_role_assignments d)"
      "assignment_key a = assignment_key b" for a b
      using assms(1) that unique_byD by (fastforce simp: db_ok_def keys_ok_def)
    then show ?thesis by (fastforce simp: role_ids_for_subject_def elsewhere_def assignment_key_def)
  qed
  have "role_ids_for_subject ?d' USER u prov = ra_role_id ` {a \<in> set (t_role_assignments d @ as).
      mine u prov a \<and> ra_role_id a \<in> implied_roles d prov claims}"
    by (auto simp: role_ids_for_subject_def mine_def)
  also have "\<dots> = (role_ids_for_subject d USER u prov \<union> ra_role_id ` set as) \<inter> implied_roles d prov claims"
    using as(1) by (auto simp: role_ids_for_subject_def mine_def)
  also have "\<dots> = implied_roles d prov claims - elsewhere d u prov"
    unfolding as(2) using other by blast
  finally have exact: "role_ids_for_subject ?d' USER u prov = implied_roles d prov claims - elsewhere d u prov" .
  have "db_ok ?d'"
    using run keepsD [OF keeps_sync_mapped_roles assms(1), of new_id u prov claims now] by simp
  moreover have "subject_exists ?d' USER u" using assms(2) by simp
  ultimately obtain bs where "sync_mapped_roles new_id u prov claims later ?d' = (Inr (), ?d'\<lparr>t_role_assignments :=
       filter (\<lambda>a. mine u prov a \<longrightarrow> ra_role_id a \<in> implied_roles ?d' prov claims)
         (t_role_assignments ?d' @ bs)\<rparr>)"
    "ra_role_id ` set bs = implied_roles ?d' prov claims - role_ids_for_subject ?d' USER u prov - elsewhere ?d' u prov"
    using sync_run [OF _ _ assms(3), of ?d' u prov claims later] unfolding same exact by blast
  moreover have "A - (A - E) - E = {}" for A E :: "string set" by blast
  with calculation(2) have "ra_role_id ` set bs = {}" unfolding same exact by (simp only:)
  then have "bs = []" by simp
  ultimately have "sync_mapped_roles new_id u prov claims later ?d' = (Inr (), ?d')"
    unfolding same by simp
  moreover have "filter (\<lambda>a. \<not> mine u prov a) (t_role_assignments ?d')
      = filter (\<lambda>a. \<not> mine u prov a) (t_role_assignments d)"
  proof -
    have "filter (\<lambda>a. \<not> mine u prov a) as = []" using as(1) by (simp add: filter_empty_conv)
    moreover have "filter (\<lambda>a. (mine u prov a \<longrightarrow> ra_role_id a \<in> implied_roles d prov claims) \<and> \<not> mine u prov a)
        xs = filter (\<lambda>a. \<not> mine u prov a) xs" for xs
      by (intro filter_cong) auto
    ultimately show ?thesis by simp
  qed
  ultimately show ?thesis
    using run exact unfolding Let_def implied_roles_def elsewhere_def by simp
qed

definition claimed_org :: db where
  "claimed_org = org\<lparr>t_role_mappings := [\<lparr>rm_id = ''m'', rm_provider = ''idp'', rm_claim = ''groups'',
     rm_value = ''ops'', rm_role_id = ''read''\<rparr>]\<rparr>"

lemma claimed_org_ok: "db_ok claimed_org"
  by (simp add: claimed_org_def db_ok_def ok_defs org_defs unique_by_def assignment_key_def
      subject_exists_def mapping_tuple_def)

theorem sync_mapped_roles_exact_witness:
  "role_ids_for_subject (snd (sync_mapped_roles (\<lambda>r. ''new-'' @ r) ''cy'' ''idp''
      [(''groups'', JList [JInt 1, JStr ''ops''])] 0 claimed_org)) USER ''cy'' ''idp'' = {''read''}"
proof -
  let ?s = "sync_mapped_roles (\<lambda>r. ''new-'' @ r) ''cy'' ''idp'' [(''groups'', JList [JInt 1, JStr ''ops''])] 0 claimed_org"
  have "inj (\<lambda>r. ''new-'' @ r)" by (simp add: inj_def)
  moreover have "subject_exists claimed_org USER ''cy''"
    "\<forall>r. ''new-'' @ r \<notin> ra_id ` set (t_role_assignments claimed_org)"
    by (simp_all add: claimed_org_def org_defs subject_exists_def)
  ultimately have "role_ids_for_subject (snd ?s) USER ''cy'' ''idp''
      = {rm_role_id m | m. m \<in> set (t_role_mappings claimed_org) \<and> rm_provider m = ''idp''
           \<and> claim_matches [(''groups'', JList [JInt 1, JStr ''ops''])] (rm_claim m) (rm_value m)}
        - {ra_role_id a | a. a \<in> set (t_role_assignments claimed_org) \<and> ra_subject_type a = USER
             \<and> ra_subject_id a = ''cy'' \<and> ra_source a \<noteq> ''idp''}"
    using sync_mapped_roles_exact [OF claimed_org_ok] unfolding Let_def by blast
  also have "\<dots> = {''read''}"
    by (auto simp: claimed_org_def org_defs claim_matches_def)
  finally show ?thesis .
qed

text \<open>
  The synchronisation has no \<open>assert_admin_remains\<close>: a login whose claims no longer name the
  admin group takes the role from the only admin.
\<close>

definition idp_admin_org :: db where
  "idp_admin_org = org\<lparr>t_role_assignments :=
     [\<lparr>ra_id = ''1'', ra_subject_type = USER, ra_subject_id = ''bob'', ra_role_id = ''admin'',
       ra_created_at = 0, ra_source = ''idp''\<rparr>]\<rparr>"

lemma sync_removes_last_admin:
  "recoverable idp_admin_org
   \<and> \<not> recoverable (snd (sync_mapped_roles (\<lambda>r. r) ''bob'' ''idp'' [] 0 idp_admin_org))"
proof
  show "recoverable idp_admin_org"
    by (rule recoverableI [where w = "''bob''"])
       (simp add: admin_by_def active_user_def held_def org_defs idp_admin_org_def)
  have "snd (sync_mapped_roles (\<lambda>r. r) ''bob'' ''idp'' [] 0 idp_admin_org)
      = idp_admin_org\<lparr>t_role_assignments := []\<rparr>"
    by (simp add: sync_mapped_roles_def op_bind_asks desired_roles_def mapping_list_for_provider_def
        current_roles_def idp_admin_org_def org_defs op_run unassign_def op_defs delete_where_def
        assignment_key_def)
  then show "\<not> recoverable (snd (sync_mapped_roles (\<lambda>r. r) ''bob'' ''idp'' [] 0 idp_admin_org))"
    by (simp add: recoverable_def admin_by_def held_def)
qed

end
