(* ===== verification/Gate.thy ===== *)
theory Gate
  imports Sudo
begin

text \<open>
  The way into the API: the authenticator chain (\<open>auth/authenticator.py\<close>), the bearer
  middleware (\<open>api/auth.py\<close>) and, after it, the route dependency of \<open>api/authorization.py\<close>.
  A header value is its bytes as characters; one clock reading per service is an argument.
\<close>

section \<open>Authenticators\<close>

record authenticator =
  au_method :: auth_method
  au_authenticate :: "string \<Rightarrow> user option db_op"

text \<open>The comparison is on the texts of instants; an API token never carries a TOTP step.\<close>

definition touch_if_stale :: "int \<Rightarrow> string \<Rightarrow> last_used option \<Rightarrow> instant \<Rightarrow> unit db_op" where
  "touch_if_stale resolution credential_id last_used_at now =
     (let threshold = iso (now - resolution);
          stale = (case last_used_at of
              None \<Rightarrow> True | Some (At t) \<Rightarrow> t < threshold | Some (Step _) \<Rightarrow> True)
      in if stale then touch_last_used credential_id (At (iso now)) else ret ())"

definition api_token_authenticate ::
  "(string \<Rightarrow> string) \<Rightarrow> int \<Rightarrow> instant \<Rightarrow> string \<Rightarrow> user option db_op" where
  "api_token_authenticate sha256 resolution now credential =
     op_bind (asks (\<lambda>d. find_api_token_credential sha256 d credential (iso now))) (\<lambda>matched.
       case matched of
         None \<Rightarrow> ret None
       | Some c \<Rightarrow> op_then (touch_if_stale resolution (cred_id c) (cred_last_used_at c) now)
           (asks (\<lambda>d. user_get d (cred_user_id c))))"

definition build_authenticators :: "(string \<Rightarrow> string) \<Rightarrow> int \<Rightarrow> instant \<Rightarrow> authenticator list" where
  "build_authenticators sha256 resolution now = [\<lparr>au_method = API_TOKEN_METHOD,
     au_authenticate = api_token_authenticate sha256 resolution now\<rparr>]"

definition principal_of :: "auth_method \<Rightarrow> user \<Rightarrow> principal db_op" where
  "principal_of meth u = asks (\<lambda>d. let roles = roles_for_user d (usr_id u) in
     \<lparr>pr_user = u, pr_role_ids = set (map rol_id roles), pr_role_slugs = set (map rol_slug roles),
      pr_auth_method = meth, pr_sudo_active = False, pr_sudo_grant_id = None\<rparr>)"

fun resolve_principal :: "authenticator list \<Rightarrow> string \<Rightarrow> principal option db_op" where
  "resolve_principal [] credential = ret None"
| "resolve_principal (a # authenticators) credential =
     op_bind (au_authenticate a credential) (\<lambda>u. case u of
         None \<Rightarrow> resolve_principal authenticators credential
       | Some u \<Rightarrow> if \<not> usr_active u \<or> usr_deleted_at u \<noteq> None then ret None
           else op_bind (principal_of (au_method a) u) (\<lambda>p. ret (Some p)))"

section \<open>The middleware\<close>

record request =
  rq_is_http :: bool
  rq_path :: string
  rq_method :: string
  rq_headers :: "(string \<times> string) list"

definition public_paths :: "string set" where
  "public_paths = {''/healthz'', ''/readyz'', ''/auth/oidc/login'', ''/auth/oidc/callback'',
     ''/auth/login''}"

definition ascii_text :: "string \<Rightarrow> string option" where
  "ascii_text bs = (if is_ascii bs then Some bs else None)"

text \<open>\<open>s.partition(" ")\<close> without the separator.\<close>

definition partition_space :: "string \<Rightarrow> string \<times> string" where
  "partition_space s = (takeWhile (\<lambda>c. c \<noteq> CHR '' '') s, tl (dropWhile (\<lambda>c. c \<noteq> CHR '' '') s))"

definition extract_bearer_token :: "request \<Rightarrow> string option" where
  "extract_bearer_token rq = (case map_of (rq_headers rq) ''authorization'' of
       None \<Rightarrow> None
     | Some header \<Rightarrow> (case ascii_text header of
           None \<Rightarrow> None
         | Some decoded \<Rightarrow> (case partition_space decoded of (scheme, token) \<Rightarrow>
             if casefold scheme \<noteq> ''bearer'' \<or> token = [] then None else Some token)))"

definition extract_sudo_token :: "request \<Rightarrow> string option" where
  "extract_sudo_token rq = (case map_of (rq_headers rq) ''x-sudo-token'' of
       None \<Rightarrow> None
     | Some header \<Rightarrow> (case ascii_text header of
           None \<Rightarrow> None
         | Some token \<Rightarrow> if token = [] then None else Some token))"

datatype gate_answer = Pass "principal option" | Unauthorized

definition elevate :: "(string \<Rightarrow> string) \<Rightarrow> instant \<Rightarrow> request \<Rightarrow> principal \<Rightarrow> principal db_op" where
  "elevate sha256 now rq p = (case extract_sudo_token rq of
       None \<Rightarrow> ret p
     | Some token \<Rightarrow> op_bind (asks (\<lambda>d. sudo_resolve sha256 d (uid p) token now)) (\<lambda>grant.
         case grant of None \<Rightarrow> ret p | Some g \<Rightarrow> ret (with_sudo (sg_id g) p)))"

definition bearer_auth ::
  "bool \<Rightarrow> (string \<Rightarrow> string) \<Rightarrow> authenticator list \<Rightarrow> instant \<Rightarrow> request \<Rightarrow> gate_answer db_op" where
  "bearer_auth enabled sha256 authenticators sudo_now rq =
     (if \<not> rq_is_http rq \<or> \<not> enabled \<or> rq_path rq \<in> public_paths then ret (Pass None)
      else op_bind (case extract_bearer_token rq of
             None \<Rightarrow> ret None
           | Some provided \<Rightarrow> resolve_principal authenticators provided) (\<lambda>p. case p of
             None \<Rightarrow> ret Unauthorized
           | Some p \<Rightarrow> op_bind (elevate sha256 sudo_now rq p) (\<lambda>p. ret (Pass (Some p)))))"

text \<open>A request to a gated route: the middleware, the route's \<open>require\<close>, then the handler.\<close>

definition gated ::
  "bool \<Rightarrow> (string \<Rightarrow> string) \<Rightarrow> authenticator list \<Rightarrow> instant \<Rightarrow> string \<Rightarrow> bool
   \<Rightarrow> (principal option \<Rightarrow> 'a db_op) \<Rightarrow> request \<Rightarrow> 'a option db_op" where
  "gated enabled sha256 authenticators sudo_now res sensitive handler rq =
     op_bind (bearer_auth enabled sha256 authenticators sudo_now rq) (\<lambda>answer. case answer of
         Unauthorized \<Rightarrow> ret None
       | Pass p \<Rightarrow> op_then (require_dep enabled res sensitive p (rq_method rq))
           (op_bind (handler p) (\<lambda>x. ret (Some x))))"

section \<open>What gets through\<close>

text \<open>The gate writes nothing but \<open>last_used_at\<close>.\<close>

definition gate_frame :: "db \<Rightarrow> db \<Rightarrow> bool" where
  "gate_frame d d' \<longleftrightarrow> d' = d \<or> (\<exists>cid t. d' = d\<lparr>t_credentials := update_where (\<lambda>c. cred_id c = cid)
       (\<lambda>c. c\<lparr>cred_last_used_at := Some (At t)\<rparr>) (t_credentials d)\<rparr>)"

lemma gate_frame_tables:
  assumes "gate_frame d d'"
  shows "t_users d' = t_users d" "t_roles d' = t_roles d" "t_role_assignments d' = t_role_assignments d"
    "t_role_permissions d' = t_role_permissions d" "t_user_groups d' = t_user_groups d"
    "t_sudo_grants d' = t_sudo_grants d"
  using assms by (auto simp: gate_frame_def)

lemma gate_frame_refl [simp]: "gate_frame d d"
  by (simp add: gate_frame_def)

lemma touch_if_stale_frame: "touch_if_stale r cid l now d = (x, d') \<Longrightarrow> x = Inr () \<and> gate_frame d d'"
  by (auto simp: touch_if_stale_def Let_def touch_run ret_def gate_frame_def
      split: if_splits option.splits last_used.splits)

lemma api_token_authenticate_run:
  "\<exists>d'. gate_frame d d' \<and> api_token_authenticate sha256 r now credential d
     = (Inr (case find_api_token_credential sha256 d credential (iso now) of
          None \<Rightarrow> None | Some c \<Rightarrow> user_get d (cred_user_id c)), d')"
proof (cases "find_api_token_credential sha256 d credential (iso now)")
  case None
  then show ?thesis by (auto simp: api_token_authenticate_def op_bind_asks ret_def gate_frame_def)
next
  case (Some c)
  obtain d' where t: "touch_if_stale r (cred_id c) (cred_last_used_at c) now d = (Inr (), d')"
    and f: "gate_frame d d'"
    using touch_if_stale_frame by (metis prod.exhaust)
  have "api_token_authenticate sha256 r now credential d = (Inr (user_get d' (cred_user_id c)), d')"
    unfolding api_token_authenticate_def op_bind_asks Some option.case
      op_then_ok [of "touch_if_stale _ _ _ _", OF t] by (simp add: asks_def)
  then show ?thesis using f Some gate_frame_tables(1) [OF f] by (auto simp: user_get_def)
qed

text \<open>The row that let a credential in.\<close>

definition token_row :: "(string \<Rightarrow> string) \<Rightarrow> db \<Rightarrow> string \<Rightarrow> instant \<Rightarrow> credential \<Rightarrow> bool" where
  "token_row sha256 d token now c \<longleftrightarrow> c \<in> set (t_credentials d) \<and> cred_type c = API_TOKEN
     \<and> live_at (iso now) c \<and> token_matches sha256 token c"

lemma find_token_row:
  "find_api_token_credential sha256 d token (iso now) = Some c \<Longrightarrow> token_row sha256 d token now c"
  by (auto simp: find_api_token_credential_def token_row_def find_Some_iff dest!: nth_mem)

lemma resolve_principal_ok:
  assumes "resolve_principal (build_authenticators sha256 r now) credential d = (Inr (Some p), d')"
  shows "gate_frame d d' \<and> (\<exists>c. token_row sha256 d credential now c \<and> user_get d (cred_user_id c) = Some (pr_user p))
     \<and> usr_active (pr_user p) \<and> usr_deleted_at (pr_user p) = None \<and> \<not> pr_sudo_active p
     \<and> pr_role_ids p = rol_id ` set (roles_for_user d (uid p))
     \<and> pr_role_slugs p = rol_slug ` set (roles_for_user d (uid p))"
proof -
  obtain d1 where f: "gate_frame d d1" and a: "api_token_authenticate sha256 r now credential d
     = (Inr (case find_api_token_credential sha256 d credential (iso now) of
          None \<Rightarrow> None | Some c \<Rightarrow> user_get d (cred_user_id c)), d1)"
    using api_token_authenticate_run by blast
  obtain c where c: "find_api_token_credential sha256 d credential (iso now) = Some c"
    and u: "user_get d (cred_user_id c) = Some (pr_user p)"
    and p: "usr_active (pr_user p)" "usr_deleted_at (pr_user p) = None" "\<not> pr_sudo_active p" "d' = d1"
      "pr_role_ids p = rol_id ` set (roles_for_user d1 (uid p))"
      "pr_role_slugs p = rol_slug ` set (roles_for_user d1 (uid p))"
    using assms a
    by (auto simp: build_authenticators_def op_bind_def ret_def principal_of_def asks_def Let_def uid_def
        split: option.splits if_splits)
  have "roles_for_user d1 (uid p) = roles_for_user d (uid p)"
    using gate_frame_tables [OF f] by (simp add: roles_for_user_def)
  then show ?thesis using f u p find_token_row [OF c] by auto
qed

lemma resolve_principal_frame:
  "\<exists>r d'. resolve_principal (build_authenticators sha256 res now) credential d = (Inr r, d') \<and> gate_frame d d'"
proof -
  obtain d1 where "gate_frame d d1" "api_token_authenticate sha256 res now credential d
     = (Inr (case find_api_token_credential sha256 d credential (iso now) of
          None \<Rightarrow> None | Some c \<Rightarrow> user_get d (cred_user_id c)), d1)"
    using api_token_authenticate_run by blast
  then show ?thesis
    by (auto simp: build_authenticators_def op_bind_def ret_def principal_of_def asks_def
        split: option.split)
qed

text \<open>The live sudo grant a request presents.\<close>

definition presents_grant :: "(string \<Rightarrow> string) \<Rightarrow> db \<Rightarrow> request \<Rightarrow> instant \<Rightarrow> string \<Rightarrow> bool" where
  "presents_grant sha256 d rq now u \<longleftrightarrow> (\<exists>token g. extract_sudo_token rq = Some token
     \<and> g \<in> set (t_sudo_grants d) \<and> sg_user_id g = u \<and> sg_revoked_at g = None
     \<and> iso now < sg_expires_at g \<and> verify_token_hash sha256 token (sg_salt g) (sg_hash g))"

lemma elevate_run:
  "\<exists>p'. elevate sha256 now rq p d = (Inr p', d) \<and> pr_user p' = pr_user p \<and> pr_role_ids p' = pr_role_ids p
     \<and> pr_role_slugs p' = pr_role_slugs p
     \<and> (pr_sudo_active p' \<longrightarrow> pr_sudo_active p \<or> presents_grant sha256 d rq now (uid p))"
proof (cases "extract_sudo_token rq")
  case None
  then show ?thesis by (simp add: elevate_def ret_def)
next
  case (Some token)
  show ?thesis
  proof (cases "sudo_resolve sha256 d (uid p) token now")
    case None
    with Some show ?thesis by (simp add: elevate_def op_bind_asks ret_def)
  next
    case (Some g)
    then have "g \<in> set (t_sudo_grants d) \<and> sg_user_id g = uid p \<and> sg_revoked_at g = None
        \<and> iso now < sg_expires_at g \<and> verify_token_hash sha256 token (sg_salt g) (sg_hash g)"
      by (auto simp: sudo_resolve_def sudo_grant_find_active_def find_Some_iff
          split: option.splits if_splits)
    then have "presents_grant sha256 d rq now (uid p)"
      using \<open>extract_sudo_token rq = Some token\<close> by (auto simp: presents_grant_def)
    then show ?thesis
      using Some \<open>extract_sudo_token rq = Some token\<close>
      by (simp add: elevate_def op_bind_asks ret_def with_sudo_def)
  qed
qed

text \<open>Who may act: the whole entitlement, read off the tables.\<close>

definition entitled ::
  "(string \<Rightarrow> string) \<Rightarrow> db \<Rightarrow> request \<Rightarrow> instant \<Rightarrow> instant \<Rightarrow> string \<Rightarrow> bool \<Rightarrow> user \<Rightarrow> bool" where
  "entitled sha256 d rq now sudo_now res sensitive u \<longleftrightarrow>
     (\<exists>token c. extract_bearer_token rq = Some token \<and> token_row sha256 d token now c
        \<and> user_get d (cred_user_id c) = Some u)
     \<and> usr_active u \<and> usr_deleted_at u = None
     \<and> (\<exists>v. rq_method rq = verb_value v \<and> (\<exists>r \<in> set (roles_for_user d (usr_id u)).
            (res, v) \<in> grants_for_roles d {rol_id r}))
     \<and> (sensitive \<longrightarrow> (\<exists>r \<in> set (roles_for_user d (usr_id u)). rol_slug r = ''admin'')
            \<or> presents_grant sha256 d rq sudo_now (usr_id u))"

lemma require_dep_pure: "snd (require_dep e res sens p m d) = d"
  by (auto simp: require_dep_def ret_def raise_def authorize_def Let_def split: option.split)

lemma gated_passes:
  assumes t: "extract_bearer_token rq = Some token"
    and r: "resolve_principal (build_authenticators sha256 resolution now) token d = (Inr (Some p), d1)"
    and e: "elevate sha256 sudo_now rq p d1 = (Inr p', d1)"
    and same: "pr_user p' = pr_user p" "pr_role_ids p' = pr_role_ids p" "pr_role_slugs p' = pr_role_slugs p"
    and sudo: "pr_sudo_active p' \<longrightarrow> pr_sudo_active p \<or> presents_grant sha256 d1 rq sudo_now (uid p)"
    and q: "require_dep True res sensitive (Some p') (rq_method rq) d1 = (Inr (), d1)"
  shows "entitled sha256 d rq now sudo_now res sensitive (pr_user p)"
proof -
  note ok = resolve_principal_ok [OF r]
  then have f: "gate_frame d d1" by simp
  obtain v where v: "rq_method rq = verb_value v" "(res, v) \<in> grants_for_roles d1 (pr_role_ids p)"
    and sens: "sensitive \<longrightarrow> is_admin_caller p' \<or> pr_sudo_active p'"
    using require_fails_closed [OF q] same by auto
  have "\<exists>r \<in> set (roles_for_user d (uid p)). (res, v) \<in> grants_for_roles d {rol_id r}"
    using v(2) ok gate_frame_tables(4) [OF f] by (auto simp: grants_for_roles_iff effective_verbs_iff)
  moreover have "presents_grant sha256 d1 rq sudo_now (uid p) = presents_grant sha256 d rq sudo_now (uid p)"
    by (simp add: presents_grant_def gate_frame_tables(6) [OF f])
  moreover have "is_admin_caller p' \<longleftrightarrow> (\<exists>r \<in> set (roles_for_user d (uid p)). rol_slug r = ''admin'')"
    using ok same by (simp add: is_admin_caller_def image_iff) metis
  ultimately show ?thesis
    using ok t v(1) sens sudo by (auto simp: entitled_def uid_def)
qed


definition probe :: request where
  "probe = \<lparr>rq_is_http = True, rq_path = ''/auth/users'', rq_method = ''GET'',
     rq_headers = [(''authorization'', ''Bearer t'')]\<rparr>"


end
