(* ===== verification/Reconcile.thy ===== *)
theory Reconcile
  imports Governance
begin

text \<open>
  Startup reconciliation (\<open>auth/reconciler.py\<close>): the catalog of resources and the grants of the
  builtin roles. A Python set that the code iterates over is the list of its elements in one
  order; the results below do not depend on it.
\<close>

section \<open>The catalog\<close>

definition sync_resources :: "resource_spec list \<Rightarrow> stamp \<Rightarrow> unit db_op" where
  "sync_resources specs now =
     (let wanted = dict_of (map (\<lambda>s. (spec_name s, s)) specs) in op_then
        (foreach (\<lambda>(name, s). resource_upsert name (spec_description s) (spec_verbs s) now) wanted)
        (op_bind (asks (\<lambda>d. filter (\<lambda>n. n \<notin> fst ` set wanted) (map res_name (resource_list_all d))))
          (\<lambda>stale. foreach resource_delete stale)))"

text \<open>A catalog row, by what the routes see of it.\<close>

definition served :: "db \<Rightarrow> string \<Rightarrow> string \<Rightarrow> verb set \<Rightarrow> bool" where
  "served d n descr vs \<longleftrightarrow>
     (\<exists>r \<in> set (t_resources d). res_name r = n \<and> res_description r = descr \<and> res_verbs r = vs)"

lemma upsert_run:
  "resource_upsert n descr vs now d = (Inr (), snd (resource_upsert n descr vs now d))"
  "t_role_permissions (snd (resource_upsert n descr vs now d)) = t_role_permissions d"
  "served (snd (resource_upsert n descr vs now d)) m e ws \<longleftrightarrow>
     (if m = n then e = descr \<and> ws = vs else served d m e ws)"
  by (auto simp: resource_upsert_def op_defs served_def bex_update_where)

lemma delete_run:
  "resource_delete n d = (Inr (), snd (resource_delete n d))"
  "t_role_permissions (snd (resource_delete n d)) = filter (\<lambda>p. rp_resource p \<noteq> n) (t_role_permissions d)"
  "served (snd (resource_delete n d)) m e ws \<longleftrightarrow> m \<noteq> n \<and> served d m e ws"
  by (auto simp: resource_delete_def op_defs served_def delete_where_def)

text \<open>A loop whose body always returns ends, in the state its bodies build.\<close>

lemma foreach_Cons_ok: "f x d = (Inr (), d') \<Longrightarrow> foreach f (x # xs) d = foreach f xs d'"
  by (simp add: op_then_def op_bind_def)

lemma foreach_total:
  assumes "\<And>x d. f x d = (Inr (), snd (f x d))"
  shows "foreach f xs d = (Inr (), fold (\<lambda>x d. snd (f x d)) xs d)"
proof (induction xs arbitrary: d)
  case (Cons x xs)
  then show ?case by (metis assms fold_simps(2) foreach_Cons_ok)
qed (simp add: ret_def)

definition upserted :: "stamp \<Rightarrow> (string \<times> resource_spec) list \<Rightarrow> db \<Rightarrow> db" where
  "upserted now = fold (\<lambda>kv d. snd (resource_upsert (fst kv) (spec_description (snd kv)) (spec_verbs (snd kv)) now d))"

definition deleted :: "string list \<Rightarrow> db \<Rightarrow> db" where
  "deleted = fold (\<lambda>n d. snd (resource_delete n d))"

lemma upserted_perms [simp]: "t_role_permissions (upserted now kvs d) = t_role_permissions d"
  by (induction kvs arbitrary: d) (simp_all add: upserted_def upsert_run(2))

lemma upserted_served:
  "distinct (map fst kvs) \<Longrightarrow> served (upserted now kvs d) m e ws \<longleftrightarrow>
     (case map_of kvs m of None \<Rightarrow> served d m e ws
      | Some s \<Rightarrow> e = spec_description s \<and> ws = spec_verbs s)"
proof (induction kvs arbitrary: d)
  case (Cons kv kvs)
  have "map_of kvs (fst kv) = None" using Cons.prems by (simp add: map_of_eq_None_iff)
  moreover have "upserted now (kv # kvs) d = upserted now kvs
      (snd (resource_upsert (fst kv) (spec_description (snd kv)) (spec_verbs (snd kv)) now d))"
    by (simp add: upserted_def)
  ultimately show ?case
    using Cons by (cases "m = fst kv") (simp_all add: upsert_run(3) split: option.split)
qed (simp add: upserted_def)

lemma deleted_perms: "t_role_permissions (deleted ns d)
     = filter (\<lambda>p. rp_resource p \<notin> set ns) (t_role_permissions d)"
  by (induction ns arbitrary: d) (auto simp: deleted_def delete_run(2) intro: filter_cong)

lemma deleted_served: "served (deleted ns d) m e ws \<longleftrightarrow> m \<notin> set ns \<and> served d m e ws"
  by (induction ns arbitrary: d) (auto simp: deleted_def delete_run(3))

lemma served_names: "n \<in> res_name ` set (t_resources d) \<longleftrightarrow> (\<exists>e ws. served d n e ws)"
  by (auto simp: served_def)

lemma sync_resources_run:
  fixes specs :: "resource_spec list" and d :: db and now :: stamp
  assumes "db_ok d"
  defines "names \<equiv> spec_name ` set specs" and "d' \<equiv> snd (sync_resources specs now d)"
  shows "sync_resources specs now d = (Inr (), d')"
    and "t_role_permissions d' = filter (\<lambda>p. rp_resource p \<in> names) (t_role_permissions d)"
    and "served d' n e ws \<longleftrightarrow> (\<exists>s. map_of (rev (map (\<lambda>s. (spec_name s, s)) specs)) n = Some s
           \<and> e = spec_description s \<and> ws = spec_verbs s)"
proof -
  let ?kvs = "dict_of (map (\<lambda>s. (spec_name s, s)) specs)"
  let ?d1 = "upserted now ?kvs d"
  let ?ns = "filter (\<lambda>n. n \<notin> fst ` set ?kvs) (map res_name (resource_list_all ?d1))"
  have keys: "fst ` set ?kvs = names" by (simp add: names_def image_image)
  have up: "foreach (\<lambda>(n, s). resource_upsert n (spec_description s) (spec_verbs s) now) ?kvs d = (Inr (), ?d1)"
    unfolding upserted_def case_prod_beta by (rule foreach_total) (rule upsert_run(1))
  have "sync_resources specs now d = foreach resource_delete ?ns ?d1"
    unfolding sync_resources_def Let_def by (simp add: op_then_def op_bind_def up asks_def)
  also have "\<dots> = (Inr (), deleted ?ns ?d1)"
    unfolding deleted_def by (rule foreach_total) (rule delete_run(1))
  finally have run: "sync_resources specs now d = (Inr (), deleted ?ns ?d1)" .
  then show "sync_resources specs now d = (Inr (), d')" by (simp add: d'_def)
  have d2: "d' = deleted ?ns ?d1" by (simp add: d'_def run)
  have ns: "set ?ns = res_name ` set (t_resources ?d1) - names"
    unfolding keys by (auto simp: resource_list_all_def)
  have sv: "served ?d1 m e ws \<longleftrightarrow> (case map_of ?kvs m of None \<Rightarrow> served d m e ws
      | Some s \<Rightarrow> e = spec_description s \<and> ws = spec_verbs s)" for m e ws
    by (rule upserted_served) (rule distinct_dict_of)
  have known: "rp_resource p \<in> set ?ns \<longleftrightarrow> rp_resource p \<notin> names" if "p \<in> set (t_role_permissions d)" for p
  proof -
    have "rp_resource p \<in> res_name ` set (t_resources d)"
      using that assms(1) by (auto simp: db_ok_def refs_ok_def)
    then have "rp_resource p \<in> res_name ` set (t_resources ?d1)"
      unfolding served_names sv by (cases "map_of ?kvs (rp_resource p)") auto
    then show ?thesis unfolding ns by simp
  qed
  then show "t_role_permissions d' = filter (\<lambda>p. rp_resource p \<in> names) (t_role_permissions d)"
    unfolding d2 deleted_perms upserted_perms by (intro filter_cong) simp_all
  have "served d' n e ws \<longleftrightarrow> n \<in> names \<and> served ?d1 n e ws"
    unfolding d2 deleted_served ns using served_names [of n ?d1] by blast
  also have "\<dots> \<longleftrightarrow> (\<exists>s. map_of ?kvs n = Some s \<and> e = spec_description s \<and> ws = spec_verbs s)"
    unfolding sv keys [symmetric] using map_of_eq_None_iff [of ?kvs n]
    by (cases "map_of ?kvs n") auto
  finally show "served d' n e ws \<longleftrightarrow> (\<exists>s. map_of (rev (map (\<lambda>s. (spec_name s, s)) specs)) n = Some s
           \<and> e = spec_description s \<and> ws = spec_verbs s)"
    by (simp add: map_of_dict_of)
qed

section \<open>Builtin roles\<close>

definition desired_grants :: "role_slug \<Rightarrow> resource list \<Rightarrow> (string \<times> verb) list" where
  "desired_grants slug catalogued = [(res_name x, v). x \<leftarrow> catalogued,
     v \<leftarrow> ordered_verbs (permitted_verbs slug (res_name x) \<inter> res_verbs x)]"

definition reconcile_role :: "resource list \<Rightarrow> role_slug \<times> role \<Rightarrow> unit db_op" where
  "reconcile_role catalogued sr = (case sr of (slug, r) \<Rightarrow>
     op_bind (asks (\<lambda>d. map (\<lambda>p. (rp_resource p, rp_verb p)) (permission_list_for_role d (rol_id r))))
       (\<lambda>current. let desired = desired_grants slug catalogued in op_then
          (foreach (\<lambda>(res, v). permission_grant (rol_id r) res v)
             (filter (\<lambda>g. g \<notin> set current) desired))
          (foreach (\<lambda>(res, v). permission_revoke (rol_id r) res v)
             (filter (\<lambda>g. g \<notin> set desired) current))))"

definition ensure_spec :: "(role_slug \<Rightarrow> string) \<Rightarrow> stamp \<Rightarrow> role_spec \<Rightarrow> (role_slug \<times> role) db_op" where
  "ensure_spec new_id now spec = op_bind
     (role_ensure_builtin (new_id (rs_slug spec)) (role_slug_value (rs_slug spec)) (rs_name spec)
        (rs_description spec) now)
     (\<lambda>r. ret (rs_slug spec, r))"

definition reconcile_builtin_roles :: "(role_slug \<Rightarrow> string) \<Rightarrow> stamp \<Rightarrow> unit db_op" where
  "reconcile_builtin_roles new_id now =
     op_bind (op_map (ensure_spec new_id now) builtin_roles) (\<lambda>role_by_slug.
     op_bind (asks resource_list_all) (\<lambda>catalogued.
       foreach (reconcile_role catalogued) role_by_slug))"

lemma keeps_reconcile: "keeps db_ok (reconcile_builtin_roles new_id now)"
  unfolding reconcile_builtin_roles_def ensure_spec_def reconcile_role_def Let_def
  by (intro keeps_intros) (auto split: prod.splits intro!: keeps_intros)

subsection \<open>One role\<close>

definition builtin_grants :: "db \<Rightarrow> role_slug \<Rightarrow> (string \<times> verb) set" where
  "builtin_grants d slug = {(res_name x, v) | x v. x \<in> set (t_resources d)
     \<and> v \<in> permitted_verbs slug (res_name x) \<and> v \<in> res_verbs x}"

abbreviation permission_of :: "string \<Rightarrow> string \<times> verb \<Rightarrow> role_permission" where
  "permission_of rid g \<equiv> \<lparr>rp_role_id = rid, rp_resource = fst g, rp_verb = snd g\<rparr>"

lemma set_desired_grants: "set (desired_grants slug (resource_list_all d)) = builtin_grants d slug"
  by (auto simp: desired_grants_def builtin_grants_def resource_list_all_def)

lemma permission_of_iff: "p = permission_of rid g \<longleftrightarrow> rp_role_id p = rid \<and> (rp_resource p, rp_verb p) = g"
  by (cases p; cases g) auto

lemma permission_eq: "p = \<lparr>rp_role_id = a, rp_resource = b, rp_verb = c\<rparr> \<longleftrightarrow>
    rp_role_id p = a \<and> rp_resource p = b \<and> rp_verb p = c"
  by (cases p) auto

lemma permission_eqI: "rp_role_id p = rp_role_id q \<Longrightarrow> rp_resource p = rp_resource q \<Longrightarrow>
    rp_verb p = rp_verb q \<Longrightarrow> p = (q :: role_permission)"
  by (cases p; cases q) auto

lemma permission_image [simp]: "p \<in> permission_of rid ` S \<longleftrightarrow>
    rp_role_id p = rid \<and> (rp_resource p, rp_verb p) \<in> S"
  by (auto simp: image_iff permission_of_iff)

lemma grants_run:
  assumes "rid \<in> rol_id ` set (t_roles d)" and "\<forall>g \<in> set gs. fst g \<in> res_name ` set (t_resources d)"
  shows "\<exists>perms. foreach (\<lambda>(res, v). permission_grant rid res v) gs d = (Inr (), d\<lparr>t_role_permissions := perms\<rparr>)
     \<and> set perms = set (t_role_permissions d) \<union> permission_of rid ` set gs
     \<and> (gs = [] \<longrightarrow> perms = t_role_permissions d)"
  using assms
proof (induction gs arbitrary: d)
  case (Cons g gs)
  obtain n v where g: "g = (n, v)" by (cases g)
  define ps where "ps = (if permission_of rid g \<in> set (t_role_permissions d) then t_role_permissions d
                         else t_role_permissions d @ [permission_of rid g])"
  have one: "permission_grant rid n v d = (Inr (), d\<lparr>t_role_permissions := ps\<rparr>)"
    using Cons.prems g by (auto simp: permission_grant_def insert_permission_def op_defs Let_def ps_def)
  obtain perms where "foreach (\<lambda>(res, v). permission_grant rid res v) gs (d\<lparr>t_role_permissions := ps\<rparr>)
      = (Inr (), d\<lparr>t_role_permissions := perms\<rparr>)" "set perms = set ps \<union> permission_of rid ` set gs"
    using Cons.IH [of "d\<lparr>t_role_permissions := ps\<rparr>"] Cons.prems by auto
  moreover have "set ps = insert (permission_of rid g) (set (t_role_permissions d))"
    by (auto simp: ps_def)
  ultimately show ?case using one g by (auto simp: op_then_ok)
qed (simp add: ret_def)

lemma revokes_run:
  "\<exists>perms. foreach (\<lambda>(res, v). permission_revoke rid res v) gs d = (Inr (), d\<lparr>t_role_permissions := perms\<rparr>)
     \<and> set perms = set (t_role_permissions d) - permission_of rid ` set gs
     \<and> (gs = [] \<longrightarrow> perms = t_role_permissions d)"
proof (induction gs arbitrary: d)
  case (Cons g gs)
  obtain n v where g: "g = (n, v)" by (cases g)
  define ps where "ps = delete_where (\<lambda>p. p = permission_of rid g) (t_role_permissions d)"
  have one: "permission_revoke rid n v d = (Inr (), d\<lparr>t_role_permissions := ps\<rparr>)"
    using g by (simp add: permission_revoke_def op_defs ps_def permission_eq)
  obtain perms where "foreach (\<lambda>(res, v). permission_revoke rid res v) gs (d\<lparr>t_role_permissions := ps\<rparr>)
      = (Inr (), d\<lparr>t_role_permissions := perms\<rparr>)" "set perms = set ps - permission_of rid ` set gs"
    using Cons.IH [of "d\<lparr>t_role_permissions := ps\<rparr>"] by auto
  moreover have "set ps = set (t_role_permissions d) - {permission_of rid g}" by (auto simp: ps_def)
  ultimately show ?case using one g by (auto simp: op_then_ok)
qed (simp add: ret_def)

lemma reconcile_role_run:
  assumes "r \<in> set (t_roles d)" and "catalogued = resource_list_all d"
  shows "\<exists>perms. reconcile_role catalogued (slug, r) d = (Inr (), d\<lparr>t_role_permissions := perms\<rparr>)
     \<and> set perms = {p \<in> set (t_role_permissions d). rp_role_id p \<noteq> rol_id r}
          \<union> permission_of (rol_id r) ` builtin_grants d slug
     \<and> (grants_for_roles d {rol_id r} = builtin_grants d slug \<longrightarrow> perms = t_role_permissions d)"
proof -
  let ?cur = "map (\<lambda>p. (rp_resource p, rp_verb p)) (permission_list_for_role d (rol_id r))"
  let ?des = "desired_grants slug catalogued"
  let ?new = "filter (\<lambda>g. g \<notin> set ?cur) ?des" and ?old = "filter (\<lambda>g. g \<notin> set ?des) ?cur"
  have cur: "set ?cur = grants_for_roles d {rol_id r}"
    by (auto simp: permission_list_for_role_def grants_for_roles_def)
  have curp: "p \<in> set (t_role_permissions d) \<longleftrightarrow> (rp_resource p, rp_verb p) \<in> set ?cur"
    if "rp_role_id p = rol_id r" for p
    using that by (auto simp: permission_list_for_role_def image_iff) (metis permission_eqI)
  have des: "set ?des = builtin_grants d slug" using assms(2) set_desired_grants by simp
  have "\<forall>g \<in> set ?new. fst g \<in> res_name ` set (t_resources d)"
    using des by (auto simp: builtin_grants_def)
  then obtain ps where ps: "foreach (\<lambda>(res, v). permission_grant (rol_id r) res v) ?new d
      = (Inr (), d\<lparr>t_role_permissions := ps\<rparr>)"
    "set ps = set (t_role_permissions d) \<union> permission_of (rol_id r) ` set ?new"
    "?new = [] \<longrightarrow> ps = t_role_permissions d"
    using grants_run [of "rol_id r" d ?new] assms(1) by auto
  obtain qs where qs: "foreach (\<lambda>(res, v). permission_revoke (rol_id r) res v) ?old (d\<lparr>t_role_permissions := ps\<rparr>)
      = (Inr (), d\<lparr>t_role_permissions := qs\<rparr>)"
    "set qs = set ps - permission_of (rol_id r) ` set ?old" "?old = [] \<longrightarrow> qs = ps"
    using revokes_run [of "rol_id r" ?old "d\<lparr>t_role_permissions := ps\<rparr>"] by auto
  have "reconcile_role catalogued (slug, r) d = (Inr (), d\<lparr>t_role_permissions := qs\<rparr>)"
    using ps(1) qs(1) by (simp add: reconcile_role_def Let_def op_run)
  moreover have "set qs = {p \<in> set (t_role_permissions d). rp_role_id p \<noteq> rol_id r}
          \<union> permission_of (rol_id r) ` builtin_grants d slug"
    using curp unfolding qs(2) ps(2) des [symmetric] by (auto simp del: set_map)
  moreover have "grants_for_roles d {rol_id r} = builtin_grants d slug \<longrightarrow> qs = t_role_permissions d"
    using ps(3) qs(3) cur des by (auto simp: filter_empty_conv)
  ultimately show ?thesis by blast
qed

subsection \<open>The four roles\<close>

definition has_slug :: "db \<Rightarrow> role_slug \<Rightarrow> bool" where
  "has_slug d s \<longleftrightarrow> role_slug_value s \<in> rol_slug ` set (t_roles d)"

lemma ensure_run:
  assumes "db_ok d" and "has_slug d (rs_slug spec) \<or> new_id (rs_slug spec) \<notin> rol_id ` set (t_roles d)"
  shows "\<exists>r new. ensure_spec new_id now spec d = (Inr (rs_slug spec, r), d\<lparr>t_roles := t_roles d @ new\<rparr>)
     \<and> r \<in> set (t_roles d @ new) \<and> rol_slug r = role_slug_value (rs_slug spec)
     \<and> db_ok (d\<lparr>t_roles := t_roles d @ new\<rparr>)
     \<and> (if has_slug d (rs_slug spec) then new = [] else new = [r] \<and> rol_id r = new_id (rs_slug spec))"
proof (cases "role_get_by_slug d (role_slug_value (rs_slug spec))")
  case None
  then have no: "\<not> has_slug d (rs_slug spec)" by (simp add: role_get_by_slug_def has_slug_def)
  let ?r = "\<lparr>rol_id = new_id (rs_slug spec), rol_slug = role_slug_value (rs_slug spec),
     rol_name = rs_name spec, rol_description = rs_description spec, rol_builtin = True,
     rol_created_at = now\<rparr>"
  let ?d = "d\<lparr>t_roles := t_roles d @ [?r]\<rparr>"
  have fresh: "new_id (rs_slug spec) \<notin> rol_id ` set (t_roles d)" using assms(2) no by blast
  have "insert_role ?r d = (Inr (), ?d)"
    using fresh no by (auto simp: insert_role_def put_def has_slug_def)
  moreover have "role_get ?d (new_id (rs_slug spec)) = Some ?r"
    using fresh assms(1) by (simp add: role_get_def find_unique_iff db_ok_def keys_ok_def)
  ultimately have "role_create (new_id (rs_slug spec)) (role_slug_value (rs_slug spec)) (rs_name spec)
      (rs_description spec) True [] now d = (Inr ?r, ?d)"
    by (simp add: role_create_def on_integrity_def except_def transaction_def insert_permissions_def
        op_then_def op_bind_def asks_def ret_def)
  then have "ensure_spec new_id now spec d = (Inr (rs_slug spec, ?r), ?d)"
    by (simp add: ensure_spec_def role_ensure_builtin_def op_run None ret_def)
  moreover have "db_ok ?d"
    using keepsD [OF keeps_insert_role assms(1), of ?r] \<open>insert_role ?r d = (Inr (), ?d)\<close> by simp
  ultimately show ?thesis using no by auto
next
  case (Some r)
  then have "r \<in> set (t_roles d)" "rol_slug r = role_slug_value (rs_slug spec)"
    using role_by_slug [OF assms(1)] by auto
  moreover from this have "has_slug d (rs_slug spec)" by (force simp: has_slug_def)
  ultimately show ?thesis
    using Some assms(1)
    by (intro exI [of _ r] exI [of _ "[]"])
       (simp add: ensure_spec_def role_ensure_builtin_def op_run ret_def)
qed

lemma ensure_all_run:
  assumes "db_ok d" and "distinct (map rs_slug specs)" and "inj new_id"
    and "\<forall>s. has_slug d s \<or> new_id s \<notin> rol_id ` set (t_roles d)"
  shows "\<exists>srs new. op_map (ensure_spec new_id now) specs d = (Inr srs, d\<lparr>t_roles := t_roles d @ new\<rparr>)
     \<and> map fst srs = map rs_slug specs
     \<and> (\<forall>(s, r) \<in> set srs. r \<in> set (t_roles d @ new) \<and> rol_slug r = role_slug_value s)
     \<and> db_ok (d\<lparr>t_roles := t_roles d @ new\<rparr>)
     \<and> ((\<forall>spec \<in> set specs. has_slug d (rs_slug spec)) \<longrightarrow> new = [])"
  using assms
proof (induction specs arbitrary: d)
  case (Cons spec specs)
  obtain r n1 where one: "ensure_spec new_id now spec d = (Inr (rs_slug spec, r), d\<lparr>t_roles := t_roles d @ n1\<rparr>)"
    "r \<in> set (t_roles d @ n1)" "rol_slug r = role_slug_value (rs_slug spec)"
    "db_ok (d\<lparr>t_roles := t_roles d @ n1\<rparr>)"
    and n1: "if has_slug d (rs_slug spec) then n1 = [] else n1 = [r] \<and> rol_id r = new_id (rs_slug spec)"
    using ensure_run [OF Cons.prems(1)] Cons.prems(4) by blast
  let ?d1 = "d\<lparr>t_roles := t_roles d @ n1\<rparr>"
  have slug1: "has_slug ?d1 s \<longleftrightarrow> has_slug d s \<or> s = rs_slug spec" for s
    using n1 one(2,3) by (auto simp: has_slug_def split: if_splits)
  have "\<forall>s. has_slug ?d1 s \<or> new_id s \<notin> rol_id ` set (t_roles ?d1)"
    using Cons.prems(3,4) n1 slug1 by (auto split: if_splits dest: injD)
  then obtain srs n2 where two: "op_map (ensure_spec new_id now) specs ?d1
        = (Inr srs, ?d1\<lparr>t_roles := t_roles ?d1 @ n2\<rparr>)"
    "map fst srs = map rs_slug specs"
    "\<forall>(s, r) \<in> set srs. r \<in> set (t_roles ?d1 @ n2) \<and> rol_slug r = role_slug_value s"
    "db_ok (?d1\<lparr>t_roles := t_roles ?d1 @ n2\<rparr>)"
    "(\<forall>spec \<in> set specs. has_slug ?d1 (rs_slug spec)) \<longrightarrow> n2 = []"
    using Cons.IH [OF one(4) _ Cons.prems(3)] Cons.prems(2) by auto
  have "op_map (ensure_spec new_id now) (spec # specs) d
        = (Inr ((rs_slug spec, r) # srs), d\<lparr>t_roles := t_roles d @ n1 @ n2\<rparr>)"
    using one(1) two(1) by (simp add: op_bind_ok ret_def)
  then show ?case
    using one two(2-5) n1 slug1
    by (intro exI [of _ "(rs_slug spec, r) # srs"] exI [of _ "n1 @ n2"]) auto
qed (auto simp: ret_def)

lemma reconcile_all_run:
  assumes "\<forall>(s, r) \<in> set srs. r \<in> set (t_roles d)" and "distinct (map (rol_id \<circ> snd) srs)"
    and "catalogued = resource_list_all d"
  shows "\<exists>perms. foreach (reconcile_role catalogued) srs d = (Inr (), d\<lparr>t_role_permissions := perms\<rparr>)
     \<and> (\<forall>p. p \<in> set perms \<longleftrightarrow>
          (if rp_role_id p \<in> (rol_id \<circ> snd) ` set srs
           then \<exists>(s, r) \<in> set srs. rol_id r = rp_role_id p \<and> (rp_resource p, rp_verb p) \<in> builtin_grants d s
           else p \<in> set (t_role_permissions d)))
     \<and> ((\<forall>(s, r) \<in> set srs. grants_for_roles d {rol_id r} = builtin_grants d s)
          \<longrightarrow> perms = t_role_permissions d)"
  using assms
proof (induction srs arbitrary: d)
  case (Cons sr srs)
  obtain s r where sr: "sr = (s, r)" by (cases sr)
  obtain ps where one: "reconcile_role catalogued (s, r) d = (Inr (), d\<lparr>t_role_permissions := ps\<rparr>)"
    "set ps = {p \<in> set (t_role_permissions d). rp_role_id p \<noteq> rol_id r}
          \<union> permission_of (rol_id r) ` builtin_grants d s"
    "grants_for_roles d {rol_id r} = builtin_grants d s \<longrightarrow> ps = t_role_permissions d"
    using reconcile_role_run [of r d catalogued s] Cons.prems sr by auto
  let ?d1 = "d\<lparr>t_role_permissions := ps\<rparr>"
  have same: "builtin_grants ?d1 = builtin_grants d" "resource_list_all ?d1 = resource_list_all d"
    by (simp_all add: builtin_grants_def resource_list_all_def fun_eq_iff)
  have "\<forall>(s, r) \<in> set srs. r \<in> set (t_roles ?d1)" and "distinct (map (rol_id \<circ> snd) srs)"
    and "catalogued = resource_list_all ?d1"
    using Cons.prems same(2) by (simp_all add: comp_def)
  note ih = Cons.IH [OF this, unfolded same(1)]
  from ih obtain qs where "foreach (reconcile_role catalogued) srs ?d1
        = (Inr (), ?d1\<lparr>t_role_permissions := qs\<rparr>)"
    and two: "\<forall>p. p \<in> set qs \<longleftrightarrow>
          (if rp_role_id p \<in> (rol_id \<circ> snd) ` set srs
           then \<exists>(s, r) \<in> set srs. rol_id r = rp_role_id p \<and> (rp_resource p, rp_verb p) \<in> builtin_grants d s
           else p \<in> set (t_role_permissions ?d1))"
    "(\<forall>(s, r) \<in> set srs. grants_for_roles ?d1 {rol_id r} = builtin_grants d s)
       \<longrightarrow> qs = t_role_permissions ?d1"
    by (elim exE conjE)
  then have run: "foreach (reconcile_role catalogued) srs ?d1 = (Inr (), d\<lparr>t_role_permissions := qs\<rparr>)"
    by simp
  have fresh: "rol_id r \<notin> (rol_id \<circ> snd) ` set srs" using Cons.prems(2) sr by (simp flip: set_map)
  show ?case
  proof (intro exI [of _ qs] conjI allI impI)
    show "foreach (reconcile_role catalogued) (sr # srs) d = (Inr (), d\<lparr>t_role_permissions := qs\<rparr>)"
      using one(1) run sr by (simp add: op_then_ok)
    show "p \<in> set qs \<longleftrightarrow>
          (if rp_role_id p \<in> (rol_id \<circ> snd) ` set (sr # srs)
           then \<exists>(s, r) \<in> set (sr # srs). rol_id r = rp_role_id p \<and> (rp_resource p, rp_verb p) \<in> builtin_grants d s
           else p \<in> set (t_role_permissions d))" for p
    proof (cases "rp_role_id p = rol_id r")
      case True
      then have "\<not> (\<exists>(s, r) \<in> set srs. rol_id r = rp_role_id p \<and> (rp_resource p, rp_verb p) \<in> builtin_grants d s)"
        using fresh by force
      with True fresh show ?thesis unfolding two(1) [THEN spec, of p] sr by (simp add: one(2))
    next
      case False
      then show ?thesis unfolding two(1) [THEN spec, of p] sr by (simp add: one(2))
    qed
    assume "\<forall>(s, r) \<in> set (sr # srs). grants_for_roles d {rol_id r} = builtin_grants d s"
    then show "qs = t_role_permissions d"
      using one(3) two(2) sr by (auto simp: grants_for_roles_def)
  qed
qed (simp add: ret_def)

lemma distinct_map_coarser:
  "distinct (map g xs) \<Longrightarrow> (\<And>x y. x \<in> set xs \<Longrightarrow> y \<in> set xs \<Longrightarrow> f x = f y \<Longrightarrow> g x = g y)
   \<Longrightarrow> distinct (map f xs)"
  unfolding distinct_map inj_on_def by blast

lemma builtin_specs: "map rs_slug builtin_roles = [READ, WRITE, MAINTAIN, ADMIN]"
  by (simp add: builtin_roles_def)

lemma reconcile_run:
  assumes "db_ok d" and "inj new_id" and "\<forall>s. has_slug d s \<or> new_id s \<notin> rol_id ` set (t_roles d)"
  shows "\<exists>new perms. reconcile_builtin_roles new_id now d
        = (Inr (), d\<lparr>t_roles := t_roles d @ new, t_role_permissions := perms\<rparr>)
     \<and> db_ok (d\<lparr>t_roles := t_roles d @ new\<rparr>)
     \<and> (\<forall>s. \<exists>r \<in> set (t_roles d @ new). rol_slug r = role_slug_value s
          \<and> grants_for_roles (d\<lparr>t_role_permissions := perms\<rparr>) {rol_id r} = builtin_grants d s)
     \<and> (\<forall>r \<in> set (t_roles d). rol_slug r \<notin> range role_slug_value \<longrightarrow>
          grants_for_roles (d\<lparr>t_role_permissions := perms\<rparr>) {rol_id r} = grants_for_roles d {rol_id r})
     \<and> ((\<forall>s. has_slug d s) \<and> (\<forall>s r. r \<in> set (t_roles d) \<and> rol_slug r = role_slug_value s
            \<longrightarrow> grants_for_roles d {rol_id r} = builtin_grants d s)
          \<longrightarrow> new = [] \<and> perms = t_role_permissions d)"
proof -
  have "distinct (map rs_slug builtin_roles)" by (simp add: builtin_specs)
  from ensure_all_run [OF assms(1) this assms(2,3), where now = now]
  obtain srs new where e: "op_map (ensure_spec new_id now) builtin_roles d = (Inr srs, d\<lparr>t_roles := t_roles d @ new\<rparr>)"
    "map fst srs = map rs_slug builtin_roles"
    "\<forall>(s, r) \<in> set srs. r \<in> set (t_roles d @ new) \<and> rol_slug r = role_slug_value s"
    "db_ok (d\<lparr>t_roles := t_roles d @ new\<rparr>)"
    "(\<forall>spec \<in> set builtin_roles. has_slug d (rs_slug spec)) \<longrightarrow> new = []"
    by (elim exE conjE)
  let ?d = "d\<lparr>t_roles := t_roles d @ new\<rparr>"
  have same: "builtin_grants ?d = builtin_grants d" "grants_for_roles ?d = grants_for_roles d"
    by (simp_all add: builtin_grants_def grants_for_roles_def fun_eq_iff)
  have by_id: "r = q" if "r \<in> set (t_roles d @ new)" "q \<in> set (t_roles d @ new)" "rol_id r = rol_id q" for r q
    using role_by_id [OF e(4)] that by simp
  have "distinct (map fst srs)" by (simp add: e(2) builtin_specs)
  moreover have "fst x = fst y" if "x \<in> set srs" "y \<in> set srs" "rol_id (snd x) = rol_id (snd y)" for x y
  proof -
    have "snd x = snd y" using e(3) that by (intro by_id) (auto simp: case_prod_beta)
    then have "role_slug_value (fst x) = role_slug_value (fst y)"
      using e(3) that by (auto simp: case_prod_beta) (metis role_slug_value_inj)
    then show ?thesis by simp
  qed
  ultimately have dist: "distinct (map (rol_id \<circ> snd) srs)"
    unfolding o_def by (rule distinct_map_coarser) assumption
  have "\<forall>(s, r) \<in> set srs. r \<in> set (t_roles ?d)" using e(3) by auto
  from reconcile_all_run [OF this dist refl, unfolded same]
  obtain perms where f: "foreach (reconcile_role (resource_list_all ?d)) srs ?d = (Inr (), ?d\<lparr>t_role_permissions := perms\<rparr>)"
    "\<forall>p. p \<in> set perms \<longleftrightarrow>
          (if rp_role_id p \<in> (rol_id \<circ> snd) ` set srs
           then \<exists>(s, r) \<in> set srs. rol_id r = rp_role_id p \<and> (rp_resource p, rp_verb p) \<in> builtin_grants d s
           else p \<in> set (t_role_permissions ?d))"
    "(\<forall>(s, r) \<in> set srs. grants_for_roles d {rol_id r} = builtin_grants d s)
       \<longrightarrow> perms = t_role_permissions ?d"
    by (elim exE conjE)
  let ?e = "d\<lparr>t_role_permissions := perms\<rparr>"
  have run: "reconcile_builtin_roles new_id now d
        = (Inr (), d\<lparr>t_roles := t_roles d @ new, t_role_permissions := perms\<rparr>)"
    using e(1) f(1) by (simp add: reconcile_builtin_roles_def op_run)
  have mem: "(n, v) \<in> grants_for_roles ?e {rid} \<longleftrightarrow> permission_of rid (n, v) \<in> set perms" for n v rid
    by (auto simp: grants_for_roles_iff effective_verbs_iff)
  have one: "grants_for_roles ?e {rol_id r} = builtin_grants d s" if sr: "(s, r) \<in> set srs" for s r
  proof -
    have "s = t" if "(t, q) \<in> set srs" "rol_id q = rol_id r" for t q
    proof -
      have "inj_on (rol_id \<circ> snd) (set srs)" using dist distinct_map by blast
      then have "(s, r) = (t, q)" using that sr by (elim inj_onD) simp_all
      then show ?thesis by simp
    qed
    then have u: "(\<exists>(t, q) \<in> set srs. rol_id q = rol_id r \<and> (n, v) \<in> builtin_grants d t)
        \<longleftrightarrow> (n, v) \<in> builtin_grants d s" for n v
      using sr by blast
    have i: "rol_id r \<in> (rol_id \<circ> snd) ` set srs" using sr by force
    have "(n, v) \<in> grants_for_roles ?e {rol_id r} \<longleftrightarrow> (n, v) \<in> builtin_grants d s" for n v
      unfolding mem f(2) [THEN spec] by (simp only: i u if_True role_permission.simps fst_conv snd_conv)
    then show ?thesis by auto
  qed
  have all: "\<exists>r. (s, r) \<in> set srs" for s
  proof -
    have "s \<in> set (map fst srs)" unfolding e(2) builtin_specs by (cases s) simp_all
    then show ?thesis by auto
  qed
  have three: "\<exists>r \<in> set (t_roles d @ new). rol_slug r = role_slug_value s
          \<and> grants_for_roles ?e {rol_id r} = builtin_grants d s" for s
    using all [of s] one e(3) by fastforce
  have four: "grants_for_roles ?e {rol_id r} = grants_for_roles d {rol_id r}"
    if r: "r \<in> set (t_roles d)" "rol_slug r \<notin> range role_slug_value" for r
  proof -
    have "rol_id q \<noteq> rol_id r" if "(t, q) \<in> set srs" for t q
    proof
      assume "rol_id q = rol_id r"
      then have "q = r" using e(3) that r(1) by (intro by_id) auto
      then show False using e(3) that r(2) by auto
    qed
    then have "rol_id r \<notin> (rol_id \<circ> snd) ` set srs" by force
    then have "(n, v) \<in> grants_for_roles ?e {rol_id r} \<longleftrightarrow> (n, v) \<in> grants_for_roles d {rol_id r}" for n v
      unfolding mem f(2) [THEN spec] by (auto simp: grants_for_roles_iff effective_verbs_iff)
    then show ?thesis by auto
  qed
  have five: "new = [] \<and> perms = t_role_permissions d"
    if "\<forall>s. has_slug d s" "\<forall>s r. r \<in> set (t_roles d) \<and> rol_slug r = role_slug_value s
            \<longrightarrow> grants_for_roles d {rol_id r} = builtin_grants d s"
  proof -
    have n: "new = []" using e(5) that(1) by simp
    then have "\<forall>(s, r) \<in> set srs. grants_for_roles d {rol_id r} = builtin_grants d s"
      using e(3) that(2) by auto
    with f(3) n show ?thesis by simp
  qed
  show ?thesis
    using run e(4) three four five by (intro exI [of _ new] exI [of _ perms]) blast
qed

text \<open>
  Boot reconciliation of the catalog: on a consistent database it never fails, leaves
  exactly the declared resources with their declared descriptions and served verbs (the last
  declaration of a name wins), and drops exactly the grants on resources no longer declared,
  keeping the others in order.
\<close>

theorem sync_resources_exact:
  assumes "db_ok d"
  shows "fst (sync_resources specs now d) = Inr ()
     \<and> (let d' = snd (sync_resources specs now d) in
         t_role_permissions d'
           = filter (\<lambda>p. rp_resource p \<in> spec_name ` set specs) (t_role_permissions d)
         \<and> (\<forall>n descr vs. served d' n descr vs \<longleftrightarrow>
              (\<exists>s. map_of (rev (map (\<lambda>s. (spec_name s, s)) specs)) n = Some s
                 \<and> descr = spec_description s \<and> vs = spec_verbs s)))"
proof -
  note run = sync_resources_run [OF assms, where specs = specs and now = now]
  have "fst (sync_resources specs now d) = Inr ()" by (subst run(1)) simp
  then show ?thesis unfolding Let_def run(2,3) by simp
qed

theorem sync_resources_exact_witness:
  "fst (sync_resources [\<lparr>spec_name = ''x'', spec_description = [], spec_verbs = {GET}\<rparr>] 0 org) = Inr ()"
  using sync_resources_exact [OF org_ok] by blast

text \<open>
  C5. Boot reconciliation of the builtin roles: on a consistent database it never fails;
  afterwards each of the four builtin slugs names a role whose grants are exactly what the
  fixed policy permits it on what the catalog serves; every other role keeps its grants; no
  role is lost; and a second boot changes nothing at all.
\<close>

theorem reconcile_builtin_exact:
  assumes "db_ok d" and "inj new_id" and "\<forall>s. new_id s \<notin> rol_id ` set (t_roles d)"
  shows "fst (reconcile_builtin_roles new_id now d) = Inr ()
     \<and> (let d' = snd (reconcile_builtin_roles new_id now d) in
         (\<forall>s. \<exists>r \<in> set (t_roles d'). rol_slug r = role_slug_value s
            \<and> grants_for_roles d' {rol_id r}
                = {(res_name x, v) | x v. x \<in> set (t_resources d)
                     \<and> v \<in> permitted_verbs s (res_name x) \<and> v \<in> res_verbs x})
         \<and> (\<forall>r \<in> set (t_roles d). r \<in> set (t_roles d') \<and> (rol_slug r \<notin> range role_slug_value
              \<longrightarrow> grants_for_roles d' {rol_id r} = grants_for_roles d {rol_id r}))
         \<and> reconcile_builtin_roles new_id later d' = (Inr (), d'))"
proof -
  from reconcile_run [OF assms(1,2), where now = now] assms(3)
  obtain new perms where run: "reconcile_builtin_roles new_id now d
        = (Inr (), d\<lparr>t_roles := t_roles d @ new, t_role_permissions := perms\<rparr>)" (is "_ = (_, ?d')")
    and ok: "db_ok (d\<lparr>t_roles := t_roles d @ new\<rparr>)"
    and grants: "\<forall>s. \<exists>r \<in> set (t_roles d @ new). rol_slug r = role_slug_value s
          \<and> grants_for_roles (d\<lparr>t_role_permissions := perms\<rparr>) {rol_id r} = builtin_grants d s"
    and others: "\<forall>r \<in> set (t_roles d). rol_slug r \<notin> range role_slug_value \<longrightarrow>
          grants_for_roles (d\<lparr>t_role_permissions := perms\<rparr>) {rol_id r} = grants_for_roles d {rol_id r}"
    by blast
  have same: "grants_for_roles (d\<lparr>t_role_permissions := perms\<rparr>) = grants_for_roles ?d'"
    and bg: "builtin_grants ?d' = builtin_grants d"
    by (simp_all add: grants_for_roles_def builtin_grants_def fun_eq_iff)
  have ok': "db_ok ?d'"
    using keepsD [OF keeps_reconcile assms(1), of new_id now] run by simp
  have slugs: "has_slug ?d' s" for s
  proof -
    obtain r where "r \<in> set (t_roles ?d')" "rol_slug r = role_slug_value s"
      using grants by auto
    then show ?thesis unfolding has_slug_def by (metis image_eqI)
  qed
  have exact: "grants_for_roles ?d' {rol_id r} = builtin_grants ?d' s"
    if "r \<in> set (t_roles ?d')" "rol_slug r = role_slug_value s" for r s
  proof -
    obtain q where q: "q \<in> set (t_roles ?d')" "rol_slug q = role_slug_value s"
      "grants_for_roles ?d' {rol_id q} = builtin_grants ?d' s"
      using grants unfolding same bg by auto
    moreover have "r = q"
      using q that ok' unique_byD [of rol_slug "t_roles ?d'" r q] by (auto simp: db_ok_def keys_ok_def)
    ultimately show ?thesis by simp
  qed
  from reconcile_run [OF ok' assms(2), where now = later] slugs
  have "reconcile_builtin_roles new_id later ?d' = (Inr (), ?d')"
    using exact by fastforce
  then show ?thesis
    using run grants others unfolding same Let_def by (auto simp: builtin_grants_def)
qed

definition fresh_role_id :: "role_slug \<Rightarrow> string" where
  "fresh_role_id s = ''id-'' @ role_slug_value s"

theorem reconcile_builtin_exact_witness:
  "fst (reconcile_builtin_roles fresh_role_id 0 org) = Inr ()"
proof -
  have "inj fresh_role_id" by (simp add: inj_def fresh_role_id_def)
  moreover have "\<forall>s. fresh_role_id s \<notin> rol_id ` set (t_roles org)"
    by (simp add: fresh_role_id_def org_defs)
  ultimately show ?thesis using reconcile_builtin_exact [OF org_ok] by blast
qed

end
