(* ===== verification/Boot.thy ===== *)
theory Boot
  imports Gate Reconcile LastAdmin Encryption
begin

text \<open>
  What runs before the first request: the route-coverage audit (\<open>api/route_audit.py\<close>), the
  bootstrap and configured administrators (\<open>auth/bootstrap.py\<close>) and the order
  \<open>create_app\<close>'s lifespan runs them in. Generated ids, the token, its salt and the clock are
  arguments; the result of \<open>ensure_bootstrap_admin\<close> is the token its banner prints, if any.
\<close>

section \<open>The bootstrap administrator\<close>

definition bootstrap_token_label :: string where
  "bootstrap_token_label = ''bootstrap (auto-generated)''"

definition configured_admin_token_label :: string where
  "configured_admin_token_label = ''configured admin (ANSINA_SECURITY__API_TOKEN)''"

text \<open>The fresh values one boot draws.\<close>

record boot_ids =
  bi_user :: string
  bi_identity :: string
  bi_assignment :: string
  bi_credential :: string
  bi_salt :: string
  bi_token :: string

definition generate_and_store_bootstrap_token ::
  "(string \<Rightarrow> string) \<Rightarrow> boot_ids \<Rightarrow> string \<Rightarrow> stamp \<Rightarrow> string option db_op" where
  "generate_and_store_bootstrap_token sha256 ids user_id now = op_then
     (create_api_token sha256 (bi_salt ids) (bi_credential ids) user_id (bi_token ids)
        bootstrap_token_label None now)
     (ret (Some (bi_token ids)))"

definition assign_admin :: "string \<Rightarrow> string \<Rightarrow> stamp \<Rightarrow> unit db_op" where
  "assign_admin assignment_id user_id now =
     op_bind (asks (\<lambda>d. role_get_by_slug d (role_slug_value ADMIN))) (\<lambda>r. case r of
         None \<Rightarrow> raise AssertionError
       | Some r \<Rightarrow> op_then (assign assignment_id USER user_id (rol_id r) local_source now) (ret ()))"

definition ensure_bootstrap_admin ::
  "(string \<Rightarrow> string) \<Rightarrow> boot_ids \<Rightarrow> bool \<Rightarrow> bool \<Rightarrow> stamp \<Rightarrow> string option db_op" where
  "ensure_bootstrap_admin sha256 ids enabled bootstrap_admin_enabled now =
     (if \<not> enabled then ret None
      else op_bind (asks (\<lambda>d. identity_get d bootstrap_provider bootstrap_username)) (\<lambda>identity.
        if \<not> bootstrap_admin_enabled then
          (case identity of
             None \<Rightarrow> ret None
           | Some i \<Rightarrow> op_then (delete_credentials (ei_user_id i) API_TOKEN) (ret None))
        else case identity of
            Some i \<Rightarrow> op_bind (asks (\<lambda>d. list_api_tokens d (ei_user_id i))) (\<lambda>live.
              if live = [] then generate_and_store_bootstrap_token sha256 ids (ei_user_id i) now
              else ret None)
          | None \<Rightarrow> op_bind (asks user_list_all) (\<lambda>users.
              if users \<noteq> [] then ret None
              else op_bind (user_create (bi_user ids) (bi_identity ids) bootstrap_username
                     ''Bootstrap Admin'' False now) (\<lambda>u.
                op_then (identity_create (bi_identity ids) (usr_id u) bootstrap_provider
                           bootstrap_username now) (op_then
                  (assign_admin (bi_assignment ids) (usr_id u) now)
                  (generate_and_store_bootstrap_token sha256 ids (usr_id u) now))))))"

section \<open>The configured administrator\<close>

definition ensure_configured_admin ::
  "(string \<Rightarrow> string) \<Rightarrow> boot_ids \<Rightarrow> bool \<Rightarrow> string option \<Rightarrow> string option \<Rightarrow> stamp \<Rightarrow> unit db_op" where
  "ensure_configured_admin sha256 ids enabled username token now =
     (if \<not> enabled then ret ()
      else case (username, token) of
          (Some name, Some token) \<Rightarrow>
            op_bind (asks (\<lambda>d. map_option ei_user_id
                (identity_get d bootstrap_provider bootstrap_username))) (\<lambda>bootstrap_user_id.
            op_bind (asks (\<lambda>d. filter (\<lambda>u. Some (usr_id u) \<noteq> bootstrap_user_id) (user_list_all d)))
              (\<lambda>others. if others \<noteq> [] then ret ()
                else op_bind (user_create (bi_user ids) (bi_identity ids) name [] True now) (\<lambda>u. op_then
                  (assign_admin (bi_assignment ids) (usr_id u) now) (op_then
                  (create_api_token sha256 (bi_salt ids) (bi_credential ids) (usr_id u) token
                     configured_admin_token_label None now)
                  (ret ())))))
        | _ \<Rightarrow> ret ())"

section \<open>Every branch of the bootstrap\<close>

lemma user_create_bare:
  assumes "user_id \<notin> usr_id ` set (t_users d)" and "name \<notin> usr_username ` set (t_users d)"
  shows "user_create user_id iid name dn False now d =
     (let u = \<lparr>usr_id = user_id, usr_username = name, usr_display_name = dn, usr_active = True,
               usr_created_at = now, usr_deleted_at = None\<rparr>
      in (Inr u, d\<lparr>t_users := t_users d @ [u]\<rparr>))"
  using find_snoc_fresh [of usr_id "\<lparr>usr_id = user_id, usr_username = name, usr_display_name = dn,
      usr_active = True, usr_created_at = now, usr_deleted_at = None\<rparr>" "t_users d"] assms
  by (simp add: user_create_def on_integrity_def insert_user_def user_get_def op_defs Let_def)

lemma identity_create_fresh:
  assumes "iid \<notin> ei_id ` set (t_external_identities d)" and "identity_get d prov sub = None"
    and "u \<in> usr_id ` set (t_users d)"
  shows "identity_create iid u prov sub now d =
     (let i = \<lparr>ei_id = iid, ei_user_id = u, ei_provider = prov, ei_subject = sub, ei_created_at = now\<rparr>
      in (Inr i, d\<lparr>t_external_identities := t_external_identities d @ [i]\<rparr>))"
proof -
  let ?i = "\<lparr>ei_id = iid, ei_user_id = u, ei_provider = prov, ei_subject = sub, ei_created_at = now\<rparr>"
  have new: "(prov, sub) \<notin> (\<lambda>i. (ei_provider i, ei_subject i)) ` set (t_external_identities d)"
    using assms(2) by (auto simp: identity_get_def find_None_iff)
  have "identity_get (d\<lparr>t_external_identities := t_external_identities d @ [?i]\<rparr>) prov sub = Some ?i"
    using find_snoc_fresh [of "\<lambda>i. (ei_provider i, ei_subject i)" ?i "t_external_identities d"] new
    by (simp add: identity_get_def)
  then show ?thesis
    using assms(1,3) new by (simp add: identity_create_def on_integrity_def insert_identity_def op_defs Let_def)
qed

lemma assign_admin_fresh:
  assumes "db_ok d" and "role_get_by_slug d (role_slug_value ADMIN) = Some r"
    and "subject_exists d USER u" and "aid \<notin> ra_id ` set (t_role_assignments d)"
    and "\<forall>a \<in> set (t_role_assignments d). ra_subject_type a = USER \<longrightarrow> ra_subject_id a \<noteq> u"
  shows "assign_admin aid u now d = (Inr (), d\<lparr>t_role_assignments := t_role_assignments d @
     [\<lparr>ra_id = aid, ra_subject_type = USER, ra_subject_id = u, ra_role_id = rol_id r,
       ra_created_at = now, ra_source = local_source\<rparr>]\<rparr>)"
proof -
  let ?a = "\<lparr>ra_id = aid, ra_subject_type = USER, ra_subject_id = u, ra_role_id = rol_id r,
       ra_created_at = now, ra_source = local_source\<rparr>"
  have new: "assignment_key ?a \<notin> assignment_key ` set (t_role_assignments d)"
    using assms(5) by (auto simp: assignment_key_def)
  have "rol_id r \<in> rol_id ` set (t_roles d)"
    using assms(2) role_by_slug [OF assms(1)] by blast
  moreover have "find (\<lambda>a. assignment_key a = (USER, u, rol_id r)) (t_role_assignments d @ [?a]) = Some ?a"
    using find_snoc_fresh [of assignment_key ?a "t_role_assignments d"] new by (simp add: assignment_key_def)
  ultimately show ?thesis
    using assms(2-4) new
    by (simp add: assign_admin_def assign_def op_defs insert_assignment_def assignment_find_def)
qed

lemma create_api_token_fresh:
  assumes "cid \<notin> cred_id ` set (t_credentials d)" and "u \<in> usr_id ` set (t_users d)"
  shows "\<exists>c. create_api_token sha256 salt cid u token label e now d = (Inr c, d\<lparr>t_credentials := t_credentials d @ [c]\<rparr>)
     \<and> cred_id c = cid \<and> cred_user_id c = u \<and> cred_type c = API_TOKEN \<and> cred_expires_at c = e
     \<and> token_matches sha256 token c"
proof -
  let ?c = "\<lparr>cred_id = cid, cred_user_id = u, cred_type = API_TOKEN, cred_hash = hash_token sha256 token salt,
     cred_salt = Some salt, cred_label = label, cred_created_at = now, cred_last_used_at = None,
     cred_expires_at = e\<rparr>"
  have "find (\<lambda>c. cred_id c = cid) (t_credentials d @ [?c]) = Some ?c"
    using find_snoc_fresh [of cred_id ?c "t_credentials d"] assms(1) by simp
  then have "create_api_token sha256 salt cid u token label e now d = (Inr ?c, d\<lparr>t_credentials := t_credentials d @ [?c]\<rparr>)"
    using assms by (simp add: create_api_token_def inserted_credential_def insert_credential_def
        credential_get_def op_defs)
  then show ?thesis by (intro exI [of _ ?c]) (simp add: token_matches_def verify_token_hash_def)
qed

lemma sort_key_empty [simp]: "sort_key f xs = [] \<longleftrightarrow> xs = []"
  by (metis length_0_conv length_sort)

lemma generate_run:
  assumes "bi_credential ids \<notin> cred_id ` set (t_credentials d)" and "u \<in> usr_id ` set (t_users d)"
  obtains c where "generate_and_store_bootstrap_token sha256 ids u now d
      = (Inr (Some (bi_token ids)), d\<lparr>t_credentials := t_credentials d @ [c]\<rparr>)"
    and "cred_user_id c = u" and "\<And>t. token_row sha256 (d\<lparr>t_credentials := t_credentials d @ [c]\<rparr>) (bi_token ids) t c"
proof -
  obtain c where c: "create_api_token sha256 (bi_salt ids) (bi_credential ids) u (bi_token ids)
      bootstrap_token_label None now d = (Inr c, d\<lparr>t_credentials := t_credentials d @ [c]\<rparr>)"
    and cc: "cred_user_id c = u" "cred_type c = API_TOKEN" "cred_expires_at c = None" "token_matches sha256 (bi_token ids) c"
    using create_api_token_fresh [OF assms] by blast
  have "generate_and_store_bootstrap_token sha256 ids u now d
      = (Inr (Some (bi_token ids)), d\<lparr>t_credentials := t_credentials d @ [c]\<rparr>)"
    unfolding generate_and_store_bootstrap_token_def op_then_ok [of "create_api_token _ _ _ _ _ _ _ _", OF c]
    by (simp add: ret_def)
  with cc show thesis by (intro that [of c]) (auto simp: token_row_def live_at_def)
qed

lemma keeps_ensure_bootstrap: "keeps db_ok (ensure_bootstrap_admin sha256 ids e b now)"
  unfolding ensure_bootstrap_admin_def generate_and_store_bootstrap_token_def assign_admin_def
  by (auto intro!: keeps_intros split: option.split)

text \<open>The state a first boot leaves.\<close>

lemma first_boot_run:
  assumes ok: "db_ok d" and admin: "role_get_by_slug d (role_slug_value ADMIN) = Some r"
    and empty: "t_users d = []"
    and fresh: "bi_identity ids \<notin> ei_id ` set (t_external_identities d)"
      "bi_assignment ids \<notin> ra_id ` set (t_role_assignments d)"
  obtains d' c where "ensure_bootstrap_admin sha256 ids True True now d = (Inr (Some (bi_token ids)), d')"
    and "cred_user_id c = bi_user ids" and "\<forall>t. token_row sha256 d' (bi_token ids) t c"
    and "is_bootstrap_identity d' (bi_user ids)" and "active_user d' (bi_user ids)"
    and "held d' (bi_user ids) (rol_id r)" and "t_roles d' = t_roles d"
proof -
  have refs: "refs_ok d" using ok by (simp add: db_ok_def)
  have none: "t_external_identities d = []" "t_credentials d = []"
    using refs empty by (cases "t_external_identities d"; cases "t_credentials d"; simp add: refs_ok_def)+
  have users: "ra_subject_type a \<noteq> USER" if "a \<in> set (t_role_assignments d)" for a
    using refs that empty by (auto simp: refs_ok_def subject_exists_def)
  let ?u = "\<lparr>usr_id = bi_user ids, usr_username = bootstrap_username, usr_display_name = ''Bootstrap Admin'',
     usr_active = True, usr_created_at = now, usr_deleted_at = None\<rparr>"
  let ?i = "\<lparr>ei_id = bi_identity ids, ei_user_id = bi_user ids, ei_provider = bootstrap_provider,
     ei_subject = bootstrap_username, ei_created_at = now\<rparr>"
  let ?a = "\<lparr>ra_id = bi_assignment ids, ra_subject_type = USER, ra_subject_id = bi_user ids,
     ra_role_id = rol_id r, ra_created_at = now, ra_source = local_source\<rparr>"
  let ?d1 = "d\<lparr>t_users := [?u]\<rparr>"
  let ?d2 = "?d1\<lparr>t_external_identities := [?i]\<rparr>"
  let ?d3 = "?d2\<lparr>t_role_assignments := t_role_assignments d @ [?a]\<rparr>"
  have r1: "user_create (bi_user ids) (bi_identity ids) bootstrap_username ''Bootstrap Admin'' False now d
      = (Inr ?u, ?d1)"
    using user_create_bare [of "bi_user ids" d bootstrap_username] empty by (simp add: Let_def)
  have r2: "identity_create (bi_identity ids) (bi_user ids) bootstrap_provider bootstrap_username now ?d1
      = (Inr ?i, ?d2)"
    using identity_create_fresh [of "bi_identity ids" ?d1 bootstrap_provider bootstrap_username "bi_user ids" now]
      none by (simp add: Let_def identity_get_def)
  have "db_ok ?d2"
    using keepsD [OF keeps_user_create ok, of "bi_user ids" "bi_identity ids" bootstrap_username
        "''Bootstrap Admin''" False now] r1
      keepsD [OF keeps_identity_create, of ?d1 "bi_identity ids" "bi_user ids" bootstrap_provider
        bootstrap_username now] r2 by simp
  then have r3: "assign_admin (bi_assignment ids) (bi_user ids) now ?d2 = (Inr (), ?d3)"
    using assign_admin_fresh [of ?d2 r "bi_user ids" "bi_assignment ids" now] admin fresh users
    by (simp add: role_get_by_slug_def subject_exists_def)
  obtain c where r4: "generate_and_store_bootstrap_token sha256 ids (bi_user ids) now ?d3
      = (Inr (Some (bi_token ids)), ?d3\<lparr>t_credentials := t_credentials ?d3 @ [c]\<rparr>)"
    and c: "cred_user_id c = bi_user ids"
      "\<And>t. token_row sha256 (?d3\<lparr>t_credentials := t_credentials ?d3 @ [c]\<rparr>) (bi_token ids) t c"
    using generate_run [of ids ?d3 "bi_user ids"] none by auto
  let ?d4 = "?d3\<lparr>t_credentials := t_credentials ?d3 @ [c]\<rparr>"
  have "ensure_bootstrap_admin sha256 ids True True now d = (Inr (Some (bi_token ids)), ?d4)"
    unfolding ensure_bootstrap_admin_def op_bind_asks identity_get_def user_list_all_def none empty
    using r4 by (simp add: op_bind_asks none empty op_bind_ok [of "user_create _ _ _ _ _ _", OF r1]
        op_then_ok [of "identity_create _ _ _ _ _", OF r2] op_then_ok [of "assign_admin _ _ _", OF r3])
  moreover have "is_bootstrap_identity ?d4 (bi_user ids)"
    by (simp add: is_bootstrap_identity_def identity_get_def)
  moreover have "active_user ?d4 (bi_user ids)" by (simp add: active_user_def)
  moreover have "held ?d4 (bi_user ids) (rol_id r)" by (auto simp: held_def)
  ultimately show thesis using c by (intro that [of ?d4 c]) simp_all
qed

text \<open>
  The life of the bootstrap administrator, on every branch, from a consistent database in
  which the builtin \<open>admin\<close> role exists. With security disabled nothing happens; with the
  bootstrap disabled its identity is left without any API token; an identity that holds a
  token, or a database that already has users but no such identity, is left alone; a first
  boot, or an identity without a token, gets the fresh token that is shown, valid at every
  instant for that identity; and after a first boot an active administrator exists. Consistency
  is kept, and a further boot, whatever it draws, shows nothing and changes nothing.
\<close>

theorem bootstrap_admin_lifecycle:
  assumes "db_ok d" and "role_get_by_slug d (role_slug_value ADMIN) = Some r" and "rol_builtin r"
    and "bi_identity ids \<notin> ei_id ` set (t_external_identities d)"
    and "bi_assignment ids \<notin> ra_id ` set (t_role_assignments d)"
    and "bi_credential ids \<notin> cred_id ` set (t_credentials d)"
  shows "\<exists>shown d'. ensure_bootstrap_admin sha256 ids enabled wanted now d = (Inr shown, d') \<and> db_ok d'
     \<and> (let identity = identity_get d bootstrap_provider bootstrap_username;
            holds = (case identity of None \<Rightarrow> False | Some i \<Rightarrow> list_api_tokens d (ei_user_id i) \<noteq> []);
            first = (identity = None \<and> t_users d = [])
        in (\<not> enabled \<longrightarrow> shown = None \<and> d' = d)
         \<and> (enabled \<and> \<not> wanted \<longrightarrow> shown = None \<and> (\<forall>c \<in> set (t_credentials d').
                is_bootstrap_identity d' (cred_user_id c) \<longrightarrow> cred_type c \<noteq> API_TOKEN))
         \<and> (enabled \<and> wanted \<and> (holds \<or> identity = None \<and> t_users d \<noteq> []) \<longrightarrow> shown = None \<and> d' = d)
         \<and> (enabled \<and> wanted \<and> (first \<or> identity \<noteq> None \<and> \<not> holds) \<longrightarrow> shown = Some (bi_token ids)
              \<and> (\<exists>c. is_bootstrap_identity d' (cred_user_id c) \<and> (\<forall>t. token_row sha256 d' (bi_token ids) t c)))
         \<and> (enabled \<and> wanted \<and> first \<longrightarrow> recoverable d')
         \<and> (enabled \<and> wanted \<longrightarrow> (\<forall>ids2 now2.
                ensure_bootstrap_admin sha256 ids2 True True now2 d' = (Inr None, d'))))"
proof -
  let ?idy = "identity_get d bootstrap_provider bootstrap_username"
  obtain shown d' where run: "ensure_bootstrap_admin sha256 ids enabled wanted now d = (shown, d')"
    by fastforce
  have ok': "db_ok d'"
    using keepsD [OF keeps_ensure_bootstrap assms(1), of sha256 ids enabled wanted now] run by simp
  have again: "ensure_bootstrap_admin sha256 ids2 True True now2 d' = (Inr None, d')"
    if "\<exists>c i. c \<in> set (t_credentials d') \<and> cred_type c = API_TOKEN
        \<and> identity_get d' bootstrap_provider bootstrap_username = Some i \<and> ei_user_id i = cred_user_id c"
    for ids2 now2
  proof -
    from that obtain c i where c: "c \<in> set (t_credentials d')" "cred_type c = API_TOKEN"
      "identity_get d' bootstrap_provider bootstrap_username = Some i" "ei_user_id i = cred_user_id c" by blast
    then have "filter (credential_of_type (ei_user_id i) API_TOKEN) (t_credentials d') \<noteq> []"
      by (auto simp: filter_empty_conv credential_of_type_def)
    then show ?thesis
      using c by (simp add: ensure_bootstrap_admin_def op_bind_asks list_api_tokens_def ret_def)
  qed
  show ?thesis
  proof (cases "enabled \<and> wanted")
    case False
    show ?thesis
    proof (cases enabled)
      case off: False
      then have "ensure_bootstrap_admin sha256 ids enabled wanted now d = (Inr None, d)"
        by (simp add: ensure_bootstrap_admin_def ret_def)
      then show ?thesis using off assms(1) by (simp add: Let_def)
    next
      case on: True
      with False have "\<not> wanted" by simp
      have "shown = Inr None \<and> (\<forall>c \<in> set (t_credentials d').
                is_bootstrap_identity d' (cred_user_id c) \<longrightarrow> cred_type c \<noteq> API_TOKEN)"
      proof (cases ?idy)
        case None
        then have "shown = Inr None \<and> d' = d"
          using run on \<open>\<not> wanted\<close> by (simp add: ensure_bootstrap_admin_def op_bind_asks ret_def)
        then show ?thesis using None by (simp add: is_bootstrap_identity_def)
      next
        case (Some i)
        then have "shown = Inr None \<and> d' = delete_credentials_of (ei_user_id i) API_TOKEN d"
          using run on \<open>\<not> wanted\<close> by (simp add: ensure_bootstrap_admin_def asks_def ret_def
              delete_credentials_def op_then_def op_bind_def transaction_def put_def)
        then show ?thesis
          using Some by (auto simp: is_bootstrap_identity_def identity_get_def delete_credentials_of_def
              credential_of_type_def)
      qed
      then show ?thesis using run ok' on \<open>\<not> wanted\<close> by (simp add: Let_def)
    qed
  next
    case True
    show ?thesis
    proof (cases ?idy)
      case None
      show ?thesis
      proof (cases "t_users d = []")
        case empty: True
        obtain d2 c where run2: "ensure_bootstrap_admin sha256 ids True True now d = (Inr (Some (bi_token ids)), d2)"
          and c2: "cred_user_id c = bi_user ids" "\<forall>t. token_row sha256 d2 (bi_token ids) t c"
            "is_bootstrap_identity d2 (bi_user ids)"
          and a2: "active_user d2 (bi_user ids)" "held d2 (bi_user ids) (rol_id r)" "t_roles d2 = t_roles d"
          using first_boot_run [OF assms(1,2) empty assms(4,5), of sha256 now] by blast
        have d2: "shown = Inr (Some (bi_token ids))" "d2 = d'" using run run2 True by simp_all
        note c = c2 [unfolded d2(2)] and a = a2 [unfolded d2(2)]
        have "shown = Inr (Some (bi_token ids))" by (fact d2(1))
        moreover have "recoverable d'"
          using a assms(3) role_by_slug [OF assms(1)] assms(2) by (auto simp: recoverable_def admin_by_def)
        moreover have "\<exists>c i. c \<in> set (t_credentials d') \<and> cred_type c = API_TOKEN
            \<and> identity_get d' bootstrap_provider bootstrap_username = Some i \<and> ei_user_id i = cred_user_id c"
          using c by (auto simp: token_row_def is_bootstrap_identity_def split: option.splits)
        moreover have "\<exists>c. is_bootstrap_identity d' (cred_user_id c) \<and> (\<forall>t. token_row sha256 d' (bi_token ids) t c)"
          using c by (intro exI [of _ c]) simp
        ultimately show ?thesis using run ok' again True None empty by (simp add: Let_def)
      next
        case False
        then have "user_list_all d \<noteq> []" by (auto simp: user_list_all_def dest: arg_cong [where f = set])
        then have "ensure_bootstrap_admin sha256 i2 True True n2 d = (Inr None, d)" for i2 n2
          using None by (simp add: ensure_bootstrap_admin_def op_bind_asks ret_def)
        then show ?thesis using True None False ok' run by (auto simp: Let_def)
      qed
    next
      case (Some i)
      show ?thesis
      proof (cases "list_api_tokens d (ei_user_id i) = []")
        case False
        then have "ensure_bootstrap_admin sha256 i2 True True n2 d = (Inr None, d)" for i2 n2
          using Some by (simp add: ensure_bootstrap_admin_def op_bind_asks ret_def)
        then show ?thesis using True Some False ok' run by (auto simp: Let_def)
      next
        case none: True
        have "i \<in> set (t_external_identities d)" using Some by (auto simp: identity_get_def find_Some_iff)
        then have "ei_user_id i \<in> usr_id ` set (t_users d)"
          using assms(1) by (auto simp: db_ok_def refs_ok_def)
        then obtain c where g: "generate_and_store_bootstrap_token sha256 ids (ei_user_id i) now d
            = (Inr (Some (bi_token ids)), d\<lparr>t_credentials := t_credentials d @ [c]\<rparr>)"
          and c: "cred_user_id c = ei_user_id i"
            "\<And>t. token_row sha256 (d\<lparr>t_credentials := t_credentials d @ [c]\<rparr>) (bi_token ids) t c"
          using generate_run assms(6) by blast
        have d': "shown = Inr (Some (bi_token ids))" "d' = d\<lparr>t_credentials := t_credentials d @ [c]\<rparr>"
          using run True Some none g by (simp_all add: ensure_bootstrap_admin_def op_bind_asks)
        then have idy: "identity_get d' bootstrap_provider bootstrap_username = Some i"
          using Some by (simp add: identity_get_def)
        then have "\<exists>c i. c \<in> set (t_credentials d') \<and> cred_type c = API_TOKEN
            \<and> identity_get d' bootstrap_provider bootstrap_username = Some i \<and> ei_user_id i = cred_user_id c"
          using c d' by (auto simp: token_row_def)
        note again' = again [OF this]
        have "is_bootstrap_identity d' (cred_user_id c)" using idy c by (simp add: is_bootstrap_identity_def)
        then show ?thesis
          using True Some none ok' run d'(1) c(2) [folded d'(2)] again' by (auto simp: Let_def)
      qed
    qed
  qed
qed

definition empty_house :: db where
  "empty_house = empty_db\<lparr>t_roles := [mk_role ''admin'']\<rparr>"

definition first_ids :: boot_ids where
  "first_ids = \<lparr>bi_user = ''u'', bi_identity = ''i'', bi_assignment = ''a'', bi_credential = ''c'',
     bi_salt = ''s'', bi_token = ''t''\<rparr>"

lemma empty_house_ok: "db_ok empty_house"
  by (simp add: db_ok_def ok_defs empty_house_def org_defs unique_by_def)

theorem bootstrap_admin_lifecycle_witness:
  "\<exists>d'. ensure_bootstrap_admin (\<lambda>x. x) first_ids True True 0 empty_house = (Inr (Some ''t''), d')
     \<and> recoverable d'"
proof -
  have r: "role_get_by_slug empty_house (role_slug_value ADMIN) = Some (mk_role ''admin'')"
    by (simp add: role_get_by_slug_def empty_house_def mk_role_def)
  show ?thesis
    using bootstrap_admin_lifecycle [OF empty_house_ok r, of first_ids "\<lambda>x. x" True True 0]
    by (auto simp: mk_role_def empty_house_def empty_db_def identity_get_def first_ids_def Let_def)
qed

section \<open>The route-coverage audit\<close>

text \<open>A route as the audit sees it; a \<open>require\<close> declaration is its resource and description.\<close>

record route =
  rt_path :: "string option"
  rt_api :: bool
  rt_methods :: "string list"
  rt_declarations :: "(string \<times> string) list"

datatype audit_problem =
    NotApiRoute string
  | MissingRequire "string list" string
  | SeveralRequires "string list" string "string list"
  | ConflictingDescriptions string string string

record audit_state =
  as_problems :: "audit_problem list"
  as_descriptions :: "(string \<times> string) list"
  as_verbs :: "(string \<times> verb set) list"

definition served_verbs :: "string list \<Rightarrow> verb set" where
  "served_verbs methods = set (filter (\<lambda>v. verb_value v \<in> set methods) verb_order)"

definition note_problem :: "audit_problem \<Rightarrow> audit_state \<Rightarrow> audit_state" where
  "note_problem p st = st\<lparr>as_problems := as_problems st @ [p]\<rparr>"

definition declare_route :: "string list \<Rightarrow> string \<times> string \<Rightarrow> audit_state \<Rightarrow> audit_state" where
  "declare_route methods decl st = (case decl of (name, description) \<Rightarrow>
     (let known = (case map_of (as_verbs st) name of None \<Rightarrow> {} | Some vs \<Rightarrow> vs);
          st = st\<lparr>as_verbs := dict_put name (known \<union> served_verbs methods) (as_verbs st)\<rparr>
      in case map_of (as_descriptions st) name of
          None \<Rightarrow> st\<lparr>as_descriptions := dict_put name description (as_descriptions st)\<rparr>
        | Some existing \<Rightarrow>
            if existing \<noteq> [] \<and> description \<noteq> [] \<and> existing \<noteq> description
            then note_problem (ConflictingDescriptions name existing description) st
            else if existing = [] \<and> description \<noteq> []
            then st\<lparr>as_descriptions := dict_put name description (as_descriptions st)\<rparr>
            else st))"

definition audit_route :: "route \<Rightarrow> audit_state \<Rightarrow> audit_state" where
  "audit_route rt st = (case rt_path rt of
       None \<Rightarrow> st
     | Some path \<Rightarrow>
         if path \<in> public_paths then st
         else if \<not> rt_api rt then note_problem (NotApiRoute path) st
         else (case rt_declarations rt of
             [] \<Rightarrow> note_problem (MissingRequire (sort (rt_methods rt)) path) st
           | [decl] \<Rightarrow> declare_route (rt_methods rt) decl st
           | decls \<Rightarrow> note_problem (SeveralRequires (sort (rt_methods rt)) path
                        (sorted_list_of_set (fst ` set decls))) st))"

definition audit_route_coverage :: "route list \<Rightarrow> audit_problem list + resource_spec list" where
  "audit_route_coverage routes =
     (let st = fold audit_route routes \<lparr>as_problems = [], as_descriptions = [], as_verbs = []\<rparr>
      in if as_problems st \<noteq> [] then Inl (as_problems st)
         else Inr (sort_key spec_name (map (\<lambda>(n, descr). \<lparr>spec_name = n, spec_description = descr,
                spec_verbs = the (map_of (as_verbs st) n)\<rparr>) (as_descriptions st))))"

section \<open>The order of the boot\<close>

record boot_settings =
  bs_encryption_key :: "bytes option"
  bs_enabled :: bool
  bs_bootstrap_admin_enabled :: bool
  bs_admin_username :: "string option"
  bs_api_token :: "string option"

definition auth_boot ::
  "(string \<Rightarrow> string) \<Rightarrow> (role_slug \<Rightarrow> string) \<Rightarrow> boot_ids \<Rightarrow> boot_ids \<Rightarrow> boot_settings
   \<Rightarrow> resource_spec list \<Rightarrow> stamp \<Rightarrow> string option db_op" where
  "auth_boot sha256 new_role_id ids ids2 st specs now =
     op_then (ensure_key_configured_if_needed (bs_encryption_key st)) (op_then
       (sync_resources specs now) (op_then
       (reconcile_builtin_roles new_role_id now)
       (op_bind (ensure_bootstrap_admin sha256 ids (bs_enabled st) (bs_bootstrap_admin_enabled st) now)
         (\<lambda>shown. op_then
           (ensure_configured_admin sha256 ids2 (bs_enabled st) (bs_admin_username st) (bs_api_token st) now)
           (ret shown)))))"

section \<open>What a passed audit says\<close>

definition gated_route :: "route \<Rightarrow> bool" where
  "gated_route rt \<longleftrightarrow> (\<exists>path. rt_path rt = Some path \<and> path \<notin> public_paths)"

definition declares :: "route \<Rightarrow> string \<Rightarrow> bool" where
  "declares rt n \<longleftrightarrow> (\<exists>descr. rt_declarations rt = [(n, descr)])"

definition verbs_for :: "route list \<Rightarrow> string \<Rightarrow> verb set" where
  "verbs_for rts n = (\<Union>rt \<in> {rt \<in> set rts. gated_route rt \<and> declares rt n}. served_verbs (rt_methods rt))"

lemma served_verbs_iff [simp]: "v \<in> served_verbs ms \<longleftrightarrow> verb_value v \<in> set ms"
  by (cases v) (auto simp: served_verbs_def verb_order_def)

lemma audit_route_cases:
  "(\<not> gated_route rt \<and> audit_route rt st = st)
   \<or> (gated_route rt \<and> as_problems (audit_route rt st) \<noteq> [])
   \<or> (\<exists>n descr. gated_route rt \<and> rt_api rt \<and> rt_declarations rt = [(n, descr)]
        \<and> audit_route rt st = declare_route (rt_methods rt) (n, descr) st)"
  by (auto simp: audit_route_def gated_route_def note_problem_def split: option.split list.split)

lemma declare_route_run:
  assumes "as_problems (declare_route ms (n, descr) st) = []"
  shows "as_problems st = []"
    and "map_of (as_verbs (declare_route ms (n, descr) st))
      = (map_of (as_verbs st))(n \<mapsto> (case map_of (as_verbs st) n of None \<Rightarrow> {} | Some vs \<Rightarrow> vs) \<union> served_verbs ms)"
    and "fst ` set (as_descriptions (declare_route ms (n, descr) st)) = insert n (fst ` set (as_descriptions st))"
    and "distinct (map fst (as_descriptions st)) \<Longrightarrow> distinct (map fst (as_descriptions (declare_route ms (n, descr) st)))"
  using assms
  by (auto simp: declare_route_def Let_def note_problem_def split: option.splits if_splits
      dest: map_of_SomeD intro: rev_image_eqI)

lemma audit_invariant:
  assumes "as_problems (fold audit_route rts \<lparr>as_problems = [], as_descriptions = [], as_verbs = []\<rparr>) = []"
  defines "st \<equiv> fold audit_route rts \<lparr>as_problems = [], as_descriptions = [], as_verbs = []\<rparr>"
  shows "(\<forall>rt \<in> set rts. gated_route rt \<longrightarrow> rt_api rt \<and> (\<exists>n. declares rt n))
     \<and> distinct (map fst (as_descriptions st))
     \<and> fst ` set (as_descriptions st) = {n. \<exists>rt \<in> set rts. gated_route rt \<and> declares rt n}
     \<and> (\<forall>n. map_of (as_verbs st) n = (if n \<in> fst ` set (as_descriptions st) then Some (verbs_for rts n) else None))"
  using assms(1) unfolding st_def
proof (induction rts rule: rev_induct)
  case (snoc rt rts)
  let ?st = "fold audit_route rts \<lparr>as_problems = [], as_descriptions = [], as_verbs = []\<rparr>"
  consider (skip) "\<not> gated_route rt" "audit_route rt ?st = ?st"
    | (problem) "as_problems (audit_route rt ?st) \<noteq> []"
    | (decl) n descr where "gated_route rt" "rt_api rt" "rt_declarations rt = [(n, descr)]"
        "audit_route rt ?st = declare_route (rt_methods rt) (n, descr) ?st"
    using audit_route_cases [of rt ?st] by blast
  then show ?case
  proof cases
    case skip
    have "verbs_for (rts @ [rt]) = verbs_for rts"
      using skip(1) by (auto simp: verbs_for_def fun_eq_iff)
    then show ?thesis using snoc skip by auto
  next
    case problem
    then show ?thesis using snoc.prems by simp
  next
    case decl
    note run = declare_route_run [of "rt_methods rt" n descr ?st]
    have ok: "as_problems (declare_route (rt_methods rt) (n, descr) ?st) = []"
      using snoc.prems decl(4) by simp
    note IH = snoc.IH [OF run(1) [OF ok]]
    have d: "declares rt m \<longleftrightarrow> m = n" for m using decl(3) by (auto simp: declares_def)
    have names: "{m. \<exists>q \<in> set (rts @ [rt]). gated_route q \<and> declares q m}
        = insert n {m. \<exists>q \<in> set rts. gated_route q \<and> declares q m}"
      using d decl(1) by auto
    have vf: "verbs_for (rts @ [rt]) m = (if m = n then verbs_for rts n \<union> served_verbs (rt_methods rt) else verbs_for rts m)" for m
      using d decl(1) by (auto simp: verbs_for_def)
    have new: "verbs_for rts n = {}" if "n \<notin> fst ` set (as_descriptions ?st)"
      using IH that by (auto simp: verbs_for_def)
    have "(\<forall>q \<in> set (rts @ [rt]). gated_route q \<longrightarrow> rt_api q \<and> (\<exists>n. declares q n))"
      using IH decl(2) d by auto
    moreover have "fold audit_route (rts @ [rt]) \<lparr>as_problems = [], as_descriptions = [], as_verbs = []\<rparr>
        = declare_route (rt_methods rt) (n, descr) ?st"
      using decl(4) by simp
    ultimately show ?thesis
      using IH run(2-4) [OF ok] names vf new by auto
  qed
qed simp

section \<open>The administrators leave roles and grants alone\<close>

definition same_rbac :: "role list \<Rightarrow> role_permission list \<Rightarrow> db \<Rightarrow> bool" where
  "same_rbac rs ps d \<longleftrightarrow> t_roles d = rs \<and> t_role_permissions d = ps"

lemma rbac_insert_user: "keeps (same_rbac rs ps) (insert_user u)"
  by (auto simp: keeps_def same_rbac_def insert_user_def op_defs)

lemma rbac_insert_identity: "keeps (same_rbac rs ps) (insert_identity i)"
  by (auto simp: keeps_def same_rbac_def insert_identity_def op_defs)

lemma rbac_insert_assignment: "keeps (same_rbac rs ps) (insert_assignment a)"
  by (auto simp: keeps_def same_rbac_def insert_assignment_def op_defs)

lemma rbac_insert_credential: "keeps (same_rbac rs ps) (insert_credential c)"
  by (auto simp: keeps_def same_rbac_def insert_credential_def op_defs)

lemma rbac_delete_credentials: "keeps (same_rbac rs ps) (delete_credentials u ty)"
  by (auto simp: keeps_def same_rbac_def delete_credentials_def delete_credentials_of_def op_defs)

lemmas rbac_inserts = rbac_insert_user rbac_insert_identity rbac_insert_assignment
  rbac_insert_credential rbac_delete_credentials

lemma rbac_user_create: "keeps (same_rbac rs ps) (user_create u i name dn li now)"
  unfolding user_create_def
  by (auto intro!: keeps_intros rbac_inserts split: option.split)

lemma rbac_identity_create: "keeps (same_rbac rs ps) (identity_create i u prov sub now)"
  unfolding identity_create_def
  by (auto intro!: keeps_intros rbac_inserts split: option.split)

lemma rbac_create_api_token: "keeps (same_rbac rs ps) (create_api_token sha256 salt c u t l e now)"
  unfolding create_api_token_def inserted_credential_def
  by (auto intro!: keeps_intros rbac_inserts split: option.split)

lemma rbac_assign_admin: "keeps (same_rbac rs ps) (assign_admin a u now)"
  unfolding assign_admin_def assign_def
  by (auto intro!: keeps_intros rbac_inserts split: option.split)

lemma rbac_ensure_bootstrap: "keeps (same_rbac rs ps) (ensure_bootstrap_admin sha256 ids e b now)"
  unfolding ensure_bootstrap_admin_def generate_and_store_bootstrap_token_def
  by (auto intro!: keeps_intros rbac_user_create rbac_identity_create rbac_create_api_token
      rbac_assign_admin rbac_delete_credentials split: option.split)

lemma rbac_ensure_configured: "keeps (same_rbac rs ps) (ensure_configured_admin sha256 ids e name tok now)"
  unfolding ensure_configured_admin_def
  by (auto intro!: keeps_intros rbac_user_create rbac_create_api_token rbac_assign_admin
      split: option.split)

lemma audit_ok:
  assumes "audit_route_coverage routes = Inr specs"
  shows "distinct (map spec_name specs) \<and> sorted (map spec_name specs)
     \<and> (\<forall>rt \<in> set routes. gated_route rt \<longrightarrow> rt_api rt \<and> (\<exists>n. declares rt n))
     \<and> spec_name ` set specs = {n. \<exists>rt \<in> set routes. gated_route rt \<and> declares rt n}
     \<and> (\<forall>s \<in> set specs. spec_verbs s = verbs_for routes (spec_name s))"
proof -
  let ?st = "fold audit_route routes \<lparr>as_problems = [], as_descriptions = [], as_verbs = []\<rparr>"
  let ?spec = "\<lambda>(n, descr). \<lparr>spec_name = n, spec_description = descr, spec_verbs = the (map_of (as_verbs ?st) n)\<rparr>"
  have ok: "as_problems ?st = []" and specs: "specs = sort_key spec_name (map ?spec (as_descriptions ?st))"
    using assms by (auto simp: audit_route_coverage_def Let_def split: if_splits)
  note inv = audit_invariant [OF ok]
  have names: "map spec_name (map ?spec (as_descriptions ?st)) = map fst (as_descriptions ?st)"
    by (simp add: case_prod_beta)
  have "distinct (map spec_name (map ?spec (as_descriptions ?st)))" using inv unfolding names by simp
  then have "distinct (map spec_name specs)"
    unfolding specs by (simp only: distinct_map set_sort distinct_sort)
  moreover have "spec_name ` set specs = fst ` set (as_descriptions ?st)"
    unfolding specs set_sort using names by (metis set_map)
  moreover have "spec_verbs s = verbs_for routes (spec_name s)" if "s \<in> set specs" for s
  proof -
    obtain kv where kv: "kv \<in> set (as_descriptions ?st)" "s = ?spec kv"
      using \<open>s \<in> set specs\<close> unfolding specs set_sort set_map by blast
    then have "spec_name s = fst kv" "spec_verbs s = the (map_of (as_verbs ?st) (fst kv))"
      by (simp_all add: case_prod_beta)
    moreover have "map_of (as_verbs ?st) (fst kv) = Some (verbs_for routes (fst kv))" using inv kv(1) by auto
    ultimately show ?thesis by simp
  qed
  ultimately show ?thesis using inv specs by auto
qed

lemma keeps_sync: "keeps db_ok (sync_resources specs now)"
  unfolding sync_resources_def Let_def case_prod_beta by (intro keeps_intros)

lemma sync_roles: "t_roles (snd (sync_resources specs now d)) = t_roles d"
proof -
  have "keeps (\<lambda>e. t_roles e = t_roles d) (sync_resources specs now)"
    unfolding sync_resources_def Let_def case_prod_beta
    by (intro keeps_intros)
      (auto simp: keeps_def resource_upsert_def resource_delete_def op_defs)
  then show ?thesis by (simp add: keeps_def)
qed

text \<open>
  C13. After any boot an administrator can use every route. When the audit passed and the boot
  returned, every non-public route declares exactly one resource, and a principal that holds
  the \<open>admin\<close> role is authorized for each of the route's methods on it, sensitive or not, with
  no sudo grant: the catalog, the reconciled grants and the decision agree.
\<close>

theorem admin_reaches_every_route:
  assumes "audit_route_coverage routes = Inr specs" and "db_ok d"
    and "inj new_role_id" and "\<forall>s. new_role_id s \<notin> rol_id ` set (t_roles d)"
    and "auth_boot sha256 new_role_id ids ids2 st specs now d = (Inr shown, d')"
    and "rt \<in> set routes" and "gated_route rt" and "verb_value v \<in> set (rt_methods rt)"
    and "r \<in> set (t_roles d')" and "rol_slug r = ''admin''"
    and "rol_id r \<in> pr_role_ids p" and "''admin'' \<in> pr_role_slugs p"
  shows "\<exists>n. declares rt n \<and> authorize p n v sensitive d' = (Inr (), d')"
proof -
  note audit = audit_ok [OF assms(1)]
  obtain n where n: "declares rt n" using audit assms(6,7) by blast
  then have "n \<in> spec_name ` set specs" using audit assms(6,7) by blast
  then obtain s where s: "s \<in> set specs" "spec_name s = n" by blast
  have sv: "v \<in> spec_verbs s"
    using audit s assms(6-8) n by (auto simp: verbs_for_def)
  let ?d1 = "snd (sync_resources specs now d)"
  note sync = sync_resources_run [OF assms(2), of specs now]
  have ok1: "db_ok ?d1"
    using keepsD [OF keeps_sync assms(2)] .
  have "map_of (rev (map (\<lambda>s. (spec_name s, s)) specs)) n = Some s"
  proof (rule map_of_is_SomeI)
    have "distinct (map fst (map (\<lambda>s. (spec_name s, s)) specs))" using audit by (simp add: o_def)
    then show "distinct (map fst (rev (map (\<lambda>s. (spec_name s, s)) specs)))"
      by (simp only: rev_map [symmetric] distinct_rev)
  qed (use s in auto)
  then have "served ?d1 n (spec_description s) (spec_verbs s)" unfolding sync(3) by blast
  then have grant: "(n, v) \<in> builtin_grants ?d1 ADMIN"
    using sv by (auto simp: served_def builtin_grants_def permitted_verbs_def is_sensitive_resource_def)
  have roles1: "t_roles ?d1 = t_roles d" by (rule sync_roles)
  have fresh: "\<forall>s. has_slug ?d1 s \<or> new_role_id s \<notin> rol_id ` set (t_roles ?d1)" using assms(4) roles1 by simp
  from reconcile_run [OF ok1 assms(3) fresh, of now]
  obtain new perms where rec: "reconcile_builtin_roles new_role_id now ?d1
        = (Inr (), ?d1\<lparr>t_roles := t_roles ?d1 @ new, t_role_permissions := perms\<rparr>)" (is "_ = (_, ?d2)")
    and ok2: "db_ok (?d1\<lparr>t_roles := t_roles ?d1 @ new\<rparr>)"
    and adm: "\<exists>r \<in> set (t_roles ?d1 @ new). rol_slug r = role_slug_value ADMIN
          \<and> grants_for_roles (?d1\<lparr>t_role_permissions := perms\<rparr>) {rol_id r} = builtin_grants ?d1 ADMIN"
    by blast
  have d': "same_rbac (t_roles ?d2) (t_role_permissions ?d2) d'"
  proof -
    have "op_bind (ensure_bootstrap_admin sha256 ids (bs_enabled st) (bs_bootstrap_admin_enabled st) now)
         (\<lambda>shown. op_then
           (ensure_configured_admin sha256 ids2 (bs_enabled st) (bs_admin_username st) (bs_api_token st) now)
           (ret shown)) ?d2 = (Inr shown, d')"
    proof -
      obtain x where k: "ensure_key_configured_if_needed (bs_encryption_key st) d = (Inr x, d)"
        and rest: "op_then (sync_resources specs now) (op_then (reconcile_builtin_roles new_role_id now)
           (op_bind (ensure_bootstrap_admin sha256 ids (bs_enabled st) (bs_bootstrap_admin_enabled st) now)
             (\<lambda>shown. op_then (ensure_configured_admin sha256 ids2 (bs_enabled st) (bs_admin_username st)
                (bs_api_token st) now) (ret shown)))) d = (Inr shown, d')"
        using assms(5) unfolding auth_boot_def
        by (elim op_then_okE [where m = "ensure_key_configured_if_needed _"])
          (auto simp: ensure_key_configured_if_needed_def ret_def raise_def op_bind_asks split: if_splits)
      show ?thesis
        using rest unfolding op_then_ok [of "sync_resources _ _", OF sync(1)]
          op_then_ok [of "reconcile_builtin_roles _ _", OF rec] .
    qed
    moreover have "keeps (same_rbac (t_roles ?d2) (t_role_permissions ?d2))
       (op_bind (ensure_bootstrap_admin sha256 ids (bs_enabled st) (bs_bootstrap_admin_enabled st) now)
         (\<lambda>shown. op_then
           (ensure_configured_admin sha256 ids2 (bs_enabled st) (bs_admin_username st) (bs_api_token st) now)
           (ret shown)))"
      by (intro keeps_intros rbac_ensure_bootstrap rbac_ensure_configured)
    ultimately show ?thesis by (metis keepsD same_rbac_def snd_conv)
  qed
  obtain q where q: "q \<in> set (t_roles ?d2)" "rol_slug q = ''admin''"
    and g: "grants_for_roles (?d1\<lparr>t_role_permissions := perms\<rparr>) {rol_id q} = builtin_grants ?d1 ADMIN"
    using adm by auto
  have "r = q"
    using q assms(9,10) d' ok2 unique_byD [of rol_slug "t_roles ?d1 @ new" r q]
    by (auto simp: db_ok_def keys_ok_def same_rbac_def)
  then have "(n, v) \<in> grants_for_roles (?d1\<lparr>t_role_permissions := perms\<rparr>) {rol_id r}"
    using g grant by simp
  then have "v \<in> effective_verbs d' (pr_role_ids p) n"
    using d' assms(11) by (auto simp: grants_for_roles_iff effective_verbs_iff same_rbac_def)
  then show ?thesis
    using n assms(12) by (auto simp: authorize_def ret_def Let_def)
qed

definition whoami_route :: route where
  "whoami_route = \<lparr>rt_path = Some ''/auth/groups'', rt_api = True, rt_methods = [''GET''],
     rt_declarations = [(''auth.groups'', ''Groups'')]\<rparr>"

definition quiet_boot :: boot_settings where
  "quiet_boot = \<lparr>bs_encryption_key = None, bs_enabled = False, bs_bootstrap_admin_enabled = False,
     bs_admin_username = None, bs_api_token = None\<rparr>"

theorem admin_reaches_every_route_witness:
  "\<exists>d' r n p. r \<in> set (t_roles d') \<and> rol_slug r = ''admin''
     \<and> declares whoami_route n \<and> authorize p n GET True d' = (Inr (), d')"
proof -
  let ?specs = "[\<lparr>spec_name = ''auth.groups'', spec_description = ''Groups'', spec_verbs = {GET}\<rparr>]"
  have a: "audit_route_coverage [whoami_route] = Inr ?specs"
    by (simp add: audit_route_coverage_def audit_route_def whoami_route_def public_paths_def
        declare_route_def served_verbs_def verb_order_def)
  have inj: "inj fresh_role_id" by (simp add: inj_def fresh_role_id_def)
  have fresh: "\<forall>s. fresh_role_id s \<notin> rol_id ` set (t_roles org)"
    by (simp add: fresh_role_id_def org_defs)
  let ?d1 = "snd (sync_resources ?specs 0 org)"
  have ok1: "db_ok ?d1" by (rule keepsD [OF keeps_sync org_ok])
  have "\<forall>s. has_slug ?d1 s \<or> fresh_role_id s \<notin> rol_id ` set (t_roles ?d1)"
    using fresh by (simp add: sync_roles)
  from reconcile_run [OF ok1 inj this, of 0]
  obtain new perms where rec: "reconcile_builtin_roles fresh_role_id 0 ?d1
        = (Inr (), ?d1\<lparr>t_roles := t_roles ?d1 @ new, t_role_permissions := perms\<rparr>)" (is "_ = (_, ?d2)")
    and slugs: "\<forall>s. \<exists>r \<in> set (t_roles ?d1 @ new). rol_slug r = role_slug_value s
          \<and> grants_for_roles (?d1\<lparr>t_role_permissions := perms\<rparr>) {rol_id r} = builtin_grants ?d1 s"
    by (elim exE conjE)
  obtain r where r: "r \<in> set (t_roles ?d2)" "rol_slug r = ''admin''"
    using slugs [THEN spec, of ADMIN] by auto
  have "ensure_key_configured_if_needed (bs_encryption_key quiet_boot) org = (Inr (), org)"
    by (simp add: ensure_key_configured_if_needed_def quiet_boot_def op_bind_asks
        any_credential_of_type_def org_defs ret_def)
  then have boot: "auth_boot (\<lambda>x. x) fresh_role_id first_ids first_ids quiet_boot ?specs 0 org = (Inr None, ?d2)"
    unfolding auth_boot_def
    by (simp add: op_then_ok [of "ensure_key_configured_if_needed _"]
        op_then_ok [of "sync_resources _ _", OF sync_resources_run(1) [OF org_ok]]
        op_then_ok [of "reconcile_builtin_roles _ _", OF rec])
      (simp add: ensure_bootstrap_admin_def ensure_configured_admin_def quiet_boot_def op_run ret_def)
  have "gated_route whoami_route" by (simp add: gated_route_def whoami_route_def public_paths_def)
  then obtain n where "declares whoami_route n"
    and "authorize (ann\<lparr>pr_role_ids := {rol_id r}, pr_role_slugs := {''admin''}\<rparr>) n GET True ?d2 = (Inr (), ?d2)"
    using admin_reaches_every_route [OF a org_ok inj fresh boot, of whoami_route GET r
        "ann\<lparr>pr_role_ids := {rol_id r}, pr_role_slugs := {''admin''}\<rparr>" True] r
    by (auto simp: whoami_route_def)
  with r show ?thesis by blast
qed

end
