(* ===== verification/Oidc.thy ===== *)
theory Oidc
  imports Role_Sync Boot
begin

text \<open>
  The OIDC login exchange (\<open>auth/oidc.py\<close>, \<open>auth/oidc_login.py\<close> and the sequence of
  \<open>api/routes/oidc.py\<close>). The identity provider behind HTTP is the parameter of each call: what
  \<open>get_json\<close> and \<open>post_form\<close> answer (\<open>Inl\<close> is \<open>OidcProviderError\<close>), how PyJWT parses a key
  set, reads a header and decodes a token (\<open>None\<close> is a \<open>PyJWTError\<close>). Random values, ids and
  clock readings are arguments.
\<close>

section \<open>Discovery, exchange, validation\<close>

type_synonym claims = "(string \<times> json) list"

record http_client =
  hc_get_json :: "string \<Rightarrow> err + claims"
  hc_post_form :: "string \<Rightarrow> (string \<times> string) list \<Rightarrow> string \<times> string \<Rightarrow> err + claims"

record provider_metadata =
  pm_issuer :: string
  pm_authorization_endpoint :: json
  pm_token_endpoint :: json
  pm_jwks_uri :: json

text \<open>A key of the set by its \<open>kid\<close>; \<open>'key\<close> is what PyJWT verifies with.\<close>

record 'key jwk =
  jwk_kid :: "string option"
  jwk_key :: 'key

record 'key jwt_library =
  jl_key_set :: "claims \<Rightarrow> 'key jwk list option"
  jl_header :: "string \<Rightarrow> claims option"
  jl_decode :: "string \<Rightarrow> 'key \<Rightarrow> string list \<Rightarrow> string \<Rightarrow> string \<Rightarrow> string list \<Rightarrow> claims option"

definition allowed_algorithms :: "string list" where
  "allowed_algorithms = [''RS256'', ''RS384'', ''RS512'', ''PS256'', ''PS384'', ''PS512'',
     ''ES256'', ''ES384'', ''ES512'']"

definition required_discovery_fields :: "string list" where
  "required_discovery_fields = [''authorization_endpoint'', ''token_endpoint'', ''jwks_uri'']"

definition required_claims :: "string list" where
  "required_claims = [''exp'', ''iat'', ''iss'', ''aud'', ''sub'']"

text \<open>Python truthiness of \<open>document.get(name)\<close>.\<close>

definition truthy :: "json option \<Rightarrow> bool" where
  "truthy v = (case v of
       None \<Rightarrow> False
     | Some j \<Rightarrow> (case j of
           JNull \<Rightarrow> False
         | JBool b \<Rightarrow> b
         | JInt n \<Rightarrow> n \<noteq> 0
         | JFloat t \<Rightarrow> t \<notin> {''0.0'', ''-0.0''}
         | JStr s \<Rightarrow> s \<noteq> []
         | JList xs \<Rightarrow> xs \<noteq> []
         | JDict kvs \<Rightarrow> kvs \<noteq> []))"

definition rstrip_slash :: "string \<Rightarrow> string" where
  "rstrip_slash s = rev (dropWhile (\<lambda>c. c = CHR ''/'') (rev s))"

definition discover :: "http_client \<Rightarrow> string \<Rightarrow> err + provider_metadata" where
  "discover client issuer =
     (let normalized = rstrip_slash issuer
      in case hc_get_json client (normalized @ ''/.well-known/openid-configuration'') of
          Inl e \<Rightarrow> Inl e
        | Inr document \<Rightarrow>
            if map_of document ''issuer'' \<noteq> Some (JStr normalized) then Inl OidcProviderError
            else if list_ex (\<lambda>name. \<not> truthy (map_of document name)) required_discovery_fields
            then Inl OidcProviderError
            else Inr \<lparr>pm_issuer = normalized,
                      pm_authorization_endpoint = the (map_of document ''authorization_endpoint''),
                      pm_token_endpoint = the (map_of document ''token_endpoint''),
                      pm_jwks_uri = the (map_of document ''jwks_uri'')\<rparr>)"

text \<open>The endpoints are used as URLs; one that is not a text is a failed request.\<close>

definition url_of :: "json \<Rightarrow> err + string" where
  "url_of j = (case j of JStr s \<Rightarrow> Inr s | _ \<Rightarrow> Inl TypeError)"

definition fetch_jwks :: "http_client \<Rightarrow> 'key jwt_library \<Rightarrow> json \<Rightarrow> err + 'key jwk list" where
  "fetch_jwks client jwt jwks_uri = (case url_of jwks_uri of
       Inl e \<Rightarrow> Inl e
     | Inr url \<Rightarrow> (case hc_get_json client url of
           Inl e \<Rightarrow> Inl e
         | Inr document \<Rightarrow> (case jl_key_set jwt document of
               None \<Rightarrow> Inl OidcProviderError
             | Some keys \<Rightarrow> Inr keys)))"

definition exchange_code ::
  "http_client \<Rightarrow> provider_metadata \<Rightarrow> string \<Rightarrow> string \<Rightarrow> string \<Rightarrow> string \<Rightarrow> string \<Rightarrow> err + string" where
  "exchange_code client metadata client_id client_secret redirect_uri code code_verifier =
     (case url_of (pm_token_endpoint metadata) of
        Inl e \<Rightarrow> Inl e
      | Inr url \<Rightarrow> (case hc_post_form client url
            [(''grant_type'', ''authorization_code''), (''code'', code), (''redirect_uri'', redirect_uri),
             (''client_id'', client_id), (''code_verifier'', code_verifier)] (client_id, client_secret) of
           Inl e \<Rightarrow> Inl e
         | Inr response \<Rightarrow> (case map_of response ''id_token'' of
               Some (JStr t) \<Rightarrow> if t = [] then Inl OidcTokenError else Inr t
             | _ \<Rightarrow> Inl OidcTokenError)))"

definition select_signing_key :: "'key jwk list \<Rightarrow> string option \<Rightarrow> 'key jwk option" where
  "select_signing_key keys kid = (case kid of
       Some k \<Rightarrow> find (\<lambda>key. jwk_kid key = Some k) keys
     | None \<Rightarrow> (case keys of [key] \<Rightarrow> Some key | _ \<Rightarrow> None))"

definition validate_id_token ::
  "'key jwt_library \<Rightarrow> string \<Rightarrow> 'key jwk list \<Rightarrow> string \<Rightarrow> string \<Rightarrow> string \<Rightarrow> err + claims" where
  "validate_id_token jwt id_token keys issuer audience nonce = (case jl_header jwt id_token of
       None \<Rightarrow> Inl OidcTokenError
     | Some header \<Rightarrow>
         (let kid = (case map_of header ''kid'' of Some (JStr k) \<Rightarrow> Some k | _ \<Rightarrow> None)
          in case select_signing_key keys kid of
              None \<Rightarrow> Inl OidcTokenError
            | Some key \<Rightarrow> (case jl_decode jwt id_token (jwk_key key) allowed_algorithms audience issuer
                  required_claims of
                None \<Rightarrow> Inl OidcTokenError
              | Some claims \<Rightarrow> (case map_of claims ''nonce'' of
                    Some (JStr n) \<Rightarrow> (case compare_digest n nonce of
                        Inl e \<Rightarrow> Inl e
                      | Inr same \<Rightarrow> if same then Inr claims else Inl OidcTokenError)
                  | _ \<Rightarrow> Inl OidcTokenError))))"

text \<open>\<open>sha256\<close> is on bytes here; the challenge is its unpadded URL-safe base64.\<close>

definition code_challenge :: "(string \<Rightarrow> bytes) \<Rightarrow> string \<Rightarrow> string" where
  "code_challenge sha256 code_verifier = unpadded (b64_encode (sha256 code_verifier))"

section \<open>Provisioning\<close>

definition derive_username :: "claims \<Rightarrow> string \<Rightarrow> string" where
  "derive_username claims subject =
     (case text_field claims ''preferred_username'' of
        Some name \<Rightarrow> name
      | None \<Rightarrow> (case text_field claims ''email'' of Some mail \<Rightarrow> mail | None \<Rightarrow> subject))"

definition provision_user ::
  "string \<Rightarrow> string \<Rightarrow> string \<Rightarrow> string \<Rightarrow> claims \<Rightarrow> stamp \<Rightarrow> user db_op" where
  "provision_user new_user new_identity issuer subject claims now =
     op_bind (asks (\<lambda>d. identity_get d issuer subject)) (\<lambda>identity. case identity of
         Some i \<Rightarrow> op_bind (asks (\<lambda>d. user_get d (ei_user_id i))) (\<lambda>u. case u of
             None \<Rightarrow> raise OidcProvisioningError
           | Some u \<Rightarrow> if usr_deleted_at u \<noteq> None then raise OidcProvisioningError
               else if \<not> usr_active u then raise OidcProvisioningError else ret u)
       | None \<Rightarrow> (let username = derive_username claims subject in
           op_bind (asks (\<lambda>d. user_get_by_username d username)) (\<lambda>existing. case existing of
               Some u \<Rightarrow>
                 if usr_deleted_at u \<noteq> None then raise OidcProvisioningError
                 else if \<not> usr_active u then raise OidcProvisioningError
                 else op_bind (asks (\<lambda>d. is_bootstrap_identity d (usr_id u))) (\<lambda>bootstrap.
                   if bootstrap then raise OidcProvisioningError
                   else op_then (identity_create new_identity (usr_id u) issuer subject now) (ret u))
             | None \<Rightarrow> op_bind (user_create new_user new_identity username
                   (case map_of claims ''name'' of Some (JStr n) \<Rightarrow> n | _ \<Rightarrow> []) False now) (\<lambda>u.
                 op_then (identity_create new_identity (usr_id u) issuer subject now) (ret u)))))"

section \<open>The two halves of a login\<close>

record oidc_settings =
  oi_issuer :: string
  oi_client_id :: string
  oi_client_secret :: "string option"
  oi_redirect_uri :: string
  oi_scopes :: "string list"
  oi_state_ttl :: int
  oi_token_ttl :: int

record login_start =
  ls_authorization_url :: string
  ls_state :: string
  ls_expires_at :: stamp

text \<open>\<open>urlencode\<close> is the parameter \<open>encode_query\<close> on the list of fields; \<open>shown\<close> is Python's
  \<open>str\<close> of an endpoint that is not a text.\<close>

definition start_login ::
  "http_client \<Rightarrow> (string \<Rightarrow> bytes) \<Rightarrow> ((string \<times> string) list \<Rightarrow> string) \<Rightarrow> (json \<Rightarrow> string)
   \<Rightarrow> oidc_settings \<Rightarrow> string \<Rightarrow> string \<Rightarrow> string \<Rightarrow> instant \<Rightarrow> login_start db_op" where
  "start_login client sha256 encode_query shown st state nonce verifier now = op_then
     (oidc_state_delete_expired (iso now))
     (op_bind (lift_result (discover client (oi_issuer st))) (\<lambda>metadata. op_then
       (oidc_state_create state nonce verifier (iso (now + oi_state_ttl st)) (iso now))
       (let endpoint = (case pm_authorization_endpoint metadata of JStr s \<Rightarrow> s | j \<Rightarrow> shown j) in
         ret \<lparr>ls_authorization_url = endpoint @ ''?'' @ encode_query
                [(''response_type'', ''code''), (''client_id'', oi_client_id st),
                 (''redirect_uri'', oi_redirect_uri st), (''scope'', join '' '' (oi_scopes st)),
                 (''state'', state), (''nonce'', nonce), (''code_challenge'', code_challenge sha256 verifier),
                 (''code_challenge_method'', ''S256'')],
              ls_state = state, ls_expires_at = iso (now + oi_state_ttl st)\<rparr>)))"

text \<open>Steps 1 to 3: everything that can reject a callback before any row of a user is written.\<close>

definition verified_claims ::
  "http_client \<Rightarrow> 'key jwt_library \<Rightarrow> oidc_settings \<Rightarrow> string \<Rightarrow> string \<Rightarrow> instant
   \<Rightarrow> (string \<times> claims) db_op" where
  "verified_claims client jwt st code state now =
     op_bind (oidc_state_take state (iso now)) (\<lambda>login_state. case login_state of
         None \<Rightarrow> raise OidcStateError
       | Some ls \<Rightarrow>
           op_bind (lift_result (discover client (oi_issuer st))) (\<lambda>metadata.
             case oi_client_secret st of
               None \<Rightarrow> raise AssertionError
             | Some secret \<Rightarrow>
                 op_bind (lift_result (exchange_code client metadata (oi_client_id st) secret
                     (oi_redirect_uri st) code (os_code_verifier ls))) (\<lambda>id_token.
                 op_bind (lift_result (fetch_jwks client jwt (pm_jwks_uri metadata))) (\<lambda>keys.
                 op_bind (lift_result (validate_id_token jwt id_token keys (oi_issuer st)
                     (oi_client_id st) (os_nonce ls))) (\<lambda>claims.
                   case text_field claims ''sub'' of
                     None \<Rightarrow> raise OidcTokenError
                   | Some subject \<Rightarrow> ret (subject, claims))))))"

definition complete_login ::
  "http_client \<Rightarrow> 'key jwt_library \<Rightarrow> oidc_settings \<Rightarrow> string \<Rightarrow> string \<Rightarrow> (string \<Rightarrow> string)
   \<Rightarrow> string \<Rightarrow> string \<Rightarrow> instant \<Rightarrow> user db_op" where
  "complete_login client jwt st new_user new_identity new_assignment code state now =
     op_bind (verified_claims client jwt st code state now) (\<lambda>(subject, claims).
     op_bind (provision_user new_user new_identity (oi_issuer st) subject claims (iso now)) (\<lambda>u. op_then
       (sync_mapped_roles new_assignment (usr_id u) (oi_issuer st) claims (iso now))
       (ret u)))"

text \<open>The callback route; \<open>None\<close> is the 503 answer of a disabled service.\<close>

definition oidc_token_label :: string where
  "oidc_token_label = ''oidc login''"

definition given :: "string option \<Rightarrow> string option" where
  "given v = (case v of Some s \<Rightarrow> if s = [] then None else Some s | None \<Rightarrow> None)"

definition oidc_callback ::
  "(http_client \<times> 'key jwt_library \<times> oidc_settings) option \<Rightarrow> (string \<Rightarrow> string) \<Rightarrow> string \<Rightarrow> string
   \<Rightarrow> string \<Rightarrow> string \<Rightarrow> string \<Rightarrow> (string \<Rightarrow> string) \<Rightarrow> string option \<Rightarrow> string option \<Rightarrow> string option
   \<Rightarrow> instant \<Rightarrow> instant \<Rightarrow> (credential \<times> string) option db_op" where
  "oidc_callback service sha256 salt credential_id token new_user new_identity new_assignment
       code state error now minted_at = (case service of
       None \<Rightarrow> ret None
     | Some (client, jwt, st) \<Rightarrow>
         if error \<noteq> None then raise OidcCallbackError
         else (case (given code, given state) of
             (Some code, Some state) \<Rightarrow>
               op_bind (complete_login client jwt st new_user new_identity new_assignment code state now)
                 (\<lambda>u. op_bind (issue_token sha256 salt credential_id token (usr_id u) oidc_token_label
                        (Some (oi_token_ttl st)) minted_at) (\<lambda>issued. ret (Some issued)))
           | _ \<Rightarrow> raise OidcCallbackError))"

section \<open>Nothing is written for a rejected callback\<close>

definition without_state :: "string \<Rightarrow> db \<Rightarrow> db" where
  "without_state state d = d\<lparr>t_oidc_login_states := delete_where (\<lambda>s. os_state s = state) (t_oidc_login_states d)\<rparr>"

lemma state_take_run:
  "oidc_state_take state now d = (Inr (case oidc_state_get d state of
       None \<Rightarrow> None | Some s \<Rightarrow> if os_expires_at s \<le> now then None else Some s), without_state state d)"
proof (cases "oidc_state_get d state")
  case None
  then have "delete_where (\<lambda>s. os_state s = state) (t_oidc_login_states d) = t_oidc_login_states d"
    by (auto simp: oidc_state_get_def find_None_iff delete_where_def filter_id_conv)
  with None show ?thesis by (simp add: oidc_state_take_def without_state_def op_defs)
qed (simp add: oidc_state_take_def without_state_def op_defs)

lemma op_bind_lift: "op_bind (lift_result r) f d = (case r of Inl e \<Rightarrow> (Inl e, d) | Inr x \<Rightarrow> f x d)"
  by (auto simp: op_bind_def lift_result_def raise_def ret_def split: sum.split)

lemma verified_claims_state: "snd (verified_claims client jwt st code state now d) = without_state state d"
  by (auto simp: verified_claims_def op_bind_ok [OF state_take_run] op_bind_lift raise_def ret_def
      split: option.split sum.split)

text \<open>What verified claims are.\<close>

definition proven ::
  "http_client \<Rightarrow> 'key jwt_library \<Rightarrow> oidc_settings \<Rightarrow> string \<Rightarrow> oidc_login_state \<Rightarrow> string \<Rightarrow> claims \<Rightarrow> bool" where
  "proven client jwt st code ls subject claims \<longleftrightarrow>
     (\<exists>metadata secret id_token keys key. discover client (oi_issuer st) = Inr metadata
        \<and> oi_client_secret st = Some secret
        \<and> exchange_code client metadata (oi_client_id st) secret (oi_redirect_uri st) code
            (os_code_verifier ls) = Inr id_token
        \<and> fetch_jwks client jwt (pm_jwks_uri metadata) = Inr keys \<and> key \<in> set keys
        \<and> jl_decode jwt id_token (jwk_key key) allowed_algorithms (oi_client_id st) (oi_issuer st)
            required_claims = Some claims)
     \<and> map_of claims ''nonce'' = Some (JStr (os_nonce ls)) \<and> text_field claims ''sub'' = Some subject"

lemma select_signing_key_in: "select_signing_key keys kid = Some key \<Longrightarrow> key \<in> set keys"
  by (auto simp: select_signing_key_def find_Some_iff split: option.splits list.splits)

lemma validate_ok:
  assumes "validate_id_token jwt id_token keys issuer audience nonce = Inr claims"
  shows "map_of claims ''nonce'' = Some (JStr nonce) \<and> (\<exists>key \<in> set keys.
     jl_decode jwt id_token (jwk_key key) allowed_algorithms audience issuer required_claims = Some claims)"
  using assms select_signing_key_in
  by (fastforce simp: validate_id_token_def Let_def compare_digest_def
      split: option.splits json.splits if_splits)

lemma verified_claims_ok:
  assumes "verified_claims client jwt st code state now d = (Inr (subject, claims), d')"
  shows "d' = without_state state d \<and> (\<exists>ls. oidc_state_get d state = Some ls \<and> iso now < os_expires_at ls
     \<and> proven client jwt st code ls subject claims)"
proof -
  obtain ls where ls: "oidc_state_get d state = Some ls" "iso now < os_expires_at ls"
    using assms by (auto simp: verified_claims_def op_bind_ok [OF state_take_run] raise_def
        split: option.splits if_splits)
  obtain metadata where m: "discover client (oi_issuer st) = Inr metadata"
    using assms ls by (auto simp: verified_claims_def op_bind_ok [OF state_take_run] op_bind_lift
        split: sum.splits)
  obtain secret where s: "oi_client_secret st = Some secret"
    using assms ls m by (auto simp: verified_claims_def op_bind_ok [OF state_take_run] op_bind_lift raise_def
        split: option.splits)
  note run = assms [unfolded verified_claims_def op_bind_ok [OF state_take_run] ls(1) option.case]
  obtain id_token where t: "exchange_code client metadata (oi_client_id st) secret (oi_redirect_uri st) code
            (os_code_verifier ls) = Inr id_token"
    using run ls m s by (auto simp: op_bind_lift split: sum.splits)
  obtain keys where k: "fetch_jwks client jwt (pm_jwks_uri metadata) = Inr keys"
    using run ls m s t by (auto simp: op_bind_lift split: sum.splits)
  obtain cl where c: "validate_id_token jwt id_token keys (oi_issuer st) (oi_client_id st) (os_nonce ls) = Inr cl"
    using run ls m s t k by (auto simp: op_bind_lift split: sum.splits)
  have "text_field cl ''sub'' = Some subject \<and> claims = cl \<and> d' = without_state state d"
    using run ls m s t k c by (auto simp: op_bind_lift ret_def raise_def split: option.splits)
  then show ?thesis
    using ls m s t k validate_ok [OF c] unfolding proven_def by blast
qed

text \<open>
  A callback that proves nothing writes nothing. Whatever the provider answers and whatever
  the token claims, the steps before provisioning leave every table as it was but for the
  login state, which is used up; when one of them rejects, the whole login fails with that very
  error in that very state, before any user, identity, role assignment or credential is touched;
  and an unknown or expired state is always such a rejection.
\<close>

theorem oidc_rejects_before_writing:
  shows "snd (verified_claims client jwt st code state now d) = without_state state d
     \<and> (\<forall>e. fst (verified_claims client jwt st code state now d) = Inl e \<longrightarrow>
          complete_login client jwt st nu ni na code state now d = (Inl e, without_state state d))
     \<and> ((\<forall>ls. oidc_state_get d state = Some ls \<longrightarrow> os_expires_at ls \<le> iso now) \<longrightarrow>
          fst (verified_claims client jwt st code state now d) = Inl OidcStateError)"
proof -
  have "complete_login client jwt st nu ni na code state now d = (Inl e, without_state state d)"
    if "fst (verified_claims client jwt st code state now d) = Inl e" for e
  proof -
    have "verified_claims client jwt st code state now d = (Inl e, without_state state d)"
      using that verified_claims_state [of client jwt st code state now d] by (simp add: prod_eq_iff)
    then show ?thesis by (simp add: complete_login_def op_bind_def)
  qed
  moreover have "fst (verified_claims client jwt st code state now d) = Inl OidcStateError"
    if "\<forall>ls. oidc_state_get d state = Some ls \<longrightarrow> os_expires_at ls \<le> iso now"
    using that by (auto simp: verified_claims_def op_bind_ok [OF state_take_run] raise_def split: option.split)
  ultimately show ?thesis using verified_claims_state by blast
qed

theorem oidc_rejects_before_writing_witness:
  "\<exists>client jwt st. complete_login client (jwt :: unit jwt_library) st ''u'' ''i'' (\<lambda>r. r) ''code'' ''s'' 0 org
     = (Inl OidcStateError, without_state ''s'' org)"
proof -
  let ?client = "\<lparr>hc_get_json = (\<lambda>_. Inl OidcProviderError), hc_post_form = (\<lambda>_ _ _. Inl OidcProviderError)\<rparr>"
  let ?jwt = "\<lparr>jl_key_set = (\<lambda>_. None), jl_header = (\<lambda>_. None), jl_decode = (\<lambda>_ _ _ _ _ _. None)\<rparr> :: unit jwt_library"
  let ?st = "\<lparr>oi_issuer = ''x'', oi_client_id = [], oi_client_secret = None, oi_redirect_uri = [],
     oi_scopes = [], oi_state_ttl = 0, oi_token_ttl = 0\<rparr>"
  have "\<forall>ls. oidc_state_get org ''s'' = Some ls \<longrightarrow> os_expires_at ls \<le> iso 0"
    by (simp add: oidc_state_get_def org_defs)
  with oidc_rejects_before_writing [of ?client ?jwt ?st "''code''" "''s''" 0 org "''u''" "''i''" "\<lambda>r. r"]
  show ?thesis by blast
qed

section \<open>What a completed login proves\<close>

lemma user_create_ok:
  assumes "user_create nid iid name dn False now d = (Inr u, d')"
  shows "usr_id u = nid \<and> usr_active u \<and> usr_deleted_at u = None \<and> d' = d\<lparr>t_users := t_users d @ [u]\<rparr>"
proof -
  have "nid \<notin> usr_id ` set (t_users d) \<and> name \<notin> usr_username ` set (t_users d)"
    using assms by (auto simp: user_create_def op_then_def op_bind_def on_integrity_def except_def
        transaction_def insert_user_def raise_def split: if_splits)
  then show ?thesis using assms user_create_bare [of nid d name iid dn now] by (auto simp: Let_def)
qed

lemma identity_create_ok:
  assumes "identity_create iid u prov sub now d = (Inr i, d')"
  shows "ei_user_id i = u \<and> identity_get d' prov sub = Some i
     \<and> d' = d\<lparr>t_external_identities := t_external_identities d @ [i]\<rparr> \<and> u \<in> usr_id ` set (t_users d)"
proof -
  have new: "iid \<notin> ei_id ` set (t_external_identities d)" "identity_get d prov sub = None"
    "u \<in> usr_id ` set (t_users d)"
    using assms by (auto simp: identity_create_def op_then_def op_bind_def on_integrity_def except_def
        transaction_def insert_identity_def raise_def identity_get_def find_None_iff split: if_splits)
  then have "(prov, sub) \<notin> (\<lambda>i. (ei_provider i, ei_subject i)) ` set (t_external_identities d)"
    by (auto simp: identity_get_def find_None_iff)
  then have "identity_get d' prov sub = Some i"
    using assms identity_create_fresh [OF new, of now]
      find_snoc_fresh [of "\<lambda>i. (ei_provider i, ei_subject i)" i "t_external_identities d"]
    by (auto simp: Let_def identity_get_def)
  then show ?thesis using assms identity_create_fresh [OF new, of now] new(3) by (auto simp: Let_def)
qed

lemma provision_ok:
  assumes "provision_user nu ni issuer subject claims now d = (Inr u, d')" and "db_ok d"
  shows "usr_active u \<and> usr_deleted_at u = None \<and> u \<in> set (t_users d')
     \<and> (\<exists>i. identity_get d' issuer subject = Some i \<and> ei_user_id i = usr_id u)
     \<and> t_oidc_login_states d' = t_oidc_login_states d \<and> t_role_assignments d' = t_role_assignments d
     \<and> t_role_mappings d' = t_role_mappings d \<and> t_roles d' = t_roles d \<and> t_credentials d' = t_credentials d
     \<and> (identity_get d issuer subject = None \<longrightarrow> u \<in> set (t_users d) \<longrightarrow> \<not> is_bootstrap_identity d (usr_id u))"
proof (cases "identity_get d issuer subject")
  case (Some i)
  then have "user_get d (ei_user_id i) = Some u \<and> d' = d \<and> usr_active u \<and> usr_deleted_at u = None"
    using assms(1) by (auto simp: provision_user_def op_bind_asks raise_def ret_def split: option.splits if_splits)
  then show ?thesis using Some by (auto simp: user_get_def find_Some_iff)
next
  case None
  show ?thesis
  proof (cases "user_get_by_username d (derive_username claims subject)")
    case (Some w)
    then have w: "usr_active w" "usr_deleted_at w = None" "\<not> is_bootstrap_identity d (usr_id w)"
      and rest: "op_then (identity_create ni (usr_id w) issuer subject now) (ret w) d = (Inr u, d')"
      using assms(1) None
      by (auto simp: provision_user_def op_bind_asks Let_def raise_def split: if_splits)
    have "w \<in> set (t_users d)" using Some by (auto simp: user_get_by_username_def find_Some_iff)
    note w = w this
    obtain i where "identity_create ni (usr_id w) issuer subject now d = (Inr i, d')" and "u = w"
      using rest by (elim op_then_okE) (auto simp: ret_def)
    then show ?thesis using identity_create_ok w by fastforce
  next
    case fresh: None
    let ?dn = "case map_of claims ''name'' of Some (JStr n) \<Rightarrow> n | _ \<Rightarrow> []"
    have "op_bind (user_create nu ni (derive_username claims subject) ?dn False now)
        (\<lambda>u. op_then (identity_create ni (usr_id u) issuer subject now) (ret u)) d = (Inr u, d')"
      using assms(1) unfolding provision_user_def op_bind_asks None option.case Let_def fresh .
    then obtain w d1 where c: "user_create nu ni (derive_username claims subject) ?dn False now d = (Inr w, d1)"
      and rest: "op_then (identity_create ni (usr_id w) issuer subject now) (ret w) d1 = (Inr u, d')"
      by (rule op_bind_okE)
    from rest have "w = u" by (elim op_then_okE) (simp add: ret_def)
    note c = c [unfolded this] and rest = rest [unfolded this]
    note u = user_create_ok [OF c]
    obtain i where i: "identity_create ni (usr_id u) issuer subject now d1 = (Inr i, d')"
      using rest by (elim op_then_okE) (auto simp: ret_def)
    have "usr_id u \<notin> usr_id ` set (t_users d)"
      using u c by (auto simp: user_create_def op_then_def op_bind_def on_integrity_def except_def
        transaction_def insert_user_def raise_def split: if_splits)
    then have "u \<notin> set (t_users d)" by auto
    then show ?thesis using identity_create_ok [OF i] u by auto
  qed
qed

lemma sync_keeps_states:
  "keeps (\<lambda>e. t_oidc_login_states e = L \<and> t_users e = U \<and> t_external_identities e = E)
     (sync_mapped_roles new_id u prov claims now)"
proof -
  let ?P = "\<lambda>e. t_oidc_login_states e = L \<and> t_users e = U \<and> t_external_identities e = E"
  have "keeps ?P (insert_assignment a)" for a
    by (auto simp: keeps_def insert_assignment_def op_defs)
  then have "keeps ?P (assign aid st sid rid src now)" for aid st sid rid src
    unfolding assign_def by (auto intro!: keeps_intros split: option.split)
  moreover have "keeps ?P (unassign st sid rid src)" for st sid rid src
    by (auto simp: keeps_def unassign_def op_defs)
  ultimately show ?thesis unfolding sync_mapped_roles_def by (auto intro!: keeps_intros)
qed

text \<open>
  C14. A completed login is a proof, used once. When the exchange returns a user from a consistent
  database, a login state of that name was stored and not expired; the ID token came from the
  discovered provider's token endpoint, decoded under a key of the provider's own key set with
  only the asymmetric algorithms allowed and every required claim present, and carries that
  state's nonce; the user is active and undeleted and is now linked to the token's subject;
  a pre-existing account it was linked to by name is not the bootstrap identity; and presenting
  the same state again is refused and changes nothing.
\<close>

theorem oidc_login_sound:
  assumes "complete_login client jwt st nu ni na code state now d = (Inr u, d')" and "db_ok d"
  shows "\<exists>ls subject claims. oidc_state_get d state = Some ls \<and> iso now < os_expires_at ls
     \<and> proven client jwt st code ls subject claims
     \<and> usr_active u \<and> usr_deleted_at u = None
     \<and> (\<exists>i. identity_get d' (oi_issuer st) subject = Some i \<and> ei_user_id i = usr_id u)
     \<and> (identity_get d (oi_issuer st) subject = None \<and> u \<in> set (t_users d)
          \<longrightarrow> \<not> is_bootstrap_identity d (usr_id u))
     \<and> (\<forall>code2 later nu2 ni2 na2. complete_login client jwt st nu2 ni2 na2 code2 state later d'
          = (Inl OidcStateError, d'))"
proof -
  obtain subject claims d1 where v: "verified_claims client jwt st code state now d = (Inr (subject, claims), d1)"
    and rest: "op_bind (provision_user nu ni (oi_issuer st) subject claims (iso now)) (\<lambda>u. op_then
       (sync_mapped_roles na (usr_id u) (oi_issuer st) claims (iso now)) (ret u)) d1 = (Inr u, d')"
    using assms(1) unfolding complete_login_def by (elim op_bind_okE) auto
  obtain w d2 where p: "provision_user nu ni (oi_issuer st) subject claims (iso now) d1 = (Inr w, d2)"
    and rest2: "op_then (sync_mapped_roles na (usr_id w) (oi_issuer st) claims (iso now)) (ret w) d2 = (Inr u, d')"
    using rest by (rule op_bind_okE)
  obtain x where sy: "sync_mapped_roles na (usr_id w) (oi_issuer st) claims (iso now) d2 = (Inr x, d')"
    and "w = u" using rest2 by (elim op_then_okE) (auto simp: ret_def)
  note vc = verified_claims_ok [OF v]
  have d1: "d1 = without_state state d" using vc by simp
  have "keeps db_ok (oidc_state_take state (iso now))" by (intro keeps_intros)
  then have ok1: "db_ok d1" using keepsD [of db_ok _ d] assms(2) state_take_run [of state "iso now" d] d1
    by (metis snd_conv)
  note pr = provision_ok [OF p ok1, unfolded \<open>w = u\<close>]
  have same: "t_oidc_login_states d' = t_oidc_login_states d2" "t_external_identities d' = t_external_identities d2"
    using sync_keeps_states [of "t_oidc_login_states d2" "t_users d2" "t_external_identities d2"
        na "usr_id w" "oi_issuer st" claims "iso now"] sy by (auto simp: keeps_def dest!: spec [of _ d2])
  have gone: "oidc_state_get d' state = None"
    using same pr d1 by (simp add: oidc_state_get_def without_state_def find_None_iff)
  then have "delete_where (\<lambda>s. os_state s = state) (t_oidc_login_states d') = t_oidc_login_states d'"
    by (auto simp: oidc_state_get_def find_None_iff delete_where_def filter_id_conv)
  then have id: "without_state state d' = d'" by (simp add: without_state_def)
  have replay: "complete_login client jwt st nu2 ni2 na2 code2 state later d' = (Inl OidcStateError, d')"
    for nu2 ni2 na2 code2 later
  proof -
    have "verified_claims client jwt st code2 state later d' = (Inl OidcStateError, d')"
      by (simp add: verified_claims_def op_bind_ok [OF state_take_run] gone id raise_def)
    then show ?thesis by (simp add: complete_login_def op_bind_def)
  qed
  have link: "\<exists>i. identity_get d' (oi_issuer st) subject = Some i \<and> ei_user_id i = usr_id u"
    using pr same by (simp add: identity_get_def)
  have "identity_get d1 = identity_get d" "t_users d1 = t_users d"
    "is_bootstrap_identity d1 = is_bootstrap_identity d"
    by (simp_all add: d1 without_state_def identity_get_def is_bootstrap_identity_def fun_eq_iff)
  then have boot: "identity_get d (oi_issuer st) subject = None \<and> u \<in> set (t_users d)
      \<longrightarrow> \<not> is_bootstrap_identity d (usr_id u)"
    using pr by simp
  have act: "usr_active u" "usr_deleted_at u = None" using pr by simp_all
  show ?thesis using vc act link boot replay by blast
qed

definition sample_idp :: http_client where
  "sample_idp = \<lparr>hc_get_json = (\<lambda>url. if url = ''k'' then Inr [] else Inr [(''issuer'', JStr ''i''),
       (''authorization_endpoint'', JStr ''a''), (''token_endpoint'', JStr ''t''), (''jwks_uri'', JStr ''k'')]),
     hc_post_form = (\<lambda>_ _ _. Inr [(''id_token'', JStr ''tok'')])\<rparr>"

definition sample_jwt :: "unit jwt_library" where
  "sample_jwt = \<lparr>jl_key_set = (\<lambda>_. Some [\<lparr>jwk_kid = None, jwk_key = ()\<rparr>]), jl_header = (\<lambda>_. Some []),
     jl_decode = (\<lambda>_ _ _ _ _ _. Some [(''nonce'', JStr ''n''), (''sub'', JStr ''s''),
        (''preferred_username'', JStr ''ann'')])\<rparr>"

definition sample_oidc :: oidc_settings where
  "sample_oidc = \<lparr>oi_issuer = ''i'', oi_client_id = ''c'', oi_client_secret = Some ''x'',
     oi_redirect_uri = ''r'', oi_scopes = [''openid''], oi_state_ttl = 10, oi_token_ttl = 10\<rparr>"

definition waiting_org :: db where
  "waiting_org = org\<lparr>t_oidc_login_states := [\<lparr>os_state = ''st'', os_nonce = ''n'', os_code_verifier = ''v'',
     os_created_at = 0, os_expires_at = 9\<rparr>]\<rparr>"

lemma sample_claims:
  "verified_claims sample_idp sample_jwt sample_oidc ''code'' ''st'' 0 waiting_org
     = (Inr (''s'', [(''nonce'', JStr ''n''), (''sub'', JStr ''s''), (''preferred_username'', JStr ''ann'')]),
        without_state ''st'' waiting_org)"
proof -
  have g: "oidc_state_get waiting_org ''st'' = Some \<lparr>os_state = ''st'', os_nonce = ''n'',
      os_code_verifier = ''v'', os_created_at = 0, os_expires_at = 9\<rparr>"
    by (simp add: oidc_state_get_def waiting_org_def)
  have d: "discover sample_idp (oi_issuer sample_oidc) = Inr \<lparr>pm_issuer = ''i'',
      pm_authorization_endpoint = JStr ''a'', pm_token_endpoint = JStr ''t'', pm_jwks_uri = JStr ''k''\<rparr>"
    by (simp add: discover_def sample_idp_def sample_oidc_def rstrip_slash_def
        required_discovery_fields_def truthy_def)
  show ?thesis
    by (simp add: verified_claims_def op_bind_ok [OF state_take_run] g op_bind_lift d)
      (simp add: sample_oidc_def sample_idp_def sample_jwt_def exchange_code_def url_of_def op_bind_lift
        fetch_jwks_def validate_id_token_def select_signing_key_def compare_digest_def is_ascii_def
        text_field_def ret_def iso_def)
qed

theorem oidc_login_sound_witness:
  "\<exists>u d'. complete_login sample_idp sample_jwt sample_oidc ''u'' ''i'' (\<lambda>r. r) ''code'' ''st'' 0 waiting_org = (Inr u, d')
     \<and> usr_active u \<and> identity_get d' ''i'' ''s'' \<noteq> None
     \<and> complete_login sample_idp sample_jwt sample_oidc ''u'' ''i'' (\<lambda>r. r) ''code'' ''st'' 0 d' = (Inl OidcStateError, d')"
proof -
  let ?claims = "[(''nonce'', JStr ''n''), (''sub'', JStr ''s''), (''preferred_username'', JStr ''ann'')]"
  obtain d2 where p: "provision_user ''u'' ''i'' ''i'' ''s'' ?claims (iso 0) (without_state ''st'' waiting_org)
      = (Inr (mk_user ''ann''), d2)" and m: "t_role_mappings d2 = []"
      and a: "t_role_assignments d2 = t_role_assignments org"
    by (simp add: provision_user_def op_bind_asks identity_get_def without_state_def waiting_org_def org_defs
        derive_username_def text_field_def user_get_by_username_def is_bootstrap_identity_def
        identity_create_def on_integrity_def insert_identity_def op_defs Let_def iso_def)
  have "sync_mapped_roles (\<lambda>r. r) ''ann'' ''i'' ?claims (iso 0) d2 = (Inr (), d2)"
    using m a by (simp add: sync_mapped_roles_def op_bind_asks desired_roles_def mapping_list_for_provider_def
        current_roles_def org_defs op_run ret_def)
  then have "complete_login sample_idp sample_jwt sample_oidc ''u'' ''i'' (\<lambda>r. r) ''code'' ''st'' 0 waiting_org
      = (Inr (mk_user ''ann''), d2)"
    unfolding complete_login_def op_bind_ok [of "verified_claims _ _ _ _ _ _", OF sample_claims] prod.case
    using p by (simp add: sample_oidc_def op_bind_ok op_then_ok mk_user_def ret_def)
  moreover have "db_ok waiting_org"
    using org_ok by (simp add: db_ok_def ok_defs waiting_org_def unique_by_def)
  ultimately obtain subject where "identity_get d2 (oi_issuer sample_oidc) subject \<noteq> None"
    and "usr_active (mk_user ''ann'')" and "text_field ?claims ''sub'' = Some subject"
    and "complete_login sample_idp sample_jwt sample_oidc ''u'' ''i'' (\<lambda>r. r) ''code'' ''st'' 0 d2 = (Inl OidcStateError, d2)"
    using oidc_login_sound [of sample_idp sample_jwt sample_oidc "''u''" "''i''" "\<lambda>r. r" "''code''" "''st''" 0 waiting_org
        "mk_user ''ann''" d2] unfolding proven_def
    by (fastforce simp: sample_jwt_def)
  then show ?thesis
    using \<open>complete_login _ _ _ _ _ _ _ _ _ waiting_org = _\<close>
    by (auto simp: text_field_def sample_oidc_def)
qed

end
