(* ===== verification/Pytext.thy ===== *)
theory Pytext
  imports Prelude
begin

text \<open>
  The methods of Python's \<open>str\<close> the Heart and the executor use, over text whose code points
  are below 256 (the range of \<open>char\<close>): white space, \<open>strip\<close>, \<open>lower\<close>, \<open>rsplit(sep, 1)[-1]\<close>
  and the first word of \<open>split\<close>.
\<close>

definition is_space :: "char \<Rightarrow> bool" where
  "is_space c = (let n = (of_char c :: nat) in
     9 \<le> n \<and> n \<le> 13 \<or> 28 \<le> n \<and> n \<le> 32 \<or> n = 133 \<or> n = 160)"

definition strip_by :: "(char \<Rightarrow> bool) \<Rightarrow> string \<Rightarrow> string" where
  "strip_by p s = rev (dropWhile p (rev (dropWhile p s)))"

definition lower_char :: "char \<Rightarrow> char" where
  "lower_char c = (let n = (of_char c :: nat) in
     if 65 \<le> n \<and> n \<le> 90 \<or> 192 \<le> n \<and> n \<le> 222 \<and> n \<noteq> 215 then char_of (n + 32) else c)"

definition lower :: "string \<Rightarrow> string" where
  "lower s = map lower_char s"

fun after_last :: "string \<Rightarrow> string \<Rightarrow> string" where
  "after_last sep [] = []"
| "after_last sep (c # s) =
     (if contains sep s then after_last sep s
      else if starts_with (c # s) sep then drop (length sep) (c # s)
      else c # s)"

definition first_word :: "string \<Rightarrow> string" where
  "first_word s = takeWhile (\<lambda>c. \<not> is_space c) s"

section \<open>What they return\<close>

lemma strip_by_parts:
  obtains us vs where "s = us @ strip_by p s @ vs" "list_all p us" "list_all p vs"
proof -
  let ?m = "dropWhile p s"
  have "s = takeWhile p s @ ?m" by simp
  moreover have "?m = strip_by p s @ rev (takeWhile p (rev ?m))"
    unfolding strip_by_def by (metis rev_append rev_rev_ident takeWhile_dropWhile_id)
  ultimately have "s = takeWhile p s @ strip_by p s @ rev (takeWhile p (rev ?m))" by metis
  then show ?thesis
    by (rule that) (auto simp: list_all_iff dest: set_takeWhileD)
qed

lemma strip_by_unique:
  assumes "list_all p us" "list_all p vs" "w = [] \<or> \<not> p (hd w)" "w = [] \<or> \<not> p (last w)"
  shows "strip_by p (us @ w @ vs) = w"
proof (cases "w = []")
  case True
  with assms show ?thesis by (auto simp: strip_by_def list_all_iff dropWhile_append dest: set_dropWhileD)
next
  case False
  have "dropWhile p (us @ w @ vs) = w @ vs"
    using assms(1,3) False by (cases w) (simp_all add: list_all_iff dropWhile_append2)
  moreover have "dropWhile p (rev vs @ rev w) = dropWhile p (rev w)"
    by (rule dropWhile_append2) (use assms(2) in \<open>auto simp: list_all_iff\<close>)
  moreover have "dropWhile p (rev w) = rev w"
    using assms(4) False by (cases w rule: rev_cases) auto
  ultimately show ?thesis by (simp add: strip_by_def)
qed

lemma strip_by_ends:
  "strip_by p s = [] \<or> \<not> p (hd (strip_by p s)) \<and> \<not> p (last (strip_by p s))"
proof -
  obtain us vs where s: "s = us @ strip_by p s @ vs" and v: "list_all p us" "list_all p vs"
    by (rule strip_by_parts)
  have last_ok: "\<not> p (last (strip_by p s))" if "strip_by p s \<noteq> []"
    using that unfolding strip_by_def by (simp add: last_rev hd_dropWhile)
  moreover have "\<not> p (hd (strip_by p s))" if "strip_by p s \<noteq> []"
  proof -
    have "dropWhile p s = strip_by p s @ rev (takeWhile p (rev (dropWhile p s)))"
      unfolding strip_by_def by (metis rev_append rev_rev_ident takeWhile_dropWhile_id)
    with that have "hd (dropWhile p s) = hd (strip_by p s)" "dropWhile p s \<noteq> []"
      by (metis hd_append2, metis append_is_Nil_conv)
    then show ?thesis by (metis hd_dropWhile)
  qed
  ultimately show ?thesis by blast
qed

lemma after_last_absent: "\<not> contains sep s \<Longrightarrow> after_last sep s = s"
  by (cases s) auto

lemma after_last_append:
  assumes "sep \<noteq> []" and "\<not> contains sep t"
    and "\<And>us vs. sep @ t = us @ sep @ vs \<Longrightarrow> us = []"
  shows "after_last sep (x @ sep @ t) = t"
proof (induction x)
  case Nil
  obtain c r where sep: "sep = c # r" using assms(1) by (cases sep) auto
  have "\<not> contains sep (r @ t)"
  proof
    assume "contains sep (r @ t)"
    then obtain us vs where "r @ t = us @ sep @ vs" by (auto simp: contains_iff)
    then have "sep @ t = (c # us) @ sep @ vs" using sep by simp
    then show False using assms(3) by blast
  qed
  moreover have "starts_with (c # r @ t) sep" using sep by (simp add: starts_with_iff)
  ultimately show ?case using sep by simp
next
  case (Cons a x)
  have "contains sep (x @ sep @ t)" by (auto simp: contains_iff)
  then show ?case using Cons by simp
qed

end
