(* ===== verification/Tick.thy ===== *)
theory Tick
  imports Complex_Main Pytext
begin

text \<open>
  One tick of the Heart, its pure parts: the decision read out of the model's reply
  (\<open>heart/tick/decision.py\<close>), the snapshot and the prompt that is trimmed to the token
  budget (\<open>heart/tick/snapshot.py\<close>), and the slot arithmetic of the scheduler
  (\<open>heart/tick/loop.py\<close>, \<open>_next_tick_number\<close>). The tokenizer and the sources are parameters;
  seconds are rational numbers.
\<close>

section \<open>Decisions\<close>

datatype decision = IDLE | ACT | ESCALATE

fun decision_value :: "decision \<Rightarrow> string" where
  "decision_value IDLE = ''idle''"
| "decision_value ACT = ''act''"
| "decision_value ESCALATE = ''escalate''"

definition decision_of :: "string \<Rightarrow> decision option" where
  "decision_of w = find (\<lambda>d. decision_value d = w) [IDLE, ACT, ESCALATE]"

definition think_mark :: string where
  "think_mark = ''</think>''"

text \<open>\<open>.strip(".,:;!?\"'")\<close>\<close>

definition is_mark :: "char \<Rightarrow> bool" where
  "is_mark c \<longleftrightarrow> c \<in> set (''.,:;!?'' @ [CHR 0x22, CHR 0x27])"

definition try_parse_decision :: "string \<Rightarrow> decision option" where
  "try_parse_decision raw =
     (let after_thinking = after_last think_mark raw;
          normalized = lower (strip_by is_space after_thinking);
          word = strip_by is_mark (first_word normalized)
      in decision_of word)"

definition parse_decision :: "string \<Rightarrow> decision" where
  "parse_decision raw = (case try_parse_decision raw of None \<Rightarrow> IDLE | Some d \<Rightarrow> d)"

subsection \<open>Which replies are read as which decision\<close>

lemma decision_of_iff: "decision_of w = Some d \<longleftrightarrow> w = decision_value d"
  by (cases d) (auto simp: decision_of_def)

lemma lower_char_cases:
  obtains "lower_char c = c" | "\<not> is_space c" "\<not> is_mark c" "\<not> is_space (lower_char c)" "\<not> is_mark (lower_char c)"
proof (cases "lower_char c = c")
  case False
  let ?n = "of_char c :: nat"
  have up: "65 \<le> ?n \<and> ?n \<le> 90 \<or> 192 \<le> ?n \<and> ?n \<le> 222"
    using False by (auto simp: lower_char_def Let_def split: if_splits)
  have low: "of_char (lower_char c) = ?n + 32"
    using False up by (auto simp: lower_char_def Let_def split: if_splits)
  have marks: "(of_char d :: nat) \<in> {46, 44, 58, 59, 33, 63, 34, 39}" if "is_mark d" for d
    using that by (auto simp: is_mark_def)
  show ?thesis
  proof (rule that(2))
    show "\<not> is_space c" "\<not> is_space (lower_char c)"
      using up unfolding is_space_def Let_def low by presburger+
    show "\<not> is_mark c" "\<not> is_mark (lower_char c)"
      using marks [of c] marks [of "lower_char c"] up low by auto
  qed
qed (rule that(1))

lemma lower_char_classes [simp]:
  "is_space (lower_char c) = is_space c"
  "is_mark (lower_char c) = is_mark c"
  by (rule lower_char_cases [of c]; simp)+

lemma lower_classes [simp]:
  "list_all is_space (lower s) = list_all is_space s"
  "list_all is_mark (lower s) = list_all is_mark s"
  by (simp_all add: lower_def list.pred_map comp_def)

lemma mark_no_space: "is_mark c \<Longrightarrow> \<not> is_space c"
  by (auto simp: is_mark_def is_space_def)

lemma decision_letters:
  "decision_value d \<noteq> []" "list_all (\<lambda>c. \<not> is_space c \<and> \<not> is_mark c) (decision_value d)"
  by (cases d; simp add: is_space_def is_mark_def)+

lemma first_word_parts:
  obtains r where "s = first_word s @ r" "r = [] \<or> is_space (hd r)"
  unfolding first_word_def by (metis hd_dropWhile takeWhile_dropWhile_id)

lemma first_word_unique:
  assumes "list_all (\<lambda>c. \<not> is_space c) w" "r = [] \<or> is_space (hd r)"
  shows "first_word (w @ r) = w"
  using assms by (cases r) (auto simp: first_word_def list_all_iff takeWhile_append2)

text \<open>\<open>opens_with a word\<close>: the answer \<open>a\<close> opens with the word, up to case and punctuation.\<close>

definition opens_with :: "string \<Rightarrow> string \<Rightarrow> bool" where
  "opens_with a word \<longleftrightarrow> (\<exists>ws ps w qs rest. a = ws @ ps @ w @ qs @ rest \<and> list_all is_space ws
     \<and> list_all is_mark ps \<and> list_all is_mark qs \<and> lower w = word
     \<and> (rest = [] \<or> is_space (hd rest)))"

definition says :: "string \<Rightarrow> decision \<Rightarrow> bool" where
  "says a d \<longleftrightarrow> opens_with a (decision_value d)"

text \<open>The first word of an answer, without its punctuation.\<close>

definition answer_word :: "string \<Rightarrow> string" where
  "answer_word a = strip_by is_mark (first_word (lower (strip_by is_space a)))"

lemma answer_word_opens:
  assumes "answer_word a = word"
  shows "opens_with a word"
proof -
  obtain us vs where a: "a = us @ strip_by is_space a @ vs"
    and sp: "list_all is_space us" "list_all is_space vs" by (rule strip_by_parts)
  let ?m = "strip_by is_space a"
  obtain r where r: "lower ?m = first_word (lower ?m) @ r" "r = [] \<or> is_space (hd r)"
    by (rule first_word_parts)
  obtain ps qs where f: "first_word (lower ?m) = ps @ word @ qs"
    and mk: "list_all is_mark ps" "list_all is_mark qs"
    by (rule strip_by_parts [of "first_word (lower ?m)" is_mark]) (auto simp flip: assms answer_word_def)
  have "map lower_char ?m = ps @ word @ qs @ r" using r(1) f by (simp add: lower_def)
  then obtain p m1 where p: "?m = p @ m1" "map lower_char p = ps"
    and m1: "map lower_char m1 = word @ qs @ r" by (metis map_eq_append_conv)
  from m1 obtain w m2 where w: "m1 = w @ m2" "map lower_char w = word"
    and m2: "map lower_char m2 = qs @ r" by (metis map_eq_append_conv)
  from m2 obtain q r' where q: "m2 = q @ r'" "map lower_char q = qs" "map lower_char r' = r"
    by (metis map_eq_append_conv)
  have m: "?m = p @ w @ q @ r'" using p w q by simp
  note parts = p(2) w(2) q(2,3)
  have "r' @ vs = [] \<or> is_space (hd (r' @ vs))"
    using r(2) sp(2) parts(4) by (cases r'; cases vs) auto
  moreover have "list_all is_mark p" "list_all is_mark q"
    using mk lower_classes(2) [of p] lower_classes(2) [of q] parts by (simp_all add: lower_def)
  ultimately show ?thesis
    unfolding opens_with_def using a m sp(1) parts(2)
    by (intro exI [of _ us] exI [of _ p] exI [of _ w] exI [of _ q] exI [of _ "r' @ vs"])
      (simp add: lower_def)
qed

lemma opens_answer_word:
  assumes "opens_with a word" and word: "word \<noteq> []" "list_all (\<lambda>c. \<not> is_space c \<and> \<not> is_mark c) word"
  shows "answer_word a = word"
proof -
  obtain ws ps w qs rest where a: "a = ws @ ps @ w @ qs @ rest" and sp: "list_all is_space ws"
    and mk: "list_all is_mark ps" "list_all is_mark qs" and w: "lower w = word"
    and rest: "rest = [] \<or> is_space (hd rest)"
    using assms(1) unfolding opens_with_def by blast
  obtain rt tr where cut: "rest = rt @ tr" "list_all is_space tr" "rt = [] \<or> \<not> is_space (last rt)"
    and rt: "rt = [] \<or> is_space (hd rt)"
  proof -
    let ?rt = "rev (dropWhile is_space (rev rest))" and ?tr = "rev (takeWhile is_space (rev rest))"
    have "rest = ?rt @ ?tr" by (metis rev_append rev_rev_ident takeWhile_dropWhile_id)
    moreover have "list_all is_space ?tr" by (auto simp: list_all_iff dest: set_takeWhileD)
    moreover have "?rt = [] \<or> \<not> is_space (last ?rt)"
      by (metis hd_dropWhile last_rev rev_is_Nil_conv)
    moreover have "?rt = [] \<or> is_space (hd ?rt)" using rest calculation(1) by (metis append_is_Nil_conv hd_append2)
    ultimately show ?thesis by (rule that)
  qed
  have letters: "w \<noteq> []" "list_all (\<lambda>c. \<not> is_space c \<and> \<not> is_mark c) w"
    using word w [symmetric] by (auto simp: lower_def list_all_iff)
  then have ends: "\<not> is_mark (hd w)" "\<not> is_mark (last w)" by (auto simp: list_all_iff)
  have solid: "list_all (\<lambda>c. \<not> is_space c) (ps @ w @ qs)"
    using mk letters(2) mark_no_space by (auto simp: list_all_iff)
  have strip: "strip_by is_space a = ps @ w @ qs @ rt"
  proof -
    let ?k = "ps @ w @ qs @ rt"
    have "?k \<noteq> []" using letters(1) by simp
    moreover have "\<not> is_space (hd ?k)"
      using solid letters(1) by (cases ps; cases w) auto
    moreover have "\<not> is_space (last ?k)"
    proof (cases "rt = []")
      case True
      then have "last ?k \<in> set (ps @ w @ qs)" using letters(1)
        by (metis append.right_neutral append_is_Nil_conv last_in_set)
      with solid show ?thesis by (auto simp: list_all_iff)
    qed (use cut(3) in simp)
    ultimately have "strip_by is_space (ws @ ?k @ tr) = ?k"
      using sp cut(2) by (intro strip_by_unique) auto
    with a cut(1) show ?thesis by simp
  qed
  have "first_word (lower (ps @ w @ qs) @ lower rt) = lower (ps @ w @ qs)"
    using solid rt by (intro first_word_unique) (auto simp: lower_def list_all_iff hd_map)
  then have "first_word (lower (strip_by is_space a)) = lower ps @ word @ lower qs"
    using strip w by (simp add: lower_def)
  moreover have "strip_by is_mark (lower ps @ word @ lower qs) = word"
    using mk word
    by (intro strip_by_unique) (auto simp: list_all_iff lower_def)
  ultimately show ?thesis by (simp add: answer_word_def)
qed

lemma try_parse_iff: "try_parse_decision raw = Some d \<longleftrightarrow> says (after_last think_mark raw) d"
  using answer_word_opens [of "after_last think_mark raw"] opens_answer_word [OF _ decision_letters, of "after_last think_mark raw" d]
  by (auto simp: try_parse_decision_def decision_of_iff says_def answer_word_def)

lemma mark_overlap: "think_mark @ t = us @ think_mark @ vs \<Longrightarrow> \<not> contains think_mark t \<Longrightarrow> us = []"
proof -
  assume e: "think_mark @ t = us @ think_mark @ vs" and t: "\<not> contains think_mark t"
  show "us = []"
  proof (rule ccontr)
    assume "us \<noteq> []"
    show False
    proof (cases "length think_mark \<le> length us")
      case True
      then have "t = drop (length think_mark) us @ think_mark @ vs"
        using arg_cong [OF e, of "drop (length think_mark)"] by simp
      with t show False by (auto simp: contains_iff)
    next
      case False
      then have "0 < length us" "length us < 8" using \<open>us \<noteq> []\<close>
        by (simp_all add: think_mark_def)
      then have "length us = 1 \<or> length us = 2 \<or> length us = 3 \<or> length us = 4 \<or> length us = 5
        \<or> length us = 6 \<or> length us = 7" by linarith
      moreover have "(think_mark @ t) ! length us = CHR ''<''"
        using e by (simp add: nth_append think_mark_def)
      ultimately show False by (auto simp: think_mark_def)
    qed
  qed
qed

lemma parse_decision_facts:
  "d \<noteq> IDLE \<Longrightarrow> parse_decision raw = d \<longleftrightarrow> says (after_last think_mark raw) d"
  "parse_decision raw = IDLE \<longleftrightarrow> (\<forall>d. says (after_last think_mark raw) d \<longrightarrow> d = IDLE)"
  "\<not> contains think_mark answer \<Longrightarrow> after_last think_mark answer = answer
     \<and> after_last think_mark (reasoning @ think_mark @ answer) = answer"
proof -
  show iff: "parse_decision raw = d \<longleftrightarrow> says (after_last think_mark raw) d" if "d \<noteq> IDLE" for d
    using that by (auto simp: parse_decision_def simp flip: try_parse_iff split: option.splits)
  show "parse_decision raw = IDLE \<longleftrightarrow> (\<forall>d. says (after_last think_mark raw) d \<longrightarrow> d = IDLE)"
    using iff by (metis decision.exhaust decision.distinct(1,3))
  show "after_last think_mark answer = answer
     \<and> after_last think_mark (reasoning @ think_mark @ answer) = answer"
    if "\<not> contains think_mark answer"
    using that mark_overlap [of answer]
    by (intro conjI after_last_absent after_last_append) (auto simp: think_mark_def)
qed

text \<open>
  C15. The reply is read conservatively: \<open>act\<close> (or \<open>escalate\<close>) is decided exactly when the
  answer opens with that word, up to case, white space before it and punctuation around it,
  and every other reply, the empty one included, is \<open>idle\<close>. The answer is what follows the
  last closing think mark, the whole reply when there is none, so no word of the reasoning
  trace is ever read.
\<close>

theorem parse_decision_exact:
  "(d \<noteq> IDLE \<longrightarrow> (parse_decision raw = d \<longleftrightarrow> says (after_last think_mark raw) d))
   \<and> (parse_decision raw = IDLE \<longleftrightarrow> (\<forall>d. says (after_last think_mark raw) d \<longrightarrow> d = IDLE))
   \<and> (\<not> contains think_mark answer \<longrightarrow> after_last think_mark answer = answer
        \<and> after_last think_mark (reasoning @ think_mark @ answer) = answer)"
  using parse_decision_facts(1) parse_decision_facts(2) parse_decision_facts(3) by blast

lemma parse_decision_exact_witness:
  "parse_decision (''act now? hmm'' @ think_mark @ '' Escalate. The disk is full'') = ESCALATE
   \<and> parse_decision ''perhaps act'' = IDLE"
proof
  have "\<not> contains think_mark '' Escalate. The disk is full''"
    by (simp add: think_mark_def starts_with_def)
  then have a: "after_last think_mark (''act now? hmm'' @ think_mark @ '' Escalate. The disk is full'')
      = '' Escalate. The disk is full''"
    using parse_decision_exact [THEN conjunct2, THEN conjunct2] by blast
  have "says '' Escalate. The disk is full'' ESCALATE"
    unfolding says_def opens_with_def
    by (rule exI [of _ "'' ''"], rule exI [of _ "[]"], rule exI [of _ "''Escalate''"],
        rule exI [of _ "''.''"], rule exI [of _ "'' The disk is full''"])
      (simp add: is_space_def is_mark_def lower_def lower_char_def char_of_def bit_0)
  then show "parse_decision (''act now? hmm'' @ think_mark @ '' Escalate. The disk is full'') = ESCALATE"
    using parse_decision_exact [of ESCALATE "''act now? hmm'' @ think_mark @ '' Escalate. The disk is full''"]
    by (simp only: a decision.distinct not_False_eq_True simp_thms)
  show "parse_decision ''perhaps act'' = IDLE"
    by (simp add: parse_decision_def try_parse_decision_def think_mark_def starts_with_def Let_def
        strip_by_def first_word_def is_space_def is_mark_def lower_def lower_char_def decision_of_def)
qed

section \<open>The snapshot\<close>

record snapshot_item =
  si_source :: string
  si_text :: string
  si_priority :: int

text \<open>
  A source is asked for its items; it may read and change the world (a database read, a
  sleep) and may raise, in which case it is skipped and the others are still asked.
\<close>

fun ask_sources :: "('w, 'e, snapshot_item list) op list \<Rightarrow> 'w \<Rightarrow> snapshot_item list \<times> 'w" where
  "ask_sources [] w = ([], w)"
| "ask_sources (source # sources) w =
     (case source w of
        (Inl e, w1) \<Rightarrow> ask_sources sources w1
      | (Inr xs, w1) \<Rightarrow> (case ask_sources sources w1 of (ys, w2) \<Rightarrow> (xs @ ys, w2)))"

definition collect_items :: "('w, 'e, snapshot_item list) op list \<Rightarrow> 'w \<Rightarrow> snapshot_item list \<times> 'w" where
  "collect_items sources w =
     (case ask_sources sources w of (items, w') \<Rightarrow> (sort_key (\<lambda>i. - si_priority i) items, w'))"

section \<open>The prompt\<close>

text \<open>A template is the text before and the text after its \<open>{state}\<close> placeholder.\<close>

type_synonym template = "string \<times> string"

definition render :: "template \<Rightarrow> string \<Rightarrow> string" where
  "render t state = fst t @ state @ snd t"

definition no_pending_state :: string where
  "no_pending_state = ''(no pending state)''"

record tick_prompt =
  tp_text :: string
  tp_tokens :: nat
  tp_items_included :: nat
  tp_items_dropped :: nat
  tp_items :: "snapshot_item list"

text \<open>The loop of \<open>build_prompt\<close>: the items taken and the number dropped.\<close>

fun take_items :: "(string \<Rightarrow> nat) \<Rightarrow> int \<Rightarrow> int \<Rightarrow> snapshot_item list \<Rightarrow> snapshot_item list \<times> nat" where
  "take_items token_count available used [] = ([], 0)"
| "take_items token_count available used (item # items) =
     (let cost = int (token_count (si_text item))
      in if used + cost > available then ([], length (item # items))
         else (case take_items token_count available (used + cost) items of
                 (included, dropped) \<Rightarrow> (item # included, dropped)))"

definition build_prompt ::
  "snapshot_item list \<Rightarrow> int \<Rightarrow> (string \<Rightarrow> nat) \<Rightarrow> template \<Rightarrow> tick_prompt" where
  "build_prompt items budget_tokens token_count template =
     (let template_tokens = int (token_count (render template no_pending_state));
          available = max 0 (budget_tokens - template_tokens);
          (included, dropped) = take_items token_count available 0 items;
          state = (if included \<noteq> [] then join [CHR 0x0A] (map si_text included)
                   else no_pending_state);
          text = render template state
      in \<lparr>tp_text = text, tp_tokens = token_count text, tp_items_included = length included,
          tp_items_dropped = dropped, tp_items = included\<rparr>)"

definition items_tokens :: "(string \<Rightarrow> nat) \<Rightarrow> snapshot_item list \<Rightarrow> nat" where
  "items_tokens token_count items = (\<Sum>i\<leftarrow>items. token_count (si_text i))"

lemma items_tokens_simps [simp]:
  "items_tokens tc [] = 0"
  "items_tokens tc (i # is) = tc (si_text i) + items_tokens tc is"
  by (simp_all add: items_tokens_def)

lemma take_items_prefix:
  assumes "take_items tc av used items = (inc, dropped)"
  shows "inc = take (length inc) items \<and> length inc + dropped = length items
    \<and> (used \<le> av \<longrightarrow> used + int (items_tokens tc inc) \<le> av)
    \<and> (dropped > 0 \<longrightarrow> used + int (items_tokens tc (take (length inc + 1) items)) > av)"
  using assms
proof (induction items arbitrary: used inc)
  case (Cons item items)
  show ?case
  proof (cases "used + int (tc (si_text item)) > av")
    case False
    obtain inc' where r: "take_items tc av (used + int (tc (si_text item))) items = (inc', dropped)"
      and inc: "inc = item # inc'"
      using Cons.prems False by (auto simp: Let_def split: prod.splits)
    from Cons.IH [OF r] False show ?thesis by (auto simp: inc)
  qed (use Cons.prems in auto)
qed simp

lemma build_prompt_parts:
  fixes items budget tc template
  defines "p \<equiv> build_prompt items budget tc template"
    and "av \<equiv> max 0 (budget - int (tc (render template no_pending_state)))"
  shows "take_items tc av 0 items = (tp_items p, tp_items_dropped p)"
    and "tp_items_included p = length (tp_items p)"
    and "tp_text p = render template (if tp_items p \<noteq> [] then join [CHR 0x0A] (map si_text (tp_items p))
                                      else no_pending_state)"
    and "tp_tokens p = tc (tp_text p)"
  by (auto simp: p_def av_def build_prompt_def Let_def split: prod.splits)

lemma sort_key_split:
  assumes "i \<in> set (take n (sort_key f xs))" "j \<in> set (drop n (sort_key f xs))"
  shows "f i \<le> f j"
proof -
  have "sorted (map f (take n (sort_key f xs) @ drop n (sort_key f xs)))" by simp
  then show ?thesis using assms unfolding map_append sorted_append by force
qed

lemma prompt_facts:
  fixes sources :: "('w, 'e, snapshot_item list) op list"
  assumes "items = fst (collect_items sources w)" and "p = build_prompt items budget tc template"
  shows "tp_items p = take (tp_items_included p) items
     \<and> tp_items_included p + tp_items_dropped p = length items
     \<and> int (items_tokens tc (tp_items p)) \<le> max 0 (budget - int (tc (render template no_pending_state)))
     \<and> (tp_items_dropped p > 0 \<longrightarrow>
          int (items_tokens tc (take (tp_items_included p + 1) items))
            > max 0 (budget - int (tc (render template no_pending_state))))
     \<and> (\<forall>i \<in> set (tp_items p). \<forall>j \<in> set (drop (tp_items_included p) items). si_priority j \<le> si_priority i)
     \<and> tp_tokens p = tc (tp_text p)"
    and "int (tc (render template no_pending_state)) \<le> budget \<Longrightarrow>
      tc (tp_text p) \<le> tc (render template no_pending_state) + items_tokens tc (tp_items p) \<Longrightarrow>
      int (tp_tokens p) \<le> budget"
proof -
  note parts = build_prompt_parts [where items = items and budget = budget and tc = tc and template = template, folded assms(2)]
  note pre = take_items_prefix [OF parts(1)]
  have items: "items = sort_key (\<lambda>i. - si_priority i) (fst (ask_sources sources w))"
    using assms(1) by (simp add: collect_items_def split: prod.splits)
  have "si_priority j \<le> si_priority i"
    if "i \<in> set (tp_items p)" "j \<in> set (drop (tp_items_included p) items)" for i j
    using sort_key_split [of i "tp_items_included p" "\<lambda>i. - si_priority i" "fst (ask_sources sources w)" j]
      that pre parts(2) items by simp
  then show "tp_items p = take (tp_items_included p) items
     \<and> tp_items_included p + tp_items_dropped p = length items
     \<and> int (items_tokens tc (tp_items p)) \<le> max 0 (budget - int (tc (render template no_pending_state)))
     \<and> (tp_items_dropped p > 0 \<longrightarrow>
          int (items_tokens tc (take (tp_items_included p + 1) items))
            > max 0 (budget - int (tc (render template no_pending_state))))
     \<and> (\<forall>i \<in> set (tp_items p). \<forall>j \<in> set (drop (tp_items_included p) items). si_priority j \<le> si_priority i)
     \<and> tp_tokens p = tc (tp_text p)"
    using pre parts by simp
  show "int (tp_tokens p) \<le> budget" if "int (tc (render template no_pending_state)) \<le> budget"
    and "tc (tp_text p) \<le> tc (render template no_pending_state) + items_tokens tc (tp_items p)"
    using that pre parts(4) by simp
qed

text \<open>
  The prompt never spends more on items than the budget leaves beside the template: the
  items kept are the highest-priority prefix of the snapshot, as long as possible (the next
  item would not have fitted), kept and dropped items add up, the reported cost is the cost of
  the text, and no dropped item has a higher priority than a kept one. When rendering costs
  at most the empty template plus the items, a prompt whose template fits stays in the budget.
\<close>

theorem prompt_within_budget:
  fixes sources :: "('w, 'e, snapshot_item list) op list"
  assumes "items = fst (collect_items sources w)" and "p = build_prompt items budget tc template"
  shows "tp_items p = take (tp_items_included p) items
     \<and> tp_items_included p + tp_items_dropped p = length items
     \<and> int (items_tokens tc (tp_items p)) \<le> max 0 (budget - int (tc (render template no_pending_state)))
     \<and> (tp_items_dropped p > 0 \<longrightarrow>
          int (items_tokens tc (take (tp_items_included p + 1) items))
            > max 0 (budget - int (tc (render template no_pending_state))))
     \<and> (\<forall>i \<in> set (tp_items p). \<forall>j \<in> set (drop (tp_items_included p) items). si_priority j \<le> si_priority i)
     \<and> tp_tokens p = tc (tp_text p)
     \<and> (int (tc (render template no_pending_state)) \<le> budget
        \<and> tc (tp_text p) \<le> tc (render template no_pending_state) + items_tokens tc (tp_items p)
        \<longrightarrow> int (tp_tokens p) \<le> budget)"
  using prompt_facts [OF assms] by blast

lemma prompt_within_budget_witness:
  "\<exists>p. p = build_prompt (fst (collect_items [ret [\<lparr>si_source = ''a'', si_text = ''low'', si_priority = 0\<rparr>],
          raise (), ret [\<lparr>si_source = ''b'', si_text = ''disk full'', si_priority = 9\<rparr>]] ())) 29 length ([], [])
     \<and> map si_text (tp_items p) = [''disk full''] \<and> tp_items_dropped p = 1 \<and> int (tp_tokens p) \<le> 29"
proof -
  let ?src = "[ret [\<lparr>si_source = ''a'', si_text = ''low'', si_priority = 0\<rparr>],
      raise (), ret [\<lparr>si_source = ''b'', si_text = ''disk full'', si_priority = 9\<rparr>]]"
  define items where "items = fst (collect_items ?src ())"
  define p where "p = build_prompt items 29 length ([], [])"
  have run: "map si_text (tp_items p) = [''disk full'']" "tp_items_dropped p = 1"
    "tp_text p = ''disk full''" "length (render ([], []) no_pending_state) = 18"
    unfolding p_def items_def by code_simp+
  have "length (tp_text p) = 9" by (simp add: run(3))
  then have cost: "length (tp_text p) \<le> length (render ([], []) no_pending_state) + items_tokens length (tp_items p)"
    using run(4) by linarith
  have "int (length (render ([], []) no_pending_state)) \<le> 29" using run(4) by linarith
  then have "int (tp_tokens p) \<le> 29" using cost prompt_within_budget [OF items_def p_def] by blast
  moreover have "p = build_prompt (fst (collect_items ?src ())) 29 length ([], [])"
    by (simp only: p_def items_def)
  ultimately show ?thesis using run(1,2) by iprover
qed

text \<open>
  The line breaks between items are not counted. With one token per character, twenty empty
  items fit a budget of exactly the template and still render one token over it.
\<close>

lemma separators_overflow:
  "tp_tokens (build_prompt (replicate 20 \<lparr>si_source = [], si_text = [], si_priority = 0\<rparr>)
     (int (length no_pending_state)) length ([], [])) = length no_pending_state + 1"
  by (simp add: build_prompt_def render_def no_pending_state_def Let_def numeral_eq_Suc)

section \<open>The slot to run next\<close>

partial_function (option) next_tick_number :: "nat \<Rightarrow> rat \<Rightarrow> rat \<Rightarrow> rat \<Rightarrow> nat option" where
  "next_tick_number n start now interval =
     (if start + of_nat (n + 1) * interval \<le> now
      then next_tick_number (n + 1) start now interval else Some n)"

declare next_tick_number.simps [code]

lemma next_tick_counts:
  assumes "0 < interval" and "nat \<lceil>(now - start) / interval\<rceil> - n \<le> k"
  shows "\<exists>m \<ge> n. next_tick_number n start now interval = Some m \<and> now < start + of_nat (m + 1) * interval
     \<and> (m = n \<or> start + of_nat m * interval \<le> now)"
  using assms(2)
proof (induction k arbitrary: n)
  case 0
  have "\<lceil>(now - start) / interval\<rceil> \<le> int n" using 0 by linarith
  then have "(now - start) / interval \<le> of_int (int n)" by (simp only: ceiling_le_iff)
  then have "(now - start) / interval \<le> of_nat n" by (simp only: of_int_of_nat_eq)
  then have "now - start \<le> of_nat n * interval" using assms(1) by (simp add: pos_divide_le_eq)
  then have "now < start + of_nat (n + 1) * interval" using assms(1) by (simp add: algebra_simps)
  then show ?case by (subst next_tick_number.simps) auto
next
  case (Suc k)
  show ?case
  proof (cases "start + of_nat (n + 1) * interval \<le> now")
    case True
    have "nat \<lceil>(now - start) / interval\<rceil> - (n + 1) \<le> k" using Suc.prems by simp
    from Suc.IH [OF this] obtain m where "m \<ge> n + 1" "next_tick_number (n + 1) start now interval = Some m"
      "now < start + of_nat (m + 1) * interval" "m = n + 1 \<or> start + of_nat m * interval \<le> now"
      by blast
    with True show ?thesis by (subst next_tick_number.simps) auto
  next
    case False
    then show ?thesis by (subst next_tick_number.simps) auto
  qed
qed

lemma next_tick_facts:
  assumes "0 < interval"
  shows "next_tick_number n start now interval = Some (max n (nat \<lfloor>(now - start) / interval\<rfloor>))"
    and "next_tick_number n start now interval = Some m \<Longrightarrow>
      n \<le> m \<and> now < start + of_nat (m + 1) * interval
      \<and> (n < m \<longrightarrow> start + of_nat (m + 1) * interval \<le> now + interval)"
proof -
  obtain k where k: "n \<le> k" "next_tick_number n start now interval = Some k"
    "now < start + of_nat (k + 1) * interval" "k = n \<or> start + of_nat k * interval \<le> now"
    using next_tick_counts [OF assms order_refl] by blast
  let ?q = "(now - start) / interval"
  have below: "?q < of_nat k + 1" using k(3) assms by (simp add: pos_divide_less_eq algebra_simps)
  have "k = max n (nat \<lfloor>?q\<rfloor>)"
  proof (cases "k = n")
    case True
    have "\<lfloor>?q\<rfloor> \<le> int k" using below by (simp add: floor_le_iff)
    with True show ?thesis by simp
  next
    case False
    then have "of_nat k \<le> ?q" using k(4) assms by (simp add: pos_le_divide_eq algebra_simps)
    then have "\<lfloor>?q\<rfloor> = int k" using below by (simp add: floor_eq_iff)
    then show ?thesis using k(1) by simp
  qed
  then show "next_tick_number n start now interval = Some (max n (nat \<lfloor>?q\<rfloor>))" using k(2) by simp
  show "n \<le> m \<and> now < start + of_nat (m + 1) * interval
      \<and> (n < m \<longrightarrow> start + of_nat (m + 1) * interval \<le> now + interval)"
    if "next_tick_number n start now interval = Some m"
    using that k by (auto simp: algebra_simps)
qed

text \<open>
  C16. With a positive interval the catch-up loop returns, and it returns the slot of the clock:
  the current slot, or the last one whose deadline has passed when that is later. So the next
  deadline lies strictly in the future (no burst of catch-up ticks) and at most one interval
  away once the loop is late.
\<close>

theorem next_tick_is_clock_slot:
  assumes "0 < interval"
  shows "\<exists>m. next_tick_number n start now interval = Some m
      \<and> m = max n (nat \<lfloor>(now - start) / interval\<rfloor>)
      \<and> now < start + of_nat (m + 1) * interval
      \<and> (n < m \<longrightarrow> start + of_nat (m + 1) * interval \<le> now + interval)"
  using next_tick_facts(1) [OF assms] next_tick_facts(2) [OF assms] by blast

lemma next_tick_is_clock_slot_witness:
  "next_tick_number 3 0 (17/2) 1 = Some 8 \<and> (17/2 :: rat) < 0 + of_nat (8 + 1) * 1"
proof -
  have "\<lfloor>17 / 2 :: rat\<rfloor> = 8" by (simp add: floor_eq_iff)
  then show ?thesis using next_tick_is_clock_slot [of 1 3 0 "17/2"] by auto
qed

text \<open>Without the constructor's guard the loop would not return: a zero interval never catches up.\<close>

lemma next_tick_zero_interval: "start \<le> now \<Longrightarrow> next_tick_number n start now 0 = None"
proof -
  have "i = 0 \<longrightarrow> \<not> start \<le> now" if "next_tick_number n start now i = Some m" for i m
    by (rule next_tick_number.raw_induct [where P = "\<lambda>n start now i m. i = 0 \<longrightarrow> \<not> start \<le> now", OF _ that])
      (auto split: if_splits)
  then show "start \<le> now \<Longrightarrow> next_tick_number n start now 0 = None"
    by (metis not_None_eq)
qed

end
