(* ===== verification/Journal.thy ===== *)
theory Journal
  imports Tick Auth_Model
begin

text \<open>
  The journal of the Heart: the table \<open>heart_journal\<close> and its repository
  (\<open>heart/journal.py\<close>), and the page \<open>GET /heart/journal\<close> reads off it
  (\<open>api/routes/heart_journal.py\<close>). The table is the list of its rows in insertion order, a
  timestamp is held in milliseconds as in \<open>Auth_Model\<close>, and the uuid of a new row comes
  with the row.
\<close>

datatype brain_status = CALLED | BRAIN_DECLINED | BRAIN_ERROR

datatype intervention_status = APPLIED | DECLINED | UNSUPPORTED | ERROR

datatype opencode_action = RETRY | NUDGE | COMPACT | PAUSE_INTAKE | ESCALATE_TO_BRAIN

record journal_entry =
  je_id :: string
  je_created_at :: stamp
  je_tick_number :: nat
  je_decision :: decision
  je_note :: string
  je_prompt_tokens :: nat
  je_duration :: rat
  je_brain_status :: "brain_status option"
  je_brain_detail :: string
  je_brain_prompt_tokens :: "nat option"
  je_brain_completion_tokens :: "nat option"
  je_opencode_run_id :: "string option"
  je_opencode_action :: "opencode_action option"
  je_opencode_outcome :: "intervention_status option"
  je_opencode_detail :: string

type_synonym 'a journal_op = "(journal_entry list, err, 'a) op"

section \<open>The repository\<close>

text \<open>\<open>ORDER BY created_at DESC, id DESC\<close>\<close>

definition entry_key :: "journal_entry \<Rightarrow> stamp \<times> string" where
  "entry_key e = (je_created_at e, je_id e)"

definition newest_first :: "journal_entry list \<Rightarrow> journal_entry list" where
  "newest_first rows = rev (sort_key entry_key rows)"

definition retention_cutoff :: "instant \<Rightarrow> nat \<Rightarrow> stamp" where
  "retention_cutoff now days = iso (now - int days * 86400000000)"

definition journal_sweep :: "instant \<Rightarrow> nat \<Rightarrow> nat \<Rightarrow> nat journal_op" where
  "journal_sweep now max_entries retention_days = transaction (\<lambda>rows.
     let keep = je_id ` set (take max_entries (newest_first rows));
         kept = delete_where (\<lambda>e. je_created_at e < retention_cutoff now retention_days
                                  \<or> je_id e \<notin> keep) rows
     in (Inr (length rows - length kept), kept))"

definition insert_entry :: "journal_entry \<Rightarrow> unit journal_op" where
  "insert_entry e = op_bind (asks (\<lambda>rows. je_id e \<in> je_id ` set rows)) (\<lambda>clash.
     op_then (demand (\<not> clash) IntegrityError) (put (\<lambda>rows. rows @ [e])))"

definition journal_append :: "journal_entry \<Rightarrow> nat \<Rightarrow> nat \<Rightarrow> journal_entry journal_op" where
  "journal_append e max_entries retention_days =
     op_then (transaction (insert_entry e))
       (op_then (journal_sweep (parse_iso (je_created_at e)) max_entries retention_days) (ret e))"

definition list_recent :: "nat \<Rightarrow> stamp option \<Rightarrow> journal_entry list \<Rightarrow> journal_entry list" where
  "list_recent limit since rows = (case since of
     None \<Rightarrow> take limit (newest_first rows)
   | Some t \<Rightarrow> take limit (newest_first (filter (\<lambda>e. je_created_at e > t) rows)))"

section \<open>The page\<close>

record journal_page =
  jp_entries :: "journal_entry list"
  jp_count :: nat
  jp_limit :: nat
  jp_has_more :: bool

definition list_journal :: "nat \<Rightarrow> stamp option \<Rightarrow> journal_entry list \<Rightarrow> journal_page" where
  "list_journal limit since rows =
     (let entries = list_recent (limit + 1) since rows; page = take limit entries
      in \<lparr>jp_entries = page, jp_count = length page, jp_limit = limit,
          jp_has_more = limit < length entries\<rparr>)"

section \<open>Newest rows\<close>

lemma entry_key_inj: "entry_key a = entry_key b \<Longrightarrow> je_id a = je_id b"
  by (simp add: entry_key_def)

lemma unique_keys: "unique_by je_id rows \<Longrightarrow> distinct (map entry_key rows)"
  by (induction rows) (auto simp: unique_by_def dest: entry_key_inj)

lemma newest_first_props [simp]:
  "set (newest_first rows) = set rows"
  "length (newest_first rows) = length rows"
  "newest_first [] = []"
  by (simp_all add: newest_first_def)

lemma newest_first_sorted:
  assumes "unique_by je_id rows"
  shows "sorted_wrt (\<lambda>a b. entry_key b < entry_key a) (newest_first rows)"
proof -
  have "distinct (map entry_key (sort_key entry_key rows))"
    using unique_keys [OF assms]
    by (metis distinct_map inj_on_def set_sort distinct_sort distinct_map)
  then have "sorted_wrt (<) (map entry_key (sort_key entry_key rows))"
    using sorted_sort_key [of entry_key rows] by (simp add: strict_sorted_iff)
  then show ?thesis by (simp add: newest_first_def sorted_wrt_rev sorted_wrt_map)
qed

text \<open>A row is among the first \<open>m\<close> exactly when fewer than \<open>m\<close> rows are newer.\<close>

definition newer :: "journal_entry list \<Rightarrow> journal_entry \<Rightarrow> journal_entry set" where
  "newer rows e = {q \<in> set rows. entry_key e < entry_key q}"

lemma take_newest_iff:
  assumes "unique_by je_id rows" and "e \<in> set rows"
  shows "e \<in> set (take m (newest_first rows)) \<longleftrightarrow> card (newer rows e) < m"
proof -
  let ?ys = "newest_first rows"
  have sorted: "sorted_wrt (\<lambda>a b. entry_key b < entry_key a) ?ys" by (rule newest_first_sorted [OF assms(1)])
  then have less: "i < j \<Longrightarrow> j < length ?ys \<Longrightarrow> entry_key (?ys ! j) < entry_key (?ys ! i)" for i j
    by (simp add: sorted_wrt_iff_nth_less)
  have dist: "distinct ?ys"
    using less by (metis distinct_conv_nth less_irrefl nat_neq_iff)
  obtain i where i: "i < length ?ys" "?ys ! i = e"
    using assms(2) by (metis in_set_conv_nth newest_first_props(1))
  have "newer rows e = set (take i ?ys)"
  proof (rule set_eqI)
    fix q
    have "q \<in> newer rows e \<longleftrightarrow> (\<exists>j < length ?ys. q = ?ys ! j \<and> entry_key e < entry_key (?ys ! j))"
      unfolding newer_def by (metis (mono_tags, lifting) in_set_conv_nth mem_Collect_eq newest_first_props(1))
    also have "\<dots> \<longleftrightarrow> (\<exists>j < i. q = ?ys ! j)"
      using less i by (metis (no_types) less_asym less_irrefl linorder_neqE_nat order_less_trans)
    also have "\<dots> \<longleftrightarrow> q \<in> set (take i ?ys)"
      using i(1) by (auto simp: in_set_conv_nth)
    finally show "q \<in> newer rows e \<longleftrightarrow> q \<in> set (take i ?ys)" .
  qed
  then have "card (newer rows e) = i" using dist i(1) by (simp add: distinct_card)
  moreover have "e \<in> set (take m ?ys) \<longleftrightarrow> i < m"
    using dist i by (auto simp: in_set_conv_nth nth_eq_iff_index_eq)
  ultimately show ?thesis by simp
qed

section \<open>What an append leaves\<close>

definition journal_ok :: "nat \<Rightarrow> journal_entry list \<Rightarrow> bool" where
  "journal_ok m rows \<longleftrightarrow> unique_by je_id rows \<and> length rows \<le> m"

lemma sweep_run:
  "journal_sweep now m days rows =
     (let kept = delete_where (\<lambda>e. je_created_at e < retention_cutoff now days
                  \<or> je_id e \<notin> je_id ` set (take m (newest_first rows))) rows
      in (Inr (length rows - length kept), kept))"
  by (simp add: journal_sweep_def transaction_def Let_def)

lemma append_run:
  assumes "je_id e \<notin> je_id ` set rows"
  shows "journal_append e m days rows =
    (Inr e, snd (journal_sweep (parse_iso (je_created_at e)) m days (rows @ [e])))"
  using assms by (simp add: journal_append_def insert_entry_def op_simps sweep_run Let_def)

lemma append_clash:
  assumes "je_id e \<in> je_id ` set rows"
  shows "journal_append e m days rows = (Inl IntegrityError, rows)"
  using assms by (simp add: journal_append_def insert_entry_def op_simps)

lemma kept_iff:
  assumes "unique_by je_id rows"
  shows "set (snd (journal_sweep now m days rows)) =
    {r \<in> set rows. retention_cutoff now days \<le> je_created_at r \<and> card (newer rows r) < m}"
proof -
  have "je_id r \<in> je_id ` set (take m (newest_first rows)) \<longleftrightarrow> r \<in> set (take m (newest_first rows))"
    if "r \<in> set rows" for r
    using that unique_byD [OF assms] set_take_subset [of m "newest_first rows"] by auto
  then show ?thesis
    using take_newest_iff [OF assms] by (auto simp: sweep_run Let_def not_less)
qed

lemma swept_bound:
  assumes "unique_by je_id rows"
  shows "journal_ok m (snd (journal_sweep now m days rows))"
proof -
  let ?rows' = "snd (journal_sweep now m days rows)"
  have u: "unique_by je_id ?rows'" using assms by (simp add: sweep_run Let_def)
  have "set ?rows' \<subseteq> set (take m (newest_first rows))"
    using kept_iff [OF assms] take_newest_iff [OF assms] by auto
  then have "card (set ?rows') \<le> card (set (take m (newest_first rows)))" by (intro card_mono) auto
  also have "\<dots> \<le> m" using card_length [of "take m (newest_first rows)"] by simp
  finally have "card (set ?rows') \<le> m" .
  moreover have "length ?rows' = card (set ?rows')"
    using u by (simp add: unique_by_def distinct_map distinct_card)
  ultimately show ?thesis using u by (simp add: journal_ok_def)
qed

lemma journal_append_facts:
  assumes "unique_by je_id rows"
  shows "je_id e \<notin> je_id ` set rows \<Longrightarrow> \<exists>rows'. journal_append e m days rows = (Inr e, rows')
      \<and> rows' = filter (\<lambda>r. retention_cutoff (parse_iso (je_created_at e)) days \<le> je_created_at r
                          \<and> card (newer (rows @ [e]) r) < m) (rows @ [e])
      \<and> unique_by je_id rows' \<and> length rows' \<le> m
      \<and> (0 < m \<and> (\<forall>r \<in> set rows. je_created_at r < je_created_at e) \<longrightarrow> e \<in> set rows')"
    and "je_id e \<in> je_id ` set rows \<Longrightarrow> journal_append e m days rows = (Inl IntegrityError, rows)"
proof -
  assume fresh: "je_id e \<notin> je_id ` set rows"
  let ?all = "rows @ [e]" and ?now = "parse_iso (je_created_at e)"
  have u: "unique_by je_id ?all" using assms fresh by simp
  let ?rows' = "snd (journal_sweep ?now m days ?all)"
  have "?rows' = filter (\<lambda>r. r \<in> set ?rows') ?all"
    by (auto simp: sweep_run Let_def delete_where_def intro!: filter_cong)
  then have exact: "?rows' = filter (\<lambda>r. retention_cutoff ?now days \<le> je_created_at r \<and> card (newer ?all r) < m) ?all"
    unfolding kept_iff [OF u] by (auto intro!: filter_cong)
  have "e \<in> set ?rows'" if "0 < m" "\<forall>r \<in> set rows. je_created_at r < je_created_at e"
  proof -
    have "newer ?all e = {}" using that(2) by (auto simp: newer_def entry_key_def less_prod_def)
    moreover have "retention_cutoff ?now days \<le> je_created_at e"
      using iso_mono [of "?now - int days * 86400000000" ?now] by (simp add: retention_cutoff_def)
    ultimately show ?thesis using that(1) unfolding kept_iff [OF u] by simp
  qed
  then show "\<exists>rows'. journal_append e m days rows = (Inr e, rows')
      \<and> rows' = filter (\<lambda>r. retention_cutoff ?now days \<le> je_created_at r \<and> card (newer ?all r) < m) ?all
      \<and> unique_by je_id rows' \<and> length rows' \<le> m
      \<and> (0 < m \<and> (\<forall>r \<in> set rows. je_created_at r < je_created_at e) \<longrightarrow> e \<in> set rows')"
    using append_run [OF fresh] exact swept_bound [OF u, of m ?now days]
    by (intro exI [of _ ?rows']) (auto simp: journal_ok_def simp del: set_append)
qed (rule append_clash)

text \<open>
  Appending is exact: with a fresh id the row is inserted and the table is then exactly the
  rows that are both young enough and among the newest \<open>max_entries\<close>, in their old order, so
  it never holds more than \<open>max_entries\<close> rows; the new row itself survives when it is the
  newest and at least one row may be kept. With an id that is taken nothing changes and the
  exception escapes.
\<close>

theorem journal_append_exact:
  assumes "unique_by je_id rows"
  shows "if je_id e \<in> je_id ` set rows then journal_append e m days rows = (Inl IntegrityError, rows)
    else \<exists>rows'. journal_append e m days rows = (Inr e, rows')
      \<and> rows' = filter (\<lambda>r. retention_cutoff (parse_iso (je_created_at e)) days \<le> je_created_at r
                          \<and> card (newer (rows @ [e]) r) < m) (rows @ [e])
      \<and> unique_by je_id rows' \<and> length rows' \<le> m
      \<and> (0 < m \<and> (\<forall>r \<in> set rows. je_created_at r < je_created_at e) \<longrightarrow> e \<in> set rows')"
  using journal_append_facts [OF assms, of e m days] by (simp only: split: if_split) blast

definition sample_entry :: "string \<Rightarrow> stamp \<Rightarrow> decision \<Rightarrow> journal_entry" where
  "sample_entry i t d = \<lparr>je_id = i, je_created_at = t, je_tick_number = 1, je_decision = d, je_note = [],
     je_prompt_tokens = 10, je_duration = 1, je_brain_status = None, je_brain_detail = [],
     je_brain_prompt_tokens = None, je_brain_completion_tokens = None, je_opencode_run_id = None,
     je_opencode_action = None, je_opencode_outcome = None, je_opencode_detail = []\<rparr>"

lemma journal_append_exact_witness:
  "\<exists>rows'. journal_append (sample_entry ''b'' 2000 ACT) 1 30 [sample_entry ''a'' 1000 IDLE]
       = (Inr (sample_entry ''b'' 2000 ACT), rows')
     \<and> sample_entry ''b'' 2000 ACT \<in> set rows' \<and> length rows' \<le> 1"
  using journal_append_exact [of "[sample_entry ''a'' 1000 IDLE]" "sample_entry ''b'' 2000 ACT" 1 30]
  by (auto simp: sample_entry_def unique_by_def)

lemma keeps_journal_append:
  "keeps (journal_ok m) (journal_append e m days)"
proof (rule keepsI)
  fix rows assume "journal_ok m rows"
  then have u: "unique_by je_id rows" by (simp add: journal_ok_def)
  show "journal_ok m (snd (journal_append e m days rows))"
  proof (cases "je_id e \<in> je_id ` set rows")
    case True
    with append_clash [OF True, of m days] \<open>journal_ok m rows\<close> show ?thesis by simp
  next
    case False
    then show ?thesis using u by (simp only: append_run snd_conv swept_bound unique_by_snoc simp_thms)
  qed
qed

section \<open>The journal as a bounded log\<close>

text \<open>
  While the clock moves forward the table is an append-only log: the abstract log keeps the
  rows in order, drops the oldest beyond the bound and those past the cutoff, and its recent
  entries are its end, read backwards.
\<close>

definition last_n :: "nat \<Rightarrow> 'a list \<Rightarrow> 'a list" where
  "last_n m xs = drop (length xs - m) xs"

definition log_append :: "nat \<Rightarrow> nat \<Rightarrow> journal_entry \<Rightarrow> journal_entry list \<Rightarrow> journal_entry list" where
  "log_append m days e entries =
     filter (\<lambda>r. retention_cutoff (parse_iso (je_created_at e)) days \<le> je_created_at r) (last_n m (entries @ [e]))"

definition chronological :: "journal_entry list \<Rightarrow> bool" where
  "chronological rows \<longleftrightarrow> sorted_wrt (\<lambda>a b. je_created_at a < je_created_at b) rows"

lemma chronological_keys: "chronological rows \<Longrightarrow> sorted_wrt (\<lambda>a b. entry_key a < entry_key b) rows"
  unfolding chronological_def by (erule sorted_wrt_mono_rel [rotated]) (simp add: entry_key_def less_prod_def)

lemma newest_first_log:
  assumes "chronological rows"
  shows "newest_first rows = rev rows"
proof -
  have "sorted (map entry_key rows)"
    using sorted_wrt_mono_rel [OF _ chronological_keys [OF assms], of "\<lambda>a b. entry_key a \<le> entry_key b"]
    by (simp add: sorted_wrt_map)
  then show ?thesis by (simp add: newest_first_def sort_key_id_if_sorted)
qed

lemma chronological_filter: "chronological rows \<Longrightarrow> chronological (filter p rows)"
  by (simp add: chronological_def sorted_wrt_filter)

lemma chronological_last_n: "chronological rows \<Longrightarrow> chronological (last_n m rows)"
  by (simp add: chronological_def last_n_def sorted_wrt_drop)

lemma newer_log:
  assumes "chronological (us @ r # vs)"
  shows "newer (us @ r # vs) r = set vs" and "card (newer (us @ r # vs) r) = length vs"
proof -
  have s: "sorted_wrt (\<lambda>a b. entry_key a < entry_key b) (us @ r # vs)"
    by (rule chronological_keys [OF assms])
  then show n: "newer (us @ r # vs) r = set vs"
    by (auto simp: newer_def sorted_wrt_append)
  have "distinct vs"
    using s by (induction vs) (auto simp: sorted_wrt_append)
  with n show "card (newer (us @ r # vs) r) = length vs" by (simp add: distinct_card)
qed

lemma kept_last_n:
  assumes "chronological rows"
  shows "filter (\<lambda>r. card (newer rows r) < m) rows = last_n m rows"
proof -
  let ?k = "length rows - m"
  have pos: "card (newer rows (rows ! i)) = length rows - Suc i" if "i < length rows" for i
    using newer_log(2) [of "take i rows" "rows ! i" "drop (Suc i) rows"] assms that
    by (simp add: id_take_nth_drop [symmetric])
  have "filter (\<lambda>r. card (newer rows r) < m) (take ?k rows) = []"
    using pos by (auto simp: filter_empty_conv in_set_conv_nth)
  moreover have "filter (\<lambda>r. card (newer rows r) < m) (drop ?k rows) = drop ?k rows"
  proof (rule filter_True, rule ballI)
    fix r assume "r \<in> set (drop ?k rows)"
    then obtain j where "j < length rows - ?k" "r = rows ! (?k + j)" by (auto simp: in_set_conv_nth)
    then show "card (newer rows r) < m" using pos [of "?k + j"] by simp
  qed
  ultimately show ?thesis
    unfolding last_n_def by (metis append_Nil append_take_drop_id filter_append)
qed

text \<open>
  The repository refines the bounded log: on rows in chronological order, appending a
  later row with a fresh id is the log's append, the rows stay in chronological order, and the
  page of the route is the end of the log read backwards, with \<open>has_more\<close> exactly when an
  older matching row was left out.
\<close>

theorem journal_refines_log:
  assumes "unique_by je_id (rows @ [e])" and "chronological (rows @ [e])"
  shows "journal_append e m days rows = (Inr e, log_append m days e rows)
    \<and> chronological (log_append m days e rows)
    \<and> list_journal k since (log_append m days e rows) =
        (let matching = rev (filter (\<lambda>r. \<forall>t. since = Some t \<longrightarrow> t < je_created_at r) (log_append m days e rows))
         in \<lparr>jp_entries = take k matching, jp_count = min k (length matching), jp_limit = k,
             jp_has_more = k < length matching\<rparr>)"
proof -
  have fresh: "je_id e \<notin> je_id ` set rows" and u: "unique_by je_id rows" using assms(1) by simp_all
  have "filter (\<lambda>r. retention_cutoff (parse_iso (je_created_at e)) days \<le> je_created_at r
      \<and> card (newer (rows @ [e]) r) < m) (rows @ [e]) = log_append m days e rows"
    unfolding log_append_def kept_last_n [OF assms(2), of m, symmetric] by (simp add: conj_commute)
  with journal_append_facts(1) [OF u fresh, of m days]
  have run: "journal_append e m days rows = (Inr e, log_append m days e rows)" by metis
  have chron: "chronological (log_append m days e rows)"
    unfolding log_append_def by (intro chronological_filter chronological_last_n assms(2))
  have "list_recent (k + 1) since (log_append m days e rows) = take (k + 1)
      (rev (filter (\<lambda>r. \<forall>t. since = Some t \<longrightarrow> t < je_created_at r) (log_append m days e rows)))"
    by (cases since) (simp_all add: list_recent_def newest_first_log chron chronological_filter)
  with run chron show ?thesis
    by (simp add: list_journal_def Let_def min.absorb2 min_def)
qed

lemma journal_refines_log_witness:
  "\<exists>a b. a = sample_entry ''b'' 1000 IDLE \<and> b = sample_entry ''a'' 2000 ACT
     \<and> journal_append b 5 30 [a] = (Inr b, log_append 5 30 b [a]) \<and> log_append 5 30 b [a] = [a, b]"
proof -
  let ?a = "sample_entry ''b'' 1000 IDLE" and ?b = "sample_entry ''a'' 2000 ACT"
  have "journal_append ?b 5 30 [?a] = (Inr ?b, log_append 5 30 ?b [?a])"
    using journal_refines_log [of "[?a]" ?b 5 30] by (simp add: sample_entry_def chronological_def unique_by_def)
  moreover have "log_append 5 30 ?b [?a] = [?a, ?b]"
    by (simp add: log_append_def last_n_def retention_cutoff_def iso_def parse_iso_def sample_entry_def)
  ultimately show ?thesis by blast
qed

end
