(* ===== verification/Opencode_Runs.thy ===== *)
theory Opencode_Runs
  imports Journal
begin

text \<open>
  The executor's runs: the table \<open>opencode_runs\<close> with its repository
  (\<open>opencode/repository.py\<close>), the request builders (\<open>opencode/interventions.py\<close>) and the run
  service (\<open>opencode/service.py\<close>). The table is the list of its rows in insertion order, a
  timestamp is held in milliseconds as in \<open>Auth_Model\<close>; clock readings and new uuids are
  arguments, the child process behind a run is the sequence of steps it causes.
\<close>

section \<open>Rows\<close>

datatype run_status = Queued | Running | Succeeded | Run_Failed | Run_Timeout | Cancelled

definition terminal_status :: "run_status \<Rightarrow> bool" where
  "terminal_status st \<longleftrightarrow> st \<in> {Succeeded, Run_Failed, Run_Timeout, Cancelled}"

definition active_status :: "run_status \<Rightarrow> bool" where
  "active_status st \<longleftrightarrow> st \<in> {Queued, Running}"

record opencode_run =
  ru_id :: string
  ru_created_at :: stamp
  ru_started_at :: "stamp option"
  ru_completed_at :: "stamp option"
  ru_status :: run_status
  ru_session_id :: "string option"
  ru_prompt :: string
  ru_model :: "string option"
  ru_agent :: "string option"
  ru_exit_code :: "int option"
  ru_error_detail :: string
  ru_event_count :: nat
  ru_tool_call_count :: nat
  ru_permission_denied_count :: nat
  ru_parse_error_count :: nat
  ru_prompt_tokens :: "nat option"
  ru_completion_tokens :: "nat option"
  ru_duration :: "rat option"
  ru_retry_of :: "string option"
  ru_intervention_count :: nat

datatype opencode_error = Row_Clash | Row_Assertion | OpencodeIntakePausedError
  | OpencodeRunFailedError nat | OpencodeBusyError nat

type_synonym 'a runs_op = "(opencode_run list, opencode_error, 'a) op"

section \<open>The repository\<close>

definition find_run :: "string \<Rightarrow> opencode_run list \<Rightarrow> opencode_run option" where
  "find_run run_id = find (\<lambda>r. ru_id r = run_id)"

definition new_run ::
  "string \<Rightarrow> stamp \<Rightarrow> string \<Rightarrow> string option \<Rightarrow> string option \<Rightarrow> string option \<Rightarrow> string option \<Rightarrow> opencode_run" where
  "new_run run_id created_at prompt session_id model agent retry_of =
     \<lparr>ru_id = run_id, ru_created_at = created_at, ru_started_at = None, ru_completed_at = None,
      ru_status = Queued, ru_session_id = session_id, ru_prompt = prompt, ru_model = model,
      ru_agent = agent, ru_exit_code = None, ru_error_detail = [], ru_event_count = 0,
      ru_tool_call_count = 0, ru_permission_denied_count = 0, ru_parse_error_count = 0,
      ru_prompt_tokens = None, ru_completion_tokens = None, ru_duration = None,
      ru_retry_of = retry_of, ru_intervention_count = 0\<rparr>"

definition run_create ::
  "string \<Rightarrow> stamp \<Rightarrow> string \<Rightarrow> string option \<Rightarrow> string option \<Rightarrow> string option \<Rightarrow> string option \<Rightarrow> opencode_run runs_op" where
  "run_create run_id created_at prompt session_id model agent retry_of = transaction (
     let r = new_run run_id created_at prompt session_id model agent retry_of
     in op_bind (asks (\<lambda>rows. run_id \<in> ru_id ` set rows)) (\<lambda>clash.
        op_then (demand (\<not> clash) Row_Clash) (op_then (put (\<lambda>rows. rows @ [r])) (ret r))))"

text \<open>The keyword arguments of \<open>update_status\<close>; \<open>None\<close> leaves the column, as \<open>COALESCE(?, column)\<close>.\<close>

record run_changes =
  rc_started_at :: "stamp option"
  rc_completed_at :: "stamp option"
  rc_exit_code :: "int option"
  rc_error_detail :: "string option"
  rc_event_count :: "nat option"
  rc_tool_call_count :: "nat option"
  rc_permission_denied_count :: "nat option"
  rc_parse_error_count :: "nat option"
  rc_prompt_tokens :: "nat option"
  rc_completion_tokens :: "nat option"
  rc_duration :: "rat option"
  rc_intervention_count :: "nat option"

definition no_changes :: run_changes where
  "no_changes = \<lparr>rc_started_at = None, rc_completed_at = None, rc_exit_code = None, rc_error_detail = None,
     rc_event_count = None, rc_tool_call_count = None, rc_permission_denied_count = None,
     rc_parse_error_count = None, rc_prompt_tokens = None, rc_completion_tokens = None,
     rc_duration = None, rc_intervention_count = None\<rparr>"

fun coalesce :: "'a option \<Rightarrow> 'a \<Rightarrow> 'a" where
  "coalesce None old = old"
| "coalesce (Some new) old = new"

fun coalesce_null :: "'a option \<Rightarrow> 'a option \<Rightarrow> 'a option" where
  "coalesce_null None old = old"
| "coalesce_null (Some new) old = Some new"

definition apply_changes :: "run_status \<Rightarrow> run_changes \<Rightarrow> opencode_run \<Rightarrow> opencode_run" where
  "apply_changes status ch r = r\<lparr>ru_status := status,
     ru_started_at := coalesce_null (rc_started_at ch) (ru_started_at r),
     ru_completed_at := coalesce_null (rc_completed_at ch) (ru_completed_at r),
     ru_exit_code := coalesce_null (rc_exit_code ch) (ru_exit_code r),
     ru_error_detail := coalesce (rc_error_detail ch) (ru_error_detail r),
     ru_event_count := coalesce (rc_event_count ch) (ru_event_count r),
     ru_tool_call_count := coalesce (rc_tool_call_count ch) (ru_tool_call_count r),
     ru_permission_denied_count := coalesce (rc_permission_denied_count ch) (ru_permission_denied_count r),
     ru_parse_error_count := coalesce (rc_parse_error_count ch) (ru_parse_error_count r),
     ru_prompt_tokens := coalesce_null (rc_prompt_tokens ch) (ru_prompt_tokens r),
     ru_completion_tokens := coalesce_null (rc_completion_tokens ch) (ru_completion_tokens r),
     ru_duration := coalesce_null (rc_duration ch) (ru_duration r),
     ru_intervention_count := coalesce (rc_intervention_count ch) (ru_intervention_count r)\<rparr>"

text \<open>\<open>fetchone\<close> on a key that is known to be in the table.\<close>

definition fetch_run :: "string \<Rightarrow> opencode_run runs_op" where
  "fetch_run run_id = op_bind (asks (find_run run_id)) (\<lambda>found.
     case found of None \<Rightarrow> raise Row_Assertion | Some r \<Rightarrow> ret r)"

definition update_status :: "string \<Rightarrow> run_status \<Rightarrow> run_changes \<Rightarrow> opencode_run runs_op" where
  "update_status run_id status ch = transaction (
     let matches = (\<lambda>r. ru_id r = run_id \<and> \<not> terminal_status (ru_status r))
     in op_bind (asks (\<lambda>rows. length (filter matches rows))) (\<lambda>rowcount.
        op_then (put (update_where matches (apply_changes status ch)))
          (op_then (demand (rowcount = 1) Row_Assertion) (fetch_run run_id))))"

definition run_key :: "opencode_run \<Rightarrow> stamp \<times> string" where
  "run_key r = (ru_created_at r, ru_id r)"

definition runs_newest_first :: "opencode_run list \<Rightarrow> opencode_run list" where
  "runs_newest_first rows = rev (sort_key run_key rows)"

definition runs_list_recent :: "nat \<Rightarrow> stamp option \<Rightarrow> opencode_run list \<Rightarrow> opencode_run list" where
  "runs_list_recent limit since rows = (case since of
     None \<Rightarrow> take limit (runs_newest_first rows)
   | Some t \<Rightarrow> take limit (runs_newest_first (filter (\<lambda>r. ru_created_at r > t) rows)))"

definition count_active :: "opencode_run list \<Rightarrow> nat" where
  "count_active rows = length (filter (\<lambda>r. active_status (ru_status r)) rows)"

definition count_status :: "run_status \<Rightarrow> opencode_run list \<Rightarrow> nat" where
  "count_status st rows = length (filter (\<lambda>r. ru_status r = st) rows)"

text \<open>\<open>counts_by_status\<close>: a status without rows is left out of the dictionary.\<close>

definition counts_by_status :: "opencode_run list \<Rightarrow> (run_status \<times> nat) list" where
  "counts_by_status rows =
     filter (\<lambda>(st, n). n \<noteq> 0) (map (\<lambda>st. (st, count_status st rows)) [Queued, Running])"

definition list_running :: "opencode_run list \<Rightarrow> opencode_run list" where
  "list_running = filter (\<lambda>r. ru_status r = Running)"

definition recent_outcome_counts :: "stamp \<Rightarrow> opencode_run list \<Rightarrow> nat \<times> nat \<times> nat" where
  "recent_outcome_counts since rows =
     (let recent = filter (\<lambda>r. ru_created_at r > since) rows
      in (count_status Run_Failed recent, count_status Run_Timeout recent,
          sum_list (map ru_permission_denied_count recent)))"

definition recent_retryable_runs :: "stamp \<Rightarrow> opencode_run list \<Rightarrow> opencode_run list" where
  "recent_retryable_runs since rows = runs_newest_first
     (filter (\<lambda>r. ru_created_at r > since \<and> ru_status r \<in> {Run_Failed, Run_Timeout}) rows)"

definition runs_sweep :: "instant \<Rightarrow> nat \<Rightarrow> nat \<Rightarrow> nat runs_op" where
  "runs_sweep now max_entries retention_days = transaction (\<lambda>rows.
     let keep = ru_id ` set (take max_entries (runs_newest_first rows));
         kept = delete_where (\<lambda>r. ru_created_at r < retention_cutoff now retention_days \<or> ru_id r \<notin> keep) rows
     in (Inr (length rows - length kept), kept))"

definition increment_intervention_count :: "string \<Rightarrow> nat runs_op" where
  "increment_intervention_count run_id = transaction (
     op_bind (asks (\<lambda>rows. length (filter (\<lambda>r. ru_id r = run_id) rows))) (\<lambda>rowcount.
     op_then (put (update_where (\<lambda>r. ru_id r = run_id)
                (\<lambda>r. r\<lparr>ru_intervention_count := ru_intervention_count r + 1\<rparr>)))
       (op_then (demand (rowcount = 1) Row_Assertion)
         (op_bind (fetch_run run_id) (\<lambda>r. ret (ru_intervention_count r))))))"

definition restarted :: string where
  "restarted = ''daemon restarted''"

definition sweep_stale_on_boot :: "instant \<Rightarrow> nat runs_op" where
  "sweep_stale_on_boot now = transaction (
     op_bind (asks count_active) (\<lambda>rowcount.
     op_then (put (update_where (\<lambda>r. active_status (ru_status r))
       (\<lambda>r. r\<lparr>ru_status := Run_Failed, ru_error_detail := restarted, ru_completed_at := Some (iso now)\<rparr>)))
       (ret rowcount)))"

section \<open>Requests\<close>

record run_request =
  rr_prompt :: string
  rr_session_id :: "string option"
  rr_continue_last :: bool
  rr_fork :: bool
  rr_model :: "string option"
  rr_agent :: "string option"
  rr_auto_approve :: "bool option"

text \<open>\<open>RunRequest.__post_init__\<close>: what is not refused.\<close>

definition request_ok :: "run_request \<Rightarrow> bool" where
  "request_ok q \<longleftrightarrow> \<not> (rr_session_id q \<noteq> None \<and> rr_continue_last q)
     \<and> \<not> (rr_fork q \<and> rr_session_id q = None \<and> \<not> rr_continue_last q)"

definition nudge_continuation_prompt :: string where
  "nudge_continuation_prompt = ''Continue from where you left off. If you are stuck or waiting on something, '' @
     ''state plainly what you need.''"

definition build_retry_request :: "opencode_run \<Rightarrow> run_request" where
  "build_retry_request r = \<lparr>rr_prompt = ru_prompt r, rr_session_id = None, rr_continue_last = False,
     rr_fork = False, rr_model = ru_model r, rr_agent = ru_agent r, rr_auto_approve = None\<rparr>"

definition build_nudge_request :: "opencode_run \<Rightarrow> run_request" where
  "build_nudge_request r = \<lparr>rr_prompt = nudge_continuation_prompt, rr_session_id = ru_session_id r,
     rr_continue_last = False, rr_fork = False, rr_model = ru_model r, rr_agent = ru_agent r,
     rr_auto_approve = None\<rparr>"

end
