(* ===== verification/Opencode_Service.thy ===== *)
theory Opencode_Service
  imports Opencode_Runs
begin

text \<open>
  The run service (\<open>opencode/service.py\<close>): admission, the task that drives a run, cancellation,
  the intake switch and interventions. One task is the sequence of its await-free stretches, so
  that two submissions, a cancellation or an intervention may fall between any two of them.
\<close>

section \<open>State\<close>

datatype trace_event = Submitted run_request | Run_Started | Run_Event | Run_Outcome run_status
  | Run_Cancelled | Intervention opencode_action intervention_status string

text \<open>
  What \<open>_execute\<close> has done: nothing yet; it read its clock and waits for the \<open>running\<close> row; the
  runner is under way and has reported that many events.
\<close>

datatype exec_phase = Unstarted | Starting instant | Driving instant nat

record oc_settings =
  os_max_prompt_chars :: nat
  os_queue_max_depth :: nat
  os_intake_paused_on_boot :: bool

record oc_service =
  oc_runs :: "opencode_run list"
  oc_intake_paused :: bool
  oc_tasks :: "(string \<times> exec_phase) list"
  oc_last_event :: "(string \<times> stamp) list"
  oc_trace :: "(string option \<times> trace_event) list"

type_synonym 'a oc_op = "(oc_service, opencode_error, 'a) op"

definition new_service :: "oc_settings \<Rightarrow> opencode_run list \<Rightarrow> oc_service" where
  "new_service st rows = \<lparr>oc_runs = rows, oc_intake_paused = os_intake_paused_on_boot st, oc_tasks = [],
     oc_last_event = [], oc_trace = []\<rparr>"

definition on_runs :: "'a runs_op \<Rightarrow> 'a oc_op" where
  "on_runs m s = (case m (oc_runs s) of (r, rows) \<Rightarrow> (r, s\<lparr>oc_runs := rows\<rparr>))"

definition record_trace :: "string option \<Rightarrow> trace_event \<Rightarrow> unit oc_op" where
  "record_trace run_id ev = put (\<lambda>s. s\<lparr>oc_trace := oc_trace s @ [(run_id, ev)]\<rparr>)"

definition phase_of :: "string \<Rightarrow> oc_service \<Rightarrow> exec_phase option" where
  "phase_of run_id s = map_of (oc_tasks s) run_id"

definition set_phase :: "string \<Rightarrow> exec_phase \<Rightarrow> unit oc_op" where
  "set_phase run_id ph = put (\<lambda>s. s\<lparr>oc_tasks := dict_put run_id ph (oc_tasks s)\<rparr>)"

definition forget_task :: "string \<Rightarrow> unit oc_op" where
  "forget_task run_id = put (\<lambda>s. s\<lparr>oc_tasks := filter (\<lambda>(i, _). i \<noteq> run_id) (oc_tasks s),
     oc_last_event := filter (\<lambda>(i, _). i \<noteq> run_id) (oc_last_event s)\<rparr>)"

section \<open>Admission\<close>

text \<open>
  \<open>submit\<close> up to the answer of \<open>count_active\<close>, and from there: the two halves run in different
  turns of the event loop.
\<close>

definition submit_check :: "oc_settings \<Rightarrow> run_request \<Rightarrow> unit oc_op" where
  "submit_check st q =
     op_bind (asks oc_intake_paused) (\<lambda>paused.
     op_then (demand (\<not> paused) OpencodeIntakePausedError)
     (op_then (demand (\<not> length (rr_prompt q) > os_max_prompt_chars st) (OpencodeRunFailedError (length (rr_prompt q))))
     (op_bind (asks (\<lambda>s. count_active (oc_runs s))) (\<lambda>active.
       demand (\<not> active \<ge> os_queue_max_depth st) (OpencodeBusyError (os_queue_max_depth st))))))"

definition submit_create :: "run_request \<Rightarrow> string option \<Rightarrow> instant \<Rightarrow> string \<Rightarrow> opencode_run oc_op" where
  "submit_create q retry_of now run_id =
     op_bind (on_runs (run_create run_id (iso now) (rr_prompt q) (rr_session_id q) (rr_model q) (rr_agent q) retry_of)) (\<lambda>r.
     op_then (record_trace (Some (ru_id r)) (Submitted q))
     (op_then (set_phase (ru_id r) Unstarted) (ret r)))"

definition submit :: "oc_settings \<Rightarrow> run_request \<Rightarrow> string option \<Rightarrow> instant \<Rightarrow> string \<Rightarrow> opencode_run oc_op" where
  "submit st q retry_of now run_id = op_then (submit_check st q) (submit_create q retry_of now run_id)"

definition pause_intake :: "unit oc_op" where
  "pause_intake = put (\<lambda>s. s\<lparr>oc_intake_paused := True\<rparr>)"

definition resume_intake :: "unit oc_op" where
  "resume_intake = put (\<lambda>s. s\<lparr>oc_intake_paused := False\<rparr>)"

section \<open>Driving a run\<close>

definition seconds_between :: "instant \<Rightarrow> instant \<Rightarrow> rat" where
  "seconds_between a b = of_int (b - a) / 1000000"

definition execute_begin :: "string \<Rightarrow> instant \<Rightarrow> unit oc_op" where
  "execute_begin run_id start = set_phase run_id (Starting start)"

definition execute_running :: "string \<Rightarrow> instant \<Rightarrow> unit oc_op" where
  "execute_running run_id start =
     op_then (on_runs (update_status run_id Running (no_changes\<lparr>rc_started_at := Some (iso start)\<rparr>)))
     (op_then (record_trace (Some run_id) Run_Started)
     (set_phase run_id (Driving start 0)))"

definition execute_event :: "string \<Rightarrow> instant \<Rightarrow> nat \<Rightarrow> instant \<Rightarrow> unit oc_op" where
  "execute_event run_id start n now =
     op_then (set_phase run_id (Driving start (n + 1)))
     (op_then (put (\<lambda>s. s\<lparr>oc_last_event := dict_put run_id (iso now) (oc_last_event s)\<rparr>))
     (record_trace (Some run_id) Run_Event))"

datatype runner_status = Completed | Runner_Failed | Runner_Timeout

record run_outcome =
  ro_status :: runner_status
  ro_exit_code :: "int option"
  ro_events_emitted :: nat
  ro_events_skipped :: nat
  ro_duration :: rat
  ro_truncated :: bool
  ro_error :: "string option"

fun terminal_of :: "runner_status \<Rightarrow> run_status" where
  "terminal_of Completed = Succeeded"
| "terminal_of Runner_Failed = Run_Failed"
| "terminal_of Runner_Timeout = Run_Timeout"

definition execute_outcome :: "string \<Rightarrow> nat \<Rightarrow> run_outcome \<Rightarrow> instant \<Rightarrow> unit oc_op" where
  "execute_outcome run_id n out now =
     op_then (record_trace (Some run_id) (Run_Outcome (terminal_of (ro_status out))))
     (op_then (on_runs (update_status run_id (terminal_of (ro_status out)) (no_changes\<lparr>rc_completed_at := Some (iso now),
         rc_exit_code := ro_exit_code out, rc_error_detail := Some (coalesce (ro_error out) []),
         rc_event_count := Some n, rc_parse_error_count := Some (ro_events_skipped out),
         rc_duration := Some (ro_duration out)\<rparr>)))
     (forget_task run_id))"

text \<open>\<open>task.cancel()\<close> once the task has started: the \<open>except asyncio.CancelledError\<close> branch.\<close>

definition execute_cancelled :: "string \<Rightarrow> instant \<Rightarrow> nat \<Rightarrow> instant \<Rightarrow> instant \<Rightarrow> unit oc_op" where
  "execute_cancelled run_id start n now later =
     op_then (record_trace (Some run_id) Run_Cancelled)
     (op_then (on_runs (update_status run_id Cancelled (no_changes\<lparr>rc_completed_at := Some (iso later),
         rc_duration := Some (seconds_between start now), rc_event_count := Some n\<rparr>)))
     (forget_task run_id))"

text \<open>
  \<open>cancel\<close>. A task cancelled before its first turn never enters the body of \<open>_execute\<close>: the
  exception is thrown into a coroutine that has not started, so only the done-callback runs.
\<close>

definition cancel_run :: "string \<Rightarrow> instant \<Rightarrow> instant \<Rightarrow> bool oc_op" where
  "cancel_run run_id now later s = (case phase_of run_id s of
     None \<Rightarrow> (Inr False, s)
   | Some Unstarted \<Rightarrow> op_then (forget_task run_id) (ret True) s
   | Some (Starting start) \<Rightarrow> op_then (execute_cancelled run_id start 0 now later) (ret True) s
   | Some (Driving start n) \<Rightarrow> op_then (execute_cancelled run_id start n now later) (ret True) s)"

section \<open>Interventions\<close>

definition retryable :: "run_status \<Rightarrow> bool" where
  "retryable st \<longleftrightarrow> st \<in> {Run_Failed, Run_Timeout}"

definition status_name :: "run_status \<Rightarrow> string" where
  "status_name st = (case st of Queued \<Rightarrow> ''queued'' | Running \<Rightarrow> ''running'' | Succeeded \<Rightarrow> ''succeeded''
     | Run_Failed \<Rightarrow> ''failed'' | Run_Timeout \<Rightarrow> ''timeout'' | Cancelled \<Rightarrow> ''cancelled'')"

text \<open>\<open>repr\<close> of a text without quotes, backslashes and control characters.\<close>

definition py_repr :: "string \<Rightarrow> string" where
  "py_repr s = [CHR 0x27] @ s @ [CHR 0x27]"

definition compact_unsupported :: string where
  "compact_unsupported = ''opencode has no CLI entry point for compact (only '' @
     ''POST /api/session/{id}/compact over its HTTP API, which '' @
     ''OpencodeCliRunner's one-shot subprocess model cannot reach)''"

text \<open>A resubmission: the new run first, then the count of the run it answers.\<close>

definition resubmit :: "oc_settings \<Rightarrow> opencode_run \<Rightarrow> run_request \<Rightarrow> string \<Rightarrow> instant \<Rightarrow> string \<Rightarrow>
    (intervention_status \<times> string) oc_op" where
  "resubmit st r q said now new_id =
     op_bind (submit st q (Some (ru_id r)) now new_id) (\<lambda>new.
     op_then (on_runs (increment_intervention_count (ru_id r)))
       (ret (APPLIED, said @ ru_id new)))"

definition apply_intervention ::
  "oc_settings \<Rightarrow> string option \<Rightarrow> opencode_action \<Rightarrow> instant \<Rightarrow> string \<Rightarrow> (intervention_status \<times> string) oc_op" where
  "apply_intervention st run_id action now new_id =
     (if action = PAUSE_INTAKE
      then op_then pause_intake
        (op_then (case run_id of None \<Rightarrow> ret () | Some i \<Rightarrow> op_then (on_runs (increment_intervention_count i)) (ret ()))
        (op_then (record_trace run_id (Intervention action APPLIED ''intake paused''))
          (ret (APPLIED, ''intake paused''))))
      else case run_id of
        None \<Rightarrow> raise Row_Assertion
      | Some i \<Rightarrow> op_bind (asks (\<lambda>s. find_run i (oc_runs s))) (\<lambda>found. case found of
          None \<Rightarrow> ret (ERROR, ''run '' @ py_repr i @ '' not found'')
        | Some r \<Rightarrow>
            (if action = RETRY \<and> \<not> retryable (ru_status r)
             then ret (DECLINED, ''run is '' @ py_repr (status_name (ru_status r)) @ '', not retryable'')
             else op_bind
               (case action of
                  RETRY \<Rightarrow> resubmit st r (build_retry_request r) ''resubmitted as '' now new_id
                | NUDGE \<Rightarrow> resubmit st r (build_nudge_request r) ''nudged via new run '' now new_id
                | COMPACT \<Rightarrow> op_then (on_runs (increment_intervention_count i)) (ret (UNSUPPORTED, compact_unsupported))
                | _ \<Rightarrow> raise Row_Assertion)
               (\<lambda>(outcome, detail). op_then (record_trace run_id (Intervention action outcome detail))
                  (ret (outcome, detail))))))"

end
