(* ===== verification/Opencode_Lifecycle.thy ===== *)
theory Opencode_Lifecycle
  imports Opencode_Service
begin

text \<open>
  The life of a run under every interleaving of submissions, turns of the tasks, cancellations,
  interventions and the intake switch: a step relation over the operations of
  \<open>Opencode_Service\<close>, its invariant, the bound on the backlog, and what never changes once a run
  has ended.
\<close>

section \<open>Changes of the table\<close>

definition status_edge :: "run_status \<Rightarrow> run_status \<Rightarrow> bool" where
  "status_edge a b \<longleftrightarrow> (a = Queued \<and> b \<in> {Running, Cancelled})
     \<or> (a = Running \<and> b \<in> {Succeeded, Run_Failed, Run_Timeout, Cancelled})"

definition bump_count :: "opencode_run \<Rightarrow> opencode_run" where
  "bump_count r = r\<lparr>ru_intervention_count := ru_intervention_count r + 1\<rparr>"

text \<open>One change of the table by the service: a new queued row, one edge of one row, one count.\<close>

inductive table_step :: "opencode_run list \<Rightarrow> opencode_run list \<Rightarrow> bool" where
  same: "table_step rows rows"
| append: "i \<notin> ru_id ` set rows \<Longrightarrow> table_step rows (rows @ [new_run i t p s m a q])"
| move: "\<lbrakk>find_run i rows = Some r; status_edge (ru_status r) st; (rc_completed_at ch \<noteq> None) = terminal_status st;
          rc_intervention_count ch = None\<rbrakk>
    \<Longrightarrow> table_step rows (update_where (\<lambda>q. ru_id q = i) (apply_changes st ch) rows)"
| count: "table_step rows (update_where (\<lambda>q. ru_id q = i) bump_count rows)"

lemma edge_not_terminal: "status_edge a b \<Longrightarrow> \<not> terminal_status a"
  by (auto simp: status_edge_def terminal_status_def)

lemma active_or_terminal: "terminal_status st \<longleftrightarrow> \<not> active_status st"
  by (cases st) (simp_all add: terminal_status_def active_status_def)

lemma change_fields [simp]:
  "ru_id (apply_changes st ch r) = ru_id r" "ru_status (apply_changes st ch r) = st"
  "ru_id (bump_count r) = ru_id r" "ru_status (bump_count r) = ru_status r" "ru_completed_at (bump_count r) = ru_completed_at r"
  "ru_id (new_run i t p s m a q) = i" "ru_status (new_run i t p s m a q) = Queued"
  "ru_completed_at (new_run i t p s m a q) = None"
  by (simp_all add: apply_changes_def bump_count_def new_run_def)

lemma find_run_iff: "unique_by ru_id rows \<Longrightarrow> find_run i rows = Some r \<longleftrightarrow> r \<in> set rows \<and> ru_id r = i"
  unfolding find_run_def by (rule find_unique_iff)

lemma find_run_None: "find_run i rows = None \<longleftrightarrow> i \<notin> ru_id ` set rows"
  unfolding find_run_def by (rule find_None_key)

definition table_ok :: "opencode_run list \<Rightarrow> bool" where
  "table_ok rows \<longleftrightarrow> unique_by ru_id rows
     \<and> (\<forall>r \<in> set rows. ru_completed_at r \<noteq> None \<longleftrightarrow> terminal_status (ru_status r))"

lemma table_ok_unique [dest]: "table_ok rows \<Longrightarrow> unique_by ru_id rows"
  by (simp add: table_ok_def)

lemma table_step_ok: "table_step rows rows' \<Longrightarrow> table_ok rows \<Longrightarrow> table_ok rows'"
proof (induction rule: table_step.induct)
  case (move i rows r st ch)
  have uniq: "unique_by ru_id rows" using move(5) by blast
  have "ru_completed_at q = None" if "q \<in> set rows" "ru_id q = i" for q
  proof -
    have "find_run i rows = Some q" using find_run_iff [OF uniq] that by blast
    then have "\<not> terminal_status (ru_status q)" using move(1,2) edge_not_terminal by auto
    then show ?thesis using move(5) that(1) by (cases "ru_completed_at q") (auto simp: table_ok_def)
  qed
  then have "ru_completed_at (apply_changes st ch q) \<noteq> None \<longleftrightarrow> terminal_status st" if "q \<in> set rows" "ru_id q = i" for q
    using move(3) that by (cases "rc_completed_at ch") (simp_all add: apply_changes_def)
  with move(5) show ?case by (auto simp: table_ok_def)
qed (auto simp: table_ok_def terminal_status_def)

text \<open>A run that has ended stays what it is, its intervention count apart.\<close>

definition frozen :: "opencode_run \<Rightarrow> opencode_run \<Rightarrow> bool" where
  "frozen r r' \<longleftrightarrow> r\<lparr>ru_intervention_count := 0\<rparr> = r'\<lparr>ru_intervention_count := 0\<rparr>
     \<and> ru_intervention_count r \<le> ru_intervention_count r'"

lemma frozen_refl: "frozen r r" and frozen_trans: "frozen p q \<Longrightarrow> frozen q r \<Longrightarrow> frozen p r"
  and frozen_bump: "frozen r (bump_count r)"
  by (simp_all add: frozen_def bump_count_def)

lemma frozen_status: "frozen r r' \<Longrightarrow> ru_status r' = ru_status r \<and> ru_id r' = ru_id r"
  by (cases r, cases r') (simp add: frozen_def)

lemma table_step_frozen:
  assumes "table_step rows rows'" and "table_ok rows" and "r \<in> set rows" and "terminal_status (ru_status r)"
  shows "\<exists>r' \<in> set rows'. frozen r r'"
  using assms
proof (induction rule: table_step.induct)
  case (move i rows q st ch)
  have "find_run (ru_id r) rows = Some r" using find_run_iff move(5,6) by blast
  then have "ru_id r \<noteq> i" using move(1,2,7) edge_not_terminal by auto
  then have "r \<in> set (update_where (\<lambda>q. ru_id q = i) (apply_changes st ch) rows)"
    using move(6) by (force simp: set_update_where)
  then show ?case using frozen_refl by blast
next
  case (count rows i)
  then have "(if ru_id r = i then bump_count r else r) \<in> set (update_where (\<lambda>q. ru_id q = i) bump_count rows)"
    by (force simp: set_update_where)
  then show ?case using frozen_refl frozen_bump by metis
qed (auto intro: frozen_refl)

definition active_ids :: "opencode_run list \<Rightarrow> string set" where
  "active_ids rows = {i. \<exists>r. find_run i rows = Some r \<and> active_status (ru_status r)}"

lemma count_active_card:
  assumes "unique_by ru_id rows"
  shows "count_active rows = card (active_ids rows)"
proof -
  let ?a = "filter (\<lambda>r. active_status (ru_status r)) rows"
  have "active_ids rows = set (map ru_id ?a)"
    using find_run_iff [OF assms] by (auto simp: active_ids_def)
  moreover have "distinct (map ru_id ?a)" using assms by (simp add: unique_by_def distinct_map_filter)
  ultimately show ?thesis by (metis count_active_def distinct_card length_map)
qed

lemma find_run_update:
  assumes "\<And>r. ru_id (f r) = ru_id r"
  shows "find_run j (update_where (\<lambda>q. ru_id q = i) f rows) = map_option (if j = i then f else id) (find_run j rows)"
  unfolding find_run_def update_where_def using assms by (induction rows) auto

lemma find_run_append: "find_run j (rows @ [r]) = (case find_run j rows of None \<Rightarrow> if ru_id r = j then Some r else None | Some q \<Rightarrow> Some q)"
  unfolding find_run_def by (induction rows) auto

lemma active_ids_changes:
  "active_ids (update_where (\<lambda>q. ru_id q = i) bump_count rows) = active_ids rows"
  "find_run i rows = Some r \<Longrightarrow> active_ids (update_where (\<lambda>q. ru_id q = i) (apply_changes st ch) rows)
     = (if active_status st then insert i (active_ids rows) else active_ids rows - {i})"
  "i \<notin> ru_id ` set rows \<Longrightarrow> active_ids (rows @ [new_run i t p s m a q]) = insert i (active_ids rows)"
proof -
  assume f: "i \<notin> ru_id ` set rows"
  then have "find_run i rows = None" by (simp add: find_run_None)
  then show "active_ids (rows @ [new_run i t p s m a q]) = insert i (active_ids rows)"
    by (auto simp: active_ids_def find_run_append active_status_def split: option.splits)
qed (auto simp: active_ids_def find_run_update)

section \<open>What the repository's mutators do\<close>

lemma filter_by_id:
  "unique_by ru_id rows \<Longrightarrow> filter (\<lambda>r. ru_id r = i \<and> P r) rows
     = (case find_run i rows of None \<Rightarrow> [] | Some r \<Rightarrow> if P r then [r] else [])"
proof (induction rows)
  case (Cons x rows)
  show ?case
  proof (cases "ru_id x = i")
    case True
    then have "filter (\<lambda>r. ru_id r = i \<and> P r) rows = []" using Cons.prems by (simp add: unique_by_def filter_empty_conv) (metis imageI)
    with True show ?thesis by (simp add: find_run_def)
  qed (use Cons in \<open>simp add: unique_by_def find_run_def\<close>)
qed (simp add: find_run_def)

lemma update_where_cong: "(\<And>r. r \<in> set rows \<Longrightarrow> p r = q r) \<Longrightarrow> update_where p f rows = update_where q f rows"
  by (simp add: update_where_def)

lemma update_status_run:
  assumes "unique_by ru_id rows" and "find_run i rows = Some r"
  shows "update_status i st ch rows =
    (if terminal_status (ru_status r) then (Inl Row_Assertion, rows)
     else (Inr (apply_changes st ch r), update_where (\<lambda>q. ru_id q = i) (apply_changes st ch) rows))"
proof -
  have "update_where (\<lambda>q. ru_id q = i \<and> \<not> terminal_status (ru_status q)) (apply_changes st ch) rows
      = update_where (\<lambda>q. ru_id q = i) (apply_changes st ch) rows" if "\<not> terminal_status (ru_status r)"
    by (rule update_where_cong) (use that assms in \<open>auto simp: find_run_iff dest: unique_byD\<close>)
  then show ?thesis
    using assms by (simp add: update_status_def Let_def op_simps fetch_run_def filter_by_id find_run_update)
qed

lemma update_status_missing: "unique_by ru_id rows \<Longrightarrow> find_run i rows = None \<Longrightarrow> update_status i st ch rows = (Inl Row_Assertion, rows)"
  by (simp add: update_status_def Let_def op_simps filter_by_id)

lemma increment_run:
  assumes "unique_by ru_id rows"
  shows "increment_intervention_count i rows = (case find_run i rows of
     None \<Rightarrow> (Inl Row_Assertion, rows)
   | Some r \<Rightarrow> (Inr (ru_intervention_count r + 1), update_where (\<lambda>q. ru_id q = i) bump_count rows))"
proof -
  have b: "(\<lambda>r. r\<lparr>ru_intervention_count := Suc (ru_intervention_count r)\<rparr>) = bump_count" by (simp add: fun_eq_iff bump_count_def)
  show ?thesis
    using filter_by_id [OF assms, of i "\<lambda>_. True"]
    by (simp add: increment_intervention_count_def op_simps fetch_run_def find_run_update b split: option.splits)
      (simp add: bump_count_def)
qed

lemma create_run:
  "run_create i t p s m a q rows =
     (if i \<in> ru_id ` set rows then (Inl Row_Clash, rows) else (Inr (new_run i t p s m a q), rows @ [new_run i t p s m a q]))"
  by (simp add: run_create_def op_simps Let_def)

text \<open>Crash recovery: nothing is active afterwards, and what had ended is untouched.\<close>

lemma boot_sweep:
  assumes "table_ok rows"
  shows "\<exists>rows'. sweep_stale_on_boot now rows = (Inr (count_active rows), rows') \<and> table_ok rows'
    \<and> active_ids rows' = {} \<and> map ru_id rows' = map ru_id rows"
proof -
  let ?f = "\<lambda>r. r\<lparr>ru_status := Run_Failed, ru_error_detail := restarted, ru_completed_at := Some (iso now)\<rparr>"
  let ?rows = "update_where (\<lambda>r. active_status (ru_status r)) ?f rows"
  have ids: "map ru_id ?rows = map ru_id rows" by (simp add: update_where_def)
  have "table_ok ?rows"
    using assms by (auto simp: table_ok_def active_or_terminal active_status_def)
  moreover have "active_ids ?rows = {}"
    by (auto simp: active_ids_def find_run_def active_status_def set_update_where dest!: find_in_set split: if_splits)
  ultimately show ?thesis using ids by (simp add: sweep_stale_on_boot_def op_simps)
qed

section \<open>Steps\<close>

type_synonym admissions = "(run_request \<times> string option) list"

text \<open>
  The service, the submissions that have passed the checks of \<open>submit\<close> and not yet written their
  row, and the ids of the runs whose task ended without a terminal status: cancelled before its
  first turn, or ended by an exception of the runner.
\<close>

type_synonym oc_state = "oc_service \<times> admissions \<times> string list"

inductive oc_step :: "oc_settings \<Rightarrow> oc_state \<Rightarrow> oc_state \<Rightarrow> bool" for st where
  admitted: "submit_check st q s = (Inr (), s') \<Longrightarrow> oc_step st (s, adm, lost) (s', adm @ [(q, retry)], lost)"
| created: "(q, retry) \<in> set adm \<Longrightarrow> submit_create q retry now i s = (res, s')
    \<Longrightarrow> oc_step st (s, adm, lost) (s', remove1 (q, retry) adm, lost)"
| begun: "phase_of i s = Some Unstarted \<Longrightarrow> execute_begin i start s = (res, s')
    \<Longrightarrow> oc_step st (s, adm, lost) (s', adm, lost)"
| started: "phase_of i s = Some (Starting start) \<Longrightarrow> execute_running i start s = (res, s')
    \<Longrightarrow> oc_step st (s, adm, lost) (s', adm, lost)"
| reported: "phase_of i s = Some (Driving start n) \<Longrightarrow> execute_event i start n now s = (res, s')
    \<Longrightarrow> oc_step st (s, adm, lost) (s', adm, lost)"
| ended: "phase_of i s = Some (Driving start n) \<Longrightarrow> execute_outcome i n out now s = (res, s')
    \<Longrightarrow> oc_step st (s, adm, lost) (s', adm, lost)"
| raised: "phase_of i s = Some (Driving start n) \<Longrightarrow> forget_task i s = (res, s')
    \<Longrightarrow> oc_step st (s, adm, lost) (s', adm, lost @ [i])"
| cancelled: "cancel_run i now later s = (res, s')
    \<Longrightarrow> oc_step st (s, adm, lost) (s', adm, if phase_of i s = Some Unstarted then lost @ [i] else lost)"
| intervened: "action \<notin> {RETRY, NUDGE} \<Longrightarrow> apply_intervention st target action now i s = (res, s')
    \<Longrightarrow> oc_step st (s, adm, lost) (s', adm, lost)"
| counted: "on_runs (increment_intervention_count i) s = (res, s')
    \<Longrightarrow> oc_step st (s, adm, lost) (s', adm, lost)"
| recorded: "record_trace target ev s = (res, s') \<Longrightarrow> oc_step st (s, adm, lost) (s', adm, lost)"
| resumed: "resume_intake s = (res, s') \<Longrightarrow> oc_step st (s, adm, lost) (s', adm, lost)"

text \<open>At most \<open>k\<close> submissions are under way at any time.\<close>

inductive oc_reach :: "oc_settings \<Rightarrow> nat \<Rightarrow> oc_state \<Rightarrow> oc_state \<Rightarrow> bool" for st k x where
  start: "oc_reach st k x x"
| step: "oc_reach st k x y \<Longrightarrow> oc_step st y z \<Longrightarrow> length (fst (snd z)) \<le> k \<Longrightarrow> oc_reach st k x z"

section \<open>The invariant\<close>

definition phase_status :: "exec_phase \<Rightarrow> run_status" where
  "phase_status ph = (case ph of Driving start n \<Rightarrow> Running | _ \<Rightarrow> Queued)"

definition task_ids :: "oc_service \<Rightarrow> string set" where
  "task_ids s = dom (\<lambda>i. phase_of i s)"

definition tasks_ok :: "oc_service \<Rightarrow> bool" where
  "tasks_ok s \<longleftrightarrow> distinct (map fst (oc_tasks s))
     \<and> (\<forall>i ph. phase_of i s = Some ph \<longrightarrow> (\<exists>r. find_run i (oc_runs s) = Some r \<and> ru_status r = phase_status ph))"

definition oc_ok :: "oc_state \<Rightarrow> bool" where
  "oc_ok = (\<lambda>(s, adm, lost). table_ok (oc_runs s) \<and> tasks_ok s \<and> distinct lost
     \<and> task_ids s \<inter> set lost = {} \<and> active_ids (oc_runs s) = task_ids s \<union> set lost)"

lemma phase_of_set [simp]:
  "phase_of j (s\<lparr>oc_tasks := dict_put i ph (oc_tasks s)\<rparr>) = (if j = i then Some ph else phase_of j s)"
  by (simp add: phase_of_def)

lemma map_of_filter_key: "map_of (filter (\<lambda>(i, _). i \<noteq> k) kvs) j = (if j = k then None else map_of kvs j)"
  by (induction kvs) auto

lemma phase_of_forget [simp]:
  "phase_of j (s\<lparr>oc_tasks := filter (\<lambda>(i, _). i \<noteq> k) (oc_tasks s), oc_last_event := le\<rparr>)
     = (if j = k then None else phase_of j s)"
  by (simp add: phase_of_def map_of_filter_key)

lemma phase_of_frame [simp]:
  "phase_of j (s\<lparr>oc_runs := rows\<rparr>) = phase_of j s" "phase_of j (s\<lparr>oc_trace := tr\<rparr>) = phase_of j s"
  "phase_of j (s\<lparr>oc_intake_paused := b\<rparr>) = phase_of j s" "phase_of j (s\<lparr>oc_last_event := le\<rparr>) = phase_of j s"
  by (simp_all add: phase_of_def)

lemma distinct_keys_filter: "distinct (map fst kvs) \<Longrightarrow> distinct (map fst (filter p kvs))"
  by (simp add: distinct_map_filter)

definition same_tasks :: "oc_service \<Rightarrow> oc_service \<Rightarrow> bool" where
  "same_tasks s s' \<longleftrightarrow> (\<forall>j. phase_of j s' = phase_of j s) \<and> map fst (oc_tasks s') = map fst (oc_tasks s)"

lemma ok_rows: "oc_ok (s, adm, lost) \<Longrightarrow> table_ok (oc_runs s)"
  by (simp add: oc_ok_def)

lemma ok_task:
  assumes "oc_ok (s, adm, lost)" and "phase_of i s = Some ph"
  obtains r where "find_run i (oc_runs s) = Some r" "ru_status r = phase_status ph"
proof -
  have "\<exists>r. find_run i (oc_runs s) = Some r \<and> ru_status r = phase_status ph"
    using assms by (simp add: oc_ok_def tasks_ok_def)
  then show ?thesis using that by blast
qed

lemma ok_frame:
  assumes "oc_ok (s, adm, lost)" and "same_tasks s s'" and "oc_runs s' = oc_runs s"
  shows "oc_ok (s', adm', lost)"
  using assms by (simp add: oc_ok_def tasks_ok_def task_ids_def same_tasks_def)

lemma ok_counted:
  assumes "oc_ok (s, adm, lost)" and "same_tasks s s'" and "oc_runs s' = update_where (\<lambda>q. ru_id q = j) bump_count (oc_runs s)"
  shows "oc_ok (s', adm', lost)"
proof -
  have "\<exists>r. find_run i (oc_runs s') = Some r \<and> ru_status r = phase_status ph" if "phase_of i s' = Some ph" for i ph
  proof -
    from that assms(2) have "phase_of i s = Some ph" by (simp add: same_tasks_def)
    then obtain r where "find_run i (oc_runs s) = Some r" "ru_status r = phase_status ph" by (rule ok_task [OF assms(1)])
    then show ?thesis by (auto simp: assms(3) find_run_update)
  qed
  moreover have "table_ok (oc_runs s')"
    using table_step_ok [OF table_step.count ok_rows [OF assms(1)]] by (simp add: assms(3))
  moreover have "active_ids (oc_runs s') = active_ids (oc_runs s)" "task_ids s' = task_ids s"
    using assms(2,3) by (simp_all add: active_ids_changes(1) task_ids_def same_tasks_def)
  ultimately show ?thesis
    using assms(1,2) by (simp add: oc_ok_def tasks_ok_def same_tasks_def)
qed

lemma ok_created:
  assumes "oc_ok (s, adm, lost)" and "i \<notin> ru_id ` set (oc_runs s)"
    and "oc_runs s' = oc_runs s @ [new_run i t p se m a q]"
    and "\<And>j. phase_of j s' = (if j = i then Some Unstarted else phase_of j s)" and "distinct (map fst (oc_tasks s'))"
  shows "oc_ok (s', adm', lost)"
proof -
  have new: "find_run i (oc_runs s) = None" using assms(2) by (simp add: find_run_None)
  then have "i \<notin> active_ids (oc_runs s)" by (simp add: active_ids_def)
  moreover have "table_ok (oc_runs s')"
    using table_step_ok [OF table_step.append [OF assms(2)] ok_rows [OF assms(1)]] by (simp add: assms(3))
  moreover have "\<exists>r. find_run j (oc_runs s') = Some r \<and> ru_status r = phase_status ph" if "phase_of j s' = Some ph" for j ph
  proof (cases "j = i")
    case True
    with that assms(3,4) new show ?thesis by (simp add: find_run_append phase_status_def)
  next
    case False
    with that assms(4) have "phase_of j s = Some ph" by simp
    then obtain r where "find_run j (oc_runs s) = Some r" "ru_status r = phase_status ph" by (rule ok_task [OF assms(1)])
    with assms(3) show ?thesis by (simp add: find_run_append)
  qed
  moreover have "task_ids s' = insert i (task_ids s)" by (auto simp: task_ids_def assms(4) dom_def)
  ultimately show ?thesis
    using assms(1,3,5) active_ids_changes(3) [OF assms(2)] by (auto simp: oc_ok_def tasks_ok_def)
qed

lemma ok_advanced:
  assumes "oc_ok (s, adm, lost)" and "phase_of i s = Some ph" and "find_run i (oc_runs s) = Some r"
    and "oc_runs s' = oc_runs s \<and> phase_status ph' = phase_status ph
      \<or> oc_runs s' = update_where (\<lambda>q. ru_id q = i) (apply_changes (phase_status ph') ch) (oc_runs s)
        \<and> status_edge (ru_status r) (phase_status ph') \<and> rc_completed_at ch = None \<and> rc_intervention_count ch = None"
    and "\<And>j. phase_of j s' = (if j = i then Some ph' else phase_of j s)" and "distinct (map fst (oc_tasks s'))"
  shows "oc_ok (s', adm', lost)"
proof -
  have active: "active_status (phase_status ph')" by (cases ph') (simp_all add: phase_status_def active_status_def)
  have "i \<in> task_ids s" using assms(2) by (auto simp: task_ids_def)
  then have ids: "task_ids s' = task_ids s" "i \<in> active_ids (oc_runs s)"
    using assms(1) by (auto simp: task_ids_def assms(5) dom_def oc_ok_def)
  have "table_ok (oc_runs s')"
    using assms(4) table_step_ok [OF table_step.move [OF assms(3)] ok_rows [OF assms(1)]] ok_rows [OF assms(1)] active
    by (auto simp: active_or_terminal)
  moreover have "active_ids (oc_runs s') = active_ids (oc_runs s)"
    using assms(4) active_ids_changes(2) [OF assms(3)] active ids(2) by auto
  moreover have "\<exists>q. find_run j (oc_runs s') = Some q \<and> ru_status q = phase_status ps" if p: "phase_of j s' = Some ps" for j ps
  proof (cases "j = i")
    case True
    obtain q where "find_run i (oc_runs s) = Some q" "ru_status q = phase_status ph" by (rule ok_task [OF assms(1,2)])
    with True p assms(4,5) show ?thesis by (auto simp: find_run_update)
  next
    case False
    with p assms(5) have "phase_of j s = Some ps" by simp
    then obtain q where "find_run j (oc_runs s) = Some q" "ru_status q = phase_status ps" by (rule ok_task [OF assms(1)])
    with False assms(4) show ?thesis by (auto simp: find_run_update)
  qed
  ultimately show ?thesis using assms(1,6) ids(1) by (auto simp: oc_ok_def tasks_ok_def)
qed

lemma ok_dropped:
  assumes "oc_ok (s, adm, lost)" and "phase_of i s = Some ph" and "find_run i (oc_runs s) = Some r"
    and "oc_runs s' = oc_runs s \<and> lost' = lost @ [i]
      \<or> oc_runs s' = update_where (\<lambda>q. ru_id q = i) (apply_changes st ch) (oc_runs s) \<and> lost' = lost
        \<and> status_edge (ru_status r) st \<and> terminal_status st \<and> rc_completed_at ch \<noteq> None \<and> rc_intervention_count ch = None"
    and "\<And>j. phase_of j s' = (if j = i then None else phase_of j s)" and "distinct (map fst (oc_tasks s'))"
  shows "oc_ok (s', adm', lost')"
proof -
  have i: "i \<in> task_ids s" using assms(2) by (auto simp: task_ids_def)
  then have fresh: "i \<notin> set lost" using assms(1) by (auto simp: oc_ok_def)
  have ids: "task_ids s' = task_ids s - {i}" by (auto simp: task_ids_def assms(5) dom_def split: if_splits)
  have "table_ok (oc_runs s')"
    using assms(4) table_step_ok [OF table_step.move [OF assms(3)] ok_rows [OF assms(1)]] ok_rows [OF assms(1)] by auto
  moreover have "\<exists>q. find_run j (oc_runs s') = Some q \<and> ru_status q = phase_status ps" if p: "phase_of j s' = Some ps" for j ps
  proof -
    have j: "j \<noteq> i" "phase_of j s = Some ps" using p assms(5) by (auto split: if_splits)
    obtain q where "find_run j (oc_runs s) = Some q" "ru_status q = phase_status ps" by (rule ok_task [OF assms(1) j(2)])
    with j(1) assms(4) show ?thesis by (auto simp: find_run_update)
  qed
  moreover have "active_ids (oc_runs s') = task_ids s' \<union> set lost'"
    using assms(1,4) active_ids_changes(2) [OF assms(3)] i ids fresh
    by (auto simp: oc_ok_def active_or_terminal)
  moreover have "distinct lost'" "task_ids s' \<inter> set lost' = {}"
    using assms(1,4) fresh ids by (auto simp: oc_ok_def)
  ultimately show ?thesis using assms(6) by (simp add: oc_ok_def tasks_ok_def)
qed

section \<open>What the operations of the service do\<close>

lemma same_tasks_frame [simp]:
  "same_tasks s (s\<lparr>oc_runs := rows\<rparr>)" "same_tasks s (s\<lparr>oc_trace := tr\<rparr>)" "same_tasks s (s\<lparr>oc_intake_paused := b\<rparr>)"
  "same_tasks s s" "same_tasks s (s\<lparr>oc_intake_paused := b, oc_trace := tr\<rparr>)"
  "same_tasks s (s\<lparr>oc_runs := rows, oc_trace := tr\<rparr>)"
  "same_tasks s (s\<lparr>oc_runs := rows, oc_intake_paused := b\<rparr>)"
  "same_tasks s (s\<lparr>oc_runs := rows, oc_intake_paused := b, oc_trace := tr\<rparr>)"
  by (simp_all add: same_tasks_def phase_of_def)

lemma submit_check_run:
  "submit_check st q s = (if oc_intake_paused s then (Inl OpencodeIntakePausedError, s)
     else if length (rr_prompt q) > os_max_prompt_chars st then (Inl (OpencodeRunFailedError (length (rr_prompt q))), s)
     else if count_active (oc_runs s) \<ge> os_queue_max_depth st then (Inl (OpencodeBusyError (os_queue_max_depth st)), s)
     else (Inr (), s))"
  by (simp add: submit_check_def op_simps)

lemma submit_create_run:
  "submit_create q retry_of now i s =
    (if i \<in> ru_id ` set (oc_runs s) then (Inl Row_Clash, s)
     else let r = new_run i (iso now) (rr_prompt q) (rr_session_id q) (rr_model q) (rr_agent q) retry_of
          in (Inr r, s\<lparr>oc_runs := oc_runs s @ [r], oc_tasks := dict_put i Unstarted (oc_tasks s),
                       oc_trace := oc_trace s @ [(Some i, Submitted q)]\<rparr>))"
  by (simp add: submit_create_def on_runs_def create_run op_simps record_trace_def set_phase_def Let_def)

lemma execute_running_run:
  assumes "oc_ok (s, adm, lost)" and "phase_of i s = Some (Starting start)"
  shows "execute_running i start s = (Inr (), s\<lparr>oc_runs := update_where (\<lambda>q. ru_id q = i)
      (apply_changes Running (no_changes\<lparr>rc_started_at := Some (iso start)\<rparr>)) (oc_runs s),
    oc_trace := oc_trace s @ [(Some i, Run_Started)], oc_tasks := dict_put i (Driving start 0) (oc_tasks s)\<rparr>)"
proof -
  obtain r where r: "find_run i (oc_runs s) = Some r" "ru_status r = phase_status (Starting start)"
    by (rule ok_task [OF assms])
  then have live: "\<not> terminal_status (ru_status r)" by (simp add: phase_status_def terminal_status_def)
  have "unique_by ru_id (oc_runs s)" using ok_rows [OF assms(1)] by blast
  from update_status_run [OF this r(1)] live show ?thesis
    by (simp add: execute_running_def on_runs_def record_trace_def set_phase_def op_simps)
qed

text \<open>The two ways a started task ends the run: the row assertion never fires.\<close>

lemma finish_run:
  assumes "oc_ok (s, adm, lost)" and "phase_of i s = Some ph"
  shows "update_status i st ch (oc_runs s) = (Inr (apply_changes st ch (the (find_run i (oc_runs s)))),
    update_where (\<lambda>q. ru_id q = i) (apply_changes st ch) (oc_runs s))"
proof -
  obtain r where r: "find_run i (oc_runs s) = Some r" "ru_status r = phase_status ph" by (rule ok_task [OF assms])
  then have live: "\<not> terminal_status (ru_status r)" by (cases ph) (simp_all add: phase_status_def terminal_status_def)
  have "unique_by ru_id (oc_runs s)" using ok_rows [OF assms(1)] by blast
  from update_status_run [OF this r(1)] live r show ?thesis by simp
qed

definition outcome_changes :: "nat \<Rightarrow> run_outcome \<Rightarrow> instant \<Rightarrow> run_changes" where
  "outcome_changes n out now = no_changes\<lparr>rc_completed_at := Some (iso now),
     rc_exit_code := ro_exit_code out, rc_error_detail := Some (coalesce (ro_error out) []),
     rc_event_count := Some n, rc_parse_error_count := Some (ro_events_skipped out),
     rc_duration := Some (ro_duration out)\<rparr>"

definition cancel_changes :: "instant \<Rightarrow> nat \<Rightarrow> instant \<Rightarrow> instant \<Rightarrow> run_changes" where
  "cancel_changes start n now later = no_changes\<lparr>rc_completed_at := Some (iso later),
     rc_duration := Some (seconds_between start now), rc_event_count := Some n\<rparr>"

definition ended_state :: "string \<Rightarrow> run_status \<Rightarrow> run_changes \<Rightarrow> trace_event \<Rightarrow> oc_service \<Rightarrow> oc_service" where
  "ended_state i st ch ev s = s\<lparr>oc_runs := update_where (\<lambda>q. ru_id q = i) (apply_changes st ch) (oc_runs s),
     oc_trace := oc_trace s @ [(Some i, ev)], oc_tasks := filter (\<lambda>(j, _). j \<noteq> i) (oc_tasks s),
     oc_last_event := filter (\<lambda>(j, _). j \<noteq> i) (oc_last_event s)\<rparr>"

lemma execute_outcome_run:
  assumes "oc_ok (s, adm, lost)" and "phase_of i s = Some ph"
  shows "execute_outcome i n out now s = (Inr (), ended_state i (terminal_of (ro_status out)) (outcome_changes n out now)
    (Run_Outcome (terminal_of (ro_status out))) s)"
  using finish_run [OF assms]
  by (simp add: execute_outcome_def on_runs_def record_trace_def forget_task_def op_simps ended_state_def outcome_changes_def)

lemma execute_cancelled_run:
  assumes "oc_ok (s, adm, lost)" and "phase_of i s = Some ph"
  shows "execute_cancelled i start n now later s = (Inr (), ended_state i Cancelled (cancel_changes start n now later) Run_Cancelled s)"
  using finish_run [OF assms]
  by (simp add: execute_cancelled_def on_runs_def record_trace_def forget_task_def op_simps ended_state_def cancel_changes_def)

lemma ended_state_fields:
  "phase_of j (ended_state i st ch ev s) = (if j = i then None else phase_of j s)"
  "oc_runs (ended_state i st ch ev s) = update_where (\<lambda>q. ru_id q = i) (apply_changes st ch) (oc_runs s)"
  "distinct (map fst (oc_tasks s)) \<Longrightarrow> distinct (map fst (oc_tasks (ended_state i st ch ev s)))"
  by (simp_all add: ended_state_def phase_of_def map_of_filter_key distinct_keys_filter)

lemma cancel_run_run:
  assumes "oc_ok (s, adm, lost)"
  shows "cancel_run i now later s = (case phase_of i s of
     None \<Rightarrow> (Inr False, s)
   | Some Unstarted \<Rightarrow> (Inr True, snd (forget_task i s))
   | Some (Starting start) \<Rightarrow> (Inr True, ended_state i Cancelled (cancel_changes start 0 now later) Run_Cancelled s)
   | Some (Driving start n) \<Rightarrow> (Inr True, ended_state i Cancelled (cancel_changes start n now later) Run_Cancelled s))"
  using execute_cancelled_run [OF assms]
  by (auto simp: cancel_run_def op_simps forget_task_def split: option.splits exec_phase.splits)

text \<open>Interventions that submit nothing: at most one count changes.\<close>

lemma intervention_frame:
  assumes "action \<notin> {RETRY, NUDGE}" and "apply_intervention st target action now i s = (res, s')"
    and "unique_by ru_id (oc_runs s)"
  shows "same_tasks s s' \<and> (oc_runs s' = oc_runs s \<or> (\<exists>j. oc_runs s' = update_where (\<lambda>q. ru_id q = j) bump_count (oc_runs s)))"
  using assms
  by (cases action; cases target)
    (auto simp: apply_intervention_def pause_intake_def on_runs_def increment_run record_trace_def op_simps
      same_tasks_def phase_of_def split: option.splits prod.splits sum.splits if_splits)

section \<open>Every step keeps the invariant\<close>

lemma submitted_frame:
  "unique_by ru_id (oc_runs s) \<Longrightarrow> on_runs (increment_intervention_count i) s = (res, s')
    \<Longrightarrow> same_tasks s s' \<and> (oc_runs s' = oc_runs s \<or> (\<exists>j. oc_runs s' = update_where (\<lambda>q. ru_id q = j) bump_count (oc_runs s)))"
  by (auto simp: on_runs_def increment_run split: option.splits)

definition good_step :: "oc_state \<Rightarrow> oc_state \<Rightarrow> bool" where
  "good_step = (\<lambda>(s, adm, lost) (s', adm', lost'). oc_ok (s', adm', lost') \<and> table_step (oc_runs s) (oc_runs s'))"

lemma good_frame:
  assumes "oc_ok (s, adm, lost)" and "same_tasks s s'"
    and "oc_runs s' = oc_runs s \<or> (\<exists>j. oc_runs s' = update_where (\<lambda>q. ru_id q = j) bump_count (oc_runs s))"
  shows "good_step (s, adm, lost) (s', adm', lost)"
  using assms(3) ok_frame [OF assms(1,2)] ok_counted [OF assms(1,2)]
  by (auto simp: good_step_def intro: table_step.intros)

lemma task_keys: "oc_ok (s, adm, lost) \<Longrightarrow> distinct (map fst (oc_tasks s))"
  by (simp add: oc_ok_def tasks_ok_def)

lemma good_created:
  assumes "oc_ok (s, adm, lost)" and "submit_create q retry now i s = (res, s')"
  shows "good_step (s, adm, lost) (s', adm', lost)"
proof (cases "i \<in> ru_id ` set (oc_runs s)")
  case True
  with assms have "s' = s" by (simp add: submit_create_run)
  with assms(1) show ?thesis by (auto intro: good_frame)
next
  case False
  let ?r = "new_run i (iso now) (rr_prompt q) (rr_session_id q) (rr_model q) (rr_agent q) retry"
  have s': "s' = s\<lparr>oc_runs := oc_runs s @ [?r], oc_tasks := dict_put i Unstarted (oc_tasks s),
                       oc_trace := oc_trace s @ [(Some i, Submitted q)]\<rparr>"
    using assms(2) False by (simp add: submit_create_run Let_def)
  have "oc_ok (s', adm', lost)"
    by (rule ok_created [OF assms(1) False]) (use task_keys [OF assms(1)] in \<open>simp_all add: s' phase_of_def\<close>)
  then show ?thesis using table_step.append [OF False] by (simp add: good_step_def s')
qed

lemma good_ended:
  assumes ok: "oc_ok (s, adm, lost)" and ph: "phase_of i s = Some ph"
    and edge: "status_edge (phase_status ph) st" "terminal_status st"
    and ch: "rc_completed_at ch \<noteq> None" "rc_intervention_count ch = None"
  shows "good_step (s, adm, lost) (ended_state i st ch ev s, adm', lost)"
proof -
  obtain r where r: "find_run i (oc_runs s) = Some r" "ru_status r = phase_status ph" by (rule ok_task [OF ok ph])
  have "oc_ok (ended_state i st ch ev s, adm', lost)"
    by (rule ok_dropped [OF ok ph r(1)]) (use edge ch r(2) task_keys [OF ok] in \<open>simp_all add: ended_state_fields\<close>)
  moreover have "table_step (oc_runs s) (oc_runs (ended_state i st ch ev s))"
    using table_step.move [OF r(1)] edge ch r(2) by (simp add: ended_state_fields)
  ultimately show ?thesis by (simp add: good_step_def)
qed

lemma good_lost:
  assumes ok: "oc_ok (s, adm, lost)" and ph: "phase_of i s = Some ph"
  shows "good_step (s, adm, lost) (snd (forget_task i s), adm', lost @ [i])"
proof -
  obtain r where r: "find_run i (oc_runs s) = Some r" by (rule ok_task [OF ok ph])
  have "oc_ok (snd (forget_task i s), adm', lost @ [i])"
    by (rule ok_dropped [OF ok ph r])
      (use task_keys [OF ok] in \<open>simp_all add: forget_task_def op_simps distinct_keys_filter phase_of_def map_of_filter_key\<close>)
  then show ?thesis by (simp add: good_step_def forget_task_def op_simps table_step.same)
qed

lemma good_advanced:
  assumes ok: "oc_ok (s, adm, lost)" and ph: "phase_of i s = Some ph" and same: "phase_status ph' = phase_status ph"
    and s': "oc_runs s' = oc_runs s" "oc_tasks s' = dict_put i ph' (oc_tasks s)"
  shows "good_step (s, adm, lost) (s', adm', lost)"
proof -
  obtain r where r: "find_run i (oc_runs s) = Some r" by (rule ok_task [OF ok ph])
  have "oc_ok (s', adm', lost)"
    by (rule ok_advanced [OF ok ph r, where ph' = ph']) (use task_keys [OF ok] same s' in \<open>simp_all add: phase_of_def\<close>)
  then show ?thesis using s'(1) by (simp add: good_step_def table_step.same)
qed

lemma good_started:
  assumes ok: "oc_ok (s, adm, lost)" and ph: "phase_of i s = Some (Starting start)"
    and run: "execute_running i start s = (res, s')"
  shows "good_step (s, adm, lost) (s', adm', lost)"
proof -
  obtain r where r: "find_run i (oc_runs s) = Some r" "ru_status r = phase_status (Starting start)"
    by (rule ok_task [OF ok ph])
  let ?ch = "no_changes\<lparr>rc_started_at := Some (iso start)\<rparr>"
  have s': "s' = s\<lparr>oc_runs := update_where (\<lambda>q. ru_id q = i) (apply_changes Running ?ch) (oc_runs s),
    oc_trace := oc_trace s @ [(Some i, Run_Started)], oc_tasks := dict_put i (Driving start 0) (oc_tasks s)\<rparr>"
    using run execute_running_run [OF ok ph] by simp
  have edge: "status_edge (ru_status r) Running" "rc_completed_at ?ch = None" "rc_intervention_count ?ch = None"
    using r(2) by (simp_all add: status_edge_def phase_status_def no_changes_def)
  have "oc_ok (s', adm', lost)"
    by (rule ok_advanced [OF ok ph r(1), where ph' = "Driving start 0" and ch = ?ch])
      (use task_keys [OF ok] edge in \<open>simp_all add: s' phase_of_def phase_status_def\<close>)
  moreover have "table_step (oc_runs s) (oc_runs s')"
    using table_step.move [OF r(1) edge(1), of ?ch] edge by (simp add: s' terminal_status_def)
  ultimately show ?thesis by (simp add: good_step_def)
qed

lemma terminal_of_terminal: "terminal_status (terminal_of x)" "status_edge Running (terminal_of x)"
  by (cases x; simp add: terminal_status_def status_edge_def)+

lemma changes_complete:
  "rc_completed_at (outcome_changes n out now) \<noteq> None" "rc_intervention_count (outcome_changes n out now) = None"
  "rc_completed_at (cancel_changes start n now later) \<noteq> None" "rc_intervention_count (cancel_changes start n now later) = None"
  by (simp_all add: outcome_changes_def cancel_changes_def no_changes_def)

lemma good_cancelled:
  assumes ok: "oc_ok (s, adm, lost)" and run: "cancel_run i now later s = (res, s')"
  shows "good_step (s, adm, lost) (s', adm', if phase_of i s = Some Unstarted then lost @ [i] else lost)"
proof (cases "phase_of i s")
  case None
  with run cancel_run_run [OF ok, of i now later] have "s' = s" by simp
  with ok None show ?thesis by (auto intro: good_frame)
next
  case (Some ph)
  have edge: "status_edge (phase_status ph) Cancelled" "terminal_status Cancelled"
    by (cases ph; simp add: status_edge_def phase_status_def terminal_status_def)+
  note fin = good_ended [OF ok Some edge changes_complete(3,4)]
  show ?thesis
    using run cancel_run_run [OF ok, of i now later] Some fin good_lost [OF ok Some]
    by (cases ph) auto
qed

lemma oc_step_good:
  assumes "oc_step st x y" and "oc_ok x"
  shows "good_step x y"
  using assms
proof (induction rule: oc_step.induct)
  case (admitted q s s' adm lost retry)
  then have "s' = s" by (simp add: submit_check_run split: if_splits)
  with admitted show ?case by (auto intro: good_frame)
next
  case (created q retry adm now i s res s' lost)
  then show ?case by (blast intro: good_created)
next
  case (begun i s start res s' adm lost)
  then show ?case
    by (intro good_advanced [where ph' = "Starting start"]) (auto simp: execute_begin_def set_phase_def op_simps phase_status_def)
next
  case (started i s start res s' adm lost)
  then show ?case by (blast intro: good_started)
next
  case (reported i s start n now res s' adm lost)
  then show ?case
    by (intro good_advanced [where ph' = "Driving start (n + 1)"])
      (auto simp: execute_event_def set_phase_def record_trace_def op_simps phase_status_def)
next
  case (ended i s start n out now res s' adm lost)
  then have "s' = ended_state i (terminal_of (ro_status out)) (outcome_changes n out now) (Run_Outcome (terminal_of (ro_status out))) s"
    using execute_outcome_run by fastforce
  moreover have "status_edge (phase_status (Driving start n)) (terminal_of (ro_status out))"
    using terminal_of_terminal by (simp add: phase_status_def)
  ultimately show ?case
    using good_ended [OF ended.prems ended.hyps(1) _ terminal_of_terminal(1) changes_complete(1,2)] by metis
next
  case (raised i s start n res s' adm lost)
  then show ?case using good_lost by fastforce
next
  case (cancelled i now later s res s' adm lost)
  then show ?case by (blast intro: good_cancelled)
next
  case (intervened action target now i s res s' adm lost)
  then show ?case using intervention_frame [OF intervened.hyps(1,2)] ok_rows by (blast intro: good_frame)
next
  case (counted i s res s' adm lost)
  then show ?case using submitted_frame [OF _ counted.hyps] ok_rows by (blast intro: good_frame)
next
  case (recorded target ev s res s' adm lost)
  then show ?case by (intro good_frame) (auto simp: record_trace_def op_simps)
next
  case (resumed s res s' adm lost)
  then show ?case by (intro good_frame) (auto simp: resume_intake_def op_simps)
qed

section \<open>Runs from a booted service\<close>

definition booted :: "oc_settings \<Rightarrow> instant \<Rightarrow> opencode_run list \<Rightarrow> oc_service" where
  "booted st now rows = new_service st (snd (sweep_stale_on_boot now rows))"

lemma booted_ok:
  assumes "table_ok rows"
  shows "oc_ok (booted st now rows, [], [])" "active_ids (oc_runs (booted st now rows)) = {}"
    "table_ok (oc_runs (booted st now rows))"
proof -
  obtain rows' where b: "sweep_stale_on_boot now rows = (Inr (count_active rows), rows')" "table_ok rows'" "active_ids rows' = {}"
    using boot_sweep [OF assms] by blast
  then show "active_ids (oc_runs (booted st now rows)) = {}" "table_ok (oc_runs (booted st now rows))"
    by (simp_all add: booted_def new_service_def)
  with b show "oc_ok (booted st now rows, [], [])"
    by (simp add: oc_ok_def tasks_ok_def task_ids_def phase_of_def booted_def new_service_def)
qed

lemma oc_reach_ok: "oc_reach st k x y \<Longrightarrow> oc_ok x \<Longrightarrow> oc_ok y"
proof (induction rule: oc_reach.induct)
  case (step y z)
  then show ?case using oc_step_good [OF step.hyps(2)] by (auto simp: good_step_def)
qed

lemma oc_reach_frozen:
  assumes "oc_reach st k x y" and "oc_ok x" and "r \<in> set (oc_runs (fst x))" and "terminal_status (ru_status r)"
  shows "\<exists>r' \<in> set (oc_runs (fst y)). frozen r r'"
  using assms
proof (induction rule: oc_reach.induct)
  case (step y z)
  then obtain r' where r': "r' \<in> set (oc_runs (fst y))" "frozen r r'" by blast
  have "oc_ok y" using oc_reach_ok [OF step.hyps(1) step.prems(1)] .
  then have "table_step (oc_runs (fst y)) (oc_runs (fst z))" "table_ok (oc_runs (fst y))"
    using oc_step_good [OF step.hyps(2)] by (auto simp: good_step_def oc_ok_def)
  moreover have "terminal_status (ru_status r')" using frozen_status [OF r'(2)] step.prems(3) by simp
  ultimately obtain r'' where "r'' \<in> set (oc_runs (fst z))" "frozen r' r''" using table_step_frozen r'(1) by blast
  with r'(2) frozen_trans show ?case by blast
qed (use frozen_refl in blast)

definition backlog :: "oc_state \<Rightarrow> nat" where
  "backlog = (\<lambda>(s, adm, lost). length (oc_tasks s) + length adm + length lost)"

lemma backlog_count:
  assumes "oc_ok (s, adm, lost)"
  shows "backlog (s, adm, lost) = count_active (oc_runs s) + length adm"
proof -
  have parts: "table_ok (oc_runs s)" "active_ids (oc_runs s) = task_ids s \<union> set lost"
    "distinct (map fst (oc_tasks s))" "distinct lost" "task_ids s \<inter> set lost = {}"
    using assms by (simp_all add: oc_ok_def tasks_ok_def)
  have "task_ids s = set (map fst (oc_tasks s))"
    by (simp add: task_ids_def phase_of_def dom_map_of_conv_image_fst)
  then have "card (task_ids s) = length (oc_tasks s)" "finite (task_ids s)"
    using distinct_card [OF parts(3)] by simp_all
  then show ?thesis
    using count_active_card [of "oc_runs s"] parts distinct_card [OF parts(4)]
    by (simp add: table_ok_def card_Un_disjoint backlog_def)
qed

text \<open>
  C23. From a boot, whatever interleaving of submissions, task turns, cancellations and
  interventions follows: ids stay unique, a row carries a completion time exactly when its
  status is terminal, every tracked task belongs to a row whose status fits how far it got, and
  the active rows are exactly those of the tracked tasks and of the tasks that were lost. The
  backlog counted at admission is therefore the number of both, and the row assertion of
  \<open>update_status\<close> fires in none of the turns of \<open>_execute\<close>.
\<close>

theorem run_lifecycle:
  assumes "table_ok rows" and "oc_reach st k (booted st now rows, [], []) (s, adm, lost)"
  shows "table_ok (oc_runs s)
    \<and> active_ids (oc_runs s) = task_ids s \<union> set lost
    \<and> count_active (oc_runs s) = length (oc_tasks s) + length lost
    \<and> (\<forall>i ph. phase_of i s = Some ph \<longrightarrow> (\<exists>r. find_run i (oc_runs s) = Some r \<and> ru_status r = phase_status ph)
         \<and> (\<forall>n out t later start. (\<forall>u. ph = Starting u \<longrightarrow> fst (execute_running i u s) = Inr ())
              \<and> fst (execute_outcome i n out t s) = Inr () \<and> fst (execute_cancelled i start n t later s) = Inr ()))"
proof -
  have ok: "oc_ok (s, adm, lost)" by (rule oc_reach_ok [OF assms(2) booted_ok(1) [OF assms(1)]])
  then have parts: "table_ok (oc_runs s)" "active_ids (oc_runs s) = task_ids s \<union> set lost"
    by (simp_all add: oc_ok_def)
  have "count_active (oc_runs s) = length (oc_tasks s) + length lost"
    using backlog_count [OF ok] by (simp add: backlog_def)
  moreover have "\<exists>r. find_run i (oc_runs s) = Some r \<and> ru_status r = phase_status ph" if "phase_of i s = Some ph" for i ph
    using ok_task [OF ok that] by metis
  ultimately show ?thesis
    using parts(1,2) execute_running_run [OF ok] execute_outcome_run [OF ok] execute_cancelled_run [OF ok]
    by (intro conjI allI impI) simp_all
qed

text \<open>
  A run that has ended is never rewritten: in every later state its row is there with the
  same status, times, counters and text, and only its intervention count may have grown.
\<close>

theorem ended_runs_frozen:
  assumes "table_ok rows" and "oc_reach st k (booted st now rows, [], []) x" and "oc_reach st k x y"
    and "r \<in> set (oc_runs (fst x))" and "terminal_status (ru_status r)"
  shows "\<exists>r' \<in> set (oc_runs (fst y)). frozen r r'"
  by (rule oc_reach_frozen [OF assms(3) oc_reach_ok [OF assms(2) booted_ok(1) [OF assms(1)]] assms(4,5)])

section \<open>The backlog\<close>

lemma length_dict_put: "length (dict_put k v kvs) = (if k \<in> fst ` set kvs then length kvs else length kvs + 1)"
  by (induction kvs) auto

lemma length_without: "k \<in> fst ` set kvs \<Longrightarrow> length (filter (\<lambda>(i, _). i \<noteq> k) kvs) < length kvs"
  by (force intro: length_filter_less)

lemma phase_key: "phase_of i s = Some ph \<Longrightarrow> i \<in> fst ` set (oc_tasks s)"
  by (auto simp: phase_of_def dest: map_of_SomeD intro: rev_image_eqI)

lemma same_tasks_length: "same_tasks s s' \<Longrightarrow> length (oc_tasks s') = length (oc_tasks s)"
  by (metis same_tasks_def length_map)

text \<open>Only passing the checks of \<open>submit\<close> adds to the backlog.\<close>

lemma backlog_step:
  assumes "oc_step st x y" and "oc_ok x"
  shows "backlog y \<le> backlog x
    \<or> (\<exists>s adm lost qr. x = (s, adm, lost) \<and> y = (s, adm @ [qr], lost) \<and> count_active (oc_runs s) < os_queue_max_depth st)"
  using assms
proof (induction rule: oc_step.induct)
  case (admitted q s s' adm lost retry)
  then show ?case by (auto simp: submit_check_run split: if_splits)
next
  case (created q retry adm now i s res s' lost)
  have "0 < length adm" "length (remove1 (q, retry) adm) = length adm - 1"
    using created.hyps(1) by (auto simp: length_remove1)
  then show ?case
    using created.hyps(2)
    by (auto simp: backlog_def submit_create_run Let_def length_dict_put split: if_splits)
next
  case (begun i s start res s' adm lost)
  then show ?case using phase_key by (fastforce simp: backlog_def execute_begin_def set_phase_def op_simps length_dict_put)
next
  case (started i s start res s' adm lost)
  then show ?case using phase_key execute_running_run by (fastforce simp: backlog_def length_dict_put)
next
  case (reported i s start n now res s' adm lost)
  then show ?case
    using phase_key by (fastforce simp: backlog_def execute_event_def set_phase_def record_trace_def op_simps length_dict_put)
next
  case (ended i s start n out now res s' adm lost)
  then have "length (oc_tasks s') < length (oc_tasks s)"
    using execute_outcome_run [OF ended.prems ended.hyps(1)] length_without [OF phase_key [OF ended.hyps(1)]]
    by (auto simp: ended_state_def)
  then show ?case by (simp add: backlog_def)
next
  case (raised i s start n res s' adm lost)
  then have "length (oc_tasks s') < length (oc_tasks s)"
    using length_without [OF phase_key [OF raised.hyps(1)]] by (auto simp: forget_task_def op_simps)
  then show ?case by (simp add: backlog_def)
next
  case (cancelled i now later s res s' adm lost)
  show ?case
  proof (cases "phase_of i s")
    case None
    with cancelled show ?thesis by (simp add: backlog_def cancel_run_def)
  next
    case (Some ph)
    have "length (oc_tasks s') < length (oc_tasks s)"
      using cancelled cancel_run_run [OF cancelled.prems, of i now later] Some length_without [OF phase_key [OF Some]]
      by (cases ph) (auto simp: ended_state_def forget_task_def op_simps)
    then show ?thesis by (simp add: backlog_def)
  qed
next
  case (intervened action target now i s res s' adm lost)
  then have "same_tasks s s'" using intervention_frame [OF intervened.hyps(1,2)] ok_rows by blast
  then show ?case by (simp add: backlog_def same_tasks_length)
next
  case (counted i s res s' adm lost)
  then have "same_tasks s s'" using submitted_frame [OF _ counted.hyps] ok_rows by blast
  then show ?case by (simp add: backlog_def same_tasks_length)
next
  case (recorded target ev s res s' adm lost)
  then show ?case by (auto simp: backlog_def record_trace_def op_simps)
next
  case (resumed s res s' adm lost)
  then show ?case by (auto simp: backlog_def resume_intake_def op_simps)
qed

text \<open>
  C24. The backlog is bounded by the configured depth when submissions are not interleaved; when
  at most \<open>k\<close> of them are between their check and their row at any time, it exceeds the depth by
  at most \<open>k - 1\<close>.
\<close>

theorem queue_bound:
  assumes "table_ok rows" and "oc_reach st k (booted st now rows, [], []) (s, adm, lost)"
  shows "count_active (oc_runs s) + length adm \<le> os_queue_max_depth st + (k - 1)"
proof -
  have "oc_ok y \<and> backlog y \<le> os_queue_max_depth st + (k - 1)"
    if "oc_reach st k (booted st now rows, [], []) y" for y
    using that
  proof (induction rule: oc_reach.induct)
    case start
    have "backlog (booted st now rows, [], []) = 0" by (simp add: backlog_def booted_def new_service_def)
    then show ?case using booted_ok(1) [OF assms(1)] by simp
  next
    case (step y z)
    have z: "oc_ok z" using oc_step_good [OF step.hyps(2)] step.IH by (auto simp: good_step_def)
    consider (less) "backlog z \<le> backlog y"
      | (more) u ads gone qr where "y = (u, ads, gone)" "z = (u, ads @ [qr], gone)"
          "count_active (oc_runs u) < os_queue_max_depth st"
      using backlog_step [OF step.hyps(2)] step.IH by blast
    then show ?case
    proof cases
      case more
      have "backlog z = count_active (oc_runs u) + length ads + 1" using backlog_count z more by simp
      moreover have "length ads + 1 \<le> k" using step.hyps(3) more by simp
      ultimately show ?thesis using z more(3) by simp
    qed (use z step.IH in auto)
  qed
  from this [OF assms(2)] show ?thesis using backlog_count by fastforce
qed

text \<open>The excess is real: two interleaved submissions fill a queue of depth one twice.\<close>

definition tiny :: oc_settings where
  "tiny = \<lparr>os_max_prompt_chars = 9, os_queue_max_depth = 1, os_intake_paused_on_boot = False\<rparr>"

definition hello_run :: run_request where
  "hello_run = \<lparr>rr_prompt = ''hello'', rr_session_id = None, rr_continue_last = False, rr_fork = False,
     rr_model = None, rr_agent = None, rr_auto_approve = None\<rparr>"

lemma queue_overrun:
  "\<exists>s. oc_reach tiny 2 (booted tiny 0 [], [], []) (s, [], []) \<and> count_active (oc_runs s) = 2"
proof -
  let ?b = "booted tiny 0 []"
  let ?q = "(hello_run, None :: string option)"
  have boot: "oc_runs ?b = []" "oc_intake_paused ?b = False"
    by (simp_all add: booted_def new_service_def sweep_stale_on_boot_def op_simps update_where_def)
      (simp add: tiny_def)
  have check: "submit_check tiny hello_run ?b = (Inr (), ?b)"
    using boot by (simp add: submit_check_run count_active_def) (simp add: tiny_def hello_run_def)
  have r1: "oc_reach tiny 2 (?b, [], []) (?b, [?q], [])"
    by (rule oc_reach.step [OF oc_reach.start]) (use oc_step.admitted [OF check, of "[]" "[]" None] in simp_all)
  have r2: "oc_reach tiny 2 (?b, [], []) (?b, [?q, ?q], [])"
    by (rule oc_reach.step [OF r1]) (use oc_step.admitted [OF check, of "[?q]" "[]" None] in simp_all)
  obtain x s1 where c1: "submit_create hello_run None 0 ''a'' ?b = (x, s1)" by force
  have r3: "oc_reach tiny 2 (?b, [], []) (s1, [?q], [])"
    by (rule oc_reach.step [OF r2]) (use oc_step.created [OF _ c1, of "[?q, ?q]" tiny "[]"] in simp_all)
  obtain y s2 where c2: "submit_create hello_run None 0 ''b'' s1 = (y, s2)" by force
  have r4: "oc_reach tiny 2 (?b, [], []) (s2, [], [])"
    by (rule oc_reach.step [OF r3]) (use oc_step.created [OF _ c2, of "[?q]" tiny "[]"] in simp_all)
  have "oc_runs s1 = [new_run ''a'' (iso 0) ''hello'' None None None None]"
    using c1 by (auto simp: submit_create_run boot hello_run_def Let_def)
  then have "count_active (oc_runs s2) = 2"
    using c2 by (auto simp: submit_create_run hello_run_def Let_def new_run_def count_active_def active_status_def)
  with r4 show ?thesis by blast
qed

lemma run_lifecycle_witness:
  "table_ok [] \<and> (\<exists>s. oc_reach tiny 2 (booted tiny 0 [], [], []) (s, [], [])
     \<and> count_active (oc_runs s) = 2 \<and> length (oc_tasks s) = 2)"
proof -
  obtain s where s: "oc_reach tiny 2 (booted tiny 0 [], [], []) (s, [], [])" "count_active (oc_runs s) = 2"
    using queue_overrun by blast
  have ok: "table_ok []" by (simp add: table_ok_def)
  with run_lifecycle [OF ok s(1)] s show ?thesis by auto
qed

lemma queue_bound_witness:
  "\<exists>s. oc_reach tiny 2 (booted tiny 0 [], [], []) (s, [], []) \<and> count_active (oc_runs s) \<le> os_queue_max_depth tiny + 1"
proof -
  obtain s where s: "oc_reach tiny 2 (booted tiny 0 [], [], []) (s, [], [])"
    using queue_overrun by blast
  have ok: "table_ok []" by (simp add: table_ok_def)
  from queue_bound [OF ok s] s show ?thesis by auto
qed

text \<open>A run the last process left running: the boot ends it, an intervention counts against it.\<close>

definition stale_run :: opencode_run where
  "stale_run = (new_run ''a'' (iso 0) ''hello'' None None None None)\<lparr>ru_status := Running\<rparr>"

lemma ended_runs_frozen_witness:
  "\<exists>x y r r'. oc_reach tiny 1 (booted tiny 0 [stale_run], [], []) x \<and> oc_reach tiny 1 x y \<and> r \<in> set (oc_runs (fst x))
     \<and> ru_status r = Run_Failed \<and> r' \<in> set (oc_runs (fst y)) \<and> frozen r r'"
proof -
  let ?b = "booted tiny 0 [stale_run]"
  have ok: "table_ok [stale_run]" by (simp add: table_ok_def unique_by_def stale_run_def new_run_def terminal_status_def)
  define r where "r = stale_run\<lparr>ru_status := Run_Failed, ru_error_detail := restarted, ru_completed_at := Some (iso 0)\<rparr>"
  have "active_status Running" by (simp add: active_status_def)
  then have runs: "oc_runs ?b = [r]"
    by (simp add: booted_def new_service_def sweep_stale_on_boot_def op_simps update_where_def stale_run_def r_def)
  obtain res s' where c: "on_runs (increment_intervention_count ''a'') ?b = (res, s')" by force
  have y: "oc_reach tiny 1 (?b, [], []) (s', [], [])"
    by (rule oc_reach.step [OF oc_reach.start]) (use oc_step.counted [OF c, of tiny "[]" "[]"] in simp_all)
  have r: "r \<in> set (oc_runs (fst (?b, [], [])))" "ru_status r = Run_Failed" using runs by (simp_all add: r_def)
  then have "terminal_status (ru_status r)" by (simp add: terminal_status_def)
  from ended_runs_frozen [OF ok oc_reach.start y r(1) this] r y oc_reach.start show ?thesis by fast
qed

text \<open>A run cancelled before its first turn stays queued, and counts as active until the next boot.\<close>

lemma cancelled_before_start:
  assumes "phase_of i s = Some Unstarted"
  shows "cancel_run i now later s = (Inr True, snd (forget_task i s)) \<and> oc_runs (snd (forget_task i s)) = oc_runs s"
  using assms by (simp add: cancel_run_def forget_task_def op_simps)

section \<open>What a retry does\<close>

text \<open>
  A retry of an existing run: a run that did not fail or time out is declined and nothing
  changes; when intake is paused, the prompt is too long or the queue is full the exception
  of \<open>submit\<close> escapes and nothing changes; otherwise a new queued run with the old prompt, model
  and agent, no session and a link back is there with its task, the old run's intervention count
  is one higher, and every other row is what it was.
\<close>

theorem retry_exact:
  assumes "table_ok (oc_runs s)" and "find_run i (oc_runs s) = Some r" and "j \<notin> ru_id ` set (oc_runs s)"
    and "apply_intervention st (Some i) RETRY now j s = (res, s')"
  shows "if \<not> retryable (ru_status r)
      then res = Inr (DECLINED, ''run is '' @ py_repr (status_name (ru_status r)) @ '', not retryable'') \<and> s' = s
      else if oc_intake_paused s then res = Inl OpencodeIntakePausedError \<and> s' = s
      else if length (ru_prompt r) > os_max_prompt_chars st
        then res = Inl (OpencodeRunFailedError (length (ru_prompt r))) \<and> s' = s
      else if count_active (oc_runs s) \<ge> os_queue_max_depth st
        then res = Inl (OpencodeBusyError (os_queue_max_depth st)) \<and> s' = s
      else res = Inr (APPLIED, ''resubmitted as '' @ j) \<and> phase_of j s' = Some Unstarted
        \<and> (\<forall>k. find_run k (oc_runs s') =
             (if k = j then Some (new_run j (iso now) (ru_prompt r) None (ru_model r) (ru_agent r) (Some i))
              else if k = i then Some (bump_count r) else find_run k (oc_runs s)))"
proof (cases "retryable (ru_status r)")
  case False
  with assms(2,4) show ?thesis by (simp add: apply_intervention_def op_simps)
next
  case True
  let ?q = "build_retry_request r" and ?new = "new_run j (iso now) (ru_prompt r) None (ru_model r) (ru_agent r) (Some i)"
  have i: "i = ru_id r" "i \<noteq> j" "find_run j (oc_runs s) = None"
    using assms(1-3) by (auto simp: table_ok_def find_run_iff find_run_None)
  have run: "apply_intervention st (Some i) RETRY now j s = op_bind (resubmit st r ?q ''resubmitted as '' now j)
      (\<lambda>(outcome, detail). op_then (record_trace (Some i) (Intervention RETRY outcome detail)) (ret (outcome, detail))) s"
    using True assms(2) by (simp add: apply_intervention_def op_bind_asks)
  have q: "rr_prompt ?q = ru_prompt r" "rr_session_id ?q = None" "rr_model ?q = ru_model r" "rr_agent ?q = ru_agent r"
    by (simp_all add: build_retry_request_def)
  show ?thesis
  proof (cases "submit_check st ?q s = (Inr (), s)")
    case False
    with assms(4) True run q show ?thesis
      by (auto simp: resubmit_def submit_def submit_check_run op_simps split: if_splits)
  next
    case admitted: True
    define u where "u = snd (submit_create ?q (Some i) now j s)"
    have create: "submit_create ?q (Some i) now j s = (Inr ?new, u)" "oc_runs u = oc_runs s @ [?new]" "phase_of j u = Some Unstarted"
      using assms(3) q by (simp_all add: u_def submit_create_run Let_def phase_of_def)
    have "table_ok (oc_runs u)" using table_step_ok [OF table_step.append [OF assms(3)] assms(1)] create(2) by simp
    moreover have "find_run i (oc_runs u) = Some r" using create(2) assms(2) by (simp add: find_run_append)
    ultimately have inc: "increment_intervention_count i (oc_runs u)
        = (Inr (ru_intervention_count r + 1), update_where (\<lambda>x. ru_id x = i) bump_count (oc_runs u))"
      by (simp add: increment_run table_ok_def)
    have "res = Inr (APPLIED, ''resubmitted as '' @ j)" "oc_runs s' = update_where (\<lambda>x. ru_id x = i) bump_count (oc_runs s @ [?new])"
      "phase_of j s' = Some Unstarted"
      using assms(4) run admitted create inc i(1)
      by (simp_all add: resubmit_def submit_def op_simps on_runs_def record_trace_def)
    moreover have "\<not> oc_intake_paused s" "\<not> length (ru_prompt r) > os_max_prompt_chars st"
      "\<not> count_active (oc_runs s) \<ge> os_queue_max_depth st"
      using admitted q by (simp_all add: submit_check_run split: if_splits)
    ultimately show ?thesis
      using True i assms(2) by (auto simp: find_run_update find_run_append split: option.splits)
  qed
qed

lemma retry_exact_witness:
  "\<exists>res s'. apply_intervention tiny (Some ''a'') RETRY 0 ''b'' (booted tiny 0 [stale_run]) = (res, s')
     \<and> res = Inr (APPLIED, ''resubmitted as b'') \<and> phase_of ''b'' s' = Some Unstarted"
proof -
  let ?b = "booted tiny 0 [stale_run]"
  define r where "r = stale_run\<lparr>ru_status := Run_Failed, ru_error_detail := restarted, ru_completed_at := Some (iso 0)\<rparr>"
  have "active_status Running" by (simp add: active_status_def)
  then have b: "oc_runs ?b = [r]" "\<not> oc_intake_paused ?b"
    by (simp_all add: booted_def new_service_def sweep_stale_on_boot_def op_simps update_where_def stale_run_def r_def)
      (simp add: tiny_def)
  obtain res s' where a: "apply_intervention tiny (Some ''a'') RETRY 0 ''b'' ?b = (res, s')" by force
  have r: "ru_id r = ''a''" "ru_status r = Run_Failed" "ru_prompt r = ''hello''"
    by (simp_all add: r_def stale_run_def new_run_def)
  have "table_ok (oc_runs ?b)" by (simp add: b table_ok_def unique_by_def terminal_status_def r) (simp add: r_def)
  moreover have "os_max_prompt_chars tiny = 9" "os_queue_max_depth tiny = 1" by (simp_all add: tiny_def)
  ultimately show ?thesis using retry_exact [OF _ _ _ a, of r] a
    by (simp add: b r find_run_def retryable_def count_active_def active_status_def)
qed

end
