(* ===== verification/Tick_Loop.thy ===== *)
theory Tick_Loop
  imports Tick Auth_Model
begin

text \<open>
  The autonomic loop of the Heart (\<open>heart/tick/loop.py\<close>): the state of a \<open>TickLoop\<close>, one
  tick, the counters and the circuit breaker, and the scheduling loop. The clock, the
  snapshot sources, the Heart runtime and the decision handler are fields of an environment
  over a world \<open>'w\<close>. The coroutines of one event loop interleave only where they await, so
  the step relation of the last section breaks a tick at its two awaits.
\<close>

section \<open>Configuration and state\<close>

record tick_config =
  tc_interval :: rat
  tc_max_output_tokens :: nat
  tc_jitter :: rat
  tc_max_consecutive_failures :: nat
  tc_overrun_ratio :: rat
  tc_auto_pause :: bool

text \<open>The checks of \<open>TickLoop.__init__\<close>.\<close>

definition check_config :: "tick_config \<Rightarrow> err + unit" where
  "check_config cfg =
     (if tc_interval cfg \<le> 0 then Inl ValueError
      else if tc_jitter cfg < 0 then Inl ValueError
      else if tc_max_consecutive_failures cfg < 1 then Inl ValueError
      else if tc_overrun_ratio cfg \<le> 0 then Inl ValueError
      else Inr ())"

text \<open>The two texts the breaker composes, with the numbers they quote, or an operator's.\<close>

datatype pause_reason =
    Tick_Failures nat nat
  | Tick_Overruns nat rat nat
  | Given string

record tick_state =
  ts_in_flight :: bool
  ts_paused :: bool
  ts_pause_reason :: "pause_reason option"
  ts_ticks_run :: nat
  ts_last_decision :: "decision option"
  ts_last_tick_at :: "instant option"
  ts_last_duration :: "rat option"
  ts_failures_total :: nat
  ts_consecutive_failures :: nat
  ts_consecutive_overruns :: nat
  ts_idle_total :: nat
  ts_act_total :: nat
  ts_escalate_total :: nat

definition initial_tick_state :: tick_state where
  "initial_tick_state = \<lparr>ts_in_flight = False, ts_paused = False, ts_pause_reason = None,
     ts_ticks_run = 0, ts_last_decision = None, ts_last_tick_at = None, ts_last_duration = None,
     ts_failures_total = 0, ts_consecutive_failures = 0, ts_consecutive_overruns = 0,
     ts_idle_total = 0, ts_act_total = 0, ts_escalate_total = 0\<rparr>"

definition pause :: "pause_reason option \<Rightarrow> tick_state \<Rightarrow> tick_state" where
  "pause reason s = s\<lparr>ts_paused := True, ts_pause_reason := reason\<rparr>"

definition resume :: "tick_state \<Rightarrow> tick_state" where
  "resume s = s\<lparr>ts_paused := False, ts_pause_reason := None, ts_consecutive_failures := 0,
     ts_consecutive_overruns := 0\<rparr>"

section \<open>Counters and the circuit breaker\<close>

fun record_decision :: "decision \<Rightarrow> tick_state \<Rightarrow> tick_state" where
  "record_decision IDLE s = s\<lparr>ts_idle_total := ts_idle_total s + 1\<rparr>"
| "record_decision ACT s = s\<lparr>ts_act_total := ts_act_total s + 1\<rparr>"
| "record_decision ESCALATE s = s\<lparr>ts_escalate_total := ts_escalate_total s + 1\<rparr>"

definition trip_if :: "tick_config \<Rightarrow> bool \<Rightarrow> pause_reason \<Rightarrow> tick_state \<Rightarrow> tick_state" where
  "trip_if cfg tripped reason s =
     (if \<not> tripped then s else if tc_auto_pause cfg then pause (Some reason) s else s)"

definition record_failure :: "tick_config \<Rightarrow> tick_state \<Rightarrow> tick_state" where
  "record_failure cfg s =
     (let s1 = s\<lparr>ts_failures_total := ts_failures_total s + 1,
                 ts_consecutive_failures := ts_consecutive_failures s + 1\<rparr>
      in trip_if cfg (ts_consecutive_failures s1 \<ge> tc_max_consecutive_failures cfg)
           (Tick_Failures (ts_consecutive_failures s1) (tc_max_consecutive_failures cfg)) s1)"

definition record_success :: "tick_config \<Rightarrow> rat \<Rightarrow> tick_state \<Rightarrow> tick_state" where
  "record_success cfg duration s =
     (let s1 = s\<lparr>ts_consecutive_failures := 0\<rparr>;
          s2 = (if duration \<ge> tc_interval cfg * tc_overrun_ratio cfg
                then s1\<lparr>ts_consecutive_overruns := ts_consecutive_overruns s1 + 1\<rparr>
                else s1\<lparr>ts_consecutive_overruns := 0\<rparr>)
      in trip_if cfg (ts_consecutive_overruns s2 \<ge> tc_max_consecutive_failures cfg)
           (Tick_Overruns (ts_consecutive_overruns s2) (tc_overrun_ratio cfg)
              (tc_max_consecutive_failures cfg)) s2)"

text \<open>The bookkeeping of \<open>tick_once\<close> between the reply and the handler.\<close>

definition complete_tick :: "tick_config \<Rightarrow> decision \<Rightarrow> rat \<Rightarrow> instant \<Rightarrow> tick_state \<Rightarrow> tick_state" where
  "complete_tick cfg d duration now s =
     (let s1 = s\<lparr>ts_ticks_run := ts_ticks_run s + 1, ts_last_decision := Some d\<rparr>;
          s2 = record_decision d s1;
          s3 = s2\<lparr>ts_last_tick_at := Some now, ts_last_duration := Some duration\<rparr>
      in record_success cfg duration s3)"

section \<open>One tick\<close>

record ('w, 'e) tick_env =
  te_clock :: "'w \<Rightarrow> rat \<times> 'w"
  te_now :: "'w \<Rightarrow> instant \<times> 'w"
  te_jitter :: "'w \<Rightarrow> rat \<times> 'w"
  te_stopping :: "'w \<Rightarrow> bool"
  te_wait :: "rat \<Rightarrow> 'w \<Rightarrow> bool \<times> 'w"
  te_sources :: "(tick_state \<Rightarrow> ('w, 'e, snapshot_item list) op) list"
  te_context_tokens :: nat
  te_token_count :: "string \<Rightarrow> nat"
  te_template :: template
  te_generate :: "string \<Rightarrow> nat \<Rightarrow> ('w, 'e, string) op"
  te_handler :: "decision \<Rightarrow> tick_prompt \<Rightarrow> nat \<Rightarrow> rat \<Rightarrow> tick_state \<Rightarrow> ('w, 'e, unit) op"

datatype tick_outcome = Skipped | Completed decision rat

text \<open>The body of the \<open>try\<close> of \<open>tick_once\<close>.\<close>

definition tick_body :: "tick_config \<Rightarrow> ('w, 'e) tick_env \<Rightarrow> (tick_state \<times> 'w, 'e, tick_outcome) op" where
  "tick_body cfg env = (\<lambda>(s, w).
     let (start, w1) = te_clock env w;
         (items, w2) = collect_items (map (\<lambda>source. source s) (te_sources env)) w1;
         budget_tokens = max 0 (int (te_context_tokens env) - int (tc_max_output_tokens cfg));
         prompt = build_prompt items budget_tokens (te_token_count env) (te_template env)
     in case te_generate env (tp_text prompt) (tc_max_output_tokens cfg) w2 of
          (Inl e, w3) \<Rightarrow> (Inl e, s, w3)
        | (Inr raw, w3) \<Rightarrow>
            (let decision = parse_decision raw;
                 (stop, w4) = te_clock env w3;
                 duration = stop - start;
                 (now, w5) = te_now env w4;
                 s1 = complete_tick cfg decision duration now s
             in case te_handler env decision prompt (ts_ticks_run s1) duration s1 w5 of
                  (Inl e, w6) \<Rightarrow> (Inl e, s1, w6)
                | (Inr _, w6) \<Rightarrow> (Inr (Completed decision duration), s1, w6)))"

definition tick_once :: "tick_config \<Rightarrow> ('w, 'e) tick_env \<Rightarrow> (tick_state \<times> 'w, 'e, tick_outcome) op" where
  "tick_once cfg env = (\<lambda>(s, w).
     if ts_in_flight s then (Inr Skipped, s, w)
     else case tick_body cfg env (s\<lparr>ts_in_flight := True\<rparr>, w) of
            (r, s1, w1) \<Rightarrow> (r, s1\<lparr>ts_in_flight := False\<rparr>, w1))"

section \<open>The scheduling loop\<close>

text \<open>The guarded tick in the middle of \<open>run\<close>: whatever it raises is swallowed and counted.\<close>

definition scheduled_tick :: "tick_config \<Rightarrow> ('w, 'e) tick_env \<Rightarrow> tick_state \<times> 'w \<Rightarrow> tick_state \<times> 'w" where
  "scheduled_tick cfg env = (\<lambda>(s, w).
     if ts_paused s then (s, w)
     else case tick_once cfg env (s, w) of
            (Inl e, s1, w1) \<Rightarrow> (record_failure cfg s1, w1)
          | (Inr _, s1, w1) \<Rightarrow> (s1, w1))"

text \<open>
  One iteration of \<open>run\<close> after slot \<open>n\<close>: \<open>None\<close> when it does not return, otherwise the next
  slot number, or \<open>None\<close> for a loop that was stopped while it waited.
\<close>

definition run_cycle ::
  "tick_config \<Rightarrow> ('w, 'e) tick_env \<Rightarrow> rat \<Rightarrow> nat \<Rightarrow> tick_state \<times> 'w
   \<Rightarrow> (nat option \<times> tick_state \<times> 'w) option" where
  "run_cycle cfg env start n = (\<lambda>(s, w).
     let tick_number = n + 1;
         deadline = start + of_nat tick_number * tc_interval cfg;
         (now, w1) = te_clock env w;
         (jitter, w2) = te_jitter env w1;
         (stopped, w3) = te_wait env (max 0 (deadline - now) + jitter) w2
     in if stopped then Some (None, s, w3)
        else let (s1, w4) = scheduled_tick cfg env (s, w3);
                 (later, w5) = te_clock env w4
             in (case next_tick_number tick_number start later (tc_interval cfg) of
                   None \<Rightarrow> None
                 | Some m \<Rightarrow> Some (Some m, s1, w5)))"

partial_function (option) run_from ::
  "tick_config \<Rightarrow> ('w, 'e) tick_env \<Rightarrow> rat \<Rightarrow> nat \<Rightarrow> tick_state \<times> 'w \<Rightarrow> (tick_state \<times> 'w) option" where
  "run_from cfg env start n sw =
     (if te_stopping env (snd sw) then Some sw
      else case run_cycle cfg env start n sw of
             None \<Rightarrow> None
           | Some (nxt, sw1) \<Rightarrow> (case nxt of None \<Rightarrow> Some sw1 | Some m \<Rightarrow> run_from cfg env start m sw1))"

definition run :: "tick_config \<Rightarrow> ('w, 'e) tick_env \<Rightarrow> tick_state \<times> 'w \<Rightarrow> (tick_state \<times> 'w) option" where
  "run cfg env = (\<lambda>(s, w). case te_clock env w of (start, w1) \<Rightarrow> run_from cfg env start 0 (s, w1))"

section \<open>Every interleaving\<close>

text \<open>
  While a tick awaits its sources and the model (\<open>Deciding\<close>), or its handler (\<open>Dispatching\<close>),
  other coroutines run: an operator pauses or resumes the loop, or calls \<open>tick_once\<close> itself.
  A tick that raises ends in \<open>_record_failure\<close> when \<open>run\<close> called it (\<open>tick_failed\<close>) and
  without it otherwise (\<open>tick_raised\<close>).
\<close>

datatype phase = Resting | Deciding | Dispatching

inductive loop_step :: "tick_config \<Rightarrow> phase \<times> tick_state \<Rightarrow> phase \<times> tick_state \<Rightarrow> bool" for cfg where
  paused: "loop_step cfg (p, s) (p, pause reason s)"
| resumed: "loop_step cfg (p, s) (p, resume s)"
| tick_skipped: "ts_in_flight s \<Longrightarrow> loop_step cfg (p, s) (p, s)"
| tick_started: "\<not> ts_in_flight s \<Longrightarrow> loop_step cfg (Resting, s) (Deciding, s\<lparr>ts_in_flight := True\<rparr>)"
| tick_decided: "loop_step cfg (Deciding, s) (Dispatching, complete_tick cfg d duration now s)"
| tick_finished: "loop_step cfg (Dispatching, s) (Resting, s\<lparr>ts_in_flight := False\<rparr>)"
| tick_raised: "p \<noteq> Resting \<Longrightarrow> loop_step cfg (p, s) (Resting, s\<lparr>ts_in_flight := False\<rparr>)"
| tick_failed: "p \<noteq> Resting \<Longrightarrow>
    loop_step cfg (p, s) (Resting, record_failure cfg (s\<lparr>ts_in_flight := False\<rparr>))"

inductive_cases loop_step_startE: "loop_step cfg (Resting, s) (Deciding, t)"

abbreviation loop_reach :: "tick_config \<Rightarrow> phase \<times> tick_state \<Rightarrow> phase \<times> tick_state \<Rightarrow> bool" where
  "loop_reach cfg \<equiv> (loop_step cfg)\<^sup>*\<^sup>*"

definition loop_ok :: "tick_config \<Rightarrow> phase \<times> tick_state \<Rightarrow> bool" where
  "loop_ok cfg = (\<lambda>(p, s).
     (ts_in_flight s \<longleftrightarrow> p \<noteq> Resting)
     \<and> ts_ticks_run s = ts_idle_total s + ts_act_total s + ts_escalate_total s
     \<and> (ts_last_decision s = None \<longleftrightarrow> ts_ticks_run s = 0)
     \<and> ts_consecutive_failures s \<le> ts_failures_total s
     \<and> ts_consecutive_overruns s \<le> ts_ticks_run s
     \<and> (ts_pause_reason s \<noteq> None \<longrightarrow> ts_paused s)
     \<and> (tc_auto_pause cfg \<and> \<not> ts_paused s \<longrightarrow>
          ts_consecutive_failures s < tc_max_consecutive_failures cfg
          \<and> ts_consecutive_overruns s < tc_max_consecutive_failures cfg))"

lemmas breaker_defs = pause_def resume_def trip_if_def record_failure_def record_success_def
  complete_tick_def Let_def

lemma record_decision_frame [simp]:
  "ts_in_flight (record_decision d s) = ts_in_flight s"
  "ts_paused (record_decision d s) = ts_paused s"
  "ts_pause_reason (record_decision d s) = ts_pause_reason s"
  "ts_ticks_run (record_decision d s) = ts_ticks_run s"
  "ts_last_decision (record_decision d s) = ts_last_decision s"
  "ts_last_tick_at (record_decision d s) = ts_last_tick_at s"
  "ts_last_duration (record_decision d s) = ts_last_duration s"
  "ts_failures_total (record_decision d s) = ts_failures_total s"
  "ts_consecutive_failures (record_decision d s) = ts_consecutive_failures s"
  "ts_consecutive_overruns (record_decision d s) = ts_consecutive_overruns s"
  "ts_idle_total (record_decision d s) + ts_act_total (record_decision d s) + ts_escalate_total (record_decision d s)
     = Suc (ts_idle_total s + ts_act_total s + ts_escalate_total s)"
  by (cases d; simp)+

lemma valid_config: "check_config cfg = Inr () \<longleftrightarrow>
    0 < tc_interval cfg \<and> 0 \<le> tc_jitter cfg \<and> 1 \<le> tc_max_consecutive_failures cfg \<and> 0 < tc_overrun_ratio cfg"
  by (auto simp: check_config_def)

lemma complete_tick_ok: "loop_ok cfg (Deciding, s) \<Longrightarrow> loop_ok cfg (Dispatching, complete_tick cfg d duration now s)"
  by (simp add: loop_ok_def breaker_defs)

lemma record_failure_ok:
  "loop_ok cfg (p, s) \<Longrightarrow> p \<noteq> Resting \<Longrightarrow> loop_ok cfg (Resting, record_failure cfg (s\<lparr>ts_in_flight := False\<rparr>))"
  by (auto simp: loop_ok_def breaker_defs)

lemma loop_step_ok:
  assumes "check_config cfg = Inr ()" "loop_step cfg x y" "loop_ok cfg x"
  shows "loop_ok cfg y"
  using assms(2,3)
proof cases
  case tick_decided
  then show ?thesis using assms(3) complete_tick_ok by blast
next
  case tick_failed
  then show ?thesis using assms(3) record_failure_ok by blast
qed (use assms(1,3) in \<open>auto simp: loop_ok_def pause_def resume_def valid_config\<close>)

text \<open>
  C17. In every reachable state, however pauses, resumes, competing calls and failing ticks
  interleave: at most one tick is in flight, exactly while one is being decided or dispatched;
  the three decision counters add up to the ticks run; the consecutive gauges never exceed
  their totals; a reason is only given for a paused loop; and, with auto-pause on, a loop that
  is not paused has both gauges below the limit.
\<close>

theorem tick_loop_invariant:
  assumes "check_config cfg = Inr ()" and "loop_reach cfg (Resting, initial_tick_state) (p, s)"
  shows "(ts_in_flight s \<longleftrightarrow> p \<noteq> Resting)
     \<and> ts_ticks_run s = ts_idle_total s + ts_act_total s + ts_escalate_total s
     \<and> (ts_last_decision s = None \<longleftrightarrow> ts_ticks_run s = 0)
     \<and> ts_consecutive_failures s \<le> ts_failures_total s
     \<and> ts_consecutive_overruns s \<le> ts_ticks_run s
     \<and> (ts_pause_reason s \<noteq> None \<longrightarrow> ts_paused s)
     \<and> (tc_auto_pause cfg \<and> \<not> ts_paused s \<longrightarrow>
          ts_consecutive_failures s < tc_max_consecutive_failures cfg
          \<and> ts_consecutive_overruns s < tc_max_consecutive_failures cfg)"
proof -
  have "loop_ok cfg (Resting, initial_tick_state)"
    using assms(1) by (simp add: loop_ok_def initial_tick_state_def valid_config)
  with assms(2) have "loop_ok cfg (p, s)"
    by (induction rule: rtranclp_induct) (use loop_step_ok [OF assms(1)] in blast)+
  then show ?thesis by (simp add: loop_ok_def)
qed

definition sample_config :: tick_config where
  "sample_config = \<lparr>tc_interval = 30, tc_max_output_tokens = 8, tc_jitter = 0,
     tc_max_consecutive_failures = 2, tc_overrun_ratio = 4/5, tc_auto_pause = True\<rparr>"

lemma tick_loop_invariant_witness:
  "\<exists>s. loop_reach sample_config (Resting, initial_tick_state) (Resting, s) \<and> ts_paused s
     \<and> ts_consecutive_failures s \<le> ts_failures_total s \<and> \<not> ts_in_flight s"
proof -
  let ?c = sample_config
  let ?s1 = "record_failure ?c (initial_tick_state\<lparr>ts_in_flight := True\<rparr>\<lparr>ts_in_flight := False\<rparr>)"
  let ?s2 = "record_failure ?c (?s1\<lparr>ts_in_flight := True\<rparr>\<lparr>ts_in_flight := False\<rparr>)"
  have "loop_step ?c (Resting, initial_tick_state) (Deciding, initial_tick_state\<lparr>ts_in_flight := True\<rparr>)"
    by (rule tick_started) (simp add: initial_tick_state_def)
  moreover have "loop_step ?c (Deciding, initial_tick_state\<lparr>ts_in_flight := True\<rparr>) (Resting, ?s1)"
    by (rule tick_failed) simp
  moreover have "loop_step ?c (Resting, ?s1) (Deciding, ?s1\<lparr>ts_in_flight := True\<rparr>)"
    by (rule tick_started) (simp add: breaker_defs initial_tick_state_def sample_config_def)
  moreover have "loop_step ?c (Deciding, ?s1\<lparr>ts_in_flight := True\<rparr>) (Resting, ?s2)"
    by (rule tick_failed) simp
  ultimately have reach: "loop_reach ?c (Resting, initial_tick_state) (Resting, ?s2)"
    by (meson converse_rtranclp_into_rtranclp r_into_rtranclp)
  have "check_config ?c = Inr ()" by (simp add: valid_config sample_config_def)
  note inv = tick_loop_invariant [OF this reach]
  have "ts_paused ?s2" by (simp add: breaker_defs initial_tick_state_def sample_config_def)
  with inv reach show ?thesis by blast
qed

section \<open>The code takes these steps\<close>

lemma collect_items_world: "collect_items sources w = (fst (collect_items sources w), snd (collect_items sources w))"
  by simp

text \<open>How a tick ends: before the bookkeeping, in the handler, or well.\<close>

lemma tick_body_cases:
  obtains (raised) e w' where "tick_body cfg env (s, w) = (Inl e, s, w')"
  | (handler_raised) e d duration now w' where
      "tick_body cfg env (s, w) = (Inl e, complete_tick cfg d duration now s, w')"
  | (returned) d duration now w' where
      "tick_body cfg env (s, w) = (Inr (Completed d duration), complete_tick cfg d duration now s, w')"
  by (cases "fst (tick_body cfg env (s, w))")
    (auto simp: tick_body_def Let_def split: prod.splits sum.splits)

lemma in_flight_breaker [simp]:
  "ts_in_flight (record_failure cfg s) = ts_in_flight s"
  "ts_in_flight (complete_tick cfg d duration now s) = ts_in_flight s"
  by (simp_all add: breaker_defs)

lemma in_flight_reset [simp]: "\<not> ts_in_flight s \<Longrightarrow> s\<lparr>ts_in_flight := False\<rparr> = s"
  by (cases s) simp

lemma body_reach:
  assumes "\<not> ts_in_flight s"
  shows "loop_reach cfg (Resting, s) (Deciding, s\<lparr>ts_in_flight := True\<rparr>)"
    and "loop_reach cfg (Resting, s) (Dispatching, complete_tick cfg d duration now (s\<lparr>ts_in_flight := True\<rparr>))"
proof -
  show start: "loop_reach cfg (Resting, s) (Deciding, s\<lparr>ts_in_flight := True\<rparr>)"
    using tick_started [OF assms] by blast
  show "loop_reach cfg (Resting, s) (Dispatching, complete_tick cfg d duration now (s\<lparr>ts_in_flight := True\<rparr>))"
    by (rule rtranclp.rtrancl_into_rtrancl [OF start tick_decided])
qed

lemma tick_once_reach:
  assumes idle: "\<not> ts_in_flight s" and run: "tick_once cfg env (s, w) = (r, s', w')"
  shows "loop_reach cfg (Resting, s) (Resting, s')" and "\<not> ts_in_flight s'"
    and "r = Inl e \<Longrightarrow> loop_reach cfg (Resting, s) (Resting, record_failure cfg s')"
proof -
  let ?s0 = "s\<lparr>ts_in_flight := True\<rparr>"
  have result: "s' = t\<lparr>ts_in_flight := False\<rparr>" "r = r'" if "tick_body cfg env (?s0, w) = (r', t, w1)" for r' t w1
    using run idle that by (auto simp: tick_once_def)
  note go = rtranclp.rtrancl_into_rtrancl [where r = "loop_step cfg"]
  note deciding = body_reach(1) [OF idle, of cfg]
  show "loop_reach cfg (Resting, s) (Resting, s')" "\<not> ts_in_flight s'"
    "r = Inl e \<Longrightarrow> loop_reach cfg (Resting, s) (Resting, record_failure cfg s')"
  proof (atomize (full), cases rule: tick_body_cases [of cfg env ?s0 w])
    case raised
    with result have "s' = ?s0\<lparr>ts_in_flight := False\<rparr>" by blast
    then show "loop_reach cfg (Resting, s) (Resting, s') \<and> \<not> ts_in_flight s'
        \<and> (r = Inl e \<longrightarrow> loop_reach cfg (Resting, s) (Resting, record_failure cfg s'))"
      using go [OF deciding tick_raised] go [OF deciding tick_failed] by simp
  next
    case (handler_raised e' d duration now w1)
    note dispatching = body_reach(2) [OF idle, of cfg d duration now]
    from handler_raised result have "s' = complete_tick cfg d duration now ?s0\<lparr>ts_in_flight := False\<rparr>" by blast
    then show "loop_reach cfg (Resting, s) (Resting, s') \<and> \<not> ts_in_flight s'
        \<and> (r = Inl e \<longrightarrow> loop_reach cfg (Resting, s) (Resting, record_failure cfg s'))"
      using go [OF dispatching tick_raised] go [OF dispatching tick_failed] by simp
  next
    case (returned d duration now w1)
    note dispatching = body_reach(2) [OF idle, of cfg d duration now]
    from returned result have "s' = complete_tick cfg d duration now ?s0\<lparr>ts_in_flight := False\<rparr>"
      "r = Inr (Completed d duration)" by blast+
    then show "loop_reach cfg (Resting, s) (Resting, s') \<and> \<not> ts_in_flight s'
        \<and> (r = Inl e \<longrightarrow> loop_reach cfg (Resting, s) (Resting, record_failure cfg s'))"
      using go [OF dispatching tick_finished] by simp
  qed
qed

lemma scheduled_tick_reach:
  assumes "\<not> ts_in_flight s" and "scheduled_tick cfg env (s, w) = (s', w')"
  shows "loop_reach cfg (Resting, s) (Resting, s') \<and> \<not> ts_in_flight s'"
proof (cases "ts_paused s")
  case False
  obtain r s1 w1 where t: "tick_once cfg env (s, w) = (r, s1, w1)" by (metis prod_cases3)
  note reach = tick_once_reach [OF assms(1) t]
  show ?thesis
  proof (cases r)
    case (Inl e)
    then show ?thesis using reach(2,3) t False assms(2) by (auto simp: scheduled_tick_def)
  qed (use reach t False assms(2) in \<open>simp add: scheduled_tick_def\<close>)
qed (use assms in \<open>simp add: scheduled_tick_def\<close>)

lemma run_cycle_cases:
  assumes "run_cycle cfg env start n (s, w) = Some (nxt, s', w')"
  obtains (stopped) "nxt = None" "s' = s"
  | (ticked) w3 w4 later m where "nxt = Some m" "scheduled_tick cfg env (s, w3) = (s', w4)"
      "te_clock env w4 = (later, w')" "next_tick_number (n + 1) start later (tc_interval cfg) = Some m"
proof -
  obtain now w1 where clock: "te_clock env w = (now, w1)" by force
  obtain jitter w2 where jit: "te_jitter env w1 = (jitter, w2)" by force
  obtain stop w3 where wait: "te_wait env (max 0 (start + of_nat (n + 1) * tc_interval cfg - now) + jitter) w2 = (stop, w3)"
    by force
  obtain s1 w4 where tick: "scheduled_tick cfg env (s, w3) = (s1, w4)" by force
  obtain later w5 where end_clock: "te_clock env w4 = (later, w5)" by force
  have "run_cycle cfg env start n (s, w) = (if stop then Some (None, s, w3)
      else case next_tick_number (n + 1) start later (tc_interval cfg) of
             None \<Rightarrow> None | Some m \<Rightarrow> Some (Some m, s1, w5))"
    using clock jit wait tick end_clock by (simp add: run_cycle_def Let_def)
  note run = this [unfolded assms]
  show ?thesis
  proof (cases stop)
    case True
    with run stopped show ?thesis by simp
  next
    case False
    then obtain m where m: "next_tick_number (n + 1) start later (tc_interval cfg) = Some m"
      using run by (cases "next_tick_number (n + 1) start later (tc_interval cfg)") simp_all
    with run False have "nxt = Some m" "s1 = s'" "w5 = w'" by simp_all
    then show ?thesis using ticked m tick end_clock by blast
  qed
qed

lemma run_cycle_reach:
  assumes "\<not> ts_in_flight s" and "run_cycle cfg env start n (s, w) = Some (nxt, s', w')"
  shows "loop_reach cfg (Resting, s) (Resting, s') \<and> \<not> ts_in_flight s'"
  using assms(2)
proof (cases rule: run_cycle_cases)
  case (ticked w3 w4 later m)
  show ?thesis by (rule scheduled_tick_reach [OF assms(1) ticked(2)])
next
  case stopped
  show ?thesis unfolding stopped(2) using assms(1) by (simp only: rtranclp.rtrancl_refl simp_thms)
qed

text \<open>
  C18. The code refines the step relation: from a loop at rest, a \<open>run\<close> that ends, whatever its
  clock, sources, model and handler do, has taken a sequence of steps of the relation and
  leaves the loop at rest, so the invariant holds of it.
\<close>

theorem run_refines_steps:
  assumes "run cfg env (s, w) = Some (s', w')" and "\<not> ts_in_flight s"
  shows "loop_reach cfg (Resting, s) (Resting, s') \<and> \<not> ts_in_flight s'"
proof -
  have "\<not> ts_in_flight (fst sw) \<longrightarrow>
      loop_reach cfg (Resting, fst sw) (Resting, fst sw') \<and> \<not> ts_in_flight (fst sw')"
    if "run_from cfg env start n sw = Some sw'" for start n sw sw'
  proof (rule run_from.raw_induct [where P = "\<lambda>cfg env start n sw sw'. \<not> ts_in_flight (fst sw) \<longrightarrow>
      loop_reach cfg (Resting, fst sw) (Resting, fst sw') \<and> \<not> ts_in_flight (fst sw')", OF _ that])
    fix rec cfg and env :: "('a, 'b) tick_env" and start n sw sw'
    assume IH: "\<And>cfg (env :: ('a, 'b) tick_env) start n sw sw'. rec cfg env start n sw = Some sw' \<Longrightarrow>
        \<not> ts_in_flight (fst sw) \<longrightarrow> loop_reach cfg (Resting, fst sw) (Resting, fst sw') \<and> \<not> ts_in_flight (fst sw')"
      and step: "(if te_stopping env (snd sw) then Some sw
        else case run_cycle cfg env start n sw of None \<Rightarrow> None
          | Some (nxt, sw1) \<Rightarrow> (case nxt of None \<Rightarrow> Some sw1 | Some m \<Rightarrow> rec cfg env start m sw1)) = Some sw'"
    show "\<not> ts_in_flight (fst sw) \<longrightarrow>
      loop_reach cfg (Resting, fst sw) (Resting, fst sw') \<and> \<not> ts_in_flight (fst sw')"
    proof
      assume idle: "\<not> ts_in_flight (fst sw)"
      show "loop_reach cfg (Resting, fst sw) (Resting, fst sw') \<and> \<not> ts_in_flight (fst sw')"
      proof (cases "te_stopping env (snd sw)")
        case False
        then obtain nxt sw1 where c: "run_cycle cfg env start n sw = Some (nxt, sw1)"
          "nxt = None \<and> sw' = sw1 \<or> (\<exists>m. nxt = Some m \<and> rec cfg env start m sw1 = Some sw')"
          using step by (auto split: option.splits)
        then have "loop_reach cfg (Resting, fst sw) (Resting, fst sw1) \<and> \<not> ts_in_flight (fst sw1)"
          using run_cycle_reach [of "fst sw" cfg env start n "snd sw" nxt "fst sw1" "snd sw1"] idle by simp
        with c(2) IH show ?thesis by (meson rtranclp_trans)
      qed (use step idle in auto)
    qed
  qed
  then show ?thesis using assms by (fastforce simp: run_def split: prod.splits)
qed

text \<open>A world that is a number of seconds; the loop is stopped while it waits a second time.\<close>

definition sample_env :: "(nat, unit) tick_env" where
  "sample_env = \<lparr>te_clock = (\<lambda>w. (of_nat w, w)), te_now = (\<lambda>w. (int w, w)), te_jitter = (\<lambda>w. (0, w)),
     te_stopping = (\<lambda>w. False), te_wait = (\<lambda>d w. (1 \<le> w, w + 1)), te_sources = [],
     te_context_tokens = 64, te_token_count = length, te_template = ([], []),
     te_generate = (\<lambda>text n. ret ''Act.''), te_handler = (\<lambda>d p n dur s. raise ())\<rparr>"

lemma act_reply: "parse_decision ''Act.'' = ACT"
  by code_simp

lemma next_tick_simple: "now < start + of_nat (n + 1) * interval \<Longrightarrow> next_tick_number n start now interval = Some n"
  by (subst next_tick_number.simps) simp

lemma sample_run:
  "\<exists>s'. run sample_config sample_env (initial_tick_state, 0) = Some (s', 2) \<and> ts_failures_total s' = 1
     \<and> ts_act_total s' = 1"
  by (simp add: run_def run_from.simps run_cycle_def scheduled_tick_def tick_once_def tick_body_def
      sample_env_def sample_config_def initial_tick_state_def act_reply next_tick_simple breaker_defs
      collect_items_def ret_def raise_def)

lemma run_refines_steps_witness:
  "\<exists>s'. run sample_config sample_env (initial_tick_state, 0) = Some (s', 2) \<and> ts_failures_total s' = 1
     \<and> loop_reach sample_config (Resting, initial_tick_state) (Resting, s')"
proof -
  obtain s' where s': "run sample_config sample_env (initial_tick_state, 0) = Some (s', 2)" "ts_failures_total s' = 1"
    using sample_run by blast
  have "\<not> ts_in_flight initial_tick_state" by (simp add: initial_tick_state_def)
  with s' run_refines_steps [OF s'(1)] show ?thesis by blast
qed

section \<open>Cycles\<close>

text \<open>
  C19. A cycle of \<open>run\<close> always returns, whatever its tick raises: the loop was stopped while it
  waited, or it goes on with a later slot whose successor's deadline is still ahead of the
  clock, so no slot is run twice and missed slots are dropped. A paused loop runs no tick.
\<close>

theorem cycle_returns:
  assumes "check_config cfg = Inr ()"
  shows "\<exists>nxt s' w'. run_cycle cfg env start n (s, w) = Some (nxt, s', w')
     \<and> (\<forall>m. nxt = Some m \<longrightarrow> n < m \<and> (\<exists>w4 later. te_clock env w4 = (later, w')
          \<and> later < start + of_nat (m + 1) * tc_interval cfg))
     \<and> (ts_paused s \<or> nxt = None \<longrightarrow> s' = s)"
proof -
  have pos: "0 < tc_interval cfg" using assms by (simp add: valid_config)
  obtain r where r: "run_cycle cfg env start n (s, w) = Some r"
  proof -
    have total: "(next_tick_number (Suc n) start now (tc_interval cfg) = None) = False" for now
      using next_tick_counts [OF pos order_refl, of "Suc n" start now] by auto
    have "run_cycle cfg env start n (s, w) \<noteq> None"
      by (auto simp: total run_cycle_def Let_def split: prod.splits option.splits)
    then show ?thesis using that by auto
  qed
  obtain nxt s' w' where r': "r = (nxt, s', w')" by (metis prod_cases3)
  with r have run: "run_cycle cfg env start n (s, w) = Some (nxt, s', w')" by simp
  then show ?thesis
  proof (cases rule: run_cycle_cases)
    case (ticked w3 w4 later m)
    obtain k where "n + 1 \<le> k" "next_tick_number (n + 1) start later (tc_interval cfg) = Some k"
      "later < start + of_nat (k + 1) * tc_interval cfg"
      using next_tick_counts [OF pos order_refl, of "n + 1" start later] by blast
    then have "n < m" "later < start + of_nat (m + 1) * tc_interval cfg" using ticked(4) by simp_all
    moreover have "ts_paused s \<longrightarrow> s' = s" using ticked(2) by (auto simp: scheduled_tick_def)
    ultimately show ?thesis using run ticked(1,3) by fastforce
  qed (use run in auto)
qed

lemma cycle_returns_witness:
  "check_config sample_config = Inr () \<and> (\<exists>nxt s' w'. run_cycle sample_config sample_env 0 0 (initial_tick_state, 0) = Some (nxt, s', w'))"
  using cycle_returns [of sample_config sample_env 0 0 initial_tick_state 0]
  by (auto simp: valid_config sample_config_def)

text \<open>The first \<open>k\<close> cycles of \<open>run\<close>; \<open>None\<close> in the first component when it has ended by then.\<close>

fun run_cycles ::
  "nat \<Rightarrow> tick_config \<Rightarrow> ('w, 'e) tick_env \<Rightarrow> rat \<Rightarrow> nat \<Rightarrow> tick_state \<times> 'w
   \<Rightarrow> (nat option \<times> tick_state \<times> 'w) option" where
  "run_cycles 0 cfg env start n sw = Some (Some n, sw)"
| "run_cycles (Suc k) cfg env start n sw =
     (if te_stopping env (snd sw) then Some (None, sw)
      else case run_cycle cfg env start n sw of
             None \<Rightarrow> None
           | Some (nxt, sw1) \<Rightarrow> (case nxt of None \<Rightarrow> Some (None, sw1)
                                        | Some m \<Rightarrow> run_cycles k cfg env start m sw1))"

lemma run_cycles_run: "run_cycles k cfg env start n sw = Some (None, sw') \<Longrightarrow> run_from cfg env start n sw = Some sw'"
proof (induction k arbitrary: n sw)
  case (Suc k)
  then show ?case by (subst run_from.simps) (auto split: if_splits option.splits)
qed simp

lemma run_run_cycles:
  assumes "run_from cfg env start n sw = Some sw'"
  shows "\<exists>k. run_cycles k cfg env start n sw = Some (None, sw')"
proof (rule run_from.raw_induct [where P = "\<lambda>cfg env start n sw sw'.
    \<exists>k. run_cycles k cfg env start n sw = Some (None, sw')", OF _ assms], goal_cases)
  case (1 rec cfg env start n sw sw')
  show ?case
  proof (cases "te_stopping env (snd sw)")
    case True
    with 1(2) have "run_cycles (Suc 0) cfg env start n sw = Some (None, sw')" by simp
    then show ?thesis ..
  next
    case False
    then obtain nxt sw1 where c: "run_cycle cfg env start n sw = Some (nxt, sw1)"
      "nxt = None \<and> sw' = sw1 \<or> (\<exists>m. nxt = Some m \<and> rec cfg env start m sw1 = Some sw')"
      using 1(2) by (auto split: option.splits)
    then obtain k where "nxt = None \<and> sw' = sw1 \<or> (\<exists>m. nxt = Some m \<and> run_cycles k cfg env start m sw1 = Some (None, sw'))"
      using 1(1) by metis
    then have "run_cycles (Suc k) cfg env start n sw = Some (None, sw')" using c(1) False by auto
    then show ?thesis ..
  qed
qed

text \<open>
  The unbounded loop and its first \<open>k\<close> cycles agree: \<open>run\<close> ends in a state exactly when
  some number of cycles is enough to end in it.
\<close>

lemma run_is_limit_of_cycles:
  "run_from cfg env start n sw = Some sw' \<longleftrightarrow> (\<exists>k. run_cycles k cfg env start n sw = Some (None, sw'))"
  using run_cycles_run run_run_cycles by blast

section \<open>The circuit breaker\<close>

text \<open>One scheduled tick of a loop at rest, when the model raises and when the handler raises.\<close>

lemma tick_body_run:
  obtains prompt w2 where "\<And>e w3. te_generate env (tp_text prompt) (tc_max_output_tokens cfg) w2 = (Inl e, w3)
      \<Longrightarrow> tick_body cfg env (s, w) = (Inl e, s, w3)"
    and "\<And>raw w3. te_generate env (tp_text prompt) (tc_max_output_tokens cfg) w2 = (Inr raw, w3) \<Longrightarrow>
      \<exists>d duration now w5. (\<forall>e w6. te_handler env d prompt (ts_ticks_run (complete_tick cfg d duration now s)) duration
            (complete_tick cfg d duration now s) w5 = (Inl e, w6) \<longrightarrow>
          tick_body cfg env (s, w) = (Inl e, complete_tick cfg d duration now s, w6))"
proof -
  obtain start w1 where c: "te_clock env w = (start, w1)" by force
  obtain items w2 where i: "collect_items (map (\<lambda>source. source s) (te_sources env)) w1 = (items, w2)" by force
  let ?p = "build_prompt items (max 0 (int (te_context_tokens env) - int (tc_max_output_tokens cfg)))
    (te_token_count env) (te_template env)"
  show ?thesis
  proof (rule that [of ?p w2])
    fix raw w3 assume g: "te_generate env (tp_text ?p) (tc_max_output_tokens cfg) w2 = (Inr raw, w3)"
    obtain stop w4 where c': "te_clock env w3 = (stop, w4)" by force
    obtain now w5 where n: "te_now env w4 = (now, w5)" by force
    let ?t = "complete_tick cfg (parse_decision raw) (stop - start) now s"
    have "te_handler env (parse_decision raw) ?p (ts_ticks_run ?t) (stop - start) ?t w5 = (Inl e, w6) \<Longrightarrow>
        tick_body cfg env (s, w) = (Inl e, ?t, w6)" for e w6
      by (simp add: tick_body_def c i g c' n Let_def)
    then show "\<exists>d duration now w5. (\<forall>e w6. te_handler env d ?p (ts_ticks_run (complete_tick cfg d duration now s)) duration
            (complete_tick cfg d duration now s) w5 = (Inl e, w6) \<longrightarrow>
          tick_body cfg env (s, w) = (Inl e, complete_tick cfg d duration now s, w6))"
      by blast
  qed (simp add: tick_body_def c i Let_def)
qed

lemma failing_tick:
  assumes "\<And>text n w. isl (fst (te_generate env text n w))" and "\<not> ts_in_flight s" "\<not> ts_paused s"
  shows "fst (scheduled_tick cfg env (s, w)) = record_failure cfg s"
proof -
  let ?s0 = "s\<lparr>ts_in_flight := True\<rparr>"
  obtain e w' where "tick_body cfg env (?s0, w) = (Inl e, ?s0, w')"
    by (rule tick_body_run [of env cfg ?s0 w]) (metis assms(1) isl_def prod.collapse)
  then show ?thesis using assms(2,3) by (simp add: scheduled_tick_def tick_once_def)
qed

lemma complete_tick_in_flight:
  assumes "\<not> ts_in_flight s"
  shows "complete_tick cfg d duration now (s\<lparr>ts_in_flight := True\<rparr>)\<lparr>ts_in_flight := False\<rparr>
    = complete_tick cfg d duration now s"
proof -
  have "record_decision d (t\<lparr>ts_in_flight := b\<rparr>) = record_decision d t\<lparr>ts_in_flight := b\<rparr>" for t b
    by (cases d) simp_all
  with assms show ?thesis by (cases s; cases d) (simp_all add: breaker_defs)
qed

lemma failing_handler:
  assumes "\<And>d p n dur t w. isl (fst (te_handler env d p n dur t w))"
    and "\<And>text n w. \<not> isl (fst (te_generate env text n w))" and "\<not> ts_in_flight s" "\<not> ts_paused s"
  obtains d duration now where "fst (scheduled_tick cfg env (s, w)) = record_failure cfg (complete_tick cfg d duration now s)"
proof -
  let ?s0 = "s\<lparr>ts_in_flight := True\<rparr>"
  obtain e d duration now w' where
    body: "tick_body cfg env (?s0, w) = (Inl e, complete_tick cfg d duration now ?s0, w')"
  proof (rule tick_body_run [of env cfg ?s0 w], goal_cases)
    case (1 prompt w2)
    obtain raw w3 where "te_generate env (tp_text prompt) (tc_max_output_tokens cfg) w2 = (Inr raw, w3)"
      by (metis assms(2) isl_def obj_sumE prod.collapse)
    from 1(3) [OF this] obtain d duration now w5 where
      h: "\<forall>e w6. te_handler env d prompt (ts_ticks_run (complete_tick cfg d duration now ?s0)) duration
            (complete_tick cfg d duration now ?s0) w5 = (Inl e, w6) \<longrightarrow>
          tick_body cfg env (?s0, w) = (Inl e, complete_tick cfg d duration now ?s0, w6)" by blast
    obtain e w6 where "te_handler env d prompt (ts_ticks_run (complete_tick cfg d duration now ?s0)) duration
            (complete_tick cfg d duration now ?s0) w5 = (Inl e, w6)"
      by (metis assms(1) isl_def prod.collapse)
    with h 1(1) show ?case by blast
  qed
  show ?thesis
    by (rule that [of d duration now])
      (simp add: scheduled_tick_def tick_once_def body assms(3,4) complete_tick_in_flight)
qed

text \<open>A property of the loop state that every scheduled tick keeps holds after any number of cycles.\<close>

lemma run_cycles_keep:
  assumes "\<And>s w s1 w1. P s \<Longrightarrow> scheduled_tick cfg env (s, w) = (s1, w1) \<Longrightarrow> P s1"
    and "run_cycles k cfg env start n (s, w) = Some (nxt, s', w')" and "P s"
  shows "P s'"
  using assms(2,3)
proof (induction k arbitrary: n s w)
  case (Suc k)
  show ?case
  proof (cases "te_stopping env w")
    case False
    then obtain nx s1 w1 where c: "run_cycle cfg env start n (s, w) = Some (nx, s1, w1)"
      and rest: "nx = None \<and> s' = s1 \<or> (\<exists>m. nx = Some m \<and> run_cycles k cfg env start m (s1, w1) = Some (nxt, s', w'))"
      using Suc.prems(1) by (auto split: option.splits)
    from c have "P s1"
      by (cases rule: run_cycle_cases) (use assms(1) Suc.prems(2) in blast)+
    with rest Suc.IH show ?thesis by blast
  qed (use Suc.prems in auto)
qed simp

definition failing_by :: "tick_config \<Rightarrow> tick_state \<Rightarrow> nat \<Rightarrow> tick_state \<Rightarrow> bool" where
  "failing_by cfg s c t \<longleftrightarrow> \<not> ts_in_flight t \<and> ts_consecutive_failures t = c
     \<and> c \<le> tc_max_consecutive_failures cfg \<and> ts_failures_total t = ts_failures_total s + c
     \<and> ts_ticks_run t = ts_ticks_run s \<and> (ts_paused t \<longleftrightarrow> c = tc_max_consecutive_failures cfg)
     \<and> (ts_paused t \<longrightarrow> ts_pause_reason t = Some (Tick_Failures c (tc_max_consecutive_failures cfg)))"

lemma failing_by_tick:
  assumes "\<And>text n w. isl (fst (te_generate env text n w))" and "tc_auto_pause cfg"
    and "failing_by cfg s c t" and "scheduled_tick cfg env (t, w) = (t1, w1)"
  shows "failing_by cfg s (min (Suc c) (tc_max_consecutive_failures cfg)) t1"
proof (cases "ts_paused t")
  case True
  then show ?thesis using assms(3,4) by (auto simp: failing_by_def scheduled_tick_def)
next
  case False
  then have "t1 = record_failure cfg t"
    using failing_tick [OF assms(1), of t cfg w] assms(3,4) by (simp add: failing_by_def)
  then show ?thesis using assms(2,3) False by (auto simp: failing_by_def breaker_defs)
qed

lemma failing_by_cycles:
  assumes "\<And>text n w. isl (fst (te_generate env text n w))" and "tc_auto_pause cfg"
    and "failing_by cfg s c t" and "run_cycles k cfg env start n (t, w) = Some (Some m, t', w')"
  shows "failing_by cfg s (min (c + k) (tc_max_consecutive_failures cfg)) t'"
  using assms(3,4)
proof (induction k arbitrary: n t w c)
  case 0
  then show ?case by (simp add: failing_by_def min_def)
next
  case (Suc k)
  then obtain m1 t1 w1 where c: "run_cycle cfg env start n (t, w) = Some (Some m1, t1, w1)"
    and rest: "run_cycles k cfg env start m1 (t1, w1) = Some (Some m, t', w')"
    by (auto split: if_splits option.splits)
  from c have "failing_by cfg s (min (Suc c) (tc_max_consecutive_failures cfg)) t1"
    by (cases rule: run_cycle_cases) (use failing_by_tick [OF assms(1,2) Suc.prems(1)] in blast)+
  moreover have "min (min (Suc c) M + k) M = min (c + Suc k) M" for M by simp
  ultimately show ?case using Suc.IH [OF _ rest] by metis
qed

text \<open>
  C20. A backend that raises trips the breaker after exactly the configured number of failures:
  from an unpaused loop with an empty gauge, after \<open>k\<close> cycles the loop is paused exactly when
  \<open>k\<close> has reached the limit, with the reason that quotes it; no tick is counted as run, and
  once it is paused nothing is counted any more. A resumed loop is such an unpaused loop.
\<close>

theorem breaker_trips_exactly:
  assumes "\<And>text n w. isl (fst (te_generate env text n w))" and "tc_auto_pause cfg"
    and "check_config cfg = Inr ()" and "\<not> ts_in_flight s" and "\<not> ts_paused s" and "ts_consecutive_failures s = 0"
    and "run_cycles k cfg env start n (s, w) = Some (Some m, s', w')"
  shows "ts_consecutive_failures s' = min k (tc_max_consecutive_failures cfg)
    \<and> ts_failures_total s' = ts_failures_total s + min k (tc_max_consecutive_failures cfg)
    \<and> ts_ticks_run s' = ts_ticks_run s
    \<and> (ts_paused s' \<longleftrightarrow> tc_max_consecutive_failures cfg \<le> k)
    \<and> (ts_paused s' \<longrightarrow> ts_pause_reason s'
         = Some (Tick_Failures (tc_max_consecutive_failures cfg) (tc_max_consecutive_failures cfg)))"
proof -
  have "failing_by cfg s 0 s"
    using assms(3-6) by (simp add: failing_by_def valid_config)
  from failing_by_cycles [OF assms(1,2) this assms(7)]
  show ?thesis by (auto simp: failing_by_def min_def)
qed

definition broken_env :: "(nat, unit) tick_env" where
  "broken_env = sample_env\<lparr>te_wait := \<lambda>d w. (False, w + 1), te_generate := \<lambda>text n. raise ()\<rparr>"

lemma breaker_trips_exactly_witness:
  "\<exists>s'. run_cycles 3 sample_config broken_env 0 0 (initial_tick_state, 0) = Some (Some 3, s', 3)
     \<and> ts_paused s' \<and> ts_failures_total s' = 2"
proof -
  have "\<exists>s'. run_cycles 3 sample_config broken_env 0 0 (initial_tick_state, 0) = Some (Some 3, s', 3)"
    by (simp add: numeral_3_eq_3 broken_env_def run_cycle_def scheduled_tick_def tick_once_def tick_body_def
      sample_env_def sample_config_def initial_tick_state_def next_tick_simple breaker_defs
      collect_items_def ret_def raise_def)
  then obtain s' where r: "run_cycles 3 sample_config broken_env 0 0 (initial_tick_state, 0) = Some (Some 3, s', 3)"
    by blast
  have "ts_paused s' \<and> ts_failures_total s' = 2"
    using breaker_trips_exactly [OF _ _ _ _ _ _ r]
    by (simp add: broken_env_def raise_def sample_config_def valid_config initial_tick_state_def)
  with r show ?thesis by blast
qed

text \<open>
  A handler that raises never trips the breaker when the limit is two or more: the tick was
  already counted as a success, so every such failure finds the gauge at zero. After any
  number of cycles the gauge is at most one and no pause names failures, although every tick
  of those cycles failed.
\<close>

theorem handler_failures_never_trip:
  assumes "\<And>d p n dur t w. isl (fst (te_handler env d p n dur t w))"
    and "\<And>text n w. \<not> isl (fst (te_generate env text n w))"
    and "2 \<le> tc_max_consecutive_failures cfg" and "\<not> ts_in_flight s"
    and "ts_consecutive_failures s = 0" and "ts_pause_reason s = None"
    and "run_cycles k cfg env start n (s, w) = Some (nxt, s', w')"
  shows "ts_consecutive_failures s' \<le> 1 \<and> (\<forall>a b. ts_pause_reason s' \<noteq> Some (Tick_Failures a b))
    \<and> ts_failures_total s' + ts_ticks_run s = ts_failures_total s + ts_ticks_run s'"
proof -
  let ?P = "\<lambda>t. \<not> ts_in_flight t \<and> ts_consecutive_failures t \<le> 1 \<and> (\<forall>a b. ts_pause_reason t \<noteq> Some (Tick_Failures a b))
    \<and> ts_failures_total t + ts_ticks_run s = ts_failures_total s + ts_ticks_run t"
  have "?P t1" if P: "?P t" and run: "scheduled_tick cfg env (t, w) = (t1, w1)" for t w t1 w1
  proof (cases "ts_paused t")
    case True
    with P run show ?thesis by (auto simp: scheduled_tick_def)
  next
    case False
    obtain d duration now where "fst (scheduled_tick cfg env (t, w)) = record_failure cfg (complete_tick cfg d duration now t)"
      by (rule failing_handler [where env = env and s = t and w = w and cfg = cfg])
        (use assms(1,2) P False in auto)
    then have "t1 = record_failure cfg (complete_tick cfg d duration now t)" using run by simp
    with P assms(3) show ?thesis by (auto simp: breaker_defs)
  qed
  from run_cycles_keep [where P = ?P, OF this assms(7)] assms(4-6) show ?thesis by simp
qed

lemma handler_failures_never_trip_witness:
  "\<exists>s'. run_cycles 2 sample_config sample_env 0 0 (initial_tick_state, 0) = Some (None, s', 2)
     \<and> ts_consecutive_failures s' \<le> 1 \<and> ts_failures_total s' = 1"
proof -
  have "\<exists>s'. run_cycles 2 sample_config sample_env 0 0 (initial_tick_state, 0) = Some (None, s', 2)
      \<and> ts_failures_total s' = 1"
    by (simp add: numeral_2_eq_2 run_cycle_def scheduled_tick_def tick_once_def tick_body_def act_reply
      sample_env_def sample_config_def initial_tick_state_def next_tick_simple breaker_defs
      collect_items_def ret_def raise_def)
  then obtain s' where r: "run_cycles 2 sample_config sample_env 0 0 (initial_tick_state, 0) = Some (None, s', 2)"
    "ts_failures_total s' = 1" by blast
  have "ts_consecutive_failures s' \<le> 1"
    using handler_failures_never_trip [OF _ _ _ _ _ _ r(1)]
    by (simp add: sample_env_def raise_def ret_def sample_config_def initial_tick_state_def)
  with r show ?thesis by blast
qed

section \<open>What the environment keeps, the loop keeps\<close>

definition env_keeps :: "('w \<Rightarrow> bool) \<Rightarrow> ('w, 'e) tick_env \<Rightarrow> bool" where
  "env_keeps P env \<longleftrightarrow>
     (\<forall>w. P w \<longrightarrow> P (snd (te_clock env w)) \<and> P (snd (te_now env w)) \<and> P (snd (te_jitter env w))
        \<and> (\<forall>d. P (snd (te_wait env d w))))
     \<and> (\<forall>source \<in> set (te_sources env). \<forall>s. keeps P (source s))
     \<and> (\<forall>text n. keeps P (te_generate env text n))
     \<and> (\<forall>d p n dur s. keeps P (te_handler env d p n dur s))"

lemma env_keeps_fields:
  assumes "env_keeps P env"
  shows "P w \<Longrightarrow> P (snd (te_clock env w))" "P w \<Longrightarrow> P (snd (te_now env w))"
    "P w \<Longrightarrow> P (snd (te_jitter env w))" "P w \<Longrightarrow> P (snd (te_wait env d w))"
    "source \<in> set (te_sources env) \<Longrightarrow> keeps P (source s)"
    "keeps P (te_generate env prompt n)" "keeps P (te_handler env dc p tn dur s)"
  using assms by (simp_all add: env_keeps_def)

lemma env_keepsD:
  assumes "env_keeps P env" and "P w"
  shows "te_clock env w = (a, w1) \<Longrightarrow> P w1" "te_now env w = (b, w1) \<Longrightarrow> P w1"
    "te_jitter env w = (a, w1) \<Longrightarrow> P w1" "te_wait env d w = (c, w1) \<Longrightarrow> P w1"
    "te_generate env prompt n w = (g, w1) \<Longrightarrow> P w1"
    "te_handler env dc p tn dur s w = (h, w1) \<Longrightarrow> P w1"
  using env_keeps_fields(1-4) [OF assms] keepsD [OF env_keeps_fields(6) [OF assms(1)] assms(2)]
    keepsD [OF env_keeps_fields(7) [OF assms(1)] assms(2)] by (metis snd_conv)+

lemma ask_sources_keeps:
  "\<forall>source \<in> set sources. keeps P source \<Longrightarrow> P w \<Longrightarrow> P (snd (ask_sources sources w))"
proof (induction sources arbitrary: w)
  case (Cons source sources)
  obtain r w1 where r: "source w = (r, w1)" by force
  with Cons.prems have "P w1" using keeps_result [of P source w r w1] by simp
  then have "P (snd (ask_sources sources w1))" using Cons by simp
  with r show ?case by (auto split: sum.splits prod.splits)
qed simp

lemma tick_body_keeps:
  assumes "env_keeps P env" and "P w"
  shows "P (snd (snd (tick_body cfg env (s, w))))"
proof -
  obtain start w1 where c: "te_clock env w = (start, w1)" by force
  then have 1: "P w1" by (rule env_keepsD(1) [OF assms])
  obtain items w2 where i: "collect_items (map (\<lambda>source. source s) (te_sources env)) w1 = (items, w2)" by force
  have "\<forall>source \<in> set (map (\<lambda>source. source s) (te_sources env)). keeps P source"
    using env_keeps_fields(5) [OF assms(1)] by simp
  then have "P (snd (ask_sources (map (\<lambda>source. source s) (te_sources env)) w1))"
    using 1 by (rule ask_sources_keeps)
  with i have 2: "P w2" by (auto simp: collect_items_def split: prod.splits)
  let ?p = "build_prompt items (max 0 (int (te_context_tokens env) - int (tc_max_output_tokens cfg)))
    (te_token_count env) (te_template env)"
  obtain g w3 where g: "te_generate env (tp_text ?p) (tc_max_output_tokens cfg) w2 = (g, w3)" by force
  then have 3: "P w3" by (rule env_keepsD(5) [OF assms(1) 2])
  obtain stop w4 where c': "te_clock env w3 = (stop, w4)" by force
  obtain now w5 where n: "te_now env w4 = (now, w5)" by force
  have 5: "P w5" by (rule env_keepsD(2) [OF assms(1) env_keepsD(1) [OF assms(1) 3 c'] n])
  show ?thesis
  proof (cases g)
    case (Inr raw)
    let ?t = "complete_tick cfg (parse_decision raw) (stop - start) now s"
    obtain h w6 where h: "te_handler env (parse_decision raw) ?p (ts_ticks_run ?t) (stop - start) ?t w5 = (h, w6)" by force
    then have "P w6" by (rule env_keepsD(6) [OF assms(1) 5])
    with c i g c' n h Inr show ?thesis by (simp add: tick_body_def Let_def split: sum.splits)
  qed (use c i g 3 in \<open>simp add: tick_body_def Let_def\<close>)
qed

lemma scheduled_tick_keeps:
  assumes "env_keeps P env" and "P w" and "scheduled_tick cfg env (s, w) = (s', w')"
  shows "P w'"
  using tick_body_keeps [OF assms(1,2), of cfg "s\<lparr>ts_in_flight := True\<rparr>"] assms(2,3)
  by (auto simp: scheduled_tick_def tick_once_def split: if_splits sum.splits prod.splits)

lemma run_cycle_keeps:
  assumes keep: "env_keeps P env" and "P w" and "run_cycle cfg env start n (s, w) = Some (nxt, s', w')"
  shows "P w'"
proof -
  obtain now w1 where c: "te_clock env w = (now, w1)" by force
  obtain jitter w2 where j: "te_jitter env w1 = (jitter, w2)" by force
  obtain stop w3 where wt: "te_wait env (max 0 (start + of_nat (n + 1) * tc_interval cfg - now) + jitter) w2 = (stop, w3)"
    by force
  have 3: "P w3"
    by (rule env_keepsD(4) [OF keep env_keepsD(3) [OF keep env_keepsD(1) [OF keep assms(2) c] j] wt])
  obtain s1 w4 where t: "scheduled_tick cfg env (s, w3) = (s1, w4)" by force
  have 4: "P w4" by (rule scheduled_tick_keeps [OF keep 3 t])
  obtain later w5 where c': "te_clock env w4 = (later, w5)" by force
  have 5: "P w5" by (rule env_keepsD(1) [OF keep 4 c'])
  from assms(3) c j wt t c' 3 5 show ?thesis
    by (auto simp: run_cycle_def Let_def split: if_splits option.splits)
qed

lemma run_keeps:
  assumes keep: "env_keeps P env" and "P w" and "run cfg env (s, w) = Some (s', w')"
  shows "P w'"
proof -
  obtain start w0 where c: "te_clock env w = (start, w0)" by force
  then have 0: "P w0" by (rule env_keepsD(1) [OF keep assms(2)])
  have cycles: "P w'" if "P w" "run_cycles k cfg env start n (s, w) = Some (nxt, s', w')" for k n s w nxt
    using that
  proof (induction k arbitrary: n s w)
    case (Suc k)
    show ?case
    proof (cases "te_stopping env w")
      case False
      then obtain nx s1 w1 where r: "run_cycle cfg env start n (s, w) = Some (nx, s1, w1)"
        and rest: "nx = None \<and> w' = w1 \<or> (\<exists>m. nx = Some m \<and> run_cycles k cfg env start m (s1, w1) = Some (nxt, s', w'))"
        using Suc.prems(2) by (auto split: option.splits)
      from rest run_cycle_keeps [OF keep Suc.prems(1) r] Suc.IH show ?thesis by blast
    qed (use Suc.prems in auto)
  qed simp
  from assms(3) c have "run_from cfg env start 0 (s, w0) = Some (s', w')" by (simp add: run_def)
  then obtain k where "run_cycles k cfg env start 0 (s, w0) = Some (None, s', w')" using run_run_cycles by blast
  with cycles 0 show ?thesis by blast
qed

end
