(* ===== verification/Brain.thy ===== *)
theory Brain
  imports Complex_Main Pytext Auth_Model
begin

text \<open>
  The remote Brain: events (\<open>brain/events.py\<close>), backoff (\<open>brain/retry.py\<close>), the retry loop
  every provider shares (\<open>brain/provider.py\<close>), its selection (\<open>brain/selection.py\<close>) and the
  OpenAI-compatible adapter (\<open>brain/adapters/openai_compat.py\<close>). A call's stream is the list
  of events it yields; the server behind the SDK is a parameter, exceptions of the SDK are a
  datatype of its most specific classes.
\<close>

section \<open>Events\<close>

datatype brain_error_class = TIMEOUT | RATE_LIMIT | TRANSPORT | PROVIDER_CLIENT | PROVIDER_SERVER | INTERNAL

definition retryable_error_classes :: "brain_error_class set" where
  "retryable_error_classes = {TIMEOUT, RATE_LIMIT, TRANSPORT, PROVIDER_SERVER}"

record brain_usage =
  bu_prompt_tokens :: nat
  bu_completion_tokens :: nat
  bu_total_tokens :: nat
  bu_authoritative :: bool
  bu_cost_usd :: "rat option"

datatype brain_event =
    Text_Delta string
  | Done "brain_usage option"
  | Failed brain_error_class string bool "brain_usage option"

record brain_message =
  bm_role :: string
  bm_content :: string

record brain_request =
  br_messages :: "brain_message list"
  br_model :: string
  br_max_output_tokens :: nat

section \<open>Backoff\<close>

definition backoff_seconds :: "int \<Rightarrow> rat \<Rightarrow> rat \<Rightarrow> rat \<Rightarrow> err + rat" where
  "backoff_seconds attempt initial maximum multiplier =
     (if attempt < 1 then Inl ValueError
      else Inr (min maximum (initial * multiplier ^ nat (attempt - 1))))"

section \<open>The retry loop\<close>

text \<open>How one call of the adapter's \<open>_stream\<close> ends, after the events it yielded.\<close>

datatype 'exc ending = Ended | Raised 'exc | Cancelled

record ('x, 'exc) brain_adapter =
  ba_stream :: "brain_request \<Rightarrow> 'x \<Rightarrow> (brain_event list \<times> 'exc ending) \<times> 'x"
  ba_classify_error :: "'exc \<Rightarrow> brain_error_class"
  ba_message :: "'exc \<Rightarrow> string"
  ba_partial_usage :: "'x \<Rightarrow> brain_usage option"
  ba_sleep :: "rat \<Rightarrow> 'x \<Rightarrow> 'x"

record retry_config =
  rc_max_retries :: nat
  rc_initial :: rat
  rc_maximum :: rat

fun is_text :: "brain_event \<Rightarrow> bool" where
  "is_text (Text_Delta t) = True"
| "is_text _ = False"

text \<open>The delay of a retry; the loop only asks for attempts from 1 on.\<close>

definition retry_delay :: "retry_config \<Rightarrow> nat \<Rightarrow> rat" where
  "retry_delay cfg attempt = (case backoff_seconds (int attempt) (rc_initial cfg) (rc_maximum cfg) 2 of
     Inl e \<Rightarrow> 0 | Inr d \<Rightarrow> d)"

text \<open>
  \<open>_run\<close> from attempt \<open>attempt\<close> on: the events yielded, whether the caller's cancellation ended
  the stream, and the state left.
\<close>

function brain_run ::
  "retry_config \<Rightarrow> ('x, 'exc) brain_adapter \<Rightarrow> brain_request \<Rightarrow> nat \<Rightarrow> bool \<Rightarrow> 'x
   \<Rightarrow> (brain_event list \<times> bool) \<times> 'x" where
  "brain_run cfg ad request attempt yielded_text x =
     (case ba_stream ad request x of ((events, ending), x1) \<Rightarrow>
        let yielded = yielded_text \<or> list_ex is_text events
        in case ending of
             Ended \<Rightarrow> ((events, False), x1)
           | Cancelled \<Rightarrow> ((events, True), x1)
           | Raised exc \<Rightarrow>
               (let error_class = ba_classify_error ad exc;
                    retryable = error_class \<in> retryable_error_classes
                in if retryable \<and> \<not> yielded \<and> attempt \<le> rc_max_retries cfg
                   then (case brain_run cfg ad request (attempt + 1) yielded
                                (ba_sleep ad (retry_delay cfg attempt) x1) of
                           ((later, cancelled), x2) \<Rightarrow> ((events @ later, cancelled), x2))
                   else ((events @ [Failed error_class (ba_message ad exc) retryable (ba_partial_usage ad x1)],
                          False), x1)))"
  by pat_completeness auto
termination
  by (relation "measure (\<lambda>(cfg, ad, request, attempt, yielded, x). Suc (rc_max_retries cfg) - attempt)") auto

declare brain_run.simps [simp del]

definition brain_stream ::
  "retry_config \<Rightarrow> ('x, 'exc) brain_adapter \<Rightarrow> brain_request \<Rightarrow> 'x \<Rightarrow> (brain_event list \<times> bool) \<times> 'x" where
  "brain_stream cfg ad request x = brain_run cfg ad request 1 False x"

section \<open>The OpenAI-compatible adapter\<close>

datatype openai_exc =
    APITimeoutError
  | RateLimitError
  | APIConnectionError
  | APIStatusError nat
  | OtherError string

fun classify_openai_error :: "openai_exc \<Rightarrow> brain_error_class" where
  "classify_openai_error APITimeoutError = TIMEOUT"
| "classify_openai_error RateLimitError = RATE_LIMIT"
| "classify_openai_error APIConnectionError = TRANSPORT"
| "classify_openai_error (APIStatusError n) = (if n \<ge> 500 then PROVIDER_SERVER else PROVIDER_CLIENT)"
| "classify_openai_error (OtherError m) = INTERNAL"

record chunk =
  ch_usage :: "(nat \<times> nat \<times> nat) option"
  ch_choice :: "string option option"

text \<open>
  What the server does with one call: the request is refused, or chunks arrive until the
  stream ends or breaks, and closing it may fail too.
\<close>

datatype reply = Refused openai_exc | Streamed "chunk list" "openai_exc option" "openai_exc option"

record openai_state =
  oa_calls :: nat
  oa_slept :: rat
  oa_prompt_chars :: nat
  oa_completion_chars :: nat

type_synonym prices = "(rat \<times> rat) option"

definition cost_usd :: "prices \<Rightarrow> nat \<Rightarrow> nat \<Rightarrow> rat option" where
  "cost_usd prices prompt_tokens completion_tokens = (case prices of
     None \<Rightarrow> None
   | Some (price_in, price_out) \<Rightarrow>
       Some (of_nat prompt_tokens / 1000000 * price_in + of_nat completion_tokens / 1000000 * price_out))"

definition usage_from_totals :: "prices \<Rightarrow> nat \<Rightarrow> nat \<Rightarrow> nat \<Rightarrow> bool \<Rightarrow> brain_usage" where
  "usage_from_totals prices p c t authoritative = \<lparr>bu_prompt_tokens = p, bu_completion_tokens = c,
     bu_total_tokens = t, bu_authoritative = authoritative, bu_cost_usd = cost_usd prices p c\<rparr>"

definition estimated_usage :: "prices \<Rightarrow> openai_state \<Rightarrow> brain_usage" where
  "estimated_usage prices st =
     (let p = oa_prompt_chars st div 4; c = oa_completion_chars st div 4
      in usage_from_totals prices p c (p + c) False)"

definition partial_usage :: "prices \<Rightarrow> openai_state \<Rightarrow> brain_usage option" where
  "partial_usage prices st =
     (if oa_completion_chars st = 0 \<and> oa_prompt_chars st = 0 then None
      else Some (estimated_usage prices st))"

text \<open>The \<open>async for\<close> over the chunks: the events, and whether a usage chunk ended it.\<close>

fun read_chunks :: "prices \<Rightarrow> chunk list \<Rightarrow> openai_state \<Rightarrow> (brain_event list \<times> bool) \<times> openai_state" where
  "read_chunks prices [] st = (([], False), st)"
| "read_chunks prices (c # cs) st = (case ch_usage c of
     Some (p, n, t) \<Rightarrow> (([Done (Some (usage_from_totals prices p n t True))], True), st)
   | None \<Rightarrow> (case ch_choice c of
       None \<Rightarrow> read_chunks prices cs st
     | Some content \<Rightarrow> (case content of
         None \<Rightarrow> read_chunks prices cs st
       | Some text \<Rightarrow>
           (if text = [] then read_chunks prices cs st
            else case read_chunks prices cs (st\<lparr>oa_completion_chars := oa_completion_chars st + length text\<rparr>) of
                   ((events, stopped), st1) \<Rightarrow> ((Text_Delta text # events, stopped), st1)))))"

definition openai_stream ::
  "(brain_request \<Rightarrow> nat \<Rightarrow> reply) \<Rightarrow> prices \<Rightarrow> brain_request \<Rightarrow> openai_state
   \<Rightarrow> (brain_event list \<times> openai_exc ending) \<times> openai_state" where
  "openai_stream server prices request st =
     (let st0 = st\<lparr>oa_calls := oa_calls st + 1,
                   oa_prompt_chars := sum_list (map (\<lambda>m. length (bm_content m)) (br_messages request)),
                   oa_completion_chars := 0\<rparr>
      in case server request (oa_calls st) of
           Refused exc \<Rightarrow> (([], Raised exc), st0)
         | Streamed chunks broken close \<Rightarrow>
             (case read_chunks prices chunks st0 of ((events, stopped), st1) \<Rightarrow>
                let (events', ending) =
                      (if stopped then (events, Ended)
                       else case broken of
                              Some exc \<Rightarrow> (events, Raised exc)
                            | None \<Rightarrow> (events @ [Done (Some (estimated_usage prices st1))], Ended))
                in ((events', case close of Some exc \<Rightarrow> Raised exc | None \<Rightarrow> ending), st1)))"

definition openai_adapter ::
  "(brain_request \<Rightarrow> nat \<Rightarrow> reply) \<Rightarrow> prices \<Rightarrow> (openai_exc \<Rightarrow> string) \<Rightarrow> (openai_state, openai_exc) brain_adapter" where
  "openai_adapter server prices message_of = \<lparr>ba_stream = openai_stream server prices,
     ba_classify_error = classify_openai_error, ba_message = message_of,
     ba_partial_usage = partial_usage prices,
     ba_sleep = (\<lambda>d st. st\<lparr>oa_slept := oa_slept st + d\<rparr>)\<rparr>"

section \<open>Selection\<close>

record brain_settings =
  bs_base_url :: string
  bs_api_key :: "string option"
  bs_retry :: retry_config
  bs_prices :: prices

datatype brain_error = BrainUnavailableError

definition default_base_url :: string where
  "default_base_url = ''https://api.openai.com/v1''"

text \<open>A keyless request is refused against the default host only.\<close>

definition build_brain_provider ::
  "brain_settings \<Rightarrow> (brain_request \<Rightarrow> nat \<Rightarrow> reply) \<Rightarrow> (openai_exc \<Rightarrow> string)
   \<Rightarrow> brain_error + (retry_config \<times> (openai_state, openai_exc) brain_adapter)" where
  "build_brain_provider st server message_of =
     (if bs_api_key st = None \<and> bs_base_url st = default_base_url then Inl BrainUnavailableError
      else Inr (bs_retry st, openai_adapter server (bs_prices st) message_of))"

section \<open>What every provider promises\<close>

text \<open>
  The contract of the \<open>_stream\<close> hook: text deltas, then a single \<open>Done\<close> exactly on success;
  calls and sleeping are observable, so retries can be counted.
\<close>

locale polite_adapter =
  fixes ad :: "('x, 'exc) brain_adapter"
    and calls :: "'x \<Rightarrow> nat"
    and slept :: "'x \<Rightarrow> rat"
  assumes ended: "ba_stream ad req x = ((evs, Ended), x1) \<Longrightarrow> \<exists>ts u. evs = map Text_Delta ts @ [Done u]"
    and not_ended: "ba_stream ad req x = ((evs, ending), x1) \<Longrightarrow> ending \<noteq> Ended \<Longrightarrow> list_all is_text evs"
    and calls_stream: "calls (snd (ba_stream ad req x)) = Suc (calls x)"
    and slept_stream: "slept (snd (ba_stream ad req x)) = slept x"
    and calls_sleep: "calls (ba_sleep ad d x) = calls x"
    and slept_sleep: "slept (ba_sleep ad d x) = slept x + d"
begin

definition well_ended :: "brain_event list \<Rightarrow> bool \<Rightarrow> bool" where
  "well_ended evs cancelled \<longleftrightarrow>
     (if cancelled then list_all is_text evs else \<exists>texts t. evs = map Text_Delta texts @ [t] \<and> \<not> is_text t)"

lemma texts_are_deltas: "list_all is_text evs \<Longrightarrow> \<exists>ts. evs = map Text_Delta ts"
proof (induction evs)
  case (Cons e evs)
  then obtain t ts where "e = Text_Delta t" "evs = map Text_Delta ts" by (cases e) auto
  then have "e # evs = map Text_Delta (t # ts)" by simp
  then show ?case by (rule exI)
qed simp

lemma no_texts: "list_all is_text evs \<Longrightarrow> \<not> list_ex is_text evs \<Longrightarrow> evs = []"
  by (cases evs) auto

lemma delay_bounded: "1 \<le> attempt \<Longrightarrow> retry_delay cfg attempt \<le> rc_maximum cfg"
  by (simp add: retry_delay_def backoff_seconds_def)

text \<open>One unfolding: a final call, or a retry after a call that yielded nothing.\<close>

lemma run_cases:
  assumes "brain_run cfg ad req attempt yielded x = ((evs, c), x')"
  obtains (final) evs1 ending x1 where "ba_stream ad req x = ((evs1, ending), x1)" "well_ended evs c"
      "filter is_text evs = filter is_text evs1" "x' = x1"
  | (retried) exc x1 where "ba_stream ad req x = (([], Raised exc), x1)" "attempt \<le> rc_max_retries cfg"
      "brain_run cfg ad req (attempt + 1) False (ba_sleep ad (retry_delay cfg attempt) x1) = ((evs, c), x')"
proof -
  obtain evs1 ending x1 where s: "ba_stream ad req x = ((evs1, ending), x1)" by (metis surj_pair)
  show ?thesis
  proof (cases ending)
    case Ended
    with s ended obtain ts u where "evs1 = map Text_Delta ts @ [Done u]" by blast
    with Ended s assms show ?thesis
      by (intro final [OF s]) (auto simp: brain_run.simps well_ended_def)
  next
    case Cancelled
    with s not_ended have "list_all is_text evs1" by blast
    with Cancelled s assms show ?thesis
      by (intro final [OF s]) (auto simp: brain_run.simps well_ended_def)
  next
    case (Raised exc)
    with s not_ended have texts: "list_all is_text evs1" by blast
    show ?thesis
    proof (cases "ba_classify_error ad exc \<in> retryable_error_classes
        \<and> \<not> (yielded \<or> list_ex is_text evs1) \<and> attempt \<le> rc_max_retries cfg")
      case True
      then have "evs1 = []" "\<not> yielded" using no_texts [OF texts] by auto
      then show ?thesis using assms s Raised True
        by (intro retried [of exc x1]) (auto simp: brain_run.simps [of cfg ad req attempt] Let_def split: prod.splits)
    next
      case False
      then obtain t where "evs = evs1 @ [t]" "\<not> is_text t" "\<not> c" "x' = x1"
        using assms s Raised by (subst (asm) brain_run.simps) (auto simp: Let_def)
      moreover obtain ts where "evs1 = map Text_Delta ts" using texts texts_are_deltas by blast
      ultimately show ?thesis by (intro final [OF s]) (auto simp: well_ended_def)
    qed
  qed
qed

lemma run_shape:
  assumes "brain_run cfg ad req attempt yielded x = ((evs, c), x')" and "1 \<le> attempt"
    and "attempt \<le> rc_max_retries cfg + 1"
  shows "well_ended evs c \<and> calls x < calls x' \<and> calls x' + attempt \<le> calls x + rc_max_retries cfg + 2
    \<and> slept x' \<le> slept x + of_nat (calls x' - calls x - 1) * rc_maximum cfg
    \<and> (\<exists>y. filter is_text evs = filter is_text (fst (fst (ba_stream ad req y))))"
  using assms
proof (induction "rc_max_retries cfg + 1 - attempt" arbitrary: attempt yielded x)
  case (0 attempt)
  have one: "calls x1 = Suc (calls x) \<and> slept x1 = slept x"
    if "ba_stream ad req x = (z, x1)" for z x x1
    using calls_stream [of req x] slept_stream [of req x] that by simp
  from 0(2) show ?case
  proof (cases rule: run_cases)
    case (final evs1 ending x1)
    then have "\<exists>y. filter is_text evs = filter is_text (fst (fst (ba_stream ad req y)))" by (metis fst_conv)
    with final(2,4) one [OF final(1)] 0(3,4) show ?thesis by simp
  qed (use 0 in simp)
next
  case (Suc k attempt)
  have one: "calls x1 = Suc (calls x) \<and> slept x1 = slept x"
    if "ba_stream ad req x = (z, x1)" for z x x1
    using calls_stream [of req x] slept_stream [of req x] that by simp
  from Suc.prems(1) show ?case
  proof (cases rule: run_cases)
    case (final evs1 ending x1)
    then have "\<exists>y. filter is_text evs = filter is_text (fst (fst (ba_stream ad req y)))" by (metis fst_conv)
    with final(2,4) one [OF final(1)] Suc.prems show ?thesis by simp
  next
    case (retried exc x1)
    let ?z = "ba_sleep ad (retry_delay cfg attempt) x1"
    have z: "calls ?z = Suc (calls x)" "slept ?z \<le> slept x + rc_maximum cfg"
      using one [OF retried(1)] delay_bounded [OF Suc.prems(2), of cfg] calls_sleep slept_sleep by simp_all
    have IH: "well_ended evs c \<and> calls ?z < calls x' \<and> calls x' + (attempt + 1) \<le> calls ?z + rc_max_retries cfg + 2
      \<and> slept x' \<le> slept ?z + of_nat (calls x' - calls ?z - 1) * rc_maximum cfg
      \<and> (\<exists>y. filter is_text evs = filter is_text (fst (fst (ba_stream ad req y))))"
      using Suc.hyps(2) retried(2) Suc.prems(2) by (intro Suc.hyps(1) [OF _ retried(3)]) simp_all
    define j where "j = calls x' - calls ?z - 1"
    have "calls ?z < calls x'" using IH by blast
    then have j: "calls x' - calls x - 1 = Suc j" using z(1) by (simp add: j_def)
    have "slept x' \<le> slept ?z + of_nat j * rc_maximum cfg" using IH unfolding j_def by blast
    then have "slept x' \<le> slept x + of_nat (calls x' - calls x - 1) * rc_maximum cfg"
      using z(2) unfolding j by (simp add: algebra_simps)
    with IH z(1) show ?thesis by simp
  qed
qed

lemma stream_shape:
  assumes "brain_stream cfg ad req x = ((evs, c), x')"
  shows "well_ended evs c \<and> calls x < calls x' \<and> calls x' \<le> calls x + rc_max_retries cfg + 1
    \<and> slept x' \<le> slept x + of_nat (calls x' - calls x - 1) * rc_maximum cfg
    \<and> (\<exists>y. filter is_text evs = filter is_text (fst (fst (ba_stream ad req y))))"
  using run_shape [OF assms [unfolded brain_stream_def]] by auto

end

section \<open>The adapter keeps the contract\<close>

text \<open>A server whose streams can always be closed.\<close>

fun closes :: "reply \<Rightarrow> reply" where
  "closes (Refused exc) = Refused exc"
| "closes (Streamed chunks broken close) = Streamed chunks broken None"

definition quiet :: "(brain_request \<Rightarrow> nat \<Rightarrow> reply) \<Rightarrow> brain_request \<Rightarrow> nat \<Rightarrow> reply" where
  "quiet server req n = closes (server req n)"

lemma read_chunks_shape:
  assumes "read_chunks prices cs st = ((evs, stopped), st1)"
  shows "(\<exists>ts. evs = map Text_Delta ts @ (if stopped then [last evs] else []) \<and> (stopped \<longrightarrow> (\<exists>u. last evs = Done u)))
    \<and> oa_calls st1 = oa_calls st \<and> oa_slept st1 = oa_slept st"
  using assms
proof (induction cs arbitrary: st evs)
  case (Cons c cs)
  consider p n t where "ch_usage c = Some (p, n, t)"
    | "ch_usage c = None" "\<forall>w. ch_choice c = Some (Some w) \<longrightarrow> w = []"
    | w where "ch_usage c = None" "ch_choice c = Some (Some w)" "w \<noteq> []"
    by (cases "ch_usage c") auto
  then show ?case
  proof cases
    case 1
    then show ?thesis using Cons.prems by (auto intro: exI [of _ "[]"])
  next
    case 2
    then have "read_chunks prices cs st = ((evs, stopped), st1)"
      using Cons.prems by (cases "ch_choice c") (auto split: option.splits if_splits)
    then show ?thesis by (rule Cons.IH)
  next
    case 3
    let ?st = "st\<lparr>oa_completion_chars := oa_completion_chars st + length w\<rparr>"
    obtain evs' where r: "read_chunks prices cs ?st = ((evs', stopped), st1)" "evs = Text_Delta w # evs'"
      using Cons.prems 3 by (auto split: prod.splits)
    from Cons.IH [OF r(1)] obtain ts where
      ts: "evs' = map Text_Delta ts @ (if stopped then [last evs'] else [])" "stopped \<longrightarrow> (\<exists>u. last evs' = Done u)"
      and st: "oa_calls st1 = oa_calls st" "oa_slept st1 = oa_slept st" by auto
    have "evs = map Text_Delta (w # ts) @ (if stopped then [last evs] else [])"
      "stopped \<longrightarrow> last evs = last evs'" using ts r(2) by (auto split: if_splits)
    with ts(2) st show ?thesis by metis
  qed
qed simp

lemma openai_quiet_shape:
  assumes "openai_stream (quiet server) prices req st = ((evs, ending), st1)"
  shows "(ending = Ended \<longrightarrow> (\<exists>ts u. evs = map Text_Delta ts @ [Done u])) \<and> (ending \<noteq> Ended \<longrightarrow> list_all is_text evs)
    \<and> oa_calls st1 = Suc (oa_calls st) \<and> oa_slept st1 = oa_slept st"
proof (cases "quiet server req (oa_calls st)")
  case (Streamed cs broken close)
  then have "close = None" unfolding quiet_def by (cases "server req (oa_calls st)") auto
  let ?st0 = "st\<lparr>oa_calls := Suc (oa_calls st),
      oa_prompt_chars := sum_list (map (\<lambda>m. length (bm_content m)) (br_messages req)), oa_completion_chars := 0\<rparr>"
  obtain evs1 stopped st2 where r: "read_chunks prices cs ?st0 = ((evs1, stopped), st2)" by (metis surj_pair)
  from read_chunks_shape [OF r] obtain ts where
    ts: "evs1 = map Text_Delta ts @ (if stopped then [last evs1] else [])" "stopped \<longrightarrow> (\<exists>u. last evs1 = Done u)"
    and st: "oa_calls st2 = Suc (oa_calls st)" "oa_slept st2 = oa_slept st" by auto
  have "openai_stream (quiet server) prices req st = (if stopped then ((evs1, Ended), st2) else case broken of
      Some exc \<Rightarrow> ((evs1, Raised exc), st2) | None \<Rightarrow> ((evs1 @ [Done (Some (estimated_usage prices st2))], Ended), st2))"
    using r by (simp add: openai_stream_def Streamed \<open>close = None\<close> Let_def split: option.splits)
  note run = assms [unfolded this]
  show ?thesis
  proof (cases stopped)
    case True
    with ts obtain u where "evs1 = map Text_Delta ts @ [Done u]" by auto
    with True run st show ?thesis by auto
  next
    case False
    with ts(1) run st show ?thesis by (cases broken) (auto simp: list_all_iff)
  qed
qed (use assms in \<open>auto simp: openai_stream_def Let_def\<close>)

interpretation openai: polite_adapter "openai_adapter (quiet server) prices message_of" oa_calls oa_slept
proof
  fix req :: brain_request and st :: openai_state
  obtain evs ending st1 where r: "openai_stream (quiet server) prices req st = ((evs, ending), st1)" by (metis surj_pair)
  with openai_quiet_shape [OF r]
  show "oa_calls (snd (ba_stream (openai_adapter (quiet server) prices message_of) req st)) = Suc (oa_calls st)"
    "oa_slept (snd (ba_stream (openai_adapter (quiet server) prices message_of) req st)) = oa_slept st"
    by (simp_all add: openai_adapter_def)
qed (use openai_quiet_shape in \<open>auto simp: openai_adapter_def\<close>)


definition flaky_server :: "brain_request \<Rightarrow> nat \<Rightarrow> reply" where
  "flaky_server req n = (if n = 0 then Refused RateLimitError
     else Streamed [\<lparr>ch_usage = None, ch_choice = Some (Some ''hi'')\<rparr>,
                    \<lparr>ch_usage = Some (3, 1, 4), ch_choice = None\<rparr>] None (Some APIConnectionError))"

definition quick_retries :: retry_config where
  "quick_retries = \<lparr>rc_max_retries = 2, rc_initial = 1, rc_maximum = 8\<rparr>"

definition hello_request :: brain_request where
  "hello_request = \<lparr>br_messages = [], br_model = ''m'', br_max_output_tokens = 16\<rparr>"

definition fresh_openai :: openai_state where
  "fresh_openai = \<lparr>oa_calls = 0, oa_slept = 0, oa_prompt_chars = 0, oa_completion_chars = 0\<rparr>"

lemmas flaky_run = brain_stream_def brain_run.simps quick_retries_def openai_adapter_def openai_stream_def
  quiet_def flaky_server_def hello_request_def fresh_openai_def retry_delay_def backoff_seconds_def
  retryable_error_classes_def Let_def usage_from_totals_def cost_usd_def


text \<open>
  When closing the server's stream fails after the usage chunk, the caller gets a second
  terminal event after \<open>Done\<close>.
\<close>

lemma close_failure_follows_done:
  "\<exists>u v st'. brain_stream quick_retries (openai_adapter flaky_server None (\<lambda>e. [])) hello_request fresh_openai
      = (([Text_Delta ''hi'', Done u, Failed TRANSPORT [] True v], False), st')"
  by (simp add: flaky_run)

end
