(* ===== verification/Handlers.thy ===== *)
theory Handlers
  imports Tick_Loop Journal Brain
begin

text \<open>
  What a completed tick is handed to: the journal handler (\<open>heart/tick/journal_handler.py\<close>),
  the hand-off to the Brain (\<open>heart/tick/brain_escalation_handler.py\<close>), the fault injector
  (\<open>heart/tick/fault_injection.py\<close>) and their composition (\<open>CompositeDecisionHandler\<close>). The
  world is the journal beside a rest \<open>'x\<close> that holds clocks, uuids and the Brain.
\<close>

section \<open>The world of a tick\<close>

record 'x heart_world =
  hw_journal :: "journal_entry list"
  hw_rest :: 'x

datatype heart_exc = Database_Error err | Fault_Injected string nat | Heart_Failed string

type_synonym ('x, 'a) heart_op = "('x heart_world, heart_exc, 'a) op"

type_synonym 'x handler = "decision \<Rightarrow> tick_prompt \<Rightarrow> nat \<Rightarrow> rat \<Rightarrow> tick_state \<Rightarrow> ('x, unit) heart_op"

text \<open>\<open>hs_brain\<close> is \<open>None\<close> without a provider; a stream is the events it yields.\<close>

record 'x heart_services =
  hs_now :: "'x \<Rightarrow> instant \<times> 'x"
  hs_new_id :: "'x \<Rightarrow> string \<times> 'x"
  hs_monotonic :: "'x \<Rightarrow> rat \<times> 'x"
  hs_sleep :: "rat \<Rightarrow> 'x \<Rightarrow> 'x"
  hs_brain :: "(brain_request \<Rightarrow> 'x \<Rightarrow> brain_event list \<times> 'x) option"

definition on_rest :: "('x \<Rightarrow> 'a \<times> 'x) \<Rightarrow> ('x, 'a) heart_op" where
  "on_rest f w = (case f (hw_rest w) of (a, x) \<Rightarrow> (Inr a, w\<lparr>hw_rest := x\<rparr>))"

definition on_journal :: "'a journal_op \<Rightarrow> ('x, 'a) heart_op" where
  "on_journal m w = (case m (hw_journal w) of
     (Inl e, j) \<Rightarrow> (Inl (Database_Error e), w\<lparr>hw_journal := j\<rparr>)
   | (Inr a, j) \<Rightarrow> (Inr a, w\<lparr>hw_journal := j\<rparr>))"

record retention =
  rt_max_entries :: nat
  rt_retention_days :: nat

text \<open>\<open>repository.append(created_at=iso(self._clock()), ...)\<close>: the row of a clock reading and a new uuid.\<close>

definition store_row :: "'x heart_services \<Rightarrow> retention \<Rightarrow> (instant \<Rightarrow> string \<Rightarrow> journal_entry) \<Rightarrow> ('x, unit) heart_op" where
  "store_row sv rt row =
     op_bind (on_rest (hs_now sv)) (\<lambda>now.
     op_bind (on_rest (hs_new_id sv)) (\<lambda>new_id.
     op_then (on_journal (journal_append (row now new_id) (rt_max_entries rt) (rt_retention_days rt)))
       (ret ())))"

section \<open>The journal handler\<close>

definition max_note_length :: nat where
  "max_note_length = 500"

definition build_note :: "tick_prompt \<Rightarrow> string" where
  "build_note prompt =
     (if tp_items prompt = [] then []
      else let top_priority = Max (set (map si_priority (tp_items prompt)));
               lines = map (\<lambda>i. si_source i @ '' reported: '' @ si_text i)
                         (filter (\<lambda>i. si_priority i = top_priority) (tp_items prompt))
           in take max_note_length (join '' '' lines))"

definition tick_row :: "string \<Rightarrow> instant \<Rightarrow> decision \<Rightarrow> tick_prompt \<Rightarrow> nat \<Rightarrow> rat \<Rightarrow> journal_entry" where
  "tick_row new_id now d prompt tick_number duration = \<lparr>je_id = new_id, je_created_at = iso now,
     je_tick_number = tick_number, je_decision = d, je_note = (if d = IDLE then [] else build_note prompt),
     je_prompt_tokens = tp_tokens prompt, je_duration = duration, je_brain_status = None,
     je_brain_detail = [], je_brain_prompt_tokens = None, je_brain_completion_tokens = None,
     je_opencode_run_id = None, je_opencode_action = None, je_opencode_outcome = None,
     je_opencode_detail = []\<rparr>"

definition journal_handler :: "'x heart_services \<Rightarrow> retention \<Rightarrow> 'x handler" where
  "journal_handler sv rt d prompt tick_number duration s =
     store_row sv rt (\<lambda>now new_id. tick_row new_id now d prompt tick_number duration)"

section \<open>The hand-off to the Brain\<close>

definition max_detail_length :: nat where
  "max_detail_length = 500"

definition declined_no_brain :: string where
  "declined_no_brain = ''declined: [brain] is not enabled or configured''"

text \<open>What the loop over the events keeps: status, detail and the two token counts.\<close>

type_synonym brain_outcome = "brain_status \<times> string \<times> nat option \<times> nat option"

fun read_event :: "brain_event \<Rightarrow> brain_outcome \<Rightarrow> brain_outcome" where
  "read_event (Text_Delta t) out = out"
| "read_event (Done usage) (status, detail, p, c) = (case usage of
     None \<Rightarrow> (status, detail, p, c)
   | Some u \<Rightarrow> (status, detail, Some (bu_prompt_tokens u), Some (bu_completion_tokens u)))"
| "read_event (Failed cls message retryable usage) (status, detail, p, c) = (case usage of
     None \<Rightarrow> (BRAIN_ERROR, take max_detail_length message, p, c)
   | Some u \<Rightarrow> (BRAIN_ERROR, take max_detail_length message, Some (bu_prompt_tokens u),
                Some (bu_completion_tokens u)))"

definition brain_outcome :: "brain_event list \<Rightarrow> brain_outcome" where
  "brain_outcome events = fold read_event events (CALLED, [], None, None)"

definition brain_row :: "string \<Rightarrow> instant \<Rightarrow> tick_prompt \<Rightarrow> nat \<Rightarrow> rat \<Rightarrow> brain_outcome \<Rightarrow> journal_entry" where
  "brain_row new_id now prompt tick_number call_duration = (\<lambda>(status, detail, p, c).
     \<lparr>je_id = new_id, je_created_at = iso now, je_tick_number = tick_number, je_decision = ESCALATE,
      je_note = [], je_prompt_tokens = tp_tokens prompt, je_duration = call_duration,
      je_brain_status = Some status, je_brain_detail = detail, je_brain_prompt_tokens = p,
      je_brain_completion_tokens = c, je_opencode_run_id = None, je_opencode_action = None,
      je_opencode_outcome = None, je_opencode_detail = []\<rparr>)"

definition journal_brain ::
  "'x heart_services \<Rightarrow> retention \<Rightarrow> tick_prompt \<Rightarrow> nat \<Rightarrow> rat \<Rightarrow> brain_outcome \<Rightarrow> ('x, unit) heart_op" where
  "journal_brain sv rt prompt tick_number call_duration out =
     store_row sv rt (\<lambda>now new_id. brain_row new_id now prompt tick_number call_duration out)"

definition escalation_request :: "string \<Rightarrow> nat \<Rightarrow> tick_prompt \<Rightarrow> brain_request" where
  "escalation_request model max_output_tokens prompt = \<lparr>br_messages = [\<lparr>bm_role = ''user'', bm_content = tp_text prompt\<rparr>],
     br_model = model, br_max_output_tokens = max_output_tokens\<rparr>"

definition escalation_handler :: "'x heart_services \<Rightarrow> retention \<Rightarrow> string \<Rightarrow> nat \<Rightarrow> 'x handler" where
  "escalation_handler sv rt model max_output_tokens d prompt tick_number duration s =
     (if d \<noteq> ESCALATE then ret ()
      else case hs_brain sv of
        None \<Rightarrow> journal_brain sv rt prompt tick_number 0 (BRAIN_DECLINED, declined_no_brain, None, None)
      | Some brain \<Rightarrow>
          op_bind (on_rest (hs_monotonic sv)) (\<lambda>start.
          op_bind (on_rest (brain (escalation_request model max_output_tokens prompt))) (\<lambda>events.
          op_bind (on_rest (hs_monotonic sv)) (\<lambda>stop.
            journal_brain sv rt prompt tick_number (stop - start) (brain_outcome events)))))"

section \<open>Fault injection\<close>

datatype fault_kind = READINESS_CHECK | TICK_FAILURE | TICK_OVERRUN

record fault_window =
  fw_id :: string
  fw_fault :: fault_kind
  fw_at_tick :: int
  fw_duration_ticks :: int
  fw_expected_decision :: decision
  fw_note :: string
  fw_sleep_seconds :: rat

definition end_tick :: "fault_window \<Rightarrow> int" where
  "end_tick w = fw_at_tick w + fw_duration_ticks w - 1"

definition covers :: "fault_window \<Rightarrow> int \<Rightarrow> bool" where
  "covers w n \<longleftrightarrow> fw_at_tick w \<le> n \<and> n \<le> end_tick w"

text \<open>The checks of \<open>_parse_window\<close>, after the fields have been read; \<open>None\<close> is no error.\<close>

definition window_ok :: "fault_window \<Rightarrow> bool" where
  "window_ok w \<longleftrightarrow> \<not> fw_at_tick w < 1 \<and> \<not> fw_duration_ticks w < 1
     \<and> \<not> (fw_fault w = TICK_OVERRUN \<and> fw_sleep_seconds w \<le> 0)
     \<and> \<not> (fw_fault w \<noteq> TICK_OVERRUN \<and> fw_sleep_seconds w \<noteq> 0)"

fun pairwise_ok :: "fault_window list \<Rightarrow> bool" where
  "pairwise_ok (a # b # ws) = (\<not> end_tick a \<ge> fw_at_tick b \<and> pairwise_ok (b # ws))"
| "pairwise_ok ws = True"

definition no_same_kind_overlap :: "fault_window list \<Rightarrow> bool" where
  "no_same_kind_overlap windows =
     list_all (\<lambda>k. pairwise_ok (sort_key fw_at_tick (filter (\<lambda>w. fw_fault w = k) windows)))
       [READINESS_CHECK, TICK_FAILURE, TICK_OVERRUN]"

text \<open>\<open>load_fault_schedule\<close> on the entries of the file; \<open>None\<close> is \<open>FaultScheduleError\<close>.\<close>

definition load_fault_schedule :: "fault_window list \<Rightarrow> fault_window list option" where
  "load_fault_schedule windows =
     (if list_all window_ok windows \<and> distinct (map fw_id windows) \<and> no_same_kind_overlap windows
      then Some (sort_key fw_at_tick windows) else None)"

definition active_window :: "fault_window list \<Rightarrow> fault_kind \<Rightarrow> int \<Rightarrow> fault_window option" where
  "active_window schedule fault n = find (\<lambda>w. fw_fault w = fault \<and> covers w n) schedule"

text \<open>The three roles; \<open>_upcoming_tick_number\<close> is the number of ticks run plus one.\<close>

definition fault_source :: "'x heart_services \<Rightarrow> fault_window list \<Rightarrow> tick_state \<Rightarrow> ('x, snapshot_item list) heart_op" where
  "fault_source sv schedule s = (case active_window schedule TICK_OVERRUN (int (ts_ticks_run s) + 1) of
     None \<Rightarrow> ret []
   | Some w \<Rightarrow> op_then (put (\<lambda>h. h\<lparr>hw_rest := hs_sleep sv (fw_sleep_seconds w) (hw_rest h)\<rparr>)) (ret []))"

definition readiness_ok :: "fault_window list \<Rightarrow> tick_state \<Rightarrow> bool" where
  "readiness_ok schedule s \<longleftrightarrow> active_window schedule READINESS_CHECK (int (ts_ticks_run s) + 1) = None"

definition fault_handler :: "fault_window list \<Rightarrow> 'x handler" where
  "fault_handler schedule d prompt tick_number duration s =
     (case active_window schedule TICK_FAILURE (int tick_number) of
        None \<Rightarrow> ret ()
      | Some w \<Rightarrow> raise (Fault_Injected (fw_id w) tick_number))"

section \<open>Composition\<close>

definition composite_handler :: "'x handler list \<Rightarrow> 'x handler" where
  "composite_handler handlers d prompt tick_number duration s =
     foreach (\<lambda>handler. handler d prompt tick_number duration s) handlers"

section \<open>A loaded schedule is unambiguous\<close>

lemma covers_some: "window_ok w \<Longrightarrow> covers w (fw_at_tick w)"
  by (simp add: window_ok_def covers_def end_tick_def)

lemma pairwise_sorted:
  assumes "sorted (map fw_at_tick ws)" and "list_all window_ok ws" and "pairwise_ok ws"
  shows "sorted_wrt (\<lambda>a b. end_tick a < fw_at_tick b) ws"
  using assms
proof (induction ws rule: pairwise_ok.induct)
  case (1 a b ws)
  then have "sorted_wrt (\<lambda>a b. end_tick a < fw_at_tick b) (b # ws)" by simp
  moreover have "end_tick a < fw_at_tick c" if "c \<in> set (b # ws)" for c
    using 1 that by auto
  ultimately show ?case by simp
qed simp_all

lemma sorted_pairwise: "sorted_wrt (\<lambda>a b. end_tick a < fw_at_tick b) ws \<Longrightarrow> pairwise_ok ws"
  by (induction ws rule: pairwise_ok.induct) auto

definition disjoint_windows :: "fault_window \<Rightarrow> fault_window \<Rightarrow> bool" where
  "disjoint_windows a b \<longleftrightarrow> (\<forall>n. \<not> (covers a n \<and> covers b n))"

lemma disjoint_iff:
  assumes "window_ok a" "window_ok b" "fw_at_tick a \<le> fw_at_tick b"
  shows "disjoint_windows a b \<longleftrightarrow> end_tick a < fw_at_tick b"
proof
  assume "disjoint_windows a b"
  then have "\<not> covers a (fw_at_tick b)" using covers_some [OF assms(2)] by (auto simp: disjoint_windows_def)
  then show "end_tick a < fw_at_tick b" using assms(3) by (simp add: covers_def)
qed (auto simp: disjoint_windows_def covers_def)

lemma all_kinds: "(\<forall>k. P k) \<longleftrightarrow> P READINESS_CHECK \<and> P TICK_FAILURE \<and> P TICK_OVERRUN"
  by (metis fault_kind.exhaust)

lemma disjoint_sym: "disjoint_windows a b = disjoint_windows b a"
  by (auto simp: disjoint_windows_def)

lemma group_overlap_iff:
  assumes "list_all window_ok ws" and "distinct ws"
  shows "pairwise_ok (sort_key fw_at_tick ws) \<longleftrightarrow> (\<forall>a \<in> set ws. \<forall>b \<in> set ws. a \<noteq> b \<longrightarrow> disjoint_windows a b)"
proof -
  let ?s = "sort_key fw_at_tick ws"
  have ok: "list_all window_ok ?s" "distinct ?s" using assms by (simp_all add: list_all_iff)
  have "pairwise_ok ?s \<longleftrightarrow> sorted_wrt (\<lambda>a b. end_tick a < fw_at_tick b) ?s"
    using pairwise_sorted [of ?s] sorted_pairwise [of ?s] ok(1) by auto
  also have "\<dots> \<longleftrightarrow> sorted_wrt disjoint_windows ?s"
    unfolding sorted_wrt_iff_nth_less
    using disjoint_iff ok(1) sorted_sort_key [of fw_at_tick ws]
    by (auto simp: list_all_length sorted_iff_nth_mono_less)
  also have "\<dots> \<longleftrightarrow> (\<forall>i < length ?s. \<forall>j < length ?s. i \<noteq> j \<longrightarrow> disjoint_windows (?s ! i) (?s ! j))"
  proof
    assume l: "sorted_wrt disjoint_windows ?s"
    show "\<forall>i < length ?s. \<forall>j < length ?s. i \<noteq> j \<longrightarrow> disjoint_windows (?s ! i) (?s ! j)"
    proof (intro allI impI)
      fix i j assume "i < length ?s" "j < length ?s" "i \<noteq> j"
      then show "disjoint_windows (?s ! i) (?s ! j)"
        using l disjoint_sym unfolding sorted_wrt_iff_nth_less by (cases i j rule: linorder_cases) blast+
    qed
  qed (simp add: sorted_wrt_iff_nth_less)
  also have "\<dots> \<longleftrightarrow> (\<forall>a \<in> set ?s. \<forall>b \<in> set ?s. a \<noteq> b \<longrightarrow> disjoint_windows a b)"
    using ok(2) by (metis (no_types, lifting) in_set_conv_nth nth_eq_iff_index_eq)
  finally show ?thesis by simp
qed

text \<open>
  A schedule is accepted exactly when every window is well formed, ids are distinct and
  windows of one kind never cover a common tick; then at any tick there is at most one active
  window of a kind and \<open>_active\<close> finds it.
\<close>

lemma schedule_unambiguous:
  "(load_fault_schedule ws = None \<longleftrightarrow>
      \<not> (list_all window_ok ws \<and> distinct (map fw_id ws)
         \<and> (\<forall>a \<in> set ws. \<forall>b \<in> set ws. a \<noteq> b \<and> fw_fault a = fw_fault b \<longrightarrow> disjoint_windows a b)))
   \<and> (load_fault_schedule ws = Some schedule \<longrightarrow>
        sorted (map fw_at_tick schedule) \<and> set schedule = set ws
        \<and> (\<forall>k n w. active_window schedule k n = Some w \<longleftrightarrow> w \<in> set ws \<and> fw_fault w = k \<and> covers w n))"
proof -
  have overlap: "no_same_kind_overlap ws \<longleftrightarrow>
      (\<forall>a \<in> set ws. \<forall>b \<in> set ws. a \<noteq> b \<and> fw_fault a = fw_fault b \<longrightarrow> disjoint_windows a b)"
    if ok: "list_all window_ok ws" "distinct (map fw_id ws)"
  proof -
    have "pairwise_ok (sort_key fw_at_tick (filter (\<lambda>w. fw_fault w = k) ws)) \<longleftrightarrow>
        (\<forall>a \<in> set ws. \<forall>b \<in> set ws. fw_fault a = k \<and> fw_fault b = k \<and> a \<noteq> b \<longrightarrow> disjoint_windows a b)" for k
      using ok by (subst group_overlap_iff) (auto simp: list_all_iff distinct_map)
    moreover have "no_same_kind_overlap ws \<longleftrightarrow>
        (\<forall>k. pairwise_ok (sort_key fw_at_tick (filter (\<lambda>w. fw_fault w = k) ws)))"
      unfolding no_same_kind_overlap_def by (subst all_kinds) (simp only: list.pred_inject simp_thms)
    ultimately have "no_same_kind_overlap ws \<longleftrightarrow> (\<forall>k. \<forall>a \<in> set ws. \<forall>b \<in> set ws.
        fw_fault a = k \<and> fw_fault b = k \<and> a \<noteq> b \<longrightarrow> disjoint_windows a b)" by simp
    then show ?thesis by auto
  qed
  have same: "set schedule = set ws" "list_all window_ok ws" "distinct (map fw_id ws)" "no_same_kind_overlap ws"
    if "load_fault_schedule ws = Some schedule"
    using that by (auto simp: load_fault_schedule_def split: if_splits)
  have sound: "w \<in> set schedule \<and> fw_fault w = k \<and> covers w n" if "active_window schedule k n = Some w" for k n w
    using find_in_set [OF that [unfolded active_window_def]] by simp
  have found: "active_window schedule k n = Some w \<longleftrightarrow> w \<in> set ws \<and> fw_fault w = k \<and> covers w n"
    if load: "load_fault_schedule ws = Some schedule" for k n w
  proof
    assume w: "w \<in> set ws \<and> fw_fault w = k \<and> covers w n"
    then have "active_window schedule k n \<noteq> None"
      using same(1) [OF load] by (auto simp: active_window_def find_None_iff)
    then obtain v where v: "active_window schedule k n = Some v" by auto
    have "v = w"
    proof (rule ccontr)
      assume "v \<noteq> w"
      then have "disjoint_windows v w"
        using overlap [OF same(2) [OF load] same(3) [OF load]] same(1) [OF load] same(4) [OF load] sound [OF v] w by auto
      then show False using sound [OF v] w by (auto simp: disjoint_windows_def)
    qed
    with v show "active_window schedule k n = Some w" by simp
  qed (use sound same(1) [OF load] in blast)
  show ?thesis using overlap found by (auto simp: load_fault_schedule_def split: if_splits)
qed

section \<open>What a tick leaves in the journal\<close>

lemma on_rest_run: "f (hw_rest w) = (a, x) \<Longrightarrow> on_rest f w = (Inr a, w\<lparr>hw_rest := x\<rparr>)"
  by (simp add: on_rest_def)

lemma append_result:
  obtains (stored) rows' where "journal_append e m days rows = (Inr e, rows')"
  | (clash) "journal_append e m days rows = (Inl IntegrityError, rows)"
  by (cases "je_id e \<in> je_id ` set rows") (use append_clash append_run in blast)+

text \<open>Storing a row made from the clock and a new uuid: the only way it fails is a taken id.\<close>

lemma store_row_run:
  fixes row :: "instant \<Rightarrow> string \<Rightarrow> journal_entry" and w :: "'x heart_world"
  obtains now new_id x where
    "store_row sv rt row w = (case journal_append (row now new_id) (rt_max_entries rt) (rt_retention_days rt) (hw_journal w) of
       (Inl e, j) \<Rightarrow> (Inl (Database_Error e), w\<lparr>hw_journal := j, hw_rest := x\<rparr>)
     | (Inr e, j) \<Rightarrow> (Inr (), w\<lparr>hw_journal := j, hw_rest := x\<rparr>))"
proof -
  obtain now x1 where now: "hs_now sv (hw_rest w) = (now, x1)" by force
  obtain new_id x2 where i: "hs_new_id sv x1 = (new_id, x2)" by force
  show ?thesis
  proof (cases rule: append_result [of "row now new_id" "rt_max_entries rt" "rt_retention_days rt" "hw_journal w"])
    case (stored rows')
    show ?thesis
      by (rule that [where now = now and new_id = new_id and x = x2])
        (simp add: store_row_def op_bind_def op_then_def on_rest_def on_journal_def ret_def now i stored)
  next
    case clash
    show ?thesis
      by (rule that [where now = now and new_id = new_id and x = x2])
        (simp add: store_row_def op_bind_def op_then_def on_rest_def on_journal_def ret_def now i clash)
  qed
qed

lemma brain_outcome_status:
  "fst (brain_outcome events) = (if \<exists>c m r u. Failed c m r u \<in> set events then BRAIN_ERROR else CALLED)
   \<and> length (fst (snd (brain_outcome events))) \<le> max_detail_length"
proof -
  have "fst (fold read_event events out) = (if \<exists>c m r u. Failed c m r u \<in> set events then BRAIN_ERROR else fst out)
      \<and> (length (fst (snd out)) \<le> max_detail_length \<longrightarrow>
         length (fst (snd (fold read_event events out))) \<le> max_detail_length)" for out
  proof (induction events arbitrary: out)
    case (Cons e events)
    obtain st dt p c where out: "out = (st, dt, p, c)" by (metis prod_cases4)
    show ?case using Cons.IH [of "read_event e out"] by (cases e) (auto simp: out split: option.splits)
  qed simp
  from this [of "(CALLED, [], None, None)"] show ?thesis by (simp add: brain_outcome_def)
qed

lemma note_bounded: "length (build_note prompt) \<le> max_note_length"
  by (simp add: build_note_def Let_def)

text \<open>\<open>stored sv rt row w (r, w')\<close>: the outcome of storing \<open>row\<close>, whatever the clock and the uuid were.\<close>

definition stored ::
  "retention \<Rightarrow> (instant \<Rightarrow> string \<Rightarrow> journal_entry) \<Rightarrow> journal_entry list \<Rightarrow> (heart_exc + unit) \<Rightarrow> journal_entry list \<Rightarrow> bool" where
  "stored rt row j r j' \<longleftrightarrow> (\<exists>now new_id.
     (r = Inr () \<and> journal_append (row now new_id) (rt_max_entries rt) (rt_retention_days rt) j = (Inr (row now new_id), j'))
     \<or> (r = Inl (Database_Error IntegrityError) \<and> j' = j \<and> je_id (row now new_id) \<in> je_id ` set j))"

lemma store_row_stored: "stored rt row (hw_journal w) (fst (store_row sv rt row w)) (hw_journal (snd (store_row sv rt row w)))"
proof -
  obtain now new_id x where run:
    "store_row sv rt row w = (case journal_append (row now new_id) (rt_max_entries rt) (rt_retention_days rt) (hw_journal w) of
       (Inl e, j) \<Rightarrow> (Inl (Database_Error e), w\<lparr>hw_journal := j, hw_rest := x\<rparr>)
     | (Inr e, j) \<Rightarrow> (Inr (), w\<lparr>hw_journal := j, hw_rest := x\<rparr>))"
    by (rule store_row_run)
  show ?thesis
  proof (cases "je_id (row now new_id) \<in> je_id ` set (hw_journal w)")
    case True
    note append_clash [OF True, of "rt_max_entries rt" "rt_retention_days rt"]
    with True run show ?thesis by (auto simp: stored_def)
  next
    case False
    note append_run [OF False, of "rt_max_entries rt" "rt_retention_days rt"]
    with run show ?thesis by (auto simp: stored_def)
  qed
qed

lemma escalation_stored:
  assumes "escalation_handler sv rt model n ESCALATE p k dur s w = (r, w')"
  obtains call_duration out where
    "stored rt (\<lambda>now new_id. brain_row new_id now p k call_duration out) (hw_journal w) r (hw_journal w')"
    and "hs_brain sv = None \<Longrightarrow> out = (BRAIN_DECLINED, declined_no_brain, None, None)"
    and "\<And>brain. hs_brain sv = Some brain \<Longrightarrow> \<exists>x. out = brain_outcome (fst (brain (escalation_request model n p) x))"
proof (cases "hs_brain sv")
  case None
  with assms have "journal_brain sv rt p k 0 (BRAIN_DECLINED, declined_no_brain, None, None) w = (r, w')"
    by (simp add: escalation_handler_def)
  with None show ?thesis
    by (intro that [of 0 "(BRAIN_DECLINED, declined_no_brain, None, None)"])
      (metis store_row_stored journal_brain_def fst_conv snd_conv, simp_all)
next
  case (Some brain)
  obtain start x1 where m1: "hs_monotonic sv (hw_rest w) = (start, x1)" by force
  obtain events x2 where b: "brain (escalation_request model n p) x1 = (events, x2)" by force
  obtain stop x3 where m2: "hs_monotonic sv x2 = (stop, x3)" by force
  let ?w = "w\<lparr>hw_rest := x3\<rparr>"
  have "journal_brain sv rt p k (stop - start) (brain_outcome events) ?w = (r, w')"
    using assms Some m1 b m2 by (simp add: escalation_handler_def op_bind_def on_rest_def)
  then have "stored rt (\<lambda>now new_id. brain_row new_id now p k (stop - start) (brain_outcome events)) (hw_journal ?w) r (hw_journal w')"
    by (metis store_row_stored journal_brain_def fst_conv snd_conv)
  with Some b show ?thesis
    by (intro that [of "stop - start" "brain_outcome events"]) (auto intro: exI [of _ x1])
qed

text \<open>
  A completed tick is journaled, and a Brain outage never fails it. The journal handler
  composed with the hand-off to the Brain either stores the tick's row, with its number,
  decision, duration and a note of at most 500 characters that is empty for \<open>idle\<close>, and then
  for \<open>escalate\<close>, and only then, a second row of the same tick whose status is declined without
  a provider, error exactly when the stream carried an error event, and called otherwise; or it
  raises because a uuid was taken. No other exception escapes, whatever the Brain does.
\<close>

theorem completed_tick_journaled:
  assumes "composite_handler [journal_handler sv rt, escalation_handler sv rt model n] d p k dur s w = (r, w')"
  shows "(stored rt (\<lambda>now new_id. tick_row new_id now d p k dur) (hw_journal w) r (hw_journal w') \<and> r \<noteq> Inr ())
    \<or> (\<exists>j. stored rt (\<lambda>now new_id. tick_row new_id now d p k dur) (hw_journal w) (Inr ()) j
        \<and> (if d = ESCALATE
           then \<exists>call_duration status detail pt ct.
             stored rt (\<lambda>now new_id. brain_row new_id now p k call_duration (status, detail, pt, ct)) j r (hw_journal w')
             \<and> length detail \<le> max_detail_length
             \<and> (hs_brain sv = None \<longrightarrow> status = BRAIN_DECLINED)
             \<and> (\<forall>brain. hs_brain sv = Some brain \<longrightarrow> (\<exists>x. status =
                  (if \<exists>c m b u. Failed c m b u \<in> set (fst (brain (escalation_request model n p) x))
                   then BRAIN_ERROR else CALLED)))
           else r = Inr () \<and> hw_journal w' = j))"
proof -
  let ?row = "\<lambda>now new_id. tick_row new_id now d p k dur"
  obtain r1 w1 where first: "journal_handler sv rt d p k dur s w = (r1, w1)" by force
  have s1: "stored rt ?row (hw_journal w) r1 (hw_journal w1)"
    using store_row_stored [of rt ?row w sv] first by (simp add: journal_handler_def)
  show ?thesis
  proof (cases r1)
    case (Inl e)
    with assms first have "r = Inl e" "w' = w1" by (simp_all add: composite_handler_def op_then_def op_bind_def)
    with s1 Inl show ?thesis by auto
  next
    case (Inr u)
    obtain r2 w2 where second: "escalation_handler sv rt model n d p k dur s w1 = (r2, w2)" by force
    have end_: "r = r2" "w' = w2"
      using assms first second Inr
      by (auto simp: composite_handler_def op_then_def op_bind_def ret_def split: sum.splits)
    have s1': "stored rt ?row (hw_journal w) (Inr ()) (hw_journal w1)" using s1 Inr by simp
    show ?thesis
    proof (cases "d = ESCALATE")
      case False
      with second have "r2 = Inr ()" "w2 = w1" by (simp_all add: escalation_handler_def ret_def)
      with False end_ s1' show ?thesis by auto
    next
      case True
      obtain cd out where o: "stored rt (\<lambda>now new_id. brain_row new_id now p k cd out) (hw_journal w1) r2 (hw_journal w2)"
        "hs_brain sv = None \<Longrightarrow> out = (BRAIN_DECLINED, declined_no_brain, None, None)"
        "\<And>brain. hs_brain sv = Some brain \<Longrightarrow> \<exists>x. out = brain_outcome (fst (brain (escalation_request model n p) x))"
        by (rule escalation_stored [OF second [unfolded True]], rule that)
      obtain st dt pt ct where out: "out = (st, dt, pt, ct)" by (metis prod_cases4)
      have "length dt \<le> max_detail_length"
      proof (cases "hs_brain sv")
        case None
        then show ?thesis using o(2) out by (simp add: declined_no_brain_def max_detail_length_def)
      next
        case (Some brain)
        then obtain x where "out = brain_outcome (fst (brain (escalation_request model n p) x))" using o(3) by blast
        then show ?thesis using brain_outcome_status out by (metis fst_conv snd_conv)
      qed
      moreover have "hs_brain sv = None \<longrightarrow> st = BRAIN_DECLINED" using o(2) out by simp
      moreover have "\<forall>brain. hs_brain sv = Some brain \<longrightarrow> (\<exists>x. st =
          (if \<exists>c m b u. Failed c m b u \<in> set (fst (brain (escalation_request model n p) x)) then BRAIN_ERROR else CALLED))"
        using o(3) out brain_outcome_status by (metis fst_conv)
      ultimately have "\<exists>call_duration status detail pt ct.
             stored rt (\<lambda>now new_id. brain_row new_id now p k call_duration (status, detail, pt, ct)) (hw_journal w1) r (hw_journal w')
             \<and> length detail \<le> max_detail_length
             \<and> (hs_brain sv = None \<longrightarrow> status = BRAIN_DECLINED)
             \<and> (\<forall>brain. hs_brain sv = Some brain \<longrightarrow> (\<exists>x. status =
                  (if \<exists>c m b u. Failed c m b u \<in> set (fst (brain (escalation_request model n p) x))
                   then BRAIN_ERROR else CALLED)))"
        using o(1) unfolding out end_ by (intro exI conjI) assumption+
      then show ?thesis
        by (intro disjI2 exI [of _ "hw_journal w1"] conjI [OF s1']) (simp only: True if_True simp_thms)
    qed
  qed
qed

text \<open>A world with a clock that counts milliseconds and numbers its rows; no Brain.\<close>

definition counting_services :: "nat heart_services" where
  "counting_services = \<lparr>hs_now = (\<lambda>x. (int x * 1000, x + 1)), hs_new_id = (\<lambda>x. (replicate x CHR ''r'', x + 1)),
     hs_monotonic = (\<lambda>x. (of_nat x, x)), hs_sleep = (\<lambda>d x. x), hs_brain = None\<rparr>"

definition quiet_prompt :: tick_prompt where
  "quiet_prompt = \<lparr>tp_text = ''state'', tp_tokens = 5, tp_items_included = 0, tp_items_dropped = 0, tp_items = []\<rparr>"

lemma completed_tick_journaled_witness:
  "\<exists>r w'. composite_handler [journal_handler counting_services \<lparr>rt_max_entries = 9, rt_retention_days = 1\<rparr>,
        escalation_handler counting_services \<lparr>rt_max_entries = 9, rt_retention_days = 1\<rparr> ''m'' 4]
      ESCALATE quiet_prompt 1 2 initial_tick_state \<lparr>hw_journal = [], hw_rest = 0\<rparr> = (r, w')
    \<and> (\<exists>j status detail. stored \<lparr>rt_max_entries = 9, rt_retention_days = 1\<rparr>
          (\<lambda>now new_id. tick_row new_id now ESCALATE quiet_prompt 1 2) [] (Inr ()) j \<and> status = BRAIN_DECLINED
        \<and> length (detail :: string) \<le> max_detail_length) \<and> r = Inr ()"
proof -
  let ?rt = "\<lparr>rt_max_entries = 9, rt_retention_days = 1\<rparr>" and ?w = "\<lparr>hw_journal = [], hw_rest = 0\<rparr> :: nat heart_world"
  let ?run = "composite_handler [journal_handler counting_services ?rt, escalation_handler counting_services ?rt ''m'' 4]
      ESCALATE quiet_prompt 1 2 initial_tick_state ?w"
  obtain r w' where run: "?run = (r, w')" by force
  have "fst ?run = Inr ()"
    by (simp add: composite_handler_def journal_handler_def escalation_handler_def journal_brain_def store_row_def
        op_simps on_rest_def on_journal_def counting_services_def tick_row_def brain_row_def journal_append_def
        insert_entry_def sweep_run delete_where_def Let_def)
  then have r: "r = Inr ()" using run by simp
  have "hs_brain counting_services = None" by (simp add: counting_services_def)
  with completed_tick_journaled [OF run] r obtain j detail where
    "stored ?rt (\<lambda>now new_id. tick_row new_id now ESCALATE quiet_prompt 1 2) [] (Inr ()) j"
    "length (detail :: string) \<le> max_detail_length"
    by auto
  then have "\<exists>j status detail. stored ?rt (\<lambda>now new_id. tick_row new_id now ESCALATE quiet_prompt 1 2) [] (Inr ()) j
      \<and> status = BRAIN_DECLINED \<and> length (detail :: string) \<le> max_detail_length" by iprover
  with run r show ?thesis by (intro exI [of _ r] exI [of _ w'] conjI)
qed

section \<open>The contract of a handler\<close>

abbreviation bounded_journal :: "nat \<Rightarrow> 'x heart_world \<Rightarrow> bool" where
  "bounded_journal m h \<equiv> journal_ok m (hw_journal h)"

lemma keeps_on_rest [keeps_intros]: "keeps (bounded_journal m) (on_rest f)"
  by (simp add: keeps_def on_rest_def split: prod.splits)

lemma keeps_on_journal: "keeps (journal_ok m) op \<Longrightarrow> keeps (bounded_journal m) (on_journal op)"
  by (force simp: keeps_def on_journal_def split: prod.splits sum.splits)

lemma keeps_store_row [keeps_intros]: "keeps (bounded_journal (rt_max_entries rt)) (store_row sv rt row)"
  unfolding store_row_def by (intro keeps_intros keeps_on_journal keeps_journal_append)

locale decision_handler =
  fixes handle :: "'x handler" and m :: nat
  assumes keeps_bound: "keeps (bounded_journal m) (handle d p n dur s)"
begin

lemma loop_keeps_bound:
  assumes "env_keeps (bounded_journal m) (env\<lparr>te_handler := \<lambda>d p n dur s. ret ()\<rparr>)"
    and "run cfg (env\<lparr>te_handler := handle\<rparr>) (s, w) = Some (s', w')" and "bounded_journal m w"
  shows "bounded_journal m w'"
proof -
  have "env_keeps (bounded_journal m) (env\<lparr>te_handler := handle\<rparr>)"
    using assms(1) keeps_bound by (simp add: env_keeps_def)
  from run_keeps [OF this assms(3,2)] show ?thesis .
qed

end

interpretation journaling: decision_handler "journal_handler sv rt" "rt_max_entries rt"
  by unfold_locales (simp add: journal_handler_def keeps_intros)

interpretation escalating: decision_handler "escalation_handler sv rt model n" "rt_max_entries rt"
proof
  fix d p k dur s
  show "keeps (bounded_journal (rt_max_entries rt)) (escalation_handler sv rt model n d p k dur s)"
    by (cases "hs_brain sv") (auto simp: escalation_handler_def journal_brain_def intro!: keeps_intros)
qed

interpretation injecting: decision_handler "fault_handler schedule" m
  by unfold_locales (auto simp: fault_handler_def keeps_intros split: option.splits)

lemma composite_contract:
  "(\<And>h. h \<in> set handlers \<Longrightarrow> decision_handler h m) \<Longrightarrow> decision_handler (composite_handler handlers) m"
proof unfold_locales
  fix d p k dur s
  assume "\<And>h. h \<in> set handlers \<Longrightarrow> decision_handler h m"
  then show "keeps (bounded_journal m) (composite_handler handlers d p k dur s)"
    unfolding composite_handler_def
    by (induction handlers) (simp_all add: keeps_ret keeps_then decision_handler.keeps_bound)
qed

end
