(* ===== verification/Heart.thy ===== *)
theory Heart
  imports Handlers Totp
begin

text \<open>
  The Heart around its loop: the guards every runtime shares (\<open>heart/runtime.py\<close>), the sources
  that report the daemon's state and the recent journal (\<open>heart/tick/sources\<close>), and the loop
  \<open>build_tick_loop\<close> assembles from the settings (\<open>heart/tick/loop.py\<close>). The model behind the
  runtime and the executor's own source and handler are parameters.
\<close>

section \<open>The runtime\<close>

datatype runtime_error = HeartNotLoadedError | HeartContextOverflowError nat nat | Backend_Error string

record runtime =
  hr_context_tokens :: nat
  hr_max_output_tokens :: nat
  hr_loaded :: bool

record 'x backend =
  hb_load :: "'x \<Rightarrow> (runtime_error + unit) \<times> 'x"
  hb_unload :: "'x \<Rightarrow> (runtime_error + unit) \<times> 'x"
  hb_token_count :: "string \<Rightarrow> nat"
  hb_generate :: "string \<Rightarrow> nat \<Rightarrow> 'x \<Rightarrow> (runtime_error + string) \<times> 'x"

definition heart_load :: "'x backend \<Rightarrow> (runtime \<times> 'x, runtime_error, unit) op" where
  "heart_load b = (\<lambda>(h, x).
     if hr_loaded h then (Inr (), h, x)
     else case hb_load b x of
            (Inl e, x1) \<Rightarrow> (Inl e, h, x1)
          | (Inr _, x1) \<Rightarrow> (Inr (), h\<lparr>hr_loaded := True\<rparr>, x1))"

definition heart_unload :: "'x backend \<Rightarrow> (runtime \<times> 'x, runtime_error, unit) op" where
  "heart_unload b = (\<lambda>(h, x).
     if \<not> hr_loaded h then (Inr (), h, x)
     else case hb_unload b x of
            (Inl e, x1) \<Rightarrow> (Inl e, h, x1)
          | (Inr _, x1) \<Rightarrow> (Inr (), h\<lparr>hr_loaded := False\<rparr>, x1))"

definition heart_generate ::
  "'x backend \<Rightarrow> string \<Rightarrow> nat option \<Rightarrow> (runtime \<times> 'x, runtime_error, string) op" where
  "heart_generate b prompt max_tokens = (\<lambda>(h, x).
     if \<not> hr_loaded h then (Inl HeartNotLoadedError, h, x)
     else let budget = (case max_tokens of Some n \<Rightarrow> n | None \<Rightarrow> hr_max_output_tokens h);
              used = hb_token_count b prompt + budget
          in if used > hr_context_tokens h then (Inl (HeartContextOverflowError used budget), h, x)
             else case hb_generate b prompt budget x of (r, x1) \<Rightarrow> (r, h, x1))"

text \<open>A loaded runtime never refuses a prompt that fits the budget the loop derives for it.\<close>

lemma budgeted_prompt_fits:
  assumes "hr_loaded h" and "int (hb_token_count b prompt) \<le> max 0 (int (hr_context_tokens h) - int n)"
    and "0 < hb_token_count b prompt"
  shows "heart_generate b prompt (Some n) (h, x) = (case hb_generate b prompt n x of (r, x1) \<Rightarrow> (r, h, x1))"
proof -
  have "hb_token_count b prompt + n \<le> hr_context_tokens h"
    using assms(2,3) by (simp add: max_def split: if_splits)
  then show ?thesis using assms(1) by (simp add: heart_generate_def Let_def)
qed

section \<open>The daemon's own state\<close>

definition priority_background :: int where "priority_background = 0"
definition priority_activity :: int where "priority_activity = 0"
definition priority_nominal :: int where "priority_nominal = 10"
definition priority_fault :: int where "priority_fault = 100"

text \<open>\<open>dp_format\<close> is the two-decimal format of a float.\<close>

record 'x daemon_probe =
  dp_started_at :: rat
  dp_healthy :: "'x heart_world \<Rightarrow> bool"
  dp_readiness :: "tick_state \<Rightarrow> 'x heart_world \<Rightarrow> (string \<times> bool) list"
  dp_format :: "rat \<Rightarrow> string"

definition format_uptime :: "rat \<Rightarrow> string" where
  "format_uptime seconds =
     (let total = nat \<lfloor>seconds\<rfloor>; hours = total div 3600; minutes = total mod 3600 div 60
      in if hours \<noteq> 0 then decimal hours @ ''h'' @ zfill 2 (decimal minutes) @ ''m''
         else if minutes \<noteq> 0 then decimal minutes @ ''m''
         else decimal total @ ''s'')"

definition daemon_state_name :: string where
  "daemon_state_name = ''daemon_state''"

definition daemon_item :: "string \<Rightarrow> int \<Rightarrow> snapshot_item" where
  "daemon_item txt priority = \<lparr>si_source = daemon_state_name, si_text = txt, si_priority = priority\<rparr>"

definition uptime_item :: "rat \<Rightarrow> snapshot_item" where
  "uptime_item uptime = daemon_item (''Daemon uptime: '' @ format_uptime uptime @ ''.'') priority_background"

definition readiness_item :: "(string \<times> bool) list \<Rightarrow> snapshot_item" where
  "readiness_item snapshot =
     (let checks = filter (\<lambda>(name, ok). name \<noteq> ''database'') snapshot;
          failing = sort (map fst (filter (\<lambda>(name, ok). \<not> ok) checks))
      in if failing \<noteq> []
         then daemon_item (''Readiness check(s) currently failing: '' @ join '', '' failing @ ''.'') priority_fault
         else daemon_item (''All '' @ decimal (length checks) @ '' readiness check(s) currently passing.'') priority_nominal)"

definition database_item :: "bool \<Rightarrow> snapshot_item" where
  "database_item healthy =
     (if healthy then daemon_item ''Database connection is healthy.'' priority_nominal
      else daemon_item ''Database connection is currently unhealthy.'' priority_fault)"

definition activity_item :: "(rat \<Rightarrow> string) \<Rightarrow> tick_state \<Rightarrow> snapshot_item" where
  "activity_item fmt s = daemon_item
     (case ts_last_decision s of
        None \<Rightarrow> ''Ticks completed: '' @ decimal (ts_ticks_run s) @ ''. No tick has run yet.''
      | Some d \<Rightarrow> ''Ticks completed: '' @ decimal (ts_ticks_run s) @ ''. Last decision: '' @ decision_value d
          @ '' (took '' @ (case ts_last_duration s of Some t \<Rightarrow> fmt t @ ''s'' | None \<Rightarrow> ''unknown'') @ '').'')
     priority_activity"

definition faults_item :: "tick_state \<Rightarrow> snapshot_item" where
  "faults_item s =
     (let failures_total = ts_failures_total s; consecutive_failures = ts_consecutive_failures s;
          consecutive_overruns = ts_consecutive_overruns s
      in if \<not> (consecutive_failures \<noteq> 0 \<or> consecutive_overruns \<noteq> 0)
         then daemon_item
           (if failures_total \<noteq> 0
            then ''No current tick failures or overruns ('' @ decimal failures_total @ '' historical failure(s)).''
            else ''No tick failures or overruns recorded.'') priority_nominal
         else daemon_item (join '' ''
           ((if consecutive_failures \<noteq> 0
             then [decimal consecutive_failures @ '' consecutive tick failure(s) ('' @ decimal failures_total @ '' total).'']
             else [])
            @ (if consecutive_overruns \<noteq> 0
               then [decimal consecutive_overruns @
                     '' consecutive tick(s) ran abnormally slow (a possible stuck or overloaded backend).'']
               else []))) priority_fault)"

definition daemon_source :: "'x heart_services \<Rightarrow> 'x daemon_probe \<Rightarrow> tick_state \<Rightarrow> ('x, snapshot_item list) heart_op" where
  "daemon_source sv dp s = op_bind (on_rest (hs_monotonic sv)) (\<lambda>now w.
     (Inr [uptime_item (now - dp_started_at dp), readiness_item (dp_readiness dp s w),
           database_item (dp_healthy dp w), activity_item (dp_format dp) s, faults_item s], w))"

text \<open>
  The five items in their fixed order; an item has fault priority exactly when what it reports
  is a live fault: a failing check other than the database's, an unhealthy database, a
  consecutive gauge above zero.
\<close>

lemma failing_checks:
  "sort (map fst (filter (\<lambda>(name, ok). \<not> ok) (filter (\<lambda>(name, ok). name \<noteq> db) cs))) = []
    \<longleftrightarrow> \<not> (\<exists>name. (name, False) \<in> set cs \<and> name \<noteq> db)"
  by (induction cs) auto

lemmas item_defs = uptime_item_def readiness_item_def database_item_def activity_item_def faults_item_def
  daemon_item_def priority_fault_def priority_nominal_def priority_background_def priority_activity_def Let_def

lemma daemon_items:
  "(si_priority (readiness_item cs) = priority_fault \<longleftrightarrow> (\<exists>name. (name, False) \<in> set cs \<and> name \<noteq> ''database''))
   \<and> (si_priority (database_item healthy) = priority_fault \<longleftrightarrow> \<not> healthy)
   \<and> (si_priority (faults_item s) = priority_fault \<longleftrightarrow> ts_consecutive_failures s \<noteq> 0 \<or> ts_consecutive_overruns s \<noteq> 0)
   \<and> si_priority (uptime_item t) < priority_nominal \<and> si_priority (activity_item fmt s) < priority_nominal"
proof (intro conjI)
  show "si_priority (readiness_item cs) = priority_fault \<longleftrightarrow> (\<exists>name. (name, False) \<in> set cs \<and> name \<noteq> ''database'')"
    unfolding readiness_item_def Let_def
    using failing_checks [of "''database''" cs] by (simp only: item_defs split: if_split) simp
qed (simp_all add: item_defs)

section \<open>Recent history\<close>

definition max_note_preview :: nat where
  "max_note_preview = 80"

definition format_entry :: "journal_entry \<Rightarrow> string" where
  "format_entry e = ''tick '' @ decimal (je_tick_number e) @ '': '' @ decision_value (je_decision e)
     @ (if je_note e \<noteq> [] then '' ('' @ take max_note_preview (je_note e) @ '')'' else [])"

definition recent_source :: "nat \<Rightarrow> tick_state \<Rightarrow> ('x, snapshot_item list) heart_op" where
  "recent_source recent_entries s w =
     (let entries = list_recent recent_entries None (hw_journal w)
      in if recent_entries = 0 \<or> entries = [] then (Inr [], w)
         else (Inr [\<lparr>si_source = ''recent_journal'',
                     si_text = ''Recent tick history (oldest first): '' @ join '' | '' (map format_entry (rev entries)),
                     si_priority = - 10\<rparr>], w))"

section \<open>Assembling the loop\<close>

record heart_settings =
  st_tick :: tick_config
  st_retention :: retention
  st_recent_entries :: nat
  st_escalate_to_brain :: bool
  st_brain_model :: string
  st_brain_max_output_tokens :: nat
  st_opencode_interventions :: bool
  st_fault_schedule :: "fault_window list option"

text \<open>
  The handlers in the order of \<open>build_tick_loop\<close>; \<open>interventions\<close> is the executor's handler
  when there is an executor, and a fault schedule that fails to load is an error.
\<close>

definition tick_handlers ::
  "heart_settings \<Rightarrow> 'x heart_services \<Rightarrow> 'x handler option \<Rightarrow> fault_window list option \<Rightarrow> 'x handler list" where
  "tick_handlers st sv interventions schedule =
     [journal_handler sv (st_retention st)]
     @ (if st_escalate_to_brain st
        then [escalation_handler sv (st_retention st) (st_brain_model st) (st_brain_max_output_tokens st)] else [])
     @ (case interventions of
          Some handler \<Rightarrow> if st_opencode_interventions st then [handler] else []
        | None \<Rightarrow> [])
     @ (case schedule of Some windows \<Rightarrow> [fault_handler windows] | None \<Rightarrow> [])"

type_synonym 'x source = "tick_state \<Rightarrow> ('x, snapshot_item list) heart_op"

definition loop_schedule :: "heart_settings \<Rightarrow> fault_window list option option" where
  "loop_schedule st = (case st_fault_schedule st of
     None \<Rightarrow> Some None
   | Some windows \<Rightarrow> map_option Some (load_fault_schedule windows))"

definition loop_handler ::
  "heart_settings \<Rightarrow> 'x heart_services \<Rightarrow> 'x handler option \<Rightarrow> fault_window list option \<Rightarrow> 'x handler" where
  "loop_handler st sv interventions schedule =
     (let handlers = tick_handlers st sv interventions schedule
      in if length handlers = 1 then hd handlers else composite_handler handlers)"

definition injected_probe :: "fault_window list option \<Rightarrow> 'x daemon_probe \<Rightarrow> 'x daemon_probe" where
  "injected_probe schedule dp = (case schedule of
     None \<Rightarrow> dp
   | Some windows \<Rightarrow> dp\<lparr>dp_readiness := \<lambda>s w. dp_readiness dp s w @ [(''fault_injection'', readiness_ok windows s)]\<rparr>)"

definition loop_sources ::
  "heart_settings \<Rightarrow> 'x heart_services \<Rightarrow> 'x daemon_probe \<Rightarrow> 'x source option \<Rightarrow> fault_window list option \<Rightarrow> 'x source list" where
  "loop_sources st sv dp executor schedule =
     [daemon_source sv (injected_probe schedule dp), recent_source (st_recent_entries st)]
     @ (case executor of Some source \<Rightarrow> [source] | None \<Rightarrow> [])
     @ (case schedule of Some windows \<Rightarrow> [fault_source sv windows] | None \<Rightarrow> [])"

text \<open>\<open>None\<close> is a refused schedule or a configuration \<open>TickLoop.__init__\<close> refuses.\<close>

definition build_tick_loop ::
  "heart_settings \<Rightarrow> 'x heart_services \<Rightarrow> 'x daemon_probe \<Rightarrow> ('x handler \<times> 'x source) option
   \<Rightarrow> ('x heart_world, heart_exc) tick_env \<Rightarrow> (tick_config \<times> ('x heart_world, heart_exc) tick_env) option" where
  "build_tick_loop st sv dp opencode base =
     (case loop_schedule st of
        None \<Rightarrow> None
      | Some schedule \<Rightarrow>
          if isl (check_config (st_tick st)) then None
          else Some (st_tick st, base
            \<lparr>te_sources := loop_sources st sv dp (map_option snd opencode) schedule,
             te_handler := loop_handler st sv (map_option fst opencode) schedule\<rparr>))"

section \<open>The assembled loop keeps its journal bounded\<close>

lemma keeps_sources:
  "keeps (bounded_journal m) (daemon_source sv dp s)"
  "keeps (bounded_journal m) (recent_source n s)"
  "keeps (bounded_journal m) (fault_source sv windows s)"
proof -
  show "keeps (bounded_journal m) (daemon_source sv dp s)"
    unfolding daemon_source_def by (intro keeps_intros) (simp add: keeps_def)
  show "keeps (bounded_journal m) (recent_source n s)"
    by (simp add: keeps_def recent_source_def Let_def)
  show "keeps (bounded_journal m) (fault_source sv windows s)"
    unfolding fault_source_def by (intro keeps_intros keeps_put) simp
qed

lemma handlers_contract:
  assumes "h \<in> set (tick_handlers st sv interventions schedule)"
    and "\<And>i. interventions = Some i \<Longrightarrow> decision_handler i (rt_max_entries (st_retention st))"
  shows "decision_handler h (rt_max_entries (st_retention st))"
  using assms journaling.decision_handler_axioms [of sv "st_retention st"]
    escalating.decision_handler_axioms [of sv "st_retention st" "st_brain_model st" "st_brain_max_output_tokens st"]
    injecting.decision_handler_axioms
  by (auto simp: tick_handlers_def split: option.splits if_splits)

lemma loop_handler_contract:
  assumes "\<And>i. interventions = Some i \<Longrightarrow> decision_handler i (rt_max_entries (st_retention st))"
  shows "decision_handler (loop_handler st sv interventions schedule) (rt_max_entries (st_retention st))"
proof -
  let ?hs = "tick_handlers st sv interventions schedule"
  have all: "decision_handler g (rt_max_entries (st_retention st))" if "g \<in> set ?hs" for g
    using that assms by (rule handlers_contract)
  have "hd ?hs \<in> set ?hs" by (simp add: tick_handlers_def)
  then show ?thesis
    using all composite_contract [of ?hs] by (simp add: loop_handler_def Let_def)
qed

lemma loop_sources_keep:
  fixes sv :: "'x heart_services"
  assumes "source \<in> set (loop_sources st sv dp executor schedule)"
    and "\<And>e s. executor = Some e \<Longrightarrow> keeps (bounded_journal m) (e s)"
  shows "keeps (bounded_journal m) (source s)"
  using assms by (auto simp: loop_sources_def keeps_sources split: option.splits)

lemma build_tick_loopE:
  assumes "build_tick_loop st sv dp opencode base = Some (cfg, env)"
  obtains schedule where "loop_schedule st = Some schedule" "cfg = st_tick st" "check_config cfg = Inr ()"
    and "env = base\<lparr>te_sources := loop_sources st sv dp (map_option snd opencode) schedule,
                     te_handler := loop_handler st sv (map_option fst opencode) schedule\<rparr>"
  using assms by (cases "check_config (st_tick st)") (auto simp: build_tick_loop_def split: option.splits)

text \<open>
  However long the assembled loop runs, and whatever its clock, model, Brain, executor and
  faults do, its journal never holds more rows than configured, with distinct ids: a fault
  schedule, the hand-off to the Brain and an executor whose handler keeps the journal bounded
  may all be switched on. (The base environment, its model and the executor's source leave the
  journal alone.)
\<close>

theorem built_loop_journal_bounded:
  fixes sv :: "'x heart_services"
  assumes "build_tick_loop st sv dp opencode base = Some (cfg, env)"
    and "run cfg env (s, w) = Some (s', w')"
    and "journal_ok (rt_max_entries (st_retention st)) (hw_journal w)"
    and "env_keeps (bounded_journal (rt_max_entries (st_retention st))) (base\<lparr>te_sources := [], te_handler := \<lambda>d p n dur s. ret ()\<rparr>)"
    and "\<And>i source. opencode = Some (i, source) \<Longrightarrow> decision_handler i (rt_max_entries (st_retention st))
           \<and> (\<forall>s. keeps (bounded_journal (rt_max_entries (st_retention st))) (source s))"
  shows "unique_by je_id (hw_journal w') \<and> length (hw_journal w') \<le> rt_max_entries (st_retention st)"
proof -
  let ?m = "rt_max_entries (st_retention st)"
  from assms(1) obtain schedule where
    env: "env = base\<lparr>te_sources := loop_sources st sv dp (map_option snd opencode) schedule,
                     te_handler := loop_handler st sv (map_option fst opencode) schedule\<rparr>"
    by (rule build_tick_loopE)
  have handler: "decision_handler (loop_handler st sv (map_option fst opencode) schedule) ?m"
    by (rule loop_handler_contract) (use assms(5) in \<open>cases opencode; auto\<close>)
  have sources: "keeps (bounded_journal ?m) (source s)"
    if "source \<in> set (loop_sources st sv dp (map_option snd opencode) schedule)" for source s
    using that by (rule loop_sources_keep) (use assms(5) in \<open>cases opencode; auto\<close>)
  let ?base = "base\<lparr>te_sources := loop_sources st sv dp (map_option snd opencode) schedule\<rparr>"
  have "env_keeps (bounded_journal ?m) (?base\<lparr>te_handler := \<lambda>d p n dur s. ret ()\<rparr>)"
    using assms(4) sources by (simp add: env_keeps_def)
  moreover have "run cfg (?base\<lparr>te_handler := loop_handler st sv (map_option fst opencode) schedule\<rparr>) (s, w) = Some (s', w')"
    using assms(2) env by simp
  ultimately have "bounded_journal ?m w'"
    using assms(3) by (rule decision_handler.loop_keeps_bound [OF handler])
  then show ?thesis by (simp add: journal_ok_def)
qed

text \<open>
  A loop with a scheduled failure at its first tick, no Brain and no executor; it is stopped
  while it waits for its second tick.
\<close>

definition sample_settings :: heart_settings where
  "sample_settings = \<lparr>st_tick = sample_config, st_retention = \<lparr>rt_max_entries = 2, rt_retention_days = 1\<rparr>,
     st_recent_entries = 3, st_escalate_to_brain = True, st_brain_model = ''m'', st_brain_max_output_tokens = 4,
     st_opencode_interventions = False,
     st_fault_schedule = Some [\<lparr>fw_id = ''f'', fw_fault = TICK_FAILURE, fw_at_tick = 1, fw_duration_ticks = 1,
       fw_expected_decision = ACT, fw_note = [], fw_sleep_seconds = 0\<rparr>]\<rparr>"

definition sample_base :: "(nat heart_world, heart_exc) tick_env" where
  "sample_base = \<lparr>te_clock = (\<lambda>w. (0, w)), te_now = (\<lambda>w. (0, w)), te_jitter = (\<lambda>w. (0, w)),
     te_stopping = (\<lambda>w. False), te_wait = (\<lambda>d w. (1 \<le> hw_rest w, w\<lparr>hw_rest := hw_rest w + 1\<rparr>)), te_sources = [],
     te_context_tokens = 64, te_token_count = (\<lambda>t. 5), te_template = ([], []),
     te_generate = (\<lambda>text n. ret ''Act.''), te_handler = (\<lambda>d p n dur s. ret ())\<rparr>"

definition sample_probe :: "nat daemon_probe" where
  "sample_probe = \<lparr>dp_started_at = 0, dp_healthy = (\<lambda>w. True), dp_readiness = (\<lambda>s w. []), dp_format = (\<lambda>t. [])\<rparr>"

lemma sample_loop:
  "\<exists>cfg env s' w'. build_tick_loop sample_settings counting_services sample_probe None sample_base = Some (cfg, env)
     \<and> run cfg env (initial_tick_state, \<lparr>hw_journal = [], hw_rest = 0\<rparr>) = Some (s', w') \<and> ts_failures_total s' = 1"
  by (simp add: build_tick_loop_def loop_schedule_def load_fault_schedule_def window_ok_def no_same_kind_overlap_def
      loop_sources_def loop_handler_def tick_handlers_def sample_settings_def sample_base_def sample_probe_def
      run_def run_from.simps run_cycle_def scheduled_tick_def tick_once_def tick_body_def
      sample_config_def initial_tick_state_def act_reply next_tick_simple breaker_defs
      collect_items_def op_simps check_config_def daemon_source_def recent_source_def fault_source_def list_recent_def
      injected_probe_def covers_def end_tick_def active_window_def counting_services_def on_rest_def
      composite_handler_def journal_handler_def escalation_handler_def fault_handler_def store_row_def on_journal_def
      tick_row_def journal_append_def insert_entry_def sweep_run delete_where_def Let_def)

lemma built_loop_journal_bounded_witness:
  "\<exists>s' w'. (\<exists>cfg env. build_tick_loop sample_settings counting_services sample_probe None sample_base = Some (cfg, env)
       \<and> run cfg env (initial_tick_state, \<lparr>hw_journal = [], hw_rest = 0\<rparr>) = Some (s', w'))
     \<and> ts_failures_total s' = 1 \<and> length (hw_journal w') \<le> 2"
proof -
  obtain cfg env s' w' where b: "build_tick_loop sample_settings counting_services sample_probe None sample_base = Some (cfg, env)"
    and r: "run cfg env (initial_tick_state, \<lparr>hw_journal = [], hw_rest = 0\<rparr>) = Some (s', w')" "ts_failures_total s' = 1"
    using sample_loop by blast
  have two: "rt_max_entries (st_retention sample_settings) = 2" by (simp add: sample_settings_def)
  have keep: "env_keeps (bounded_journal 2) (sample_base\<lparr>te_sources := [], te_handler := \<lambda>d p n dur s. ret ()\<rparr>)"
    by (simp add: env_keeps_def sample_base_def keeps_ret)
  have "length (hw_journal w') \<le> 2"
    using built_loop_journal_bounded [OF b r(1)] keep by (simp add: two journal_ok_def)
  with b r show ?thesis by blast
qed

end
