(* ===== verification/Opencode_Policy.thy ===== *)
theory Opencode_Policy
  imports Opencode_Lifecycle Heart
begin

text \<open>
  The Heart's interventions on the executor (\<open>heart/tick/opencode_intervention_handler.py\<close>) and
  the source that reports the executor's state (\<open>heart/tick/sources/opencode_state.py\<close>). A probe
  is what the service's reads return; the policy is a ladder of four rungs behind two budgets.
\<close>

section \<open>The oc_probe\<close>

record running_snapshot =
  rs_id :: string
  rs_started_at :: "stamp option"
  rs_last_event_at :: "stamp option"

record oc_probe =
  pb_intake_paused :: bool
  pb_counts_by_status :: "(run_status \<times> nat) list"
  pb_running_runs :: "running_snapshot list"
  pb_recent_outcome_counts :: "stamp \<Rightarrow> nat \<times> nat \<times> nat"
  pb_recent_retryable_runs :: "stamp \<Rightarrow> opencode_run list"

definition running_runs :: "oc_service \<Rightarrow> running_snapshot list" where
  "running_runs s = map (\<lambda>r. \<lparr>rs_id = ru_id r, rs_started_at = ru_started_at r,
     rs_last_event_at = map_of (oc_last_event s) (ru_id r)\<rparr>) (list_running (oc_runs s))"

definition service_probe :: "oc_service \<Rightarrow> oc_probe" where
  "service_probe s = \<lparr>pb_intake_paused = oc_intake_paused s, pb_counts_by_status = counts_by_status (oc_runs s),
     pb_running_runs = running_runs s, pb_recent_outcome_counts = (\<lambda>since. recent_outcome_counts since (oc_runs s)),
     pb_recent_retryable_runs = (\<lambda>since. recent_retryable_runs since (oc_runs s))\<rparr>"

text \<open>\<open>last_event_at or started_at\<close>, and the stall test; seconds are rational, instants are microseconds.\<close>

definition activity_reference :: "running_snapshot \<Rightarrow> stamp option" where
  "activity_reference r = (case rs_last_event_at r of Some t \<Rightarrow> Some t | None \<Rightarrow> rs_started_at r)"

definition stalled :: "rat \<Rightarrow> instant \<Rightarrow> running_snapshot \<Rightarrow> bool" where
  "stalled stall_seconds now r = (case activity_reference r of
     None \<Rightarrow> False
   | Some t \<Rightarrow> of_int (parse_iso t) / 1000000 < of_int now / 1000000 - stall_seconds)"

section \<open>The policy\<close>

record policy_config =
  pc_max_retries_per_run :: nat
  pc_cooldown_ticks :: nat
  pc_max_interventions_per_hour :: nat
  pc_stall_seconds :: rat
  pc_recent_window_minutes :: nat

record policy_state =
  ps_last_intervention_tick :: "nat option"
  ps_recent_intervention_times :: "rat list"

definition initial_policy_state :: policy_state where
  "initial_policy_state = \<lparr>ps_last_intervention_tick = None, ps_recent_intervention_times = []\<rparr>"

record intervention_decision =
  id_action :: opencode_action
  id_run_id :: "string option"
  id_reason :: string

definition pause_intake_failure_threshold :: nat where
  "pause_intake_failure_threshold = 3"

text \<open>\<open>_hourly_budget_exhausted\<close> first drops the times older than an hour.\<close>

definition prune_times :: "rat \<Rightarrow> policy_state \<Rightarrow> policy_state" where
  "prune_times clock ps = ps\<lparr>ps_recent_intervention_times :=
     filter (\<lambda>t. t \<ge> clock - 3600) (ps_recent_intervention_times ps)\<rparr>"

definition hourly_budget_exhausted :: "policy_config \<Rightarrow> policy_state \<Rightarrow> bool" where
  "hourly_budget_exhausted pc ps \<longleftrightarrow> length (ps_recent_intervention_times ps) \<ge> pc_max_interventions_per_hour pc"

definition in_cooldown :: "policy_config \<Rightarrow> nat \<Rightarrow> policy_state \<Rightarrow> bool" where
  "in_cooldown pc ticks ps = (case ps_last_intervention_tick ps of
     None \<Rightarrow> False
   | Some t \<Rightarrow> int ticks - int t < int (pc_cooldown_ticks pc))"

definition first_stalled_run_id :: "policy_config \<Rightarrow> oc_probe \<Rightarrow> instant \<Rightarrow> string option" where
  "first_stalled_run_id pc pb now = map_option rs_id (find (stalled (pc_stall_seconds pc) now) (pb_running_runs pb))"

definition persisting_fault :: string where
  "persisting_fault = ''opencode fault persists with no remaining bounded action''"

text \<open>The ladder of \<open>decide\<close>, on the pruned state.\<close>

definition ladder :: "policy_config \<Rightarrow> oc_probe \<Rightarrow> nat \<Rightarrow> instant \<Rightarrow> policy_state \<Rightarrow> intervention_decision option" where
  "ladder pc pb ticks now ps =
     (let hourly_ok = (\<not> hourly_budget_exhausted pc ps);
          cooldown_ok = (hourly_ok \<and> \<not> in_cooldown pc ticks ps);
          since = iso (now - int (pc_recent_window_minutes pc) * 60000000);
          retry_candidates = pb_recent_retryable_runs pb since;
          eligible = filter (\<lambda>r. ru_intervention_count r < pc_max_retries_per_run pc) retry_candidates;
          stalled_id = first_stalled_run_id pc pb now;
          failure_total = (case pb_recent_outcome_counts pb since of (failed, timeout, denied) \<Rightarrow> failed + timeout);
          candidate_run_id = (if retry_candidates \<noteq> [] then Some (ru_id (hd retry_candidates)) else stalled_id)
      in if cooldown_ok \<and> eligible \<noteq> []
         then Some \<lparr>id_action = RETRY, id_run_id = Some (ru_id (hd eligible)), id_reason =
           ''run '' @ ru_id (hd eligible) @ '' '' @ status_name (ru_status (hd eligible)) @ '', retrying''\<rparr>
         else if cooldown_ok \<and> stalled_id \<noteq> None
         then Some \<lparr>id_action = NUDGE, id_run_id = stalled_id,
           id_reason = ''run '' @ the stalled_id @ '' stalled, nudging''\<rparr>
         else if cooldown_ok \<and> failure_total \<ge> pause_intake_failure_threshold
         then Some \<lparr>id_action = PAUSE_INTAKE, id_run_id = None, id_reason = decimal failure_total
           @ '' opencode failures/timeouts in the last '' @ decimal (pc_recent_window_minutes pc) @ ''m, pausing intake''\<rparr>
         else if hourly_ok \<and> (candidate_run_id \<noteq> None \<or> failure_total \<ge> pause_intake_failure_threshold)
         then Some \<lparr>id_action = ESCALATE_TO_BRAIN, id_run_id = candidate_run_id, id_reason = persisting_fault\<rparr>
         else None)"

text \<open>\<open>decide\<close>: \<open>clock\<close> is the reading of the budget, \<open>later\<close> the one \<open>_decided\<close> records.\<close>

definition decided :: "nat \<Rightarrow> rat \<Rightarrow> policy_state \<Rightarrow> policy_state" where
  "decided ticks later ps = ps\<lparr>ps_last_intervention_tick := Some ticks,
     ps_recent_intervention_times := ps_recent_intervention_times ps @ [later]\<rparr>"

definition decide :: "policy_config \<Rightarrow> oc_probe \<Rightarrow> nat \<Rightarrow> instant \<Rightarrow> rat \<Rightarrow> rat \<Rightarrow> policy_state
    \<Rightarrow> intervention_decision option \<times> policy_state" where
  "decide pc pb ticks now clock later ps =
     (let ps1 = prune_times clock ps
      in case ladder pc pb ticks now ps1 of
           None \<Rightarrow> (None, ps1)
         | Some d \<Rightarrow> (Some d, decided ticks later ps1))"

section \<open>What the policy chooses\<close>

definition policy_fault :: "policy_config \<Rightarrow> oc_probe \<Rightarrow> instant \<Rightarrow> bool" where
  "policy_fault pc pb now \<longleftrightarrow>
     (let since = iso (now - int (pc_recent_window_minutes pc) * 60000000)
      in pb_recent_retryable_runs pb since \<noteq> [] \<or> first_stalled_run_id pc pb now \<noteq> None
         \<or> (case pb_recent_outcome_counts pb since of (failed, timeout, denied) \<Rightarrow> failed + timeout)
             \<ge> pause_intake_failure_threshold)"

lemma ladder_some_iff:
  "ladder pc pb ticks now ps \<noteq> None \<longleftrightarrow> \<not> hourly_budget_exhausted pc ps \<and> policy_fault pc pb now"
proof -
  have empty: "filter p xs \<noteq> [] \<Longrightarrow> xs \<noteq> []" for p and xs :: "opencode_run list" by auto
  show ?thesis
    by (auto simp: ladder_def policy_fault_def Let_def dest: empty split: prod.splits)
qed

lemma ladder_bounded_rungs:
  "ladder pc pb ticks now ps = Some d \<Longrightarrow> id_action d \<noteq> ESCALATE_TO_BRAIN \<Longrightarrow> \<not> in_cooldown pc ticks ps"
  by (auto simp: ladder_def Let_def split: prod.splits if_splits)

lemma ladder_hourly: "ladder pc pb ticks now ps = Some d \<Longrightarrow> \<not> hourly_budget_exhausted pc ps"
  using ladder_some_iff by blast

section \<open>The budgets\<close>

type_synonym policy_input = "oc_probe \<times> nat \<times> instant \<times> rat \<times> rat"

fun policy_run :: "policy_config \<Rightarrow> policy_input list \<Rightarrow> policy_state \<Rightarrow> (rat \<times> nat \<times> intervention_decision) list" where
  "policy_run pc [] ps = []"
| "policy_run pc ((pb, ticks, now, clock, later) # inputs) ps =
     (case decide pc pb ticks now clock later ps of
        (None, ps1) \<Rightarrow> policy_run pc inputs ps1
      | (Some d, ps1) \<Rightarrow> (later, ticks, d) # policy_run pc inputs ps1)"

text \<open>A monotonic clock: each reading is at least the one before.\<close>

fun clock_readings :: "policy_input list \<Rightarrow> rat list" where
  "clock_readings [] = []"
| "clock_readings ((pb, ticks, now, clock, later) # inputs) = clock # later # clock_readings inputs"

definition within_hour :: "rat \<Rightarrow> rat \<Rightarrow> bool" where
  "within_hour x t \<longleftrightarrow> x \<le> t \<and> t \<le> x + 3600"

abbreviation in_window :: "rat \<Rightarrow> (rat \<times> nat \<times> intervention_decision) list \<Rightarrow> nat" where
  "in_window x out \<equiv> length (filter (\<lambda>(t, _). within_hour x t) out)"

lemma decide_cases:
  obtains (none) "ladder pc pb ticks now (prune_times clock ps) = None"
      "decide pc pb ticks now clock later ps = (None, prune_times clock ps)"
  | (some) d where "ladder pc pb ticks now (prune_times clock ps) = Some d"
      "decide pc pb ticks now clock later ps = (Some d, decided ticks later (prune_times clock ps))"
  by (cases "ladder pc pb ticks now (prune_times clock ps)") (simp_all add: decide_def Let_def)

lemma run_times_late:
  "sorted (c # clock_readings inputs) \<Longrightarrow> (t, k, d) \<in> set (policy_run pc inputs ps) \<Longrightarrow> c \<le> t"
proof (induction inputs arbitrary: c ps rule: clock_readings.induct)
  case (2 pb ticks now clock later inputs)
  show ?case
    by (cases rule: decide_cases [of pc pb ticks now clock ps later])
      (use 2 in \<open>fastforce dest: "2.IH" [of later]\<close>)+
qed simp

lemma window_pruned:
  assumes "clock \<le> t" "within_hour x t"
  shows "filter (within_hour x) (filter (\<lambda>u. u \<ge> clock - 3600) ts) = filter (within_hour x) ts"
  using assms by (auto simp: within_hour_def intro!: filter_cong)

lemma in_window_zero: "\<not> (\<exists>t k d. (t, k, d) \<in> set out \<and> within_hour x t) \<Longrightarrow> in_window x out = 0"
  by (auto simp: filter_empty_conv)

lemma hourly_window:
  assumes "sorted (clock_readings inputs)"
    and "length (ps_recent_intervention_times ps) \<le> pc_max_interventions_per_hour pc"
  shows "length (filter (within_hour x) (ps_recent_intervention_times ps)) + in_window x (policy_run pc inputs ps)
    \<le> pc_max_interventions_per_hour pc"
  using assms
proof (induction inputs arbitrary: ps rule: clock_readings.induct)
  case 1
  then show ?case using order.trans [OF length_filter_le [of "within_hour x" "ps_recent_intervention_times ps"]] by simp
next
  case (2 pb ticks now clock later inputs)
  let ?T = "ps_recent_intervention_times ps" and ?out = "policy_run pc ((pb, ticks, now, clock, later) # inputs) ps"
  let ?P = "ps_recent_intervention_times (prune_times clock ps)"
  have P: "?P = filter (\<lambda>u. u \<ge> clock - 3600) ?T" by (simp add: prune_times_def)
  have total: "length (filter (within_hour x) ?P) + in_window x ?out \<le> pc_max_interventions_per_hour pc"
  proof (cases rule: decide_cases [of pc pb ticks now clock ps later])
    case none
    have "length ?P \<le> pc_max_interventions_per_hour pc" using 2(3) P length_filter_le order.trans by metis
    with 2 none show ?thesis by simp
  next
    case (some d)
    have "length ?P < pc_max_interventions_per_hour pc"
      using ladder_hourly [OF some(1)] by (simp add: hourly_budget_exhausted_def)
    then have "length (ps_recent_intervention_times (decided ticks later (prune_times clock ps))) \<le> pc_max_interventions_per_hour pc"
      by (simp add: decided_def)
    from "2.IH" [OF _ this] "2.prems"(1) have
      "length (filter (within_hour x) (?P @ [later])) + in_window x (policy_run pc inputs (decided ticks later (prune_times clock ps)))
        \<le> pc_max_interventions_per_hour pc"
      by (simp add: decided_def)
    with some show ?thesis by (simp split: if_splits)
  qed
  show ?case
  proof (cases "\<exists>t k d. (t, k, d) \<in> set ?out \<and> within_hour x t")
    case True
    then obtain t k d where t: "(t, k, d) \<in> set ?out" "within_hour x t" by blast
    have "clock \<le> t"
      by (rule run_times_late [OF _ t(1)]) (use "2.prems"(1) in simp)
    from window_pruned [OF this t(2)] total P show ?thesis by simp
  next
    case False
    then have "in_window x ?out = 0" by (rule in_window_zero)
    then show ?thesis
      using "2.prems"(2) length_filter_le [of "within_hour x" ?T] by linarith
  qed
qed

definition spaced :: "policy_config \<Rightarrow> rat \<times> nat \<times> intervention_decision \<Rightarrow> rat \<times> nat \<times> intervention_decision \<Rightarrow> bool" where
  "spaced pc = (\<lambda>(_, a, _) (_, b, d). id_action d \<noteq> ESCALATE_TO_BRAIN \<longrightarrow> int b - int a \<ge> int (pc_cooldown_ticks pc))"

lemma cooldown_spacing:
  "successively (spaced pc) (policy_run pc inputs ps)
   \<and> (\<forall>t k. ps_last_intervention_tick ps = Some k \<longrightarrow> policy_run pc inputs ps \<noteq> []
        \<longrightarrow> spaced pc (t, k, e) (hd (policy_run pc inputs ps)))"
proof (induction inputs arbitrary: ps e rule: clock_readings.induct)
  case (2 pb ticks now clock later inputs)
  have last: "ps_last_intervention_tick (prune_times clock ps) = ps_last_intervention_tick ps"
    by (simp add: prune_times_def)
  show ?case
  proof (cases rule: decide_cases [of pc pb ticks now clock ps later])
    case none
    with 2 [of "prune_times clock ps" e] last show ?thesis by simp
  next
    case (some d)
    let ?ps = "decided ticks later (prune_times clock ps)"
    have "ps_last_intervention_tick ?ps = Some ticks" by (simp add: decided_def)
    with 2 [of ?ps d] have rest: "successively (spaced pc) (policy_run pc inputs ?ps)"
      "policy_run pc inputs ?ps \<noteq> [] \<Longrightarrow> spaced pc (later, ticks, d) (hd (policy_run pc inputs ?ps))"
      by simp_all
    have "spaced pc (t, k, e) (later, ticks, d)" if "ps_last_intervention_tick ps = Some k" for t k
      using ladder_bounded_rungs [OF some(1)] that last by (auto simp: spaced_def in_cooldown_def)
    with rest some show ?thesis by (cases "policy_run pc inputs ?ps") simp_all
  qed
qed simp

text \<open>
  C25. The budgets of the policy hold for every sequence of ticks, whatever the executor reports:
  within any hour of a monotonic clock at most the configured number of interventions is decided,
  hand-offs to the Brain included; and a retry, a nudge or a pause is at least the cooldown in
  ticks after the decision before it, whatever that was.
\<close>

theorem policy_budgets:
  assumes "sorted (clock_readings inputs)"
  shows "length (filter (\<lambda>(t, _). x \<le> t \<and> t \<le> x + 3600) (policy_run pc inputs initial_policy_state))
      \<le> pc_max_interventions_per_hour pc
    \<and> successively (\<lambda>(_, a, _) (_, b, d). id_action d \<noteq> ESCALATE_TO_BRAIN \<longrightarrow> int b - int a \<ge> int (pc_cooldown_ticks pc))
        (policy_run pc inputs initial_policy_state)"
proof -
  have "length (filter (within_hour x) (ps_recent_intervention_times initial_policy_state))
      + in_window x (policy_run pc inputs initial_policy_state) \<le> pc_max_interventions_per_hour pc"
    by (rule hourly_window [OF assms]) (simp add: initial_policy_state_def)
  then show ?thesis
    using cooldown_spacing [of pc inputs initial_policy_state undefined]
    by (simp add: within_hour_def [abs_def] spaced_def [abs_def])
qed

text \<open>Six reports of the same failed run in one hour, one tick apart: the ladder against its budgets.\<close>

definition failing_probe :: oc_probe where
  "failing_probe = \<lparr>pb_intake_paused = False, pb_counts_by_status = [], pb_running_runs = [],
     pb_recent_outcome_counts = (\<lambda>since. (1, 0, 0)), pb_recent_retryable_runs = (\<lambda>since. [stale_run])\<rparr>"

definition sample_policy :: policy_config where
  "sample_policy = \<lparr>pc_max_retries_per_run = 2, pc_cooldown_ticks = 2, pc_max_interventions_per_hour = 3,
     pc_stall_seconds = 300, pc_recent_window_minutes = 15\<rparr>"

definition sample_inputs :: "policy_input list" where
  "sample_inputs = map (\<lambda>k. (failing_probe, k, 0, of_nat k, of_nat k)) [1, 2, 3, 4]"

lemma policy_budgets_witness:
  "map (\<lambda>(t, k, d). (k, id_action d)) (policy_run sample_policy sample_inputs initial_policy_state)
     = [(1, RETRY), (2, ESCALATE_TO_BRAIN), (3, ESCALATE_TO_BRAIN)]
   \<and> length (filter (\<lambda>(t, _). 0 \<le> t \<and> t \<le> 0 + 3600) (policy_run sample_policy sample_inputs initial_policy_state)) \<le> 3"
proof -
  have "sorted (clock_readings sample_inputs)" by (simp add: sample_inputs_def)
  from policy_budgets [OF this, of 0 sample_policy] show ?thesis
    by (simp add: sample_inputs_def sample_policy_def initial_policy_state_def decide_def ladder_def failing_probe_def
        prune_times_def hourly_budget_exhausted_def in_cooldown_def decided_def first_stalled_run_id_def
        stale_run_def new_run_def pause_intake_failure_threshold_def Let_def)
qed

section \<open>Against the service\<close>

lemma retryable_runs_from_table:
  "r \<in> set (recent_retryable_runs since rows) \<longleftrightarrow> r \<in> set rows \<and> ru_created_at r > since \<and> retryable (ru_status r)"
  by (auto simp: recent_retryable_runs_def runs_newest_first_def retryable_def)

lemma stalled_run_running:
  assumes "first_stalled_run_id pc (service_probe s) now = Some i"
  shows "\<exists>r \<in> set (oc_runs s). ru_id r = i \<and> ru_status r = Running"
proof -
  obtain sn where sn: "find (stalled (pc_stall_seconds pc) now) (running_runs s) = Some sn" "rs_id sn = i"
    using assms by (auto simp: first_stalled_run_id_def service_probe_def)
  have "sn \<in> set (running_runs s)" using find_in_set [OF sn(1)] by simp
  with sn(2) show ?thesis by (auto simp: running_runs_def list_running_def)
qed

text \<open>
  What the policy chooses on the live service is always applicable: a retry names a stored run
  that failed or timed out and whose count is below the per-run limit, so \<open>apply_intervention\<close>
  neither declines it nor misses it; a nudge names a stored running run; a pause names none; a
  hand-off to the Brain names a stored run or none; compaction is never chosen. Nothing at all is
  chosen exactly when the hour's budget is used up or no fault is reported.
\<close>

theorem policy_targets_stored:
  assumes "table_ok (oc_runs s)" and "decide pc (service_probe s) ticks now clock later ps = (result, ps')"
  shows "(result = None \<longleftrightarrow> hourly_budget_exhausted pc (prune_times clock ps) \<or> \<not> policy_fault pc (service_probe s) now)
    \<and> (\<forall>d. result = Some d \<longrightarrow> (case id_action d of
         RETRY \<Rightarrow> \<exists>i r. id_run_id d = Some i \<and> find_run i (oc_runs s) = Some r \<and> retryable (ru_status r)
           \<and> ru_intervention_count r < pc_max_retries_per_run pc
       | NUDGE \<Rightarrow> \<exists>i r. id_run_id d = Some i \<and> find_run i (oc_runs s) = Some r \<and> ru_status r = Running
       | COMPACT \<Rightarrow> False
       | PAUSE_INTAKE \<Rightarrow> id_run_id d = None
       | ESCALATE_TO_BRAIN \<Rightarrow> (\<forall>i. id_run_id d = Some i \<longrightarrow> (\<exists>r. find_run i (oc_runs s) = Some r))))"
proof -
  let ?pb = "service_probe s" and ?since = "iso (now - int (pc_recent_window_minutes pc) * 60000000)"
  let ?fits = "\<lambda>r. ru_intervention_count r < pc_max_retries_per_run pc"
  let ?c = "pb_recent_retryable_runs ?pb ?since"
  have c: "?c = recent_retryable_runs ?since (oc_runs s)" by (simp add: service_probe_def)
  have uniq: "unique_by ru_id (oc_runs s)" using assms(1) by blast
  have stored: "find_run (ru_id r) (oc_runs s) = Some r" "retryable (ru_status r)" if "r \<in> set ?c" for r
    using that find_run_iff [OF uniq] by (auto simp: c retryable_runs_from_table)
  have eligible: "hd (filter ?fits ?c) \<in> set ?c \<and> ?fits (hd (filter ?fits ?c))" if "filter ?fits ?c \<noteq> []"
    using hd_in_set [OF that] by simp
  have running: "\<exists>r. find_run i (oc_runs s) = Some r \<and> ru_status r = Running" if "first_stalled_run_id pc ?pb now = Some i" for i
    using stalled_run_running [OF that] find_run_iff [OF uniq] by blast
  have chosen: "result = ladder pc ?pb ticks now (prune_times clock ps)"
    by (cases rule: decide_cases [of pc ?pb ticks now clock ps later]) (use assms(2) in simp_all)
  have targets: "case id_action d of
         RETRY \<Rightarrow> \<exists>i r. id_run_id d = Some i \<and> find_run i (oc_runs s) = Some r \<and> retryable (ru_status r) \<and> ?fits r
       | NUDGE \<Rightarrow> \<exists>i r. id_run_id d = Some i \<and> find_run i (oc_runs s) = Some r \<and> ru_status r = Running
       | COMPACT \<Rightarrow> False
       | PAUSE_INTAKE \<Rightarrow> id_run_id d = None
       | ESCALATE_TO_BRAIN \<Rightarrow> (\<forall>i. id_run_id d = Some i \<longrightarrow> (\<exists>r. find_run i (oc_runs s) = Some r))"
    if "result = Some d" for d
    using that chosen eligible stored running hd_in_set [of ?c]
    by (auto simp: ladder_def Let_def split: if_splits prod.splits)
  have "result = None \<longleftrightarrow> hourly_budget_exhausted pc (prune_times clock ps) \<or> \<not> policy_fault pc ?pb now"
    using ladder_some_iff [of pc ?pb ticks now "prune_times clock ps"] unfolding chosen by argo
  then show ?thesis by (intro conjI allI impI targets)
qed

lemma policy_targets_stored_witness:
  "\<exists>d ps'. decide sample_policy (service_probe (booted tiny 0 [stale_run])) 1 0 0 0 initial_policy_state = (Some d, ps')
     \<and> id_action d = RETRY \<and> (\<exists>i r. id_run_id d = Some i \<and> find_run i (oc_runs (booted tiny 0 [stale_run])) = Some r
          \<and> retryable (ru_status r) \<and> ru_intervention_count r < 2)"
proof -
  let ?b = "booted tiny 0 [stale_run]"
  define r where "r = stale_run\<lparr>ru_status := Run_Failed, ru_error_detail := restarted, ru_completed_at := Some (iso 0)\<rparr>"
  have "active_status Running" by (simp add: active_status_def)
  then have b: "oc_runs ?b = [r]"
    by (simp add: booted_def new_service_def sweep_stale_on_boot_def op_simps update_where_def stale_run_def r_def)
  have ok: "table_ok (oc_runs ?b)"
    by (simp add: b table_ok_def unique_by_def terminal_status_def) (simp add: r_def)
  have r: "ru_created_at r = 0" "ru_status r = Run_Failed" "ru_intervention_count r = 0"
    by (simp_all add: r_def stale_run_def new_run_def iso_def)
  have "recent_retryable_runs (iso (0 - 15 * 60000000)) [r] = [r]"
    by (simp add: recent_retryable_runs_def runs_newest_first_def r iso_def)
  then have "\<exists>d. fst (decide sample_policy (service_probe ?b) 1 0 0 0 initial_policy_state) = Some d \<and> id_action d = RETRY"
    by (simp add: decide_def ladder_def sample_policy_def service_probe_def b r prune_times_def initial_policy_state_def
        hourly_budget_exhausted_def in_cooldown_def Let_def)
  then obtain d ps' where d: "decide sample_policy (service_probe ?b) 1 0 0 0 initial_policy_state = (Some d, ps')" "id_action d = RETRY"
    by (metis prod.collapse)
  have "\<exists>i r. id_run_id d = Some i \<and> find_run i (oc_runs ?b) = Some r \<and> retryable (ru_status r)
      \<and> ru_intervention_count r < pc_max_retries_per_run sample_policy"
    using policy_targets_stored [OF ok d(1)] d(2) by simp
  with d show ?thesis by (simp add: sample_policy_def)
qed

end
