(* ===== verification/Opencode_Handler.thy ===== *)
theory Opencode_Handler
  imports Opencode_Policy
begin

text \<open>
  The handler that applies the policy's choice (\<open>OpencodeInterventionHandler\<close>), the source that
  reports the executor (\<open>OpencodeStateSource\<close>), and the loop \<open>build_tick_loop\<close> assembles when there
  is an executor. The rest of the world holds the run service and the policy's memory.
\<close>

record 'y executor_world =
  hx_service :: oc_service
  hx_policy :: policy_state
  hx_base :: 'y

type_synonym ('y, 'a) exec_op = "('y executor_world, 'a) heart_op"

definition error_name :: "opencode_error \<Rightarrow> string" where
  "error_name e = (case e of Row_Clash \<Rightarrow> ''IntegrityError'' | Row_Assertion \<Rightarrow> ''AssertionError''
     | OpencodeIntakePausedError \<Rightarrow> ''OpencodeIntakePausedError'' | OpencodeRunFailedError n \<Rightarrow> ''OpencodeRunFailedError''
     | OpencodeBusyError n \<Rightarrow> ''OpencodeBusyError'')"

definition on_service :: "'a oc_op \<Rightarrow> ('y, 'a) exec_op" where
  "on_service m w = (case m (hx_service (hw_rest w)) of
     (Inl e, s) \<Rightarrow> (Inl (Heart_Failed (error_name e)), w\<lparr>hw_rest := (hw_rest w)\<lparr>hx_service := s\<rparr>\<rparr>)
   | (Inr a, s) \<Rightarrow> (Inr a, w\<lparr>hw_rest := (hw_rest w)\<lparr>hx_service := s\<rparr>\<rparr>))"

definition set_policy :: "policy_state \<Rightarrow> ('y, unit) exec_op" where
  "set_policy ps = put (\<lambda>w. w\<lparr>hw_rest := (hw_rest w)\<lparr>hx_policy := ps\<rparr>\<rparr>)"

text \<open>\<open>DeterministicInterventionPolicy.decide\<close> with its two readings of the clock.\<close>

definition decide_op :: "'y executor_world heart_services \<Rightarrow> policy_config \<Rightarrow> nat \<Rightarrow> instant
    \<Rightarrow> ('y, intervention_decision option) exec_op" where
  "decide_op sv pc ticks now =
     op_bind (on_rest (hs_monotonic sv)) (\<lambda>clock.
     op_bind (asks (\<lambda>w. hx_policy (hw_rest w))) (\<lambda>ps.
     op_bind (asks (\<lambda>w. service_probe (hx_service (hw_rest w)))) (\<lambda>pb.
       case ladder pc pb ticks now (prune_times clock ps) of
         None \<Rightarrow> op_then (set_policy (prune_times clock ps)) (ret None)
       | Some d \<Rightarrow> op_bind (on_rest (hs_monotonic sv)) (\<lambda>later.
           op_then (set_policy (decided ticks later (prune_times clock ps))) (ret (Some d))))))"

section \<open>The handler\<close>

definition declined_escalate_flag_off :: string where
  "declined_escalate_flag_off = ''declined: [heart.tick] escalate_to_brain is false''"

definition intervention_row ::
  "string \<Rightarrow> instant \<Rightarrow> tick_prompt \<Rightarrow> nat \<Rightarrow> rat \<Rightarrow> intervention_decision \<Rightarrow> intervention_status \<Rightarrow> string
   \<Rightarrow> (brain_status option \<times> string \<times> nat option \<times> nat option) \<Rightarrow> journal_entry" where
  "intervention_row new_id now prompt tick_number call_duration d outcome detail = (\<lambda>(status, brain_detail, p, c).
     \<lparr>je_id = new_id, je_created_at = iso now, je_tick_number = tick_number, je_decision = ACT, je_note = [],
      je_prompt_tokens = tp_tokens prompt, je_duration = call_duration, je_brain_status = status,
      je_brain_detail = brain_detail, je_brain_prompt_tokens = p, je_brain_completion_tokens = c,
      je_opencode_run_id = id_run_id d, je_opencode_action = Some (id_action d),
      je_opencode_outcome = Some outcome, je_opencode_detail = detail\<rparr>)"

definition journal_intervention ::
  "'y executor_world heart_services \<Rightarrow> retention \<Rightarrow> nat \<Rightarrow> tick_prompt \<Rightarrow> intervention_decision
   \<Rightarrow> intervention_status \<Rightarrow> string \<Rightarrow> ('y, unit) exec_op" where
  "journal_intervention sv rt tick_number prompt d outcome detail = store_row sv rt
     (\<lambda>now new_id. intervention_row new_id now prompt tick_number 0 d outcome detail (None, [], None, None))"

definition journal_escalate ::
  "'y executor_world heart_services \<Rightarrow> retention \<Rightarrow> nat \<Rightarrow> tick_prompt \<Rightarrow> intervention_decision
   \<Rightarrow> intervention_status \<Rightarrow> string \<Rightarrow> rat \<Rightarrow> brain_outcome \<Rightarrow> ('y, unit) exec_op" where
  "journal_escalate sv rt tick_number prompt d outcome detail call_duration = (\<lambda>(status, brain_detail, p, c).
     op_then (on_service (record_trace (id_run_id d) (Intervention (id_action d) outcome detail)))
       (store_row sv rt (\<lambda>now new_id. intervention_row new_id now prompt tick_number call_duration d outcome detail
          (Some status, brain_detail, p, c))))"

definition escalate_intervention ::
  "'y executor_world heart_services \<Rightarrow> retention \<Rightarrow> bool \<Rightarrow> string \<Rightarrow> nat \<Rightarrow> nat \<Rightarrow> tick_prompt
   \<Rightarrow> intervention_decision \<Rightarrow> ('y, unit) exec_op" where
  "escalate_intervention sv rt enabled model max_output_tokens tick_number prompt d =
     (if \<not> enabled
      then journal_escalate sv rt tick_number prompt d DECLINED declined_escalate_flag_off 0
             (BRAIN_DECLINED, declined_escalate_flag_off, None, None)
      else case hs_brain sv of
        None \<Rightarrow> journal_escalate sv rt tick_number prompt d DECLINED declined_no_brain 0
                  (BRAIN_DECLINED, declined_no_brain, None, None)
      | Some brain \<Rightarrow>
          op_bind (on_rest (hs_monotonic sv)) (\<lambda>start.
          op_bind (on_rest (brain (escalation_request model max_output_tokens prompt))) (\<lambda>events.
          op_bind (on_rest (hs_monotonic sv)) (\<lambda>stop.
            journal_escalate sv rt tick_number prompt d
              (if fst (brain_outcome events) = BRAIN_ERROR then ERROR else APPLIED)
              (take max_detail_length (id_reason d)) (stop - start) (brain_outcome events)))))"

record executor_settings =
  es_service :: oc_settings
  es_policy :: policy_config
  es_escalate_to_brain :: bool
  es_model :: string
  es_max_output_tokens :: nat

definition opencode_handler ::
  "executor_settings \<Rightarrow> 'y executor_world heart_services \<Rightarrow> retention \<Rightarrow> 'y executor_world handler" where
  "opencode_handler es sv rt d prompt tick_number duration s =
     (if d \<noteq> ACT then ret ()
      else op_bind (on_rest (hs_now sv)) (\<lambda>now.
        op_bind (decide_op sv (es_policy es) (ts_ticks_run s) now) (\<lambda>result. case result of
          None \<Rightarrow> ret ()
        | Some dec \<Rightarrow>
            if id_action dec = ESCALATE_TO_BRAIN
            then escalate_intervention sv rt (es_escalate_to_brain es) (es_model es) (es_max_output_tokens es)
                   tick_number prompt dec
            else op_bind (on_rest (hs_now sv)) (\<lambda>submitted. op_bind (on_rest (hs_new_id sv)) (\<lambda>run_id.
              op_bind (on_service (apply_intervention (es_service es) (id_run_id dec) (id_action dec) submitted run_id))
                (\<lambda>(outcome, detail).
                  journal_intervention sv rt tick_number prompt dec outcome (take max_detail_length detail)))))))"

section \<open>The source\<close>

definition oc_priority_fault :: int where "oc_priority_fault = 50"
definition oc_priority_info :: int where "oc_priority_info = 5"

definition oc_item :: "string \<Rightarrow> int \<Rightarrow> snapshot_item" where
  "oc_item txt priority = \<lparr>si_source = ''opencode_state'', si_text = txt, si_priority = priority\<rparr>"

definition status_count :: "run_status \<Rightarrow> (run_status \<times> nat) list \<Rightarrow> nat" where
  "status_count st counts = (case map_of counts st of Some n \<Rightarrow> n | None \<Rightarrow> 0)"

definition oc_activity_item :: "oc_probe \<Rightarrow> snapshot_item" where
  "oc_activity_item pb =
     (let counts = pb_counts_by_status pb;
          intake = (if pb_intake_paused pb then ''paused'' else ''accepting new runs'')
      in oc_item (''OpenCode: '' @ decimal (status_count Queued counts) @ '' queued, '' @ decimal (status_count Running counts)
           @ '' running. Intake '' @ intake @ ''.'') oc_priority_info)"

definition oc_stalled_item :: "(rat \<Rightarrow> string) \<Rightarrow> rat \<Rightarrow> instant \<Rightarrow> oc_probe \<Rightarrow> snapshot_item" where
  "oc_stalled_item fmt stall_seconds now pb =
     (let stalled_ids = map rs_id (filter (stalled stall_seconds now) (pb_running_runs pb))
      in if stalled_ids \<noteq> []
         then oc_item (decimal (length stalled_ids) @ '' OpenCode run(s) stalled (no activity for >= ''
                @ fmt stall_seconds @ ''s): '' @ join '', '' stalled_ids @ ''.'') oc_priority_fault
         else oc_item ''No stalled OpenCode runs.'' oc_priority_info)"

definition oc_outcomes_item :: "nat \<Rightarrow> instant \<Rightarrow> oc_probe \<Rightarrow> snapshot_item" where
  "oc_outcomes_item minutes now pb =
     (case pb_recent_outcome_counts pb (iso (now - int minutes * 60000000)) of (failed, timeout, denied) \<Rightarrow>
        if failed \<noteq> 0 \<or> timeout \<noteq> 0 \<or> denied \<noteq> 0
        then oc_item (''OpenCode, last '' @ decimal minutes @ ''m: '' @ join '', ''
               [decimal failed @ '' failed'', decimal timeout @ '' timed out'', decimal denied @ '' permission denial(s)'']
               @ ''.'') oc_priority_fault
        else oc_item (''No OpenCode failures, timeouts, or permission denials in the last '' @ decimal minutes @ ''m.'')
               oc_priority_info)"

definition opencode_source ::
  "'y executor_world heart_services \<Rightarrow> policy_config \<Rightarrow> (rat \<Rightarrow> string) \<Rightarrow> 'y executor_world source" where
  "opencode_source sv pc fmt s = op_bind (on_rest (hs_now sv)) (\<lambda>now.
     op_bind (asks (\<lambda>w. service_probe (hx_service (hw_rest w)))) (\<lambda>pb.
       ret [oc_activity_item pb, oc_stalled_item fmt (pc_stall_seconds pc) now pb,
            oc_outcomes_item (pc_recent_window_minutes pc) now pb]))"

section \<open>The handler keeps its contract\<close>

lemma keeps_on_service [keeps_intros]: "keeps (bounded_journal m) (on_service f)"
  by (simp add: keeps_def on_service_def split: prod.splits sum.splits)

lemma keeps_set_policy [keeps_intros]: "keeps (bounded_journal m) (set_policy ps)"
  by (simp add: keeps_def set_policy_def put_def)

lemma keeps_decide [keeps_intros]: "keeps (bounded_journal m) (decide_op sv pc ticks now)"
  unfolding decide_op_def by (intro keeps_intros)

lemma keeps_journal_escalate [keeps_intros]:
  "keeps (bounded_journal (rt_max_entries rt)) (journal_escalate sv rt k p d outcome detail dur out)"
  by (cases out) (simp add: journal_escalate_def keeps_intros)

lemma keeps_escalate [keeps_intros]:
  "keeps (bounded_journal (rt_max_entries rt)) (escalate_intervention sv rt enabled model n k p d)"
  unfolding escalate_intervention_def by (intro keeps_intros)

lemma keeps_journal_intervention [keeps_intros]:
  "keeps (bounded_journal (rt_max_entries rt)) (journal_intervention sv rt k p d outcome detail)"
  unfolding journal_intervention_def by (intro keeps_intros)

lemma keeps_case_prod [keeps_intros]: "(\<And>a b. keeps P (f a b)) \<Longrightarrow> keeps P (case x of (a, b) \<Rightarrow> f a b)"
  by (cases x) simp

interpretation intervening: decision_handler "opencode_handler es sv rt" "rt_max_entries rt"
proof
  fix d p k dur s
  show "keeps (bounded_journal (rt_max_entries rt)) (opencode_handler es sv rt d p k dur s)"
    unfolding opencode_handler_def by (intro keeps_intros)
qed

lemma keeps_opencode_source: "keeps (bounded_journal m) (opencode_source sv pc fmt s)"
  unfolding opencode_source_def by (intro keeps_intros)

text \<open>
  C22. However long the loop with an executor runs, and whatever its clock, model, Brain, runs and
  faults do, its journal never holds more rows than configured, with distinct ids; the hand-off
  to the Brain, the interventions and a fault schedule may each be on or off. (The base
  environment leaves the journal alone.)
\<close>

theorem executor_loop_journal_bounded:
  assumes "build_tick_loop st sv dp (Some (opencode_handler es sv (st_retention st), opencode_source sv (es_policy es) fmt)) base
      = Some (cfg, env)"
    and "run cfg env (s, w) = Some (s', w')"
    and "journal_ok (rt_max_entries (st_retention st)) (hw_journal w)"
    and "env_keeps (bounded_journal (rt_max_entries (st_retention st))) (base\<lparr>te_sources := [], te_handler := \<lambda>d p n dur s. ret ()\<rparr>)"
  shows "unique_by je_id (hw_journal w') \<and> length (hw_journal w') \<le> rt_max_entries (st_retention st)"
  by (rule built_loop_journal_bounded [OF assms(1-4)])
    (auto simp: keeps_opencode_source intro: intervening.decision_handler_axioms)

section \<open>What an intervention leaves in the journal\<close>

lemma decide_op_run:
  fixes sv :: "'y executor_world heart_services"
  shows "\<exists>(x :: 'y executor_world) clock later wd.
    decide_op sv pc ticks now w = (Inr (fst (decide pc (service_probe (hx_service x)) ticks now clock later (hx_policy x))), wd)
    \<and> hw_journal wd = hw_journal w"
proof -
  obtain clock x where c: "hs_monotonic sv (hw_rest w) = (clock, x)" by force
  obtain later y where l: "hs_monotonic sv x = (later, y)" by force
  have "fst (decide_op sv pc ticks now w) = Inr (fst (decide pc (service_probe (hx_service x)) ticks now clock later (hx_policy x)))
      \<and> hw_journal (snd (decide_op sv pc ticks now w)) = hw_journal w"
    by (cases "ladder pc (service_probe (hx_service x)) ticks now (prune_times clock (hx_policy x))")
      (simp_all add: decide_op_def op_simps on_rest_def c l decide_def set_policy_def Let_def)
  then show ?thesis by (metis prod.collapse)
qed

lemma journal_escalate_stored:
  assumes "journal_escalate sv rt k p dec outcome detail call (st, bd, pt, ct) w = (r, w')"
  shows "stored rt (\<lambda>now new_id. intervention_row new_id now p k call dec outcome detail (Some st, bd, pt, ct))
    (hw_journal w) r (hw_journal w')"
proof -
  let ?row = "\<lambda>now new_id. intervention_row new_id now p k call dec outcome detail (Some st, bd, pt, ct)"
  let ?s = "snd (record_trace (id_run_id dec) (Intervention (id_action dec) outcome detail) (hx_service (hw_rest w)))"
  let ?w = "w\<lparr>hw_rest := (hw_rest w)\<lparr>hx_service := ?s\<rparr>\<rparr>"
  have "store_row sv rt ?row ?w = (r, w')"
    using assms by (simp add: journal_escalate_def op_simps on_service_def record_trace_def)
  then show ?thesis using store_row_stored [of rt ?row ?w sv] by simp
qed

text \<open>
  \<open>handed_off\<close>: the one row of a hand-off to the Brain, declined without the flag or without a
  provider, error exactly when the Brain failed. \<open>attempted\<close>: an action of the service, either its
  outcome in one row, or the exception it raised and no row.
\<close>

definition handed_off ::
  "executor_settings \<Rightarrow> 'y executor_world heart_services \<Rightarrow> retention \<Rightarrow> tick_prompt \<Rightarrow> nat \<Rightarrow> intervention_decision
   \<Rightarrow> journal_entry list \<Rightarrow> (heart_exc + unit) \<Rightarrow> journal_entry list \<Rightarrow> bool" where
  "handed_off es sv rt p k dec j r j' \<longleftrightarrow> (\<exists>outcome detail call st bd pt ct.
     stored rt (\<lambda>now new_id. intervention_row new_id now p k call dec outcome detail (Some st, bd, pt, ct)) j r j'
     \<and> length detail \<le> max_detail_length \<and> length bd \<le> max_detail_length
     \<and> (if es_escalate_to_brain es \<and> hs_brain sv \<noteq> None then outcome = (if st = BRAIN_ERROR then ERROR else APPLIED)
        else outcome = DECLINED \<and> st = BRAIN_DECLINED))"

definition attempted ::
  "executor_settings \<Rightarrow> retention \<Rightarrow> tick_prompt \<Rightarrow> nat \<Rightarrow> intervention_decision
   \<Rightarrow> journal_entry list \<Rightarrow> (heart_exc + unit) \<Rightarrow> journal_entry list \<Rightarrow> bool" where
  "attempted es rt p k dec j r j' \<longleftrightarrow> (\<exists>t i svc.
     case fst (apply_intervention (es_service es) (id_run_id dec) (id_action dec) t i svc) of
       Inl e \<Rightarrow> r = Inl (Heart_Failed (error_name e)) \<and> j' = j
     | Inr (outcome, detail) \<Rightarrow> stored rt (\<lambda>now new_id. intervention_row new_id now p k 0 dec outcome
         (take max_detail_length detail) (None, [], None, None)) j r j')"

lemma escalate_intervention_stored:
  assumes "escalate_intervention sv rt (es_escalate_to_brain es) model n k p dec w = (r, w')"
  shows "handed_off es sv rt p k dec (hw_journal w) r (hw_journal w')"
proof (cases "es_escalate_to_brain es \<and> hs_brain sv \<noteq> None")
  case False
  let ?why = "if es_escalate_to_brain es then declined_no_brain else declined_escalate_flag_off"
  have "journal_escalate sv rt k p dec DECLINED ?why 0 (BRAIN_DECLINED, ?why, None, None) w = (r, w')"
    using assms False by (auto simp: escalate_intervention_def split: if_splits)
  note row = journal_escalate_stored [OF this]
  have "length ?why \<le> max_detail_length"
    by (simp add: declined_no_brain_def declined_escalate_flag_off_def max_detail_length_def)
  with False show ?thesis unfolding handed_off_def by (intro exI conjI) (rule row, auto)
next
  case True
  then obtain brain where b: "hs_brain sv = Some brain" by blast
  obtain start x1 where m1: "hs_monotonic sv (hw_rest w) = (start, x1)" by force
  obtain events x2 where ev: "brain (escalation_request model n p) x1 = (events, x2)" by force
  obtain stop x3 where m2: "hs_monotonic sv x2 = (stop, x3)" by force
  obtain st bd pt ct where out: "brain_outcome events = (st, bd, pt, ct)" by (metis prod_cases4)
  let ?oc = "if st = BRAIN_ERROR then ERROR else APPLIED" and ?detail = "take max_detail_length (id_reason dec)"
  have "journal_escalate sv rt k p dec ?oc ?detail (stop - start) (st, bd, pt, ct) (w\<lparr>hw_rest := x3\<rparr>) = (r, w')"
    using assms True b m1 ev m2 out by (simp add: escalate_intervention_def op_bind_def on_rest_def)
  note row = journal_escalate_stored [OF this, simplified]
  have "length bd \<le> max_detail_length" using brain_outcome_status [of events] out by simp
  with True show ?thesis unfolding handed_off_def by (intro exI conjI) (rule row, auto)
qed

lemma applied_stored:
  assumes "op_bind (on_rest (hs_now sv)) (\<lambda>submitted. op_bind (on_rest (hs_new_id sv)) (\<lambda>run_id.
      op_bind (on_service (apply_intervention (es_service es) (id_run_id dec) (id_action dec) submitted run_id))
        (\<lambda>(outcome, detail). journal_intervention sv rt k p dec outcome (take max_detail_length detail)))) w = (r, w')"
  shows "attempted es rt p k dec (hw_journal w) r (hw_journal w')"
proof -
  obtain t x1 where n: "hs_now sv (hw_rest w) = (t, x1)" by force
  obtain i x2 where u: "hs_new_id sv x1 = (i, x2)" by force
  obtain res svc' where a: "apply_intervention (es_service es) (id_run_id dec) (id_action dec) t i (hx_service x2) = (res, svc')"
    by force
  have "case res of Inl e \<Rightarrow> r = Inl (Heart_Failed (error_name e)) \<and> hw_journal w' = hw_journal w
     | Inr (outcome, detail) \<Rightarrow> stored rt (\<lambda>now new_id. intervention_row new_id now p k 0 dec outcome
         (take max_detail_length detail) (None, [], None, None)) (hw_journal w) r (hw_journal w')"
  proof (cases res)
    case (Inl e)
    with assms n u a show ?thesis by (auto simp: op_bind_def on_rest_def on_service_def)
  next
    case (Inr od)
    obtain outcome detail where od: "od = (outcome, detail)" by force
    let ?row = "\<lambda>now new_id. intervention_row new_id now p k 0 dec outcome (take max_detail_length detail) (None, [], None, None)"
    let ?w = "w\<lparr>hw_rest := x2\<lparr>hx_service := svc'\<rparr>\<rparr>"
    have "store_row sv rt ?row ?w = (r, w')"
      using assms n u a Inr od by (simp add: op_bind_def on_rest_def on_service_def journal_intervention_def)
    with Inr od show ?thesis using store_row_stored [of rt ?row ?w sv] by simp
  qed
  with a show ?thesis unfolding attempted_def by (metis fst_conv)
qed

text \<open>
  What a tick's intervention leaves. A decision other than \<open>act\<close> changes nothing. For \<open>act\<close>
  the policy decides on the service as it stands: without a decision the journal is untouched; a
  hand-off to the Brain stores exactly one more row of the tick, declined when the flag is off or
  there is no Brain and error exactly when the Brain failed; any other action stores one row with
  the outcome \<open>apply_intervention\<close> returned, unless that raised: then the exception escapes and
  the attempt is in no row.
\<close>

theorem intervention_journaled:
  fixes sv :: "'y executor_world heart_services"
  assumes "opencode_handler es sv rt d p k dur s w = (r, w')"
  shows "if d \<noteq> ACT then r = Inr () \<and> w' = w
    else \<exists>(x :: 'y executor_world) now clock later.
      case fst (decide (es_policy es) (service_probe (hx_service x)) (ts_ticks_run s) now clock later (hx_policy x)) of
        None \<Rightarrow> r = Inr () \<and> hw_journal w' = hw_journal w
      | Some dec \<Rightarrow> if id_action dec = ESCALATE_TO_BRAIN
          then handed_off es sv rt p k dec (hw_journal w) r (hw_journal w')
          else attempted es rt p k dec (hw_journal w) r (hw_journal w')"
proof (cases "d = ACT")
  case True
  obtain now x0 where n: "hs_now sv (hw_rest w) = (now, x0)" by force
  obtain x :: "'y executor_world" and clock later w1 where dec: "decide_op sv (es_policy es) (ts_ticks_run s) now (w\<lparr>hw_rest := x0\<rparr>)
      = (Inr (fst (decide (es_policy es) (service_probe (hx_service x)) (ts_ticks_run s) now clock later (hx_policy x))), w1)"
    and j: "hw_journal w1 = hw_journal (w\<lparr>hw_rest := x0\<rparr>)"
    using decide_op_run [of sv "es_policy es" "ts_ticks_run s" now "w\<lparr>hw_rest := x0\<rparr>"] by blast
  let ?d = "fst (decide (es_policy es) (service_probe (hx_service x)) (ts_ticks_run s) now clock later (hx_policy x))"
  have "case ?d of None \<Rightarrow> r = Inr () \<and> hw_journal w' = hw_journal w
      | Some dec \<Rightarrow> if id_action dec = ESCALATE_TO_BRAIN
          then handed_off es sv rt p k dec (hw_journal w) r (hw_journal w')
          else attempted es rt p k dec (hw_journal w) r (hw_journal w')"
  proof (cases ?d)
    case None
    with assms True n dec j show ?thesis by (simp add: opencode_handler_def op_bind_def on_rest_def ret_def)
  next
    case (Some a)
    have jw: "hw_journal w = hw_journal w1" using j by simp
    show ?thesis
    proof (cases "id_action a = ESCALATE_TO_BRAIN")
      case esc: True
      have "escalate_intervention sv rt (es_escalate_to_brain es) (es_model es) (es_max_output_tokens es) k p a w1 = (r, w')"
        using assms True n dec Some esc by (simp add: opencode_handler_def op_bind_def on_rest_def)
      from escalate_intervention_stored [OF this] show ?thesis by (simp add: Some esc jw)
    next
      case False
      have "op_bind (on_rest (hs_now sv)) (\<lambda>submitted. op_bind (on_rest (hs_new_id sv)) (\<lambda>run_id.
          op_bind (on_service (apply_intervention (es_service es) (id_run_id a) (id_action a) submitted run_id))
            (\<lambda>(outcome, detail). journal_intervention sv rt k p a outcome (take max_detail_length detail)))) w1 = (r, w')"
        using assms True n dec Some False by (simp add: opencode_handler_def op_bind_def on_rest_def)
      from applied_stored [OF this] show ?thesis by (simp add: Some False jw)
    qed
  qed
  with True show ?thesis by (simp only: simp_thms if_False) (intro exI)
qed (use assms in \<open>simp add: opencode_handler_def ret_def\<close>)

section \<open>Witnesses\<close>

definition executor_services :: "nat executor_world heart_services" where
  "executor_services = \<lparr>hs_now = (\<lambda>x. (0, x)), hs_new_id = (\<lambda>x. (replicate (hx_base x) CHR ''r'', x\<lparr>hx_base := hx_base x + 1\<rparr>)),
     hs_monotonic = (\<lambda>x. (0, x)), hs_sleep = (\<lambda>d x. x), hs_brain = None\<rparr>"

definition fresh_executor :: "opencode_run list \<Rightarrow> nat executor_world" where
  "fresh_executor rows = \<lparr>hx_service = booted tiny 0 rows, hx_policy = initial_policy_state, hx_base = 0\<rparr>"

definition sample_executor :: executor_settings where
  "sample_executor = \<lparr>es_service = tiny, es_policy = sample_policy, es_escalate_to_brain = False,
     es_model = ''m'', es_max_output_tokens = 4\<rparr>"

definition executor_base :: "(nat executor_world heart_world, heart_exc) tick_env" where
  "executor_base = \<lparr>te_clock = (\<lambda>w. (0, w)), te_now = (\<lambda>w. (0, w)), te_jitter = (\<lambda>w. (0, w)),
     te_stopping = (\<lambda>w. False), te_wait = (\<lambda>d w. (0 < hx_base (hw_rest w), w\<lparr>hw_rest := (hw_rest w)\<lparr>hx_base := hx_base (hw_rest w) + 1\<rparr>\<rparr>)),
     te_sources = [], te_context_tokens = 64, te_token_count = (\<lambda>t. 5), te_template = ([], []),
     te_generate = (\<lambda>text n. ret ''Act.''), te_handler = (\<lambda>d p n dur s. ret ())\<rparr>"

definition executor_probe :: "nat executor_world daemon_probe" where
  "executor_probe = \<lparr>dp_started_at = 0, dp_healthy = (\<lambda>w. True), dp_readiness = (\<lambda>s w. []), dp_format = (\<lambda>t. [])\<rparr>"

abbreviation sample_build where
  "sample_build \<equiv> build_tick_loop (sample_settings\<lparr>st_opencode_interventions := True, st_escalate_to_brain := False,
       st_fault_schedule := None\<rparr>) executor_services executor_probe
     (Some (opencode_handler sample_executor executor_services (st_retention sample_settings),
            opencode_source executor_services (es_policy sample_executor) (\<lambda>t. []))) executor_base"

lemma quiet_decision:
  assumes "oc_runs (hx_service (hw_rest w)) = []" and "hx_policy (hw_rest w) = initial_policy_state"
  shows "opencode_handler sample_executor executor_services rt ACT p k dur s w = (Inr (), w)"
  using assms
  by (simp add: opencode_handler_def op_simps on_rest_def executor_services_def sample_executor_def sample_policy_def
      decide_op_def set_policy_def prune_times_def initial_policy_state_def ladder_def hourly_budget_exhausted_def
      first_stalled_run_id_def service_probe_def running_runs_def list_running_def recent_outcome_counts_def count_status_def
      recent_retryable_runs_def runs_newest_first_def pause_intake_failure_threshold_def Let_def)

text \<open>A loop that stops while it waits for its second tick returns, whatever its first tick does.\<close>

lemma run_one_tick:
  assumes "0 < tc_interval cfg" and "\<And>w. te_clock env w = (0, w)" "\<And>w. te_jitter env w = (0, w)" "\<And>w. \<not> te_stopping env w"
    and "\<And>d w. te_wait env d w = (stop w, f w)" and "\<not> stop w" "scheduled_tick cfg env (s, f w) = (s1, w1)" "stop w1"
  shows "run cfg env (s, w) = Some (s1, f w1)"
proof -
  have later: "0 < of_nat (n + 1) * tc_interval cfg" for n :: nat
    by (rule mult_pos_pos) (use assms(1) in simp_all)
  have first: "run_cycle cfg env 0 0 (s, w) = Some (Some 1, s1, w1)"
    using assms later [of 1] by (simp add: run_cycle_def next_tick_simple)
  have second: "run_cycle cfg env 0 1 (s1, w1) = Some (None, s1, f w1)"
    using assms by (simp add: run_cycle_def)
  have "run_from cfg env 0 1 (s1, w1) = Some (s1, f w1)"
    by (subst run_from.simps) (simp add: assms(4) second del: One_nat_def)
  then have "run_from cfg env 0 0 (s, w) = Some (s1, f w1)"
    by (subst run_from.simps) (simp add: assms(4) first del: One_nat_def)
  then show ?thesis by (simp add: run_def assms(2))
qed

abbreviation counted_up :: "nat executor_world heart_world \<Rightarrow> bool" where
  "counted_up w \<equiv> 0 < hx_base (hw_rest w)"

lemma counted_services [keeps_intros]:
  "keeps counted_up (on_rest (hs_now executor_services))" "keeps counted_up (on_rest (hs_new_id executor_services))"
  "keeps counted_up (on_rest (hs_monotonic executor_services))" "keeps counted_up (on_journal m)"
  "keeps counted_up (on_service f)" "keeps counted_up (set_policy ps)"
  by (auto simp: keeps_def on_rest_def executor_services_def on_journal_def on_service_def set_policy_def put_def
      split: prod.splits sum.splits)

lemma counted_parts:
  "keeps counted_up (journal_handler executor_services rt d p k dur s)"
  "keeps counted_up (daemon_source executor_services dp s)" "keeps counted_up (recent_source n s)"
  "keeps counted_up (opencode_source executor_services pc fmt s)"
  "keeps counted_up (opencode_handler sample_executor executor_services rt d p k dur s)"
proof -
  show "keeps counted_up (journal_handler executor_services rt d p k dur s)"
    unfolding journal_handler_def store_row_def by (intro keeps_intros)
  show "keeps counted_up (daemon_source executor_services dp s)"
    unfolding daemon_source_def by (intro keeps_intros) (simp add: keeps_def)
  show "keeps counted_up (recent_source n s)" by (simp add: keeps_def recent_source_def Let_def)
  show "keeps counted_up (opencode_source executor_services pc fmt s)"
    unfolding opencode_source_def by (intro keeps_intros)
  have "hs_brain executor_services = None" by (simp add: executor_services_def)
  then show "keeps counted_up (opencode_handler sample_executor executor_services rt d p k dur s)"
    unfolding opencode_handler_def decide_op_def escalate_intervention_def journal_escalate_def journal_intervention_def store_row_def
    by (simp only: option.case) (intro keeps_intros)
qed

lemma sample_build_run:
  "\<exists>cfg env s' w'. sample_build = Some (cfg, env)
     \<and> run cfg env (initial_tick_state, \<lparr>hw_journal = [], hw_rest = fresh_executor [stale_run]\<rparr>) = Some (s', w')"
proof -
  obtain env where b: "sample_build = Some (sample_config, env)"
    by (simp add: build_tick_loop_def loop_schedule_def sample_settings_def check_config_def sample_config_def)
  then obtain sch where env: "loop_schedule (sample_settings\<lparr>st_opencode_interventions := True, st_escalate_to_brain := False,
       st_fault_schedule := None\<rparr>) = Some sch" "env = executor_base
      \<lparr>te_sources := loop_sources (sample_settings\<lparr>st_opencode_interventions := True, st_escalate_to_brain := False,
         st_fault_schedule := None\<rparr>) executor_services executor_probe (Some (opencode_source executor_services (es_policy sample_executor) (\<lambda>t. []))) sch,
       te_handler := loop_handler (sample_settings\<lparr>st_opencode_interventions := True, st_escalate_to_brain := False,
         st_fault_schedule := None\<rparr>) executor_services (Some (opencode_handler sample_executor executor_services (st_retention sample_settings))) sch\<rparr>"
    by (elim build_tick_loopE) simp
  then have sch: "sch = None" by (simp add: loop_schedule_def)
  have keep: "env_keeps counted_up env"
    by (auto simp: env_keeps_def env(2) sch executor_base_def loop_sources_def injected_probe_def loop_handler_def tick_handlers_def
        sample_settings_def composite_handler_def counted_parts keeps_ret intro!: keeps_then)
  let ?w = "\<lparr>hw_journal = [], hw_rest = fresh_executor [stale_run]\<rparr>"
  let ?f = "\<lambda>w. w\<lparr>hw_rest := (hw_rest w)\<lparr>hx_base := hx_base (hw_rest w) + 1\<rparr>\<rparr> :: nat executor_world heart_world"
  obtain s1 w1 where t: "scheduled_tick sample_config env (initial_tick_state, ?f ?w) = (s1, w1)" by force
  have "counted_up w1" by (rule scheduled_tick_keeps [OF keep _ t]) simp
  then have "run sample_config env (initial_tick_state, ?w) = Some (s1, ?f w1)"
    by (intro run_one_tick [where stop = counted_up and f = ?f, OF _ _ _ _ _ _ t])
      (simp_all add: env(2) executor_base_def sample_config_def fresh_executor_def)
  with b show ?thesis by blast
qed

lemma executor_loop_journal_bounded_witness:
  "\<exists>s' w'. (\<exists>cfg env. sample_build = Some (cfg, env)
       \<and> run cfg env (initial_tick_state, \<lparr>hw_journal = [], hw_rest = fresh_executor [stale_run]\<rparr>) = Some (s', w'))
     \<and> length (hw_journal w') \<le> 2"
proof -
  let ?st = "sample_settings\<lparr>st_opencode_interventions := True, st_escalate_to_brain := False, st_fault_schedule := None\<rparr>"
  obtain cfg env s' w' where b: "sample_build = Some (cfg, env)"
    and r: "run cfg env (initial_tick_state, \<lparr>hw_journal = [], hw_rest = fresh_executor [stale_run]\<rparr>) = Some (s', w')"
    using sample_build_run by blast
  have same: "st_retention ?st = st_retention sample_settings" "rt_max_entries (st_retention sample_settings) = 2"
    by (simp_all add: sample_settings_def)
  have keep: "env_keeps (bounded_journal 2) (executor_base\<lparr>te_sources := [], te_handler := \<lambda>d p n dur s. ret ()\<rparr>)"
    by (simp add: env_keeps_def executor_base_def keeps_ret)
  have "length (hw_journal w') \<le> 2"
    using executor_loop_journal_bounded [of ?st executor_services executor_probe sample_executor "\<lambda>t. []", unfolded same, OF b r] keep
    by (simp add: journal_ok_def)
  with b r show ?thesis by blast
qed

lemma intervention_journaled_witness:
  "\<exists>r w'. opencode_handler sample_executor executor_services \<lparr>rt_max_entries = 2, rt_retention_days = 1\<rparr> ACT quiet_prompt 1 0
        initial_tick_state \<lparr>hw_journal = [], hw_rest = fresh_executor [stale_run]\<rparr> = (r, w')
     \<and> (\<exists>(x :: nat executor_world) now clock later.
      case fst (decide sample_policy (service_probe (hx_service x)) 0 now clock later (hx_policy x)) of
        None \<Rightarrow> r = Inr () \<and> hw_journal w' = []
      | Some dec \<Rightarrow> if id_action dec = ESCALATE_TO_BRAIN
          then handed_off sample_executor executor_services \<lparr>rt_max_entries = 2, rt_retention_days = 1\<rparr> quiet_prompt 1 dec [] r (hw_journal w')
          else attempted sample_executor \<lparr>rt_max_entries = 2, rt_retention_days = 1\<rparr> quiet_prompt 1 dec [] r (hw_journal w'))"
proof -
  let ?run = "opencode_handler sample_executor executor_services \<lparr>rt_max_entries = 2, rt_retention_days = 1\<rparr> ACT quiet_prompt 1 0
        initial_tick_state \<lparr>hw_journal = [], hw_rest = fresh_executor [stale_run]\<rparr>"
  obtain r w' where r: "?run = (r, w')" by force
  have f: "es_policy sample_executor = sample_policy" "ts_ticks_run initial_tick_state = 0"
    by (simp_all add: sample_executor_def initial_tick_state_def)
  from intervention_journaled [OF r] have eff: "\<exists>(x :: nat executor_world) now clock later.
      case fst (decide sample_policy (service_probe (hx_service x)) 0 now clock later (hx_policy x)) of
        None \<Rightarrow> r = Inr () \<and> hw_journal w' = []
      | Some dec \<Rightarrow> if id_action dec = ESCALATE_TO_BRAIN
          then handed_off sample_executor executor_services \<lparr>rt_max_entries = 2, rt_retention_days = 1\<rparr> quiet_prompt 1 dec [] r (hw_journal w')
          else attempted sample_executor \<lparr>rt_max_entries = 2, rt_retention_days = 1\<rparr> quiet_prompt 1 dec [] r (hw_journal w')"
    by (simp only: f heart_world.select_convs simp_thms not_True_eq_False if_False)
  show ?thesis by (rule exI [of _ r], rule exI [of _ w'], rule conjI [OF r eff])
qed

end
