(* ===== verification/Opencode_Config.thy ===== *)
theory Opencode_Config
  imports Complex_Main Pytext
begin

text \<open>
  What the executor's child process is confined by: the typed \<open>[opencode]\<close> section and its
  validators (\<open>config/settings.py\<close>), the permission block rendered from it
  (\<open>opencode/config.py\<close>), the environment the child gets (\<open>opencode/env.py\<close>), the workspace
  (\<open>opencode/workspace.py\<close>) and the preflight that compares what the child would really allow
  with what was configured (\<open>opencode/preflight.py\<close>). Text is a list of characters below
  256, a path is its text, a float of the settings a rational. \<open>json.dumps\<close>, the program runner,
  the file system and \<open>shutil.which\<close> are parameters; the child's glob matcher is one too.
\<close>

section \<open>The typed section\<close>

datatype permit = Permit_Allow | Permit_Deny
datatype edit_mode = Edit_Deny | Edit_Allow | Edit_Workspace
datatype bash_mode = Bash_Deny | Bash_Allow | Bash_Allowlist

fun permit_value :: "permit \<Rightarrow> json" where
  "permit_value Permit_Allow = JStr ''allow''"
| "permit_value Permit_Deny = JStr ''deny''"

record permission_settings =
  ps_default :: permit
  ps_read :: permit
  ps_edit :: edit_mode
  ps_bash :: bash_mode
  ps_bash_allowlist :: "string list"
  ps_bash_denylist :: "string list"
  ps_webfetch :: permit
  ps_websearch :: permit
  ps_external_directory :: permit
  ps_additional :: "(string \<times> permit) list"

definition default_permissions :: permission_settings where
  "default_permissions = \<lparr>ps_default = Permit_Deny, ps_read = Permit_Allow, ps_edit = Edit_Workspace,
     ps_bash = Bash_Allowlist,
     ps_bash_allowlist = [''git status*'', ''git diff*'', ''git log*'', ''ls*'', ''cat*'', ''rg*''],
     ps_bash_denylist = [''rm *'', ''sudo *'', ''curl *'', ''wget *'', ''ssh *'', ''git push*''],
     ps_webfetch = Permit_Deny, ps_websearch = Permit_Deny, ps_external_directory = Permit_Deny,
     ps_additional = []\<rparr>"

record opencode_conf =
  oc_enabled :: bool
  oc_binary :: string
  oc_required_version_prefix :: string
  oc_workspace_dir :: string
  oc_isolate_home :: bool
  oc_provider_api_key_env :: string
  oc_provider_api_key :: "string option"
  oc_provider_base_url :: string
  oc_inherit_env_names :: "string list"
  oc_run_timeout :: rat
  oc_shutdown_timeout :: rat
  oc_max_concurrent_runs :: nat
  oc_queue_max_depth :: nat
  oc_max_prompt_chars :: nat
  oc_max_event_bytes :: nat
  oc_max_run_output_bytes :: nat
  oc_model :: string
  oc_agent :: string
  oc_auto_approve :: bool
  oc_permission :: permission_settings

definition default_opencode :: opencode_conf where
  "default_opencode = \<lparr>oc_enabled = False, oc_binary = ''opencode'', oc_required_version_prefix = [],
     oc_workspace_dir = ''~/.local/state/ansina/opencode'', oc_isolate_home = True,
     oc_provider_api_key_env = [], oc_provider_api_key = None, oc_provider_base_url = [],
     oc_inherit_env_names = [], oc_run_timeout = 900, oc_shutdown_timeout = 10,
     oc_max_concurrent_runs = 1, oc_queue_max_depth = 10, oc_max_prompt_chars = 100000,
     oc_max_event_bytes = 65536, oc_max_run_output_bytes = 10485760, oc_model = [], oc_agent = [],
     oc_auto_approve = True, oc_permission = default_permissions\<rparr>"

subsection \<open>Validators\<close>

definition ends_with :: "string \<Rightarrow> string \<Rightarrow> bool" where
  "ends_with s p \<longleftrightarrow> starts_with (rev s) (rev p)"

text \<open>
  \<open>_looks_unsafe_to_inherit\<close>. A regular expression's \<open>$\<close> also matches before a last newline.
\<close>

definition looks_unsafe_to_inherit :: "string \<Rightarrow> bool" where
  "looks_unsafe_to_inherit name \<longleftrightarrow>
     (let n = casefold name in
      starts_with n ''ansina_'' \<or> starts_with n ''aws_''
      \<or> ends_with n ''_api_key'' \<or> ends_with n (''_api_key'' @ [CHR 0x0A])
      \<or> contains ''secret'' n \<or> contains ''token'' n)"

datatype opencode_conf_error = Bound_Violated | Inherit_Rejected "string list"
  | Queue_Below_Concurrency | Event_Above_Output | Workspace_In_Checkout | Workspace_Around_Checkout

definition opencode_bounds :: "opencode_conf \<Rightarrow> bool" where
  "opencode_bounds c \<longleftrightarrow> oc_run_timeout c > 0 \<and> oc_shutdown_timeout c > 0
     \<and> oc_max_concurrent_runs c \<ge> 1 \<and> oc_queue_max_depth c \<ge> 1 \<and> oc_max_prompt_chars c > 0
     \<and> oc_max_event_bytes c > 0 \<and> oc_max_run_output_bytes c > 0"

text \<open>
  The field validators, then the model validators in the order they are declared.
  \<open>in_checkout\<close> says of a path that it is, or lies inside, a checkout of this program;
  \<open>around_checkout\<close> that the running checkout lies inside it.
\<close>

definition validate_opencode ::
  "(string \<Rightarrow> bool) \<Rightarrow> (string \<Rightarrow> bool) \<Rightarrow> opencode_conf \<Rightarrow> opencode_conf_error + opencode_conf" where
  "validate_opencode in_checkout around_checkout c =
     (let rejected = filter looks_unsafe_to_inherit (oc_inherit_env_names c) in
      if \<not> opencode_bounds c then Inl Bound_Violated
      else if rejected \<noteq> [] then Inl (Inherit_Rejected rejected)
      else if oc_queue_max_depth c < oc_max_concurrent_runs c then Inl Queue_Below_Concurrency
      else if oc_max_event_bytes c > oc_max_run_output_bytes c then Inl Event_Above_Output
      else if \<not> oc_enabled c then Inr c
      else if in_checkout (oc_workspace_dir c) then Inl Workspace_In_Checkout
      else if around_checkout (oc_workspace_dir c) then Inl Workspace_Around_Checkout
      else Inr c)"

lemma validate_opencode_ok:
  assumes "validate_opencode inc arc c = Inr d"
  shows "d = c" and "opencode_bounds c" and "\<forall>n \<in> set (oc_inherit_env_names c). \<not> looks_unsafe_to_inherit n"
    and "oc_max_concurrent_runs c \<le> oc_queue_max_depth c" and "oc_max_event_bytes c \<le> oc_max_run_output_bytes c"
    and "oc_enabled c \<longrightarrow> \<not> inc (oc_workspace_dir c) \<and> \<not> arc (oc_workspace_dir c)"
  using assms by (auto simp: validate_opencode_def Let_def filter_empty_conv split: if_splits)

section \<open>The rendered configuration\<close>

definition render_glob_permission :: "string list \<Rightarrow> string list \<Rightarrow> (string \<times> json) list" where
  "render_glob_permission allowlist denylist =
     fold (\<lambda>glob. dict_put glob (JStr ''deny'')) denylist
       (fold (\<lambda>glob. dict_put glob (JStr ''allow'')) allowlist [(''*'', JStr ''deny'')])"

fun render_edit_permission :: "edit_mode \<Rightarrow> json" where
  "render_edit_permission Edit_Deny = JStr ''deny''"
| "render_edit_permission Edit_Allow = JStr ''allow''"
| "render_edit_permission Edit_Workspace = JDict [(''*'', JStr ''deny''), (''**'', JStr ''allow'')]"

definition render_bash_permission :: "permission_settings \<Rightarrow> json" where
  "render_bash_permission p = (case ps_bash p of
     Bash_Deny \<Rightarrow> JStr ''deny''
   | Bash_Allow \<Rightarrow> JStr ''allow''
   | Bash_Allowlist \<Rightarrow> JDict (render_glob_permission (ps_bash_allowlist p) (ps_bash_denylist p)))"

definition custom_provider_id :: string where
  "custom_provider_id = ''ansina''"

definition render_provider :: "opencode_conf \<Rightarrow> json option" where
  "render_provider c =
     (if oc_provider_base_url c = [] then None
      else let options = [(''baseURL'', JStr (oc_provider_base_url c))]
             @ (if oc_provider_api_key_env c = [] then []
                else [(''apiKey'', JStr (''{env:'' @ oc_provider_api_key_env c @ ''}''))]);
           prefix = custom_provider_id @ ''/'';
           model_id = hd (split_on CHR ''#'' (drop (length prefix) (oc_model c)));
           models = (if starts_with (oc_model c) prefix \<and> model_id \<noteq> []
                     then [(''models'', JDict [(model_id, JDict [])])] else [])
       in Some (JDict [(custom_provider_id, JDict ([(''npm'', JStr ''@ai-sdk/openai-compatible''),
            (''name'', JStr ''Ansina''), (''options'', JDict options)] @ models))]))"

definition render_permission :: "permission_settings \<Rightarrow> (string \<times> json) list" where
  "render_permission p =
     fold (\<lambda>(k, v). dict_put k (permit_value v)) (ps_additional p)
       [(''*'', permit_value (ps_default p)), (''read'', permit_value (ps_read p)),
        (''edit'', render_edit_permission (ps_edit p)), (''bash'', render_bash_permission p),
        (''webfetch'', permit_value (ps_webfetch p)), (''websearch'', permit_value (ps_websearch p)),
        (''external_directory'', permit_value (ps_external_directory p))]"

definition render_opencode_config :: "opencode_conf \<Rightarrow> (string \<times> json) list" where
  "render_opencode_config c =
     [(''$schema'', JStr ''https://opencode.ai/config.json'')]
     @ (case render_provider c of None \<Rightarrow> [] | Some p \<Rightarrow> [(''provider'', p)])
     @ [(''permission'', JDict (render_permission (oc_permission c)))]"

section \<open>The workspace and the child's environment\<close>

definition isolated_home :: "opencode_conf \<Rightarrow> string" where
  "isolated_home c = (if ends_with (oc_workspace_dir c) ''/'' then oc_workspace_dir c @ ''.home''
     else oc_workspace_dir c @ ''/.home'')"

datatype skip_reason = Opencode_Disabled | Telemetry_Disabled | Binary_Missing string | Version_Not_Run string
  | Version_Mismatch string | Workspace_Missing | Config_Not_Json | Looser_Permissions "string list"

text \<open>A check that fails is a logged skip; an \<open>OSError\<close> of \<open>mkdir\<close> is caught by nobody.\<close>

datatype preflight_stop = Skip skip_reason | Os_Error string

definition mkdir :: "(string \<Rightarrow> bool) \<Rightarrow> string \<Rightarrow> (string list, preflight_stop, unit) op" where
  "mkdir can_make d = op_then (demand (can_make d) (Os_Error d)) (put (\<lambda>made. made @ [d]))"

definition ensure_workspace ::
  "(string \<Rightarrow> bool) \<Rightarrow> opencode_conf \<Rightarrow> (string list, preflight_stop, string option) op" where
  "ensure_workspace can_make c =
     (if \<not> oc_enabled c then ret None
      else op_then (mkdir can_make (oc_workspace_dir c))
        (op_then (if oc_isolate_home c then mkdir can_make (isolated_home c) else ret ())
          (ret (Some (oc_workspace_dir c)))))"

definition inherited_env_names :: "string list" where
  "inherited_env_names = [''PATH'', ''TMPDIR'']"

definition inherit_from :: "(string \<rightharpoonup> string) \<Rightarrow> string list \<Rightarrow> (string \<times> string) list \<Rightarrow> (string \<times> string) list" where
  "inherit_from base names env =
     fold (\<lambda>n env. case base n of None \<Rightarrow> env | Some v \<Rightarrow> dict_put n v env) names env"

definition build_opencode_env ::
  "((string \<times> json) list \<Rightarrow> string) \<Rightarrow> opencode_conf \<Rightarrow> (string \<rightharpoonup> string) \<Rightarrow> (string \<times> string) list" where
  "build_opencode_env dumps c base =
     (let env = inherit_from base inherited_env_names [];
          env = (if oc_isolate_home c then dict_put ''HOME'' (isolated_home c) env else env);
          env = dict_put ''OPENCODE_CONFIG_CONTENT'' (dumps (render_opencode_config c)) env;
          env = (case oc_provider_api_key c of
                   Some key \<Rightarrow> if oc_provider_api_key_env c \<noteq> []
                               then dict_put (oc_provider_api_key_env c) key env else env
                 | None \<Rightarrow> env)
      in inherit_from base (oc_inherit_env_names c) env)"

section \<open>Preflight\<close>

text \<open>\<open>_scan_for_ask\<close>: the dotted paths at which a resolved permission says \<open>ask\<close>.\<close>

fun scan_for_ask :: "json \<Rightarrow> string \<Rightarrow> string list"
  and scan_items :: "(string \<times> json) list \<Rightarrow> string \<Rightarrow> string list" where
  "scan_for_ask (JStr s) path = (if s = ''ask'' then [path] else [])"
| "scan_for_ask (JDict kvs) path = scan_items kvs path"
| "scan_for_ask JNull path = []"
| "scan_for_ask (JBool b) path = []"
| "scan_for_ask (JInt i) path = []"
| "scan_for_ask (JFloat f) path = []"
| "scan_for_ask (JList xs) path = []"
| "scan_items [] path = []"
| "scan_items ((k, v) # kvs) path =
     scan_for_ask v (if path = [] then k else path @ ''.'' @ k) @ scan_items kvs path"

definition scalar_permission_keys :: "string list" where
  "scalar_permission_keys = [''*'', ''read'', ''webfetch'', ''websearch'', ''external_directory'']"

definition loosened :: "permission_settings \<Rightarrow> (string \<times> json) list \<Rightarrow> string \<Rightarrow> bool" where
  "loosened p effective key \<longleftrightarrow>
     map_of (render_permission p) key = Some (JStr ''deny'') \<and> map_of effective key = Some (JStr ''allow'')"

definition find_looser_than_configured :: "permission_settings \<Rightarrow> (string \<times> json) list \<Rightarrow> string list" where
  "find_looser_than_configured p effective =
     scan_for_ask (JDict effective) []
     @ map (\<lambda>key. key @ ''='' @ [CHR 0x27] @ ''allow'' @ [CHR 0x27] @ '' (configured deny)'')
         (filter (loosened p effective) scalar_permission_keys)"

text \<open>A program run under a timeout: it does not come back (\<open>OSError\<close>, \<open>TimeoutExpired\<close>), or exits.\<close>

datatype program_run = Not_Run string | Exited int string string

type_synonym program_runner = "string list \<Rightarrow> (string \<times> string) list \<Rightarrow> program_run"

definition resolve_effective_permission ::
  "program_runner \<Rightarrow> (string \<Rightarrow> json option) \<Rightarrow> (string \<times> string) list \<Rightarrow> string \<Rightarrow> (string \<times> json) list option" where
  "resolve_effective_permission runner loads env path =
     (case runner [path, ''debug'', ''config''] env of
        Not_Run e \<Rightarrow> None
      | Exited code out errs \<Rightarrow>
          if code \<noteq> 0 then None
          else case loads out of
            Some (JDict kvs) \<Rightarrow> (case map_of kvs ''permission'' of Some (JDict perms) \<Rightarrow> Some perms | _ \<Rightarrow> None)
          | _ \<Rightarrow> None)"

record preflight_world =
  pw_telemetry_enabled :: bool
  pw_which :: "string \<Rightarrow> string option"
  pw_runner :: program_runner
  pw_can_make :: "string \<Rightarrow> bool"
  pw_is_dir :: "string list \<Rightarrow> string \<Rightarrow> bool"
  pw_dumps :: "(string \<times> json) list \<Rightarrow> string"
  pw_loads :: "string \<Rightarrow> json option"
  pw_environ :: "string \<rightharpoonup> string"

definition preflight_env :: "preflight_world \<Rightarrow> opencode_conf \<Rightarrow> (string \<times> string) list" where
  "preflight_env w c = build_opencode_env (pw_dumps w) c (pw_environ w)"

definition check_version :: "preflight_world \<Rightarrow> opencode_conf \<Rightarrow> string \<Rightarrow> skip_reason option" where
  "check_version w c path =
     (if oc_required_version_prefix c = [] then None
      else case pw_runner w [path, ''--version''] (preflight_env w c) of
        Not_Run e \<Rightarrow> Some (Version_Not_Run e)
      | Exited code out errs \<Rightarrow>
          let shown = strip_by is_space out;
              version = (if shown = [] then strip_by is_space errs else shown)
          in if code \<noteq> 0 \<or> \<not> starts_with version (oc_required_version_prefix c)
             then Some (Version_Mismatch version) else None)"

definition check_effective :: "preflight_world \<Rightarrow> opencode_conf \<Rightarrow> string \<Rightarrow> skip_reason option" where
  "check_effective w c path =
     (case resolve_effective_permission (pw_runner w) (pw_loads w) (preflight_env w c) path of
        None \<Rightarrow> None
      | Some effective \<Rightarrow>
          (case find_looser_than_configured (oc_permission c) effective of
             [] \<Rightarrow> None
           | offending \<Rightarrow> Some (Looser_Permissions offending)))"

definition preflight :: "preflight_world \<Rightarrow> opencode_conf \<Rightarrow> (string list, preflight_stop, string) op" where
  "preflight w c =
     op_then (demand (oc_enabled c) (Skip Opencode_Disabled))
     (op_then (demand (pw_telemetry_enabled w) (Skip Telemetry_Disabled))
     (case pw_which w (oc_binary c) of
        None \<Rightarrow> raise (Skip (Binary_Missing (oc_binary c)))
      | Some path \<Rightarrow>
          (case check_version w c path of
             Some reason \<Rightarrow> raise (Skip reason)
           | None \<Rightarrow>
               op_bind (ensure_workspace (pw_can_make w) c) (\<lambda>workspace.
               op_bind (asks (\<lambda>made. case workspace of None \<Rightarrow> False | Some d \<Rightarrow> pw_is_dir w made d)) (\<lambda>there.
               op_then (demand there (Skip Workspace_Missing))
               (op_then (demand (pw_loads w (pw_dumps w (render_opencode_config c)) \<noteq> None) (Skip Config_Not_Json))
               (case check_effective w c path of
                  Some reason \<Rightarrow> raise (Skip reason)
                | None \<Rightarrow> ret path)))))))"

text \<open>\<open>build_opencode_service\<close>: the resolved program of the runner it makes, if it makes one.\<close>

definition build_opencode_service ::
  "preflight_world \<Rightarrow> opencode_conf \<Rightarrow> (string list, preflight_stop, string option) op" where
  "build_opencode_service w c made = (case preflight w c made of
     (Inr path, t) \<Rightarrow> (Inr (Some path), t)
   | (Inl (Skip reason), t) \<Rightarrow> (Inr None, t)
   | (Inl (Os_Error e), t) \<Rightarrow> (Inl (Os_Error e), t))"

section \<open>Which rule decides a command\<close>

text \<open>
  The child's documented evaluation: of the rules whose glob matches, the last one wins.
\<close>

definition last_match :: "(string \<Rightarrow> string \<Rightarrow> bool) \<Rightarrow> (string \<times> json) list \<Rightarrow> string \<Rightarrow> json option" where
  "last_match glob rules cmd = fold (\<lambda>(g, v) acc. if glob g cmd then Some v else acc) rules None"

lemma last_match_append_const:
  "last_match glob (rules @ map (\<lambda>g. (g, v)) gs) cmd =
     (if \<exists>g \<in> set gs. glob g cmd then Some v else last_match glob rules cmd)"
proof -
  have "fold (\<lambda>(g, v) acc. if glob g cmd then Some v else acc) (map (\<lambda>g. (g, v)) gs) acc =
      (if \<exists>g \<in> set gs. glob g cmd then Some v else acc)" for acc
    by (induction gs arbitrary: acc) auto
  then show ?thesis by (simp add: last_match_def)
qed

lemma dict_put_fresh: "k \<notin> fst ` set kvs \<Longrightarrow> dict_put k v kvs = kvs @ [(k, v)]"
  by (induction kvs) auto

lemma dict_put_same: "map_of kvs k = Some v \<Longrightarrow> dict_put k v kvs = kvs"
  by (induction kvs) (auto split: if_splits)

text \<open>Entering globs that are new, or already have that value, appends the new ones in order.\<close>

lemma fold_put_const:
  assumes "\<forall>g \<in> set gs. map_of kvs g = None \<or> map_of kvs g = Some v"
  shows "\<exists>ns. fold (\<lambda>g. dict_put g v) gs kvs = kvs @ map (\<lambda>g. (g, v)) ns
    \<and> set ns = {g \<in> set gs. map_of kvs g = None}"
  using assms
proof (induction gs arbitrary: kvs)
  case Nil
  then show ?case by simp
next
  case (Cons g gs)
  show ?case
  proof (cases "map_of kvs g")
    case None
    then have put: "dict_put g v kvs = kvs @ [(g, v)]"
      by (simp add: dict_put_fresh map_of_eq_None_iff)
    have "\<forall>h \<in> set gs. map_of (kvs @ [(g, v)]) h = None \<or> map_of (kvs @ [(g, v)]) h = Some v"
      using Cons.prems by (auto simp: map_add_def split: option.splits)
    from Cons.IH [OF this] obtain ns where
      ns: "fold (\<lambda>g. dict_put g v) gs (kvs @ [(g, v)]) = (kvs @ [(g, v)]) @ map (\<lambda>g. (g, v)) ns"
        "set ns = {h \<in> set gs. map_of (kvs @ [(g, v)]) h = None}" by blast
    have "set (g # ns) = {h \<in> set (g # gs). map_of kvs h = None}"
      using None ns(2) by (auto simp: map_add_def split: option.splits if_splits)
    moreover have "fold (\<lambda>g. dict_put g v) (g # gs) kvs = kvs @ map (\<lambda>g. (g, v)) (g # ns)"
      using ns(1) put by simp
    ultimately show ?thesis by blast
  next
    case (Some u)
    with Cons.prems have "dict_put g v kvs = kvs" by (auto intro: dict_put_same)
    moreover obtain ns where "fold (\<lambda>g. dict_put g v) gs kvs = kvs @ map (\<lambda>g. (g, v)) ns"
        "set ns = {h \<in> set gs. map_of kvs h = None}"
      using Cons.IH [of kvs] Cons.prems by auto
    ultimately show ?thesis using Some by (intro exI [of _ ns]) auto
  qed
qed

lemma fold_put_fresh:
  assumes "set gs \<inter> fst ` set kvs = {}"
  obtains ns where "fold (\<lambda>g. dict_put g v) gs kvs = kvs @ map (\<lambda>g. (g, v)) ns" and "set ns = set gs"
proof -
  have none: "\<forall>g \<in> set gs. map_of kvs g = None" using assms by (auto simp: map_of_eq_None_iff)
  then have "{g \<in> set gs. map_of kvs g = None} = set gs" by auto
  moreover obtain ns where "fold (\<lambda>g. dict_put g v) gs kvs = kvs @ map (\<lambda>g. (g, v)) ns"
      "set ns = {g \<in> set gs. map_of kvs g = None}"
    using fold_put_const [of gs kvs v] none by blast
  ultimately show ?thesis by (intro that [of ns]) simp_all
qed

text \<open>
  Denied globs win: when no glob is listed twice with different values (the two lists of
  \<open>bash\<close> globs are disjoint and neither repeats the floor \<open>*\<close>), then under the child's rule,
  the last match decides, the rendered block denies every command a denied glob matches,
  allows of the others those an allowed glob matches, and denies the rest.
\<close>

theorem denied_globs_win:
  assumes "set allowlist \<inter> set denylist = {}" and "''*'' \<notin> set allowlist" and "''*'' \<notin> set denylist"
    and "glob ''*'' cmd"
  shows "last_match glob (render_glob_permission allowlist denylist) cmd =
    Some (JStr (if \<exists>g \<in> set denylist. glob g cmd then ''deny''
      else if \<exists>g \<in> set allowlist. glob g cmd then ''allow'' else ''deny''))"
proof -
  let ?floor = "[(''*'', JStr ''deny'')]"
  obtain as where as: "fold (\<lambda>g. dict_put g (JStr ''allow'')) allowlist ?floor
        = ?floor @ map (\<lambda>g. (g, JStr ''allow'')) as" "set as = set allowlist"
    by (rule fold_put_fresh [of allowlist ?floor]) (use assms(2) in auto)
  let ?mid = "?floor @ map (\<lambda>g. (g, JStr ''allow'')) as"
  obtain ds where ds: "fold (\<lambda>g. dict_put g (JStr ''deny'')) denylist ?mid
        = ?mid @ map (\<lambda>g. (g, JStr ''deny'')) ds" "set ds = set denylist"
    by (rule fold_put_fresh [of denylist ?mid]) (use assms(1,3) as(2) in auto)
  have rules: "render_glob_permission allowlist denylist = ?mid @ map (\<lambda>g. (g, JStr ''deny'')) ds"
    by (simp only: render_glob_permission_def as(1) ds(1))
  have floor: "last_match glob ?floor cmd = Some (JStr ''deny'')"
    using assms(4) by (simp add: last_match_def)
  show ?thesis
    unfolding rules last_match_append_const floor ds(2) as(2) by simp
qed

text \<open>Without disjointness the claim of the module fails: a glob on both lists keeps its early place.\<close>

definition prefix_glob :: "string \<Rightarrow> string \<Rightarrow> bool" where
  "prefix_glob g cmd \<longleftrightarrow> (if ends_with g ''*'' then starts_with cmd (butlast g) else cmd = g)"

lemma denied_globs_win_witness:
  "last_match prefix_glob (render_glob_permission (ps_bash_allowlist default_permissions)
      (ps_bash_denylist default_permissions)) ''git push origin'' = Some (JStr ''deny'')"
  by (subst denied_globs_win) (simp_all add: default_permissions_def prefix_glob_def ends_with_def starts_with_def)

lemma shared_glob_loses:
  "last_match prefix_glob (render_glob_permission [''git push*'', ''git*''] [''git push*'']) ''git push origin''
     = Some (JStr ''allow'')"
  by (simp add: render_glob_permission_def last_match_def prefix_glob_def ends_with_def starts_with_def)

section \<open>What the child's environment holds\<close>

lemma map_of_inherit_from:
  "map_of (inherit_from base names env) = map_of env ++ (base |` set names)"
proof (induction names arbitrary: env)
  case Nil
  then show ?case by (simp add: inherit_from_def)
next
  case (Cons n names)
  have "inherit_from base (n # names) env =
      inherit_from base names (case base n of None \<Rightarrow> env | Some v \<Rightarrow> dict_put n v env)"
    by (simp add: inherit_from_def)
  with Cons show ?case
    by (auto simp: fun_eq_iff map_add_def restrict_map_def split: option.splits)
qed

lemma own_names_safe:
  "\<not> looks_unsafe_to_inherit ''PATH''" "\<not> looks_unsafe_to_inherit ''TMPDIR''" "\<not> looks_unsafe_to_inherit ''HOME''"
  "\<not> looks_unsafe_to_inherit ''OPENCODE_CONFIG_CONTENT''"
  by code_simp+



text \<open>The validator admits \<open>HOME\<close> itself: the isolated home is then replaced by the daemon's own.\<close>

lemma inherited_home_escapes:
  "validate_opencode (\<lambda>_. False) (\<lambda>_. False) (default_opencode\<lparr>oc_inherit_env_names := [''HOME'']\<rparr>)
      = Inr (default_opencode\<lparr>oc_inherit_env_names := [''HOME'']\<rparr>)
   \<and> map_of (build_opencode_env (\<lambda>_. []) (default_opencode\<lparr>oc_inherit_env_names := [''HOME'']\<rparr>)
        [''HOME'' \<mapsto> ''/root'']) ''HOME'' = Some ''/root''"
  using own_names_safe(3)
  by (simp add: validate_opencode_def default_opencode_def opencode_bounds_def build_opencode_env_def
    map_of_inherit_from Let_def)

section \<open>What a passed preflight means\<close>

text \<open>A resolved permission that says \<open>ask\<close> somewhere.\<close>

inductive asks_somewhere :: "json \<Rightarrow> bool" where
  here: "asks_somewhere (JStr ''ask'')"
| inside: "(k, v) \<in> set kvs \<Longrightarrow> asks_somewhere v \<Longrightarrow> asks_somewhere (JDict kvs)"

inductive_simps asks_JStr [simp]: "asks_somewhere (JStr s)"
inductive_simps asks_JDict_iff: "asks_somewhere (JDict kvs)"
inductive_simps asks_other [simp]: "asks_somewhere JNull" "asks_somewhere (JBool b)" "asks_somewhere (JInt i)"
  "asks_somewhere (JFloat f)" "asks_somewhere (JList xs)"

lemma asks_JDict: "asks_somewhere (JDict kvs) \<longleftrightarrow> (\<exists>kv \<in> set kvs. asks_somewhere (snd kv))"
  by (force simp: asks_JDict_iff)

lemma scan_for_ask_iff:
  "scan_for_ask j path = [] \<longleftrightarrow> \<not> asks_somewhere j"
  "scan_items kvs path = [] \<longleftrightarrow> (\<forall>kv \<in> set kvs. \<not> asks_somewhere (snd kv))"
  by (induction j path and kvs path rule: scan_for_ask_scan_items.induct) (auto simp: asks_JDict)

lemma asks_dict_put:
  "asks_somewhere (JDict (dict_put k v kvs)) \<Longrightarrow> asks_somewhere v \<or> asks_somewhere (JDict kvs)"
  by (induction kvs) (force simp: asks_JDict split: if_splits)+

lemma asks_fold_put:
  assumes "asks_somewhere (JDict (fold (\<lambda>x. dict_put (f x) (h x)) xs kvs))"
  shows "(\<exists>x \<in> set xs. asks_somewhere (h x)) \<or> asks_somewhere (JDict kvs)"
  using assms
proof (induction xs arbitrary: kvs)
  case (Cons x xs)
  then have "(\<exists>y \<in> set xs. asks_somewhere (h y)) \<or> asks_somewhere (JDict (dict_put (f x) (h x) kvs))" by simp
  then show ?case using asks_dict_put by auto
qed simp

text \<open>The block the program renders never says \<open>ask\<close>, whatever is configured.\<close>

lemma rendered_never_asks: "\<not> asks_somewhere (JDict (render_permission p))"
proof
  have scalar: "\<not> asks_somewhere (permit_value v)" for v by (cases v) simp_all
  have globs: "\<not> asks_somewhere (JDict (render_glob_permission as ds))" for as ds
  proof
    assume "asks_somewhere (JDict (render_glob_permission as ds))"
    then have "asks_somewhere (JDict (fold (\<lambda>glob. dict_put glob (JStr ''allow'')) as [(''*'', JStr ''deny'')]))"
      unfolding render_glob_permission_def using asks_fold_put [of "\<lambda>g. g" "\<lambda>_. JStr ''deny''"] by fastforce
    then show False
      using asks_fold_put [of "\<lambda>g. g" "\<lambda>_. JStr ''allow''"] by (fastforce simp: asks_JDict)
  qed
  then have bash: "\<not> asks_somewhere (render_bash_permission p)"
    by (cases "ps_bash p") (simp_all add: render_bash_permission_def)
  have edit: "\<not> asks_somewhere (render_edit_permission m)" for m by (cases m) (simp_all add: asks_JDict)
  assume "asks_somewhere (JDict (render_permission p))"
  from asks_fold_put [OF this [unfolded render_permission_def case_prod_beta]]
  show False using scalar bash edit by (auto simp: asks_JDict)
qed

text \<open>
  A passed preflight: the section and the telemetry are on, the program was found, its
  version has the pinned prefix, the workspace (and the isolated home) were made, and the
  permissions the child reports, where it reports any, nowhere say \<open>ask\<close> and allow no scalar kind
  that is configured as denied.
\<close>

theorem preflight_passes:
  assumes "preflight w c made = (Inr path, made')"
  shows "oc_enabled c \<and> pw_telemetry_enabled w \<and> pw_which w (oc_binary c) = Some path
    \<and> (oc_required_version_prefix c \<noteq> [] \<longrightarrow>
         (\<exists>out errs. pw_runner w [path, ''--version''] (preflight_env w c) = Exited 0 out errs
            \<and> starts_with (strip_by is_space (if strip_by is_space out = [] then errs else out)) (oc_required_version_prefix c)))
    \<and> made' = made @ oc_workspace_dir c # (if oc_isolate_home c then [isolated_home c] else [])
    \<and> (\<forall>effective. resolve_effective_permission (pw_runner w) (pw_loads w) (preflight_env w c) path = Some effective \<longrightarrow>
         \<not> asks_somewhere (JDict effective)
         \<and> (\<forall>key \<in> set scalar_permission_keys. \<not> loosened (oc_permission c) effective key))"
proof -
  have on: "oc_enabled c" "pw_telemetry_enabled w" and which: "pw_which w (oc_binary c) = Some path"
    and ver: "check_version w c path = None"
    and made: "made' = made @ oc_workspace_dir c # (if oc_isolate_home c then [isolated_home c] else [])"
    and eff: "check_effective w c path = None"
    using assms
    by (auto simp: preflight_def op_simps ensure_workspace_def mkdir_def split: option.splits if_splits sum.splits prod.splits)
  have "\<exists>out errs. pw_runner w [path, ''--version''] (preflight_env w c) = Exited 0 out errs
      \<and> starts_with (strip_by is_space (if strip_by is_space out = [] then errs else out)) (oc_required_version_prefix c)"
    if "oc_required_version_prefix c \<noteq> []"
    using ver that by (auto simp: check_version_def Let_def split: program_run.splits if_splits)
  moreover have "\<not> asks_somewhere (JDict effective) \<and> (\<forall>key \<in> set scalar_permission_keys. \<not> loosened (oc_permission c) effective key)"
    if "resolve_effective_permission (pw_runner w) (pw_loads w) (preflight_env w c) path = Some effective" for effective
    using eff that scan_for_ask_iff(1) [of "JDict effective" "[]"]
    by (auto simp: check_effective_def find_looser_than_configured_def filter_empty_conv split: list.splits)
  ultimately show ?thesis using on which made by blast
qed

definition sample_world :: preflight_world where
  "sample_world = \<lparr>pw_telemetry_enabled = True, pw_which = (\<lambda>b. Some (''/bin/'' @ b)),
     pw_runner = (\<lambda>args env. if args = [''/bin/opencode'', ''--version''] then Exited 0 ''opencode v2.1.4'' []
       else Exited 0 ''config'' []),
     pw_can_make = (\<lambda>_. True), pw_is_dir = (\<lambda>made d. d \<in> set made), pw_dumps = (\<lambda>_. ''config''),
     pw_loads = (\<lambda>_. Some (JDict [(''permission'', JDict [(''*'', JStr ''deny''), (''read'', JStr ''allow'')])])),
     pw_environ = Map.empty\<rparr>"

lemma preflight_passes_witness:
  "\<not> loosened default_permissions [(''*'', JStr ''deny''), (''read'', JStr ''allow'')] ''*''"
proof -
  let ?c = "default_opencode\<lparr>oc_enabled := True, oc_required_version_prefix := ''opencode v2.''\<rparr>"
  have "preflight sample_world ?c [] = (Inr ''/bin/opencode'', [oc_workspace_dir ?c, isolated_home ?c])"
    by (simp add: preflight_def op_simps ensure_workspace_def mkdir_def check_version_def check_effective_def
      resolve_effective_permission_def find_looser_than_configured_def loosened_def scalar_permission_keys_def
      sample_world_def default_opencode_def default_permissions_def render_permission_def Let_def
      strip_by_def is_space_def starts_with_def)
  from preflight_passes [OF this] show ?thesis
    by (simp add: resolve_effective_permission_def sample_world_def scalar_permission_keys_def default_opencode_def)
qed

end
