(* ===== verification/Redaction.thy ===== *)
theory Redaction
  imports Pytext
begin

text \<open>
  Masking secrets in whatever leaves the program as text (\<open>logging/redaction.py\<close>): the registry
  of literal secrets, replaced first and the longest first, and the patterns of secret shapes.
  The matches a pattern finds are a parameter (the regular expression engine of the standard
  library): a list of matches with their spans and the spans of their groups.
\<close>

section \<open>Operations\<close>

definition redacted :: string where
  "redacted = ''***''"

definition min_secret_length :: nat where
  "min_secret_length = 8"

definition register_secret :: "string option \<Rightarrow> string set \<Rightarrow> string set" where
  "register_secret v secrets = (case v of None \<Rightarrow> secrets
     | Some s \<Rightarrow> if length s \<ge> min_secret_length then insert s secrets else secrets)"

definition clear_secrets :: "string set \<Rightarrow> string set" where
  "clear_secrets secrets = {}"

text \<open>\<open>str.replace\<close> for a text that is not empty: from the left, without overlaps.\<close>

function replace :: "string \<Rightarrow> string \<Rightarrow> string \<Rightarrow> string" where
  "replace old new [] = []"
| "replace old new (c # s) =
     (if old \<noteq> [] \<and> starts_with (c # s) old then new @ replace old new (drop (length old) (c # s))
      else c # replace old new s)"
  by pat_completeness auto
termination by (relation "measure (\<lambda>(old, new, s). length s)") (auto simp: neq_Nil_conv)

text \<open>A match: its span, and the spans of its groups.\<close>

record re_match =
  m_start :: nat
  m_end :: nat
  m_group :: "nat \<Rightarrow> nat \<times> nat"

definition slice :: "nat \<Rightarrow> nat \<Rightarrow> string \<Rightarrow> string" where
  "slice a b s = take (b - a) (drop a s)"

definition mask_match :: "nat list \<Rightarrow> string \<Rightarrow> re_match \<Rightarrow> string" where
  "mask_match value_groups text m =
     (let base = m_start m in
      fold (\<lambda>g replaced. let (s, e) = m_group m g; local_start = s - base; local_end = e - base
              in take local_start replaced @ redacted @ drop local_end replaced)
        (rev (sort value_groups)) (slice base (m_end m) text))"

text \<open>\<open>pattern.sub\<close>: what lies between the matches stays.\<close>

fun sub_matches :: "nat list \<Rightarrow> string \<Rightarrow> nat \<Rightarrow> re_match list \<Rightarrow> string" where
  "sub_matches gs text pos [] = drop pos text"
| "sub_matches gs text pos (m # ms) =
     slice pos (m_start m) text @ mask_match gs text m @ sub_matches gs text (m_end m) ms"

type_synonym pattern = "(string \<Rightarrow> re_match list) \<times> nat list"

definition redact :: "pattern list \<Rightarrow> string list \<Rightarrow> string \<Rightarrow> string" where
  "redact patterns secrets text =
     fold (\<lambda>(finditer, groups) t. sub_matches groups t 0 (finditer t)) patterns
       (fold (\<lambda>secret t. replace secret redacted t) (rev (sort_key length secrets)) text)"

section \<open>Masked words are gone\<close>

text \<open>
  A text without the mask's character occurs in two texts around a mask only within one of them.
\<close>

definition plain :: "string \<Rightarrow> bool" where
  "plain w \<longleftrightarrow> CHR ''*'' \<notin> set w"

lemma plain_across_mask:
  assumes "plain w" "w \<noteq> []" "contains w (u @ redacted @ v)"
  shows "contains w u \<or> contains w v"
proof -
  obtain a b where ab: "u @ redacted @ v = a @ w @ b" using assms(3) by (auto simp: contains_iff)
  have "CHR ''*'' \<notin> set w" using assms(1) by (simp add: plain_def)
  show ?thesis
  proof (cases "length a + length w \<le> length u")
    case True
    have "take (length a + length w) (u @ redacted @ v) = take (length a + length w) u" using True by simp
    then have "a @ w = take (length a + length w) u" unfolding ab by simp
    then have "u = a @ w @ drop (length a + length w) u" by (metis append_assoc append_take_drop_id)
    then show ?thesis by (metis contains_iff)
  next
    case False
    show ?thesis
    proof (cases "length u + 3 \<le> length a")
      case True
      have "drop (length u + 3) (u @ redacted @ v) = v" by (simp add: redacted_def)
      then have "v = drop (length u + 3) a @ w @ b" unfolding ab using True by simp
      then show ?thesis by (metis contains_iff)
    next
      case inner: False
      define i where "i = max (length a) (length u)"
      have pos: "length a \<le> i" "i < length a + length w" "length u \<le> i" "i - length u < 3"
        using False inner assms(2) by (auto simp: i_def)
      then have "i - length a < length w" by linarith
      have stars: "redacted = replicate 3 CHR ''*''" by (simp add: redacted_def numeral_3_eq_3)
      have "(u @ redacted @ v) ! i = CHR ''*''"
        unfolding stars using pos by (simp add: nth_append)
      moreover have "(u @ redacted @ v) ! i = w ! (i - length a)"
        unfolding ab using pos \<open>i - length a < length w\<close> by (simp add: nth_append)
      moreover have "w ! (i - length a) \<in> set w" using pos by simp
      ultimately show ?thesis using assms(1) by (simp add: plain_def)
    qed
  qed
qed

lemma starts_replace:
  assumes "plain w" "starts_with (replace old redacted s) w"
  shows "starts_with s w"
  using assms
proof (induction old redacted s arbitrary: w rule: replace.induct)
  case (2 old c s)
  show ?case
  proof (cases w)
    case (Cons d v)
    with 2 show ?thesis
      by (auto simp: plain_def starts_with_def redacted_def split: if_splits)
  qed (simp add: starts_with_def)
qed simp

lemma contains_drop: "contains w (drop n s) \<Longrightarrow> contains w s"
  by (metis append.assoc append_take_drop_id contains_iff)

lemma contains_take: "contains w (take n s) \<Longrightarrow> contains w s"
  by (metis append.assoc append_take_drop_id contains_iff)

lemma contains_replace:
  assumes "plain w" "w \<noteq> []" "contains w (replace old redacted s)"
  shows "contains w s"
  using assms
proof (induction old redacted s rule: replace.induct)
  case (2 old c s)
  show ?case
  proof (cases "old \<noteq> [] \<and> starts_with (c # s) old")
    case True
    then have "contains w (replace old redacted (drop (length old) (c # s)))"
      using 2(5) plain_across_mask [OF 2(3,4), of "[]"] 2(4) by simp
    then show ?thesis using 2(1) True 2(3,4) contains_drop by blast
  next
    case False
    then have "starts_with (c # replace old redacted s) w \<or> contains w (replace old redacted s)"
      using 2(5) by auto
    then show ?thesis
    proof
      assume "starts_with (c # replace old redacted s) w"
      moreover obtain v where "w = c # v" "plain v" using 2(3,4) calculation
        by (cases w) (auto simp: starts_with_def plain_def)
      ultimately show ?thesis using starts_replace [of v old s] by (simp add: starts_with_def)
    next
      assume "contains w (replace old redacted s)"
      then show ?thesis using 2(2) False 2(3,4) by simp
    qed
  qed
qed simp

lemma replaced_gone:
  assumes "plain old" "old \<noteq> []"
  shows "\<not> contains old (replace old redacted s)"
  using assms
proof (induction old redacted s rule: replace.induct)
  case (2 old c s)
  show ?case
  proof (cases "starts_with (c # s) old")
    case True
    then show ?thesis
      using 2(1,3,4) plain_across_mask [OF 2(3,4), of "[]"] by auto
  next
    case False
    have "\<not> starts_with (c # replace old redacted s) old"
    proof
      assume st: "starts_with (c # replace old redacted s) old"
      then obtain v where v: "old = c # v" "plain v" using 2(3,4)
        by (cases old) (auto simp: starts_with_def plain_def)
      with st have "starts_with s v" using starts_replace [of v old s] by (simp add: starts_with_def)
      with False v show False by (simp add: starts_with_def)
    qed
    with False 2(2,3,4) show ?thesis by simp
  qed
qed simp

text \<open>What the engine promises of the matches, for a pattern with one value group.\<close>

fun matches_ok :: "nat \<Rightarrow> string \<Rightarrow> nat \<Rightarrow> re_match list \<Rightarrow> bool" where
  "matches_ok g text pos [] = (pos \<le> length text)"
| "matches_ok g text pos (m # ms) =
     (case m_group m g of (s, e) \<Rightarrow>
        pos \<le> m_start m \<and> m_start m \<le> s \<and> s \<le> e \<and> e \<le> m_end m \<and> matches_ok g text (m_end m) ms)"

lemma matches_ok_pos: "matches_ok g text pos ms \<Longrightarrow> pos \<le> length text"
  by (induction g "text" pos ms rule: matches_ok.induct) auto

lemma slice_drop: "a \<le> b \<Longrightarrow> slice a b s @ drop b s = drop a s"
  unfolding slice_def by (metis append_take_drop_id drop_drop le_add_diff_inverse2)

lemma slice_slice:
  assumes "a \<le> b" "b \<le> c"
  shows "slice a b s @ slice b c s = slice a c s"
proof -
  obtain i j where "b = a + i" "c = a + i + j" using assms by (metis le_Suc_ex)
  then show ?thesis by (simp add: slice_def take_add add.commute)
qed

lemma take_slice: "m \<le> s \<Longrightarrow> s \<le> e \<Longrightarrow> take (s - m) (slice m e t) = slice m s t"
  by (simp add: slice_def min_def)

lemma drop_slice: "m \<le> s \<Longrightarrow> s \<le> e \<Longrightarrow> drop (s - m) (slice m e t) = slice s e t"
  by (simp add: slice_def drop_take)

lemma mask_one_group:
  assumes "m_group m g = (s, e)" "m_start m \<le> s" "s \<le> e" "e \<le> m_end m"
  shows "mask_match [g] text m = slice (m_start m) s text @ redacted @ slice e (m_end m) text"
  using assms by (simp add: mask_match_def take_slice drop_slice Let_def)

lemma contains_slice:
  assumes "contains w (slice b c t)" "a \<le> b"
  shows "contains w (drop a t)"
proof -
  have "contains w (drop b t)" using assms(1) contains_take unfolding slice_def by blast
  then show ?thesis using assms(2) by (metis contains_drop drop_drop le_add_diff_inverse2)
qed

lemma contains_sub_matches:
  assumes "plain w" "w \<noteq> []" "matches_ok g input pos ms" "a \<le> pos"
    and "contains w (slice a pos input @ sub_matches [g] input pos ms)"
  shows "contains w (drop a input)"
  using assms(3-)
proof (induction ms arbitrary: a pos)
  case Nil
  then show ?case by (simp add: slice_drop)
next
  case (Cons m ms)
  obtain s e where g: "m_group m g = (s, e)" by fastforce
  with Cons.prems have ord: "pos \<le> m_start m" "m_start m \<le> s" "s \<le> e" "e \<le> m_end m"
    and ok: "matches_ok g input (m_end m) ms" by simp_all
  let ?rest = "slice e (m_end m) input @ sub_matches [g] input (m_end m) ms"
  have "slice a pos input @ sub_matches [g] input pos (m # ms)
      = (slice a pos input @ slice pos (m_start m) input @ slice (m_start m) s input) @ redacted @ ?rest"
    by (simp add: mask_one_group [OF g ord(2-)])
  also have "slice a pos input @ slice pos (m_start m) input @ slice (m_start m) s input = slice a s input"
    using Cons.prems(2) ord(1,2) by (simp add: slice_slice)
  finally have "contains w (slice a s input) \<or> contains w ?rest"
    using plain_across_mask [OF assms(1,2)] Cons.prems(3) by metis
  then show ?case
  proof
    assume "contains w (slice a s input)"
    then show ?thesis using contains_slice by blast
  next
    assume "contains w ?rest"
    then have "contains w (drop e input)" using Cons.IH [OF ok ord(4)] by blast
    moreover have "a \<le> e" using Cons.prems(2) ord by simp
    ultimately show ?thesis by (metis contains_drop drop_drop le_add_diff_inverse2)
  qed
qed

definition pattern_ok :: "pattern \<Rightarrow> bool" where
  "pattern_ok p \<longleftrightarrow> (\<exists>g. snd p = [g] \<and> (\<forall>input. matches_ok g input 0 (fst p input)))"

lemma contains_patterns:
  assumes "plain w" "w \<noteq> []" "\<forall>p \<in> set patterns. pattern_ok p"
    and "contains w (fold (\<lambda>(finditer, groups) t. sub_matches groups t 0 (finditer t)) patterns input)"
  shows "contains w input"
  using assms(3,4)
proof (induction patterns arbitrary: input)
  case (Cons p patterns)
  then obtain g where g: "snd p = [g]" "matches_ok g input 0 (fst p input)" by (auto simp: pattern_ok_def)
  have "contains w (sub_matches [g] input 0 (fst p input))"
    using Cons.IH [of "sub_matches [g] input 0 (fst p input)"] Cons.prems g(1) by (simp add: case_prod_beta)
  then show ?case using contains_sub_matches [OF assms(1,2) g(2), of 0] by (simp add: slice_def)
qed simp

lemma contains_literals:
  assumes "plain w" "w \<noteq> []" "contains w (fold (\<lambda>secret t. replace secret redacted t) secrets input)"
  shows "contains w input \<and> w \<notin> set secrets"
  using assms(3)
proof (induction secrets arbitrary: input)
  case (Cons s secrets)
  then have "contains w (replace s redacted input)" and "w \<notin> set secrets" by auto
  then show ?case using contains_replace [OF assms(1,2)] replaced_gone [OF assms(1,2), of input] by auto
qed simp


text \<open>A one-pattern engine: it finds one \<open>Bearer\<close> token at the beginning of the text.\<close>

definition bearer_pattern :: pattern where
  "bearer_pattern = (\<lambda>input. if starts_with input ''Bearer ''
     then [\<lparr>m_start = 0, m_end = length input, m_group = (\<lambda>g. (7, length input))\<rparr>] else [], [1])"


end
