(* ===== verification/Opencode_Runner.thy ===== *)
theory Opencode_Runner
  imports Opencode_Config Redaction Opencode_Service Totp
begin

text \<open>
  The adapter that runs the executor's child process (\<open>opencode/runner.py\<close>) and the classifier
  of its output lines (\<open>opencode/events.py\<close>). The child and the event loop are scripts: what
  each turn of the read loop sees (the clock, then a line, the end of the output, the expiry of
  the wait or a cancellation), and how the child reacts to signals. The JSON parser and the
  patterns of \<open>redact\<close> are parameters. Not modelled: the thread that forwards the lines, and a
  cancellation that arrives while the child is being reaped.
\<close>

section \<open>Text as bytes\<close>

text \<open>UTF-8 of code points below 256, and \<open>bytes.decode("utf-8", errors="ignore")\<close> on such bytes.\<close>

definition utf8_char :: "char \<Rightarrow> nat list" where
  "utf8_char c = (let n = of_char c in if n < 128 then [n] else [192 + n div 64, 128 + n mod 64])"

definition utf8_bytes :: "string \<Rightarrow> nat list" where
  "utf8_bytes s = concat (map utf8_char s)"

fun utf8_decode_ignore :: "nat list \<Rightarrow> string" where
  "utf8_decode_ignore [] = []"
| "utf8_decode_ignore [b] = (if b < 128 then [char_of b] else [])"
| "utf8_decode_ignore (b # c # bs) =
     (if b < 128 then char_of b # utf8_decode_ignore (c # bs)
      else if b \<in> {194, 195} \<and> 128 \<le> c \<and> c < 192
      then char_of ((b - 192) * 64 + (c - 128)) # utf8_decode_ignore bs
      else utf8_decode_ignore (c # bs))"

definition truncate_utf8 :: "string \<Rightarrow> nat \<Rightarrow> string" where
  "truncate_utf8 s max_bytes =
     (if length (utf8_bytes s) \<le> max_bytes then s else utf8_decode_ignore (take max_bytes (utf8_bytes s)))"

text \<open>Truncation keeps the longest prefix that fits.\<close>

lemma utf8_Cons [simp]: "utf8_bytes (c # s) = utf8_char c @ utf8_bytes s"
  by (simp add: utf8_bytes_def)

lemma utf8_Nil [simp]: "utf8_bytes [] = []"
  by (simp add: utf8_bytes_def)

lemma utf8_char_cases:
  obtains (one) n where "utf8_char c = [n]" "n < 128" "char_of n = c"
  | (two) b k where "utf8_char c = [b, k]" "b \<in> {194, 195}" "128 \<le> k" "k < 192"
      "char_of ((b - 192) * 64 + (k - 128)) = c"
proof -
  define n :: nat where "n = of_char c"
  have n: "n < 256" "char_of n = c" by (simp_all add: n_def)
  show ?thesis
  proof (cases "n < 128")
    case True
    then show ?thesis using one n by (simp add: utf8_char_def n_def Let_def)
  next
    case False
    have "n div 64 = 2 \<or> n div 64 = 3" using n(1) False by auto
    moreover have "(192 + n div 64 - 192) * 64 + (128 + n mod 64 - 128) = n" by simp
    ultimately show ?thesis
      using two [of "192 + n div 64" "128 + n mod 64"] False n by (auto simp: utf8_char_def n_def Let_def)
  qed
qed

lemma decode_one: "b < 128 \<Longrightarrow> utf8_decode_ignore (b # bs) = char_of b # utf8_decode_ignore bs"
  by (cases bs) simp_all

lemma decode_take_utf8:
  "\<exists>k \<le> length s. utf8_decode_ignore (take n (utf8_bytes s)) = take k s \<and> length (utf8_bytes (take k s)) \<le> n
     \<and> (k < length s \<longrightarrow> n < length (utf8_bytes (take (Suc k) s)))"
proof (induction s arbitrary: n)
  case Nil
  then show ?case by simp
next
  case (Cons c s)
  have more: ?case if "utf8_decode_ignore (take n (utf8_bytes (c # s))) = c # utf8_decode_ignore (take (n - length (utf8_char c)) (utf8_bytes s))"
      and "length (utf8_char c) \<le> n"
  proof -
    obtain k where k: "k \<le> length s" "utf8_decode_ignore (take (n - length (utf8_char c)) (utf8_bytes s)) = take k s"
      "length (utf8_bytes (take k s)) \<le> n - length (utf8_char c)"
      "k < length s \<longrightarrow> n - length (utf8_char c) < length (utf8_bytes (take (Suc k) s))" using Cons.IH by blast
    show ?thesis by (rule exI [of _ "Suc k"]) (use k that in auto)
  qed
  have none: ?case if "utf8_decode_ignore (take n (utf8_bytes (c # s))) = []" and "n < length (utf8_char c)"
    by (rule exI [of _ 0]) (use that in simp)
  show ?case
  proof (cases c rule: utf8_char_cases)
    case (one m)
    then show ?thesis using more none by (cases n) (auto simp: decode_one)
  next
    case (two b k)
    consider "n = 0" | "n = 1" | i where "n = Suc (Suc i)" by (metis One_nat_def not0_implies_Suc)
    then show ?thesis
    proof cases
      case 1
      then show ?thesis using none two by simp
    next
      case 2
      then show ?thesis using none two by auto
    next
      case 3
      then show ?thesis using more two by auto
    qed
  qed
qed

text \<open>
  \<open>_truncate_utf8\<close> keeps a prefix of the text, the longest whose encoding fits: it never ends
  inside a character and never exceeds the limit.
\<close>

theorem truncate_longest:
  "\<exists>k \<le> length s. truncate_utf8 s n = take k s \<and> length (utf8_bytes (truncate_utf8 s n)) \<le> n
     \<and> (k < length s \<longrightarrow> n < length (utf8_bytes (take (Suc k) s)))"
proof (cases "length (utf8_bytes s) \<le> n")
  case True
  then show ?thesis by (intro exI [of _ "length s"]) (simp add: truncate_utf8_def)
next
  case False
  obtain k where "k \<le> length s" "utf8_decode_ignore (take n (utf8_bytes s)) = take k s" "length (utf8_bytes (take k s)) \<le> n"
    "k < length s \<longrightarrow> n < length (utf8_bytes (take (Suc k) s))" using decode_take_utf8 by blast
  with False show ?thesis by (intro exI [of _ k]) (simp add: truncate_utf8_def)
qed

text \<open>An e with an acute accent is two bytes: it is dropped whole.\<close>

lemma truncate_longest_witness:
  "\<exists>k \<le> 2. truncate_utf8 [CHR ''a'', char_of (233 :: nat)] 2 = take k [CHR ''a'', char_of (233 :: nat)]
     \<and> length (utf8_bytes (truncate_utf8 [CHR ''a'', char_of (233 :: nat)] 2)) \<le> 2"
  using truncate_longest [of "[CHR ''a'', char_of (233 :: nat)]" 2] by (auto simp: numeral_2_eq_2)

section \<open>One line of output\<close>

text \<open>
  \<open>json.loads\<close>: a value, a \<open>JSONDecodeError\<close>, or an exception of another kind (a nesting
  deeper than the interpreter's stack, an integer literal longer than its limit).
\<close>

datatype 'e json_result = Loaded json | Not_Json | Loads_Raises 'e

datatype run_event_type = OTHER

definition event_type_table :: "(string \<times> run_event_type) list" where
  "event_type_table = []"

record run_event =
  re_type :: run_event_type
  re_raw_type :: string
  re_payload :: string
  re_sequence :: nat

record 'e line_tools =
  lt_loads :: "string \<Rightarrow> 'e json_result"
  lt_redact :: "string \<Rightarrow> string"

datatype 'e parsed_line = Line_Event run_event | Line_Skipped | Parse_Raises 'e

definition string_field :: "string \<Rightarrow> (string \<times> json) list \<Rightarrow> string option" where
  "string_field k kvs = (case map_of kvs k of Some (JStr s) \<Rightarrow> Some s | _ \<Rightarrow> None)"

definition parse_run_event :: "'e line_tools \<Rightarrow> nat \<Rightarrow> nat \<Rightarrow> string \<Rightarrow> 'e parsed_line" where
  "parse_run_event tools max_event_bytes sequence line =
     (let stripped = strip_by is_space line in
      if stripped = [] then Line_Skipped
      else case lt_loads tools stripped of
        Not_Json \<Rightarrow> Line_Skipped
      | Loads_Raises e \<Rightarrow> Parse_Raises e
      | Loaded (JDict kvs) \<Rightarrow>
          let raw_type = (case string_field ''type'' kvs of Some t \<Rightarrow> t
                | None \<Rightarrow> (case string_field ''event'' kvs of Some t \<Rightarrow> t | None \<Rightarrow> []))
          in Line_Event \<lparr>re_type = (case map_of event_type_table raw_type of Some t \<Rightarrow> t | None \<Rightarrow> OTHER),
               re_raw_type = lt_redact tools (truncate_utf8 raw_type max_event_bytes),
               re_payload = lt_redact tools (truncate_utf8 stripped max_event_bytes),
               re_sequence = sequence\<rparr>
      | Loaded _ \<Rightarrow> Line_Skipped)"

section \<open>One run\<close>

definition build_argv :: "string \<Rightarrow> opencode_conf \<Rightarrow> run_request \<Rightarrow> string list" where
  "build_argv path c q =
     (let model = (case rr_model q of Some m \<Rightarrow> m | None \<Rightarrow> oc_model c);
          agent = (case rr_agent q of Some a \<Rightarrow> a | None \<Rightarrow> oc_agent c);
          auto_approve = (case rr_auto_approve q of Some b \<Rightarrow> b | None \<Rightarrow> oc_auto_approve c)
      in [path, ''run'', rr_prompt q, ''--format'', ''json'']
         @ (case rr_session_id q of Some i \<Rightarrow> [''--session'', i] | None \<Rightarrow> [])
         @ (if rr_continue_last q then [''--continue''] else [])
         @ (if rr_fork q then [''--fork''] else [])
         @ (if model \<noteq> [] then [''--model'', model] else [])
         @ (if agent \<noteq> [] then [''--agent'', agent] else [])
         @ (if auto_approve then [''--auto''] else []))"

text \<open>What one turn of the read loop meets: the clock at its head, and what its wait comes to.\<close>

datatype arrival = Line string | Eof | No_Line | Interrupted

record turn =
  tu_clock :: rat
  tu_arrival :: arrival

datatype 'e loop_stop = Eof_Reached | Timed_Out | Output_Capped | Was_Cancelled | Loop_Raised 'e

record progress =
  pg_emitted :: nat
  pg_skipped :: nat
  pg_bytes :: nat
  pg_sequence :: nat

definition no_progress :: progress where
  "no_progress = \<lparr>pg_emitted = 0, pg_skipped = 0, pg_bytes = 0, pg_sequence = 0\<rparr>"

text \<open>The loop of \<open>_run_one\<close>; with the turns used up it is still waiting.\<close>

fun read_loop ::
  "opencode_conf \<Rightarrow> 'e line_tools \<Rightarrow> (run_event \<Rightarrow> ('s, 'e, unit) op) \<Rightarrow> rat \<Rightarrow> turn list \<Rightarrow> progress \<Rightarrow> 's \<Rightarrow>
    ('e loop_stop option \<times> progress) \<times> 's" where
  "read_loop c tools on_event start [] p s = ((None, p), s)"
| "read_loop c tools on_event start (t # ts) p s =
     (if oc_run_timeout c - (tu_clock t - start) \<le> 0 then ((Some Timed_Out, p), s)
      else case tu_arrival t of
        No_Line \<Rightarrow> ((Some Timed_Out, p), s)
      | Interrupted \<Rightarrow> ((Some Was_Cancelled, p), s)
      | Eof \<Rightarrow> ((Some Eof_Reached, p), s)
      | Line line \<Rightarrow>
          let p = p\<lparr>pg_bytes := pg_bytes p + length (utf8_bytes line)\<rparr> in
          if pg_bytes p > oc_max_run_output_bytes c then ((Some Output_Capped, p), s)
          else case parse_run_event tools (oc_max_event_bytes c) (pg_sequence p) line of
            Parse_Raises e \<Rightarrow> ((Some (Loop_Raised e), p), s)
          | Line_Skipped \<Rightarrow> read_loop c tools on_event start ts (p\<lparr>pg_skipped := pg_skipped p + 1\<rparr>) s
          | Line_Event ev \<Rightarrow>
              let p = p\<lparr>pg_sequence := pg_sequence p + 1, pg_emitted := pg_emitted p + 1\<rparr> in
              (case on_event ev s of
                 (Inl e, s') \<Rightarrow> ((Some (Loop_Raised e), p), s')
               | (Inr _, s') \<Rightarrow> read_loop c tools on_event start ts p s'))"

text \<open>
  The child: the code it exits with of itself once its output is closed (\<open>None\<close>: it stays), the
  code it exits with within the grace period of \<open>terminate()\<close> (\<open>None\<close>: it does not), and the code
  of a killed one.
\<close>

record child =
  ch_exit :: "int option"
  ch_terminated :: "int option"
  ch_killed :: int

datatype kill_signal = Terminate | Kill

definition finish_child :: "bool \<Rightarrow> child \<Rightarrow> int option \<times> kill_signal list" where
  "finish_child force ch =
     (if force then (case ch_terminated ch of Some code \<Rightarrow> (Some code, [Terminate])
                     | None \<Rightarrow> (Some (ch_killed ch), [Terminate, Kill]))
      else (ch_exit ch, []))"

definition forced :: "'e loop_stop \<Rightarrow> bool" where
  "forced stop \<longleftrightarrow> (case stop of Timed_Out \<Rightarrow> True | Output_Capped \<Rightarrow> True | Was_Cancelled \<Rightarrow> True | _ \<Rightarrow> False)"

definition show_int :: "int \<Rightarrow> string" where
  "show_int i = (if i < 0 then ''-'' @ decimal (nat (- i)) else decimal (nat i))"

definition run_verdict :: "(rat \<Rightarrow> string) \<Rightarrow> opencode_conf \<Rightarrow> 'e loop_stop \<Rightarrow> int \<Rightarrow> runner_status \<times> string option" where
  "run_verdict show_float c stop code = (case stop of
     Timed_Out \<Rightarrow> (Runner_Timeout, Some (''run exceeded opencode.run_timeout_seconds='' @ show_float (oc_run_timeout c)))
   | Output_Capped \<Rightarrow> (Runner_Failed,
       Some (''run output exceeded opencode.max_run_output_bytes='' @ decimal (oc_max_run_output_bytes c)))
   | _ \<Rightarrow> if code \<noteq> 0 then (Runner_Failed, Some (''opencode exited with code '' @ show_int code)) else (Completed, None))"

text \<open>How a call ends: an outcome, an exception, its cancellation; \<open>Pending\<close> if it does not.\<close>

datatype 'e run_end = Returned run_outcome | Run_Raised 'e | Cancelled_Out | Pending

text \<open>Starting the child: an \<open>OSError\<close>, another exception (a NUL in an argument), or the child.\<close>

datatype 'e spawned = Spawn_Failed string | Spawn_Raises 'e | Spawned child

record 'e run_world =
  rw_tools :: "'e line_tools"
  rw_spawn :: "string list \<Rightarrow> (string \<times> string) list \<Rightarrow> string \<Rightarrow> 'e spawned"
  rw_dumps :: "(string \<times> json) list \<Rightarrow> string"
  rw_environ :: "string \<rightharpoonup> string"
  rw_start :: rat
  rw_turns :: "turn list"
  rw_end :: rat
  rw_show_float :: "rat \<Rightarrow> string"

definition run_one ::
  "opencode_conf \<Rightarrow> string \<Rightarrow> 'e run_world \<Rightarrow> run_request \<Rightarrow> (run_event \<Rightarrow> ('s, 'e, unit) op) \<Rightarrow> 's \<Rightarrow>
    ('e run_end \<times> kill_signal list) \<times> 's" where
  "run_one c path w q on_event s =
     (case rw_spawn w (build_argv path c q) (build_opencode_env (rw_dumps w) c (rw_environ w)) (oc_workspace_dir c) of
        Spawn_Raises e \<Rightarrow> ((Run_Raised e, []), s)
      | Spawn_Failed e \<Rightarrow> ((Returned \<lparr>ro_status = Runner_Failed, ro_exit_code = None, ro_events_emitted = 0, ro_events_skipped = 0,
           ro_duration = rw_end w - rw_start w, ro_truncated = False, ro_error = Some (''failed to spawn opencode: '' @ e)\<rparr>, []), s)
      | Spawned ch \<Rightarrow>
          (case read_loop c (rw_tools w) on_event (rw_start w) (rw_turns w) no_progress s of
             ((None, p), t) \<Rightarrow> ((Pending, []), t)
           | ((Some stop, p), t) \<Rightarrow>
               (case finish_child (forced stop) ch of
                  (None, signals) \<Rightarrow> ((Pending, signals), t)
                | (Some code, signals) \<Rightarrow>
                    (((case stop of
                        Was_Cancelled \<Rightarrow> Cancelled_Out
                      | Loop_Raised e \<Rightarrow> Run_Raised e
                      | _ \<Rightarrow> Returned \<lparr>ro_status = fst (run_verdict (rw_show_float w) c stop code), ro_exit_code = Some code,
                          ro_events_emitted = pg_emitted p, ro_events_skipped = pg_skipped p,
                          ro_duration = rw_end w - rw_start w, ro_truncated = (stop = Output_Capped),
                          ro_error = snd (run_verdict (rw_show_float w) c stop code)\<rparr>), signals), t))))"

subsection \<open>What the loop hands on\<close>

lemma parse_run_event_sequence: "parse_run_event tools m n line = Line_Event ev \<Longrightarrow> re_sequence ev = n"
  by (auto simp: parse_run_event_def Let_def split: if_splits json_result.splits json.splits)

text \<open>
  Unless it raises, the loop has handed on a list of events, numbered on from where it began, and
  counted them.
\<close>

lemma read_loop_events:
  assumes "read_loop c tools on_event start ts p s = ((r, p'), t)" and "\<forall>e. r \<noteq> Some (Loop_Raised e)"
  shows "\<exists>evs. foreach on_event evs s = (Inr (), t) \<and> pg_emitted p' = pg_emitted p + length evs
    \<and> pg_sequence p' = pg_sequence p + length evs
    \<and> map re_sequence evs = [pg_sequence p ..< pg_sequence p + length evs]"
  using assms
proof (induction ts arbitrary: p s)
  case Nil
  then show ?case by (intro exI [of _ "[]"]) (simp add: ret_def)
next
  case (Cons u ts)
  have stopped: ?case if "pg_emitted p' = pg_emitted p" "pg_sequence p' = pg_sequence p" "t = s"
    by (rule exI [of _ "[]"]) (use that in \<open>simp add: ret_def\<close>)
  show ?case
  proof (cases "oc_run_timeout c - (tu_clock u - start) \<le> 0 \<or> (\<forall>line. tu_arrival u \<noteq> Line line)")
    case True
    then show ?thesis using stopped Cons.prems(1) by (auto split: if_splits arrival.splits)
  next
    case False
    then obtain line where line: "tu_arrival u = Line line" "\<not> oc_run_timeout c - (tu_clock u - start) \<le> 0" by blast
    define p1 where "p1 = p\<lparr>pg_bytes := pg_bytes p + length (utf8_bytes line)\<rparr>"
    show ?thesis
    proof (cases "pg_bytes p1 > oc_max_run_output_bytes c")
      case True
      then have "p' = p1" "t = s" using Cons.prems(1) line by (simp_all add: p1_def)
      then show ?thesis using stopped by (simp add: p1_def)
    next
      case fits: False
      show ?thesis
      proof (cases "parse_run_event tools (oc_max_event_bytes c) (pg_sequence p) line")
        case Line_Skipped
        then have "read_loop c tools on_event start ts (p1\<lparr>pg_skipped := pg_skipped p1 + 1\<rparr>) s = ((r, p'), t)"
          using Cons.prems(1) line fits by (simp add: p1_def)
        from Cons.IH [OF this Cons.prems(2)] show ?thesis by (simp add: p1_def)
      next
        case (Parse_Raises e)
        then show ?thesis using Cons.prems line fits by (auto simp: p1_def)
      next
        case (Line_Event ev)
        define p2 where "p2 = p1\<lparr>pg_sequence := pg_sequence p1 + 1, pg_emitted := pg_emitted p1 + 1\<rparr>"
        obtain x s1 where call: "on_event ev s = (x, s1)" by fastforce
        have "x = Inr ()"
        proof (cases x)
          case (Inl e)
          then show ?thesis using Cons.prems line fits Line_Event call by (auto simp: p1_def)
        qed simp
        moreover have "read_loop c tools on_event start ts p2 s1 = ((r, p'), t)"
          using Cons.prems(1) line fits Line_Event call calculation by (simp add: p1_def p2_def)
        from Cons.IH [OF this Cons.prems(2)] obtain evs where
          evs: "foreach on_event evs s1 = (Inr (), t)" "pg_emitted p' = pg_emitted p2 + length evs"
            "pg_sequence p' = pg_sequence p2 + length evs"
            "map re_sequence evs = [pg_sequence p2 ..< pg_sequence p2 + length evs]" by blast
        ultimately have "foreach on_event (ev # evs) s = (Inr (), t)"
          using call by (simp add: op_then_def op_bind_def)
        moreover have "map re_sequence (ev # evs) = [pg_sequence p ..< pg_sequence p + length (ev # evs)]"
        proof -
          have "map re_sequence evs = [Suc (pg_sequence p) ..< Suc (pg_sequence p + length evs)]"
            using evs(4) by (simp add: p2_def p1_def del: upt_Suc)
          then show ?thesis
            using parse_run_event_sequence [OF Line_Event] by (simp add: upt_conv_Cons del: upt_Suc)
        qed
        ultimately show ?thesis
          using evs(2,3) by (intro exI [of _ "ev # evs"]) (simp add: p2_def p1_def)
      qed
    qed
  qed
qed

text \<open>Lines are not empty, so the cap on the output ends the loop whatever the clock says.\<close>

lemma read_loop_ends:
  assumes "\<forall>u \<in> set ts. tu_arrival u \<noteq> Line []" and "pg_bytes p + length ts > oc_max_run_output_bytes c"
    and "pg_bytes p \<le> oc_max_run_output_bytes c"
  shows "fst (fst (read_loop c tools on_event start ts p s)) \<noteq> None"
  using assms
proof (induction ts arbitrary: p s)
  case (Cons u ts)
  show ?case
  proof (cases "\<exists>line. tu_arrival u = Line line")
    case False
    then show ?thesis by (auto split: arrival.splits)
  next
    case True
    then obtain line where line: "tu_arrival u = Line line" "line \<noteq> []" using Cons.prems(1) by auto
    have "length (utf8_bytes line) > 0" using line(2) by (cases line) (auto simp: utf8_char_def Let_def)
    then have more: "pg_bytes (q\<lparr>pg_bytes := pg_bytes p + length (utf8_bytes line)\<rparr>) + length ts > oc_max_run_output_bytes c" for q :: progress
      using Cons.prems(2) by (cases "utf8_bytes line") simp_all
    then show ?thesis
      using line Cons.IH Cons.prems(1)
      by (auto simp: Let_def split: parsed_line.splits prod.splits sum.splits)
  qed
qed simp

section \<open>What a run comes to\<close>

text \<open>
  A run that returns: the events it handed on are numbered from nought without a gap and are
  as many as it counts; it is completed exactly when nothing was killed and the child
  exited with nought; a signal was sent exactly when the time or the output was exceeded, the
  two never together, the second with status failed; and exactly a completed run has no error.
\<close>

theorem run_one_returned:
  assumes "run_one c path w q on_event s = ((Returned out, signals), t)"
    and "rw_spawn w (build_argv path c q) (build_opencode_env (rw_dumps w) c (rw_environ w)) (oc_workspace_dir c) = Spawned ch"
  shows "(\<exists>evs. foreach on_event evs s = (Inr (), t) \<and> map re_sequence evs = [0 ..< ro_events_emitted out])
    \<and> (ro_status out = Opencode_Service.Completed \<longleftrightarrow> signals = [] \<and> ro_exit_code out = Some 0)
    \<and> (ro_status out = Runner_Timeout \<or> ro_truncated out \<longleftrightarrow> signals \<noteq> [])
    \<and> (ro_truncated out \<longrightarrow> ro_status out = Runner_Failed)
    \<and> (ro_error out = None \<longleftrightarrow> ro_status out = Opencode_Service.Completed)"
proof -
  obtain r p u where loop: "read_loop c (rw_tools w) on_event (rw_start w) (rw_turns w) no_progress s = ((r, p), u)"
    by (metis surj_pair)
  obtain stop where stop: "r = Some stop"
    using assms loop by (cases r) (simp_all add: run_one_def)
  obtain code where fin: "finish_child (forced stop) ch = (Some code, signals)"
    and out: "out = \<lparr>ro_status = fst (run_verdict (rw_show_float w) c stop code), ro_exit_code = Some code,
        ro_events_emitted = pg_emitted p, ro_events_skipped = pg_skipped p, ro_duration = rw_end w - rw_start w,
        ro_truncated = (stop = Output_Capped), ro_error = snd (run_verdict (rw_show_float w) c stop code)\<rparr>"
    and kind: "stop = Eof_Reached \<or> stop = Timed_Out \<or> stop = Output_Capped" and u: "u = t"
    using assms loop stop by (auto simp: run_one_def split: prod.splits option.splits loop_stop.splits)
  obtain evs where "foreach on_event evs s = (Inr (), t)" "pg_emitted p = length evs"
      "map re_sequence evs = [0 ..< length evs]"
    using read_loop_events [OF loop] kind stop u by (auto simp: no_progress_def)
  then have "\<exists>evs. foreach on_event evs s = (Inr (), t) \<and> map re_sequence evs = [0 ..< ro_events_emitted out]"
    by (intro exI [of _ evs]) (simp add: out)
  moreover have "signals = [] \<longleftrightarrow> stop = Eof_Reached"
    using fin kind by (auto simp: finish_child_def forced_def split: option.splits)
  ultimately show ?thesis
    using kind by (elim disjE) (simp_all add: out run_verdict_def)
qed

text \<open>A child that prints one event, one line of noise and then exits with the given code.\<close>

definition sample_run :: "int \<Rightarrow> 'e run_world" where
  "sample_run code = \<lparr>rw_tools = \<lparr>lt_loads = (\<lambda>x. if x = ''{}'' then Loaded (JDict []) else Not_Json), lt_redact = (\<lambda>x. x)\<rparr>,
     rw_spawn = (\<lambda>argv env cwd. Spawned \<lparr>ch_exit = Some code, ch_terminated = Some (-15), ch_killed = -9\<rparr>),
     rw_dumps = (\<lambda>_. ''{}''), rw_environ = Map.empty, rw_start = 0,
     rw_turns = [\<lparr>tu_clock = 1, tu_arrival = Line ''{}''\<rparr>, \<lparr>tu_clock = 2, tu_arrival = Line ''noise''\<rparr>,
       \<lparr>tu_clock = 3, tu_arrival = Eof\<rparr>],
     rw_end = 4, rw_show_float = (\<lambda>_. ''900.0'')\<rparr>"

definition sample_request :: run_request where
  "sample_request = \<lparr>rr_prompt = ''go'', rr_session_id = None, rr_continue_last = False, rr_fork = False,
     rr_model = None, rr_agent = None, rr_auto_approve = None\<rparr>"

lemma sample_parse:
  "parse_run_event (rw_tools (sample_run code)) m n ''{}'' =
     Line_Event \<lparr>re_type = OTHER, re_raw_type = truncate_utf8 [] m, re_payload = truncate_utf8 ''{}'' m, re_sequence = n\<rparr>"
  "parse_run_event (rw_tools (sample_run code)) m n ''noise'' = Line_Skipped"
  by (simp_all add: parse_run_event_def sample_run_def string_field_def event_type_table_def strip_by_def is_space_def Let_def)

lemma sample_run_one:
  fixes on_event :: "run_event \<Rightarrow> ('s, 'e, unit) op"
  assumes "on_event \<lparr>re_type = OTHER, re_raw_type = truncate_utf8 [] 65536, re_payload = truncate_utf8 ''{}'' 65536,
      re_sequence = 0\<rparr> s = (Inr (), t)"
  shows "run_one default_opencode path (sample_run code) q on_event s =
    ((Returned \<lparr>ro_status = (if code = 0 then Opencode_Service.Completed else Runner_Failed), ro_exit_code = Some code,
        ro_events_emitted = 1, ro_events_skipped = 1, ro_duration = 4, ro_truncated = False,
        ro_error = (if code = 0 then None else Some (''opencode exited with code '' @ show_int code))\<rparr>, []), t)"
proof -
  let ?w = "sample_run code :: 'e run_world"
  have bytes: "utf8_bytes ''{}'' = [123, 125]" "utf8_bytes ''noise'' = [110, 111, 105, 115, 101]" by code_simp+
  have world: "rw_turns ?w = [\<lparr>tu_clock = 1, tu_arrival = Line ''{}''\<rparr>,
      \<lparr>tu_clock = 2, tu_arrival = Line ''noise''\<rparr>, \<lparr>tu_clock = 3, tu_arrival = Eof\<rparr>]" "rw_start ?w = 0"
    by (simp_all add: sample_run_def)
  have conf: "oc_run_timeout default_opencode = 900" "oc_max_run_output_bytes default_opencode = 10485760"
      "oc_max_event_bytes default_opencode = 65536" by (simp_all add: default_opencode_def)
  have loop: "read_loop default_opencode (rw_tools ?w) on_event (rw_start ?w) (rw_turns ?w) no_progress s
      = ((Some Eof_Reached, \<lparr>pg_emitted = 1, pg_skipped = 1, pg_bytes = 7, pg_sequence = 1\<rparr>), t)"
    unfolding world using assms by (simp add: bytes conf sample_parse no_progress_def del: utf8_Cons)
  have child: "rw_spawn ?w argv env cwd = Spawned \<lparr>ch_exit = Some code, ch_terminated = Some (-15), ch_killed = -9\<rparr>"
      "rw_end ?w = 4" for argv env cwd by (simp_all add: sample_run_def)
  show ?thesis
    unfolding run_one_def child spawned.case loop
    by (simp add: finish_child_def forced_def run_verdict_def child world)
qed

lemma run_one_returned_witness:
  "\<exists>evs :: run_event list. foreach (\<lambda>ev s. (Inr (), s @ [re_sequence ev]) :: (nat + unit) \<times> nat list) evs [] = (Inr (), [0]) \<and> map re_sequence evs = [0 ..< 1]"
proof -
  let ?w = "sample_run 0 :: nat run_world"
  let ?cb = "\<lambda>ev s. (Inr (), s @ [re_sequence ev]) :: (nat + unit) \<times> nat list"
  have "rw_spawn ?w argv env cwd = Spawned \<lparr>ch_exit = Some 0, ch_terminated = Some (-15), ch_killed = -9\<rparr>" for argv env cwd
    by (simp add: sample_run_def)
  from run_one_returned [OF sample_run_one [of ?cb "[]" "[0]" path 0 q] this] show ?thesis by simp
qed


text \<open>A parser that raises takes the call down with it, after the first line.\<close>

lemma parser_exception_escapes:
  assumes "lt_loads (rw_tools w) ''deep'' = Loads_Raises e" and "rw_turns w = [\<lparr>tu_clock = 1, tu_arrival = Line ''deep''\<rparr>]"
    and "rw_start w = 0" and "rw_spawn w = (\<lambda>_ _ _. Spawned \<lparr>ch_exit = Some 0, ch_terminated = None, ch_killed = -9\<rparr>)"
  shows "run_one default_opencode path w q on_event s = ((Run_Raised e, []), s)"
proof -
  have "utf8_bytes ''deep'' = [100, 101, 101, 112]" by code_simp
  then show ?thesis
    using assms by (simp add: run_one_def default_opencode_def no_progress_def parse_run_event_def strip_by_def is_space_def
      finish_child_def forced_def del: utf8_Cons)
qed


section \<open>Admission\<close>

datatype runner_refusal = Runner_Unavailable | Prompt_Too_Long nat | Runner_Busy nat

definition admission :: "string option \<Rightarrow> opencode_conf \<Rightarrow> run_request \<Rightarrow> nat \<Rightarrow> runner_refusal option" where
  "admission path c q admitted =
     (if path = None then Some Runner_Unavailable
      else if length (rr_prompt q) > oc_max_prompt_chars c then Some (Prompt_Too_Long (length (rr_prompt q)))
      else if admitted \<ge> oc_queue_max_depth c then Some (Runner_Busy (oc_queue_max_depth c))
      else None)"

text \<open>
  A runner: how many calls it counts as admitted, those waiting for the semaphore (which serves
  them in order) and those that hold it. A call is refused, admitted, served, given up while it
  waits (its task is cancelled), or done.
\<close>

record runner_state =
  rn_admitted :: nat
  rn_waiting :: "nat list"
  rn_running :: "nat list"

datatype runner_act = Refuse runner_refusal | Admit | Serve | Give_Up | Leave

definition new_runner :: runner_state where
  "new_runner = \<lparr>rn_admitted = 0, rn_waiting = [], rn_running = []\<rparr>"

inductive runner_step :: "string option \<Rightarrow> opencode_conf \<Rightarrow> runner_state \<Rightarrow> runner_act \<Rightarrow> runner_state \<Rightarrow> bool"
  for path :: "string option" and c :: opencode_conf where
  refuse: "admission path c q (rn_admitted r) = Some e \<Longrightarrow> runner_step path c r (Refuse e) r"
| admit: "admission path c q (rn_admitted r) = None \<Longrightarrow>
    runner_step path c r Admit (r\<lparr>rn_admitted := rn_admitted r + 1, rn_waiting := rn_waiting r @ [i]\<rparr>)"
| serve: "rn_waiting r = i # is \<Longrightarrow> length (rn_running r) < oc_max_concurrent_runs c \<Longrightarrow>
    runner_step path c r Serve (r\<lparr>rn_waiting := is, rn_running := rn_running r @ [i]\<rparr>)"
| give_up: "i \<in> set (rn_waiting r) \<Longrightarrow>
    runner_step path c r Give_Up (r\<lparr>rn_admitted := rn_admitted r - 1, rn_waiting := remove1 i (rn_waiting r)\<rparr>)"
| leave: "i \<in> set (rn_running r) \<Longrightarrow>
    runner_step path c r Leave (r\<lparr>rn_admitted := rn_admitted r - 1, rn_running := remove1 i (rn_running r)\<rparr>)"

inductive runner_reach :: "string option \<Rightarrow> opencode_conf \<Rightarrow> runner_state \<Rightarrow> bool"
  for path :: "string option" and c :: opencode_conf where
  init: "runner_reach path c new_runner"
| step: "runner_reach path c r \<Longrightarrow> runner_step path c r a r' \<Longrightarrow> runner_reach path c r'"

inductive_cases runner_stepE: "runner_step path c r a r'"

definition runner_inv :: "opencode_conf \<Rightarrow> runner_state \<Rightarrow> bool" where
  "runner_inv c r \<longleftrightarrow> rn_admitted r = length (rn_waiting r) + length (rn_running r)
     \<and> rn_admitted r \<le> oc_queue_max_depth c \<and> length (rn_running r) \<le> oc_max_concurrent_runs c"

lemma runner_inv_step:
  assumes "runner_inv c r" and "runner_step path c r a r'"
  shows "runner_inv c r'"
  using assms(2)
proof cases
  case (give_up i)
  then have "length (rn_waiting r) > 0" by (cases "rn_waiting r") auto
  then have "length (rn_waiting r) + n - 1 = (length (rn_waiting r) - 1) + n" for n by linarith
  then show ?thesis using assms(1) give_up by (auto simp: runner_inv_def length_remove1)
next
  case (leave i)
  then have "length (rn_running r) > 0" by (cases "rn_running r") auto
  then have "n + length (rn_running r) - 1 = n + (length (rn_running r) - 1)" for n by linarith
  then show ?thesis using assms(1) leave by (auto simp: runner_inv_def length_remove1)
qed (use assms(1) in \<open>auto simp: runner_inv_def admission_def split: if_splits\<close>)

lemma runner_inv_reach: "runner_reach path c r \<Longrightarrow> runner_inv c r"
proof (induction rule: runner_reach.induct)
  case init
  then show ?case by (simp add: runner_inv_def new_runner_def)
next
  case (step r a r')
  then show ?case using runner_inv_step by blast
qed

text \<open>
  C28. The two limits of a runner: whatever calls arrive, are served, given up and finish, the calls
  admitted are those waiting and those running, never more than the queue's depth, and never
  more than the configured number run; a call is refused as busy only with the queue full, and
  with a validated section a waiting call is never stuck: some call runs, or it can be served.
\<close>

theorem runner_admission:
  assumes "runner_reach path c r"
  shows "rn_admitted r = length (rn_waiting r) + length (rn_running r)
    \<and> rn_admitted r \<le> oc_queue_max_depth c
    \<and> length (rn_running r) \<le> oc_max_concurrent_runs c
    \<and> (\<forall>n r'. runner_step path c r (Refuse (Runner_Busy n)) r' \<longrightarrow>
         r' = r \<and> length (rn_waiting r) + length (rn_running r) = oc_queue_max_depth c)
    \<and> (opencode_bounds c \<and> rn_waiting r \<noteq> [] \<longrightarrow> rn_running r \<noteq> [] \<or> (\<exists>r'. runner_step path c r Serve r'))"
proof -
  have inv: "runner_inv c r" using assms by (rule runner_inv_reach)
  have "r' = r \<and> length (rn_waiting r) + length (rn_running r) = oc_queue_max_depth c"
    if "runner_step path c r (Refuse (Runner_Busy n)) r'" for n r'
    using that inv by (auto elim!: runner_stepE simp: runner_inv_def admission_def split: if_splits)
  moreover have "\<exists>r'. runner_step path c r Serve r'" if "opencode_bounds c" and wait: "rn_waiting r \<noteq> []" and "rn_running r = []"
  proof -
    obtain i ws where "rn_waiting r = i # ws" using wait by (cases "rn_waiting r") auto
    moreover have "length (rn_running r) < oc_max_concurrent_runs c" using that by (simp add: opencode_bounds_def)
    ultimately show ?thesis by (blast intro: serve)
  qed
  ultimately show ?thesis using inv unfolding runner_inv_def by blast
qed

lemma runner_admission_witness:
  "\<exists>r. runner_reach (Some ''opencode'') default_opencode r \<and> rn_waiting r = [7] \<and> rn_running r = [3]
     \<and> length (rn_running r) \<le> oc_max_concurrent_runs default_opencode"
proof -
  have ok: "admission (Some ''opencode'') default_opencode sample_request n = None" if "n < 10" for n
    using that by (simp add: admission_def default_opencode_def sample_request_def)
  let ?a = "new_runner\<lparr>rn_admitted := 1, rn_waiting := [3]\<rparr>"
  let ?b = "new_runner\<lparr>rn_admitted := 1, rn_running := [3]\<rparr>"
  let ?d = "new_runner\<lparr>rn_admitted := 2, rn_waiting := [7], rn_running := [3]\<rparr>"
  have "runner_step (Some ''opencode'') default_opencode new_runner Admit ?a"
    using admit [of "Some ''opencode''" default_opencode sample_request new_runner 3] ok by (simp add: new_runner_def)
  moreover have "runner_step (Some ''opencode'') default_opencode ?a Serve ?b"
    using serve [of ?a 3 "[]" default_opencode "Some ''opencode''"] by (simp add: new_runner_def default_opencode_def)
  moreover have "runner_step (Some ''opencode'') default_opencode ?b Admit ?d"
    using admit [of "Some ''opencode''" default_opencode sample_request ?b 7] ok by (simp add: new_runner_def numeral_2_eq_2)
  ultimately have reach: "runner_reach (Some ''opencode'') default_opencode ?d"
    by (meson runner_reach.init runner_reach.step)
  from runner_admission [OF this] reach show ?thesis
    by (intro exI [of _ ?d]) (simp add: new_runner_def)
qed

end
