(* ===== verification/Opencode_Execute.thy ===== *)
theory Opencode_Execute
  imports Opencode_Runner Opencode_Lifecycle
begin

text \<open>
  \<open>_execute\<close> of the run service with the real adapter in place: the row is set running, the child
  is run with a callback that counts its events, and the outcome is recorded
  (\<open>opencode/service.py\<close>, \<open>opencode/runner.py\<close>). The step relation of the life cycle leaves
  the runner open; here the runner of the code is shown to take only such steps.
\<close>

section \<open>Driving a run to its end\<close>

definition service_on_event :: "string \<Rightarrow> (run_event \<Rightarrow> instant) \<Rightarrow> run_event \<Rightarrow> unit oc_op" where
  "service_on_event i clock ev = op_bind (asks (phase_of i)) (\<lambda>ph. case ph of
     Some (Driving start n) \<Rightarrow> execute_event i start n (clock ev)
   | _ \<Rightarrow> ret ())"

definition driven :: "string \<Rightarrow> oc_service \<Rightarrow> nat" where
  "driven i s = (case phase_of i s of Some (Driving start n) \<Rightarrow> n | _ \<Rightarrow> 0)"

text \<open>An exception ends the task: only its done-callback runs.\<close>

definition close_with ::
  "string \<Rightarrow> opencode_error run_end \<Rightarrow> (opencode_error + unit) \<times> oc_service \<Rightarrow> opencode_error run_end \<times> oc_service" where
  "close_with i end_as x = (case x of (Inl e, t) \<Rightarrow> (Run_Raised e, snd (forget_task i t)) | (Inr _, t) \<Rightarrow> (end_as, t))"

record times =
  tm_start :: instant
  tm_event :: "run_event \<Rightarrow> instant"
  tm_cancelled :: instant
  tm_end :: instant

definition execute ::
  "opencode_conf \<Rightarrow> string \<Rightarrow> opencode_error run_world \<Rightarrow> times \<Rightarrow> string \<Rightarrow> run_request \<Rightarrow> oc_service \<Rightarrow>
    opencode_error run_end \<times> oc_service" where
  "execute c path w tm i q s =
     (case op_then (execute_begin i (tm_start tm)) (execute_running i (tm_start tm)) s of
        (Inl e, t) \<Rightarrow> (Run_Raised e, snd (forget_task i t))
      | (Inr _, t) \<Rightarrow>
          (case run_one c path w q (service_on_event i (tm_event tm)) t of
             ((Returned out, signals), u) \<Rightarrow>
               close_with i (Returned out) (execute_outcome i (driven i u) out (tm_end tm) u)
           | ((Run_Raised e, signals), u) \<Rightarrow> (Run_Raised e, snd (forget_task i u))
           | ((Cancelled_Out, signals), u) \<Rightarrow>
               close_with i Cancelled_Out (execute_cancelled i (tm_start tm) (driven i u) (tm_cancelled tm) (tm_end tm) u)
           | ((Pending, signals), u) \<Rightarrow> (Pending, u)))"

section \<open>What the callback does\<close>

lemma read_loop_keeps:
  assumes "\<And>ev. keeps P (on_event ev)" and "P s"
  shows "P (snd (read_loop c tools on_event start ts p s))"
  using assms(2)
proof (induction ts arbitrary: p s)
  case (Cons u ts)
  note IH = Cons.IH and s = Cons.prems
  show ?case
  proof (cases "tu_arrival u")
    case (Line line)
    let ?p = "p\<lparr>pg_bytes := pg_bytes p + length (utf8_bytes line)\<rparr>"
    show ?thesis
    proof (cases "parse_run_event tools (oc_max_event_bytes c) (pg_sequence ?p) line")
      case (Line_Event ev)
      obtain x t where call: "on_event ev s = (x, t)" by fastforce
      then have "P t" using keeps_result [OF assms(1) s] by blast
      show ?thesis
        unfolding read_loop.simps Line arrival.case Let_def Line_Event parsed_line.case call prod.case
        using s \<open>P t\<close> IH [OF \<open>P t\<close>] by (simp split: sum.split)
    next
      case Line_Skipped
      show ?thesis
        unfolding read_loop.simps Line arrival.case Let_def Line_Skipped parsed_line.case
        using s IH [OF s] by simp
    next
      case (Parse_Raises e)
      show ?thesis
        unfolding read_loop.simps Line arrival.case Let_def Parse_Raises parsed_line.case
        using s by simp
    qed
  next
    case Eof
    show ?thesis unfolding read_loop.simps Eof arrival.case using s by simp
  next
    case No_Line
    show ?thesis unfolding read_loop.simps No_Line arrival.case using s by simp
  next
    case Interrupted
    show ?thesis unfolding read_loop.simps Interrupted arrival.case using s by simp
  qed
qed simp

lemma run_one_keeps:
  assumes "\<And>ev. keeps P (on_event ev)" and "P s" and "run_one c path w q on_event s = (e, t)"
  shows "P t"
proof -
  obtain r p u where loop: "read_loop c (rw_tools w) on_event (rw_start w) (rw_turns w) no_progress s = ((r, p), u)"
    by (metis surj_pair)
  have "P (snd (read_loop c (rw_tools w) on_event (rw_start w) (rw_turns w) no_progress s))"
    by (rule read_loop_keeps [OF assms(1,2)])
  then have "P u" unfolding loop snd_conv .
  moreover have "t = s \<or> t = u"
    using assms(3) loop unfolding run_one_def by (auto split: spawned.splits option.splits prod.splits)
  ultimately show ?thesis using assms(2) by blast
qed

text \<open>Whatever it returns, the runner has handed on as many events as it counts.\<close>

lemma returned_events:
  assumes "run_one c path w q on_event s = ((Returned out, signals), t)"
  obtains evs where "foreach on_event evs s = (Inr (), t)" and "length evs = ro_events_emitted out"
proof (cases "rw_spawn w (build_argv path c q) (build_opencode_env (rw_dumps w) c (rw_environ w)) (oc_workspace_dir c)")
  case (Spawned ch)
  from run_one_returned [OF assms this] obtain evs where
    "foreach on_event evs s = (Inr (), t)" "map re_sequence evs = [0 ..< ro_events_emitted out]" by blast
  then show ?thesis using that by (metis length_map length_upt diff_zero)
next
  case (Spawn_Failed e)
  with assms that [of "[]"] show ?thesis by (auto simp: run_one_def ret_def)
next
  case (Spawn_Raises e)
  with assms show ?thesis by (simp add: run_one_def)
qed

lemma service_event:
  assumes "phase_of i s = Some (Driving start n)"
  shows "service_on_event i clock ev s = (Inr (), s\<lparr>oc_tasks := dict_put i (Driving start (n + 1)) (oc_tasks s),
    oc_last_event := dict_put i (iso (clock ev)) (oc_last_event s), oc_trace := oc_trace s @ [(Some i, Run_Event)]\<rparr>)"
  using assms by (simp add: service_on_event_def execute_event_def set_phase_def record_trace_def op_simps)

lemma service_events:
  assumes "foreach (service_on_event i clock) evs s = (Inr (), t)" and "phase_of i s = Some (Driving start n)"
  shows "oc_runs t = oc_runs s \<and> phase_of i t = Some (Driving start (n + length evs))
    \<and> oc_trace t = oc_trace s @ replicate (length evs) (Some i, Run_Event)"
  using assms
proof (induction evs arbitrary: s n)
  case Nil
  then show ?case by (simp add: ret_def)
next
  case (Cons ev evs)
  define s1 where "s1 = s\<lparr>oc_tasks := dict_put i (Driving start (n + 1)) (oc_tasks s),
    oc_last_event := dict_put i (iso (clock ev)) (oc_last_event s), oc_trace := oc_trace s @ [(Some i, Run_Event)]\<rparr>"
  have "foreach (service_on_event i clock) evs s1 = (Inr (), t)"
    using Cons.prems(1) service_event [OF Cons.prems(2)] by (simp add: op_then_def op_bind_def s1_def)
  moreover have "phase_of i s1 = Some (Driving start (n + 1))" by (simp add: s1_def phase_of_def)
  ultimately have "oc_runs t = oc_runs s1 \<and> phase_of i t = Some (Driving start (n + 1 + length evs))
      \<and> oc_trace t = oc_trace s1 @ replicate (length evs) (Some i, Run_Event)" by (rule Cons.IH)
  then show ?case by (simp add: s1_def)
qed

section \<open>Execution refines the life cycle\<close>

text \<open>What holds while the child of run \<open>i\<close> is driven, seen from a state \<open>x\<close> of the life cycle.\<close>

definition driving_from :: "oc_settings \<Rightarrow> nat \<Rightarrow> oc_state \<Rightarrow> admissions \<Rightarrow> string list \<Rightarrow> string \<Rightarrow> instant \<Rightarrow> oc_service \<Rightarrow> bool" where
  "driving_from st k x adm lost i start s \<longleftrightarrow>
     oc_reach st k x (s, adm, lost) \<and> (\<exists>n. phase_of i s = Some (Driving start n))"

lemma callback_keeps:
  assumes "length adm \<le> k"
  shows "keeps (driving_from st k x adm lost i start) (service_on_event i clock ev)"
proof (rule keepsI)
  fix s assume "driving_from st k x adm lost i start s"
  then obtain n where reach: "oc_reach st k x (s, adm, lost)" and ph: "phase_of i s = Some (Driving start n)"
    by (auto simp: driving_from_def)
  obtain r t where run: "execute_event i start n (clock ev) s = (r, t)" by fastforce
  then have same: "service_on_event i clock ev s = (r, t)" using ph by (simp add: service_on_event_def op_simps)
  have "oc_reach st k x (t, adm, lost)"
    by (rule oc_reach.step [OF reach oc_step.reported [OF ph run]]) (use assms in simp)
  moreover have "phase_of i t = Some (Driving start (n + 1))"
    using same service_event [OF ph, of clock ev] by (auto simp: phase_of_def)
  ultimately show "driving_from st k x adm lost i start (snd (service_on_event i clock ev s))"
    using same by (auto simp: driving_from_def)
qed

lemma begun_and_running:
  assumes "oc_ok (s, adm, lost)" and "phase_of i s = Some Unstarted" and "length adm \<le> k"
  obtains t where "op_then (execute_begin i start) (execute_running i start) s = (Inr (), t)"
    and "driving_from st k (s, adm, lost) adm lost i start t" and "phase_of i t = Some (Driving start 0)"
    and "oc_runs t = update_where (\<lambda>q. ru_id q = i)
      (apply_changes Running (no_changes\<lparr>rc_started_at := Some (iso start)\<rparr>)) (oc_runs s)"
    and "oc_trace t = oc_trace s @ [(Some i, Run_Started)]"
proof -
  define s1 where "s1 = s\<lparr>oc_tasks := dict_put i (Starting start) (oc_tasks s)\<rparr>"
  have begin_run: "execute_begin i start s = (Inr (), s1)"
    by (simp add: execute_begin_def set_phase_def op_simps s1_def)
  have ph1: "phase_of i s1 = Some (Starting start)" by (simp add: s1_def)
  have reach1: "oc_reach st k (s, adm, lost) (s1, adm, lost)" for st
    by (rule oc_reach.step [OF oc_reach.start oc_step.begun [OF assms(2) begin_run]]) (use assms(3) in simp)
  then have ok1: "oc_ok (s1, adm, lost)" using oc_reach_ok assms(1) by blast
  obtain t where run: "execute_running i start s1 = (Inr (), t)" and t: "t = s1\<lparr>oc_runs := update_where (\<lambda>q. ru_id q = i)
      (apply_changes Running (no_changes\<lparr>rc_started_at := Some (iso start)\<rparr>)) (oc_runs s1),
    oc_trace := oc_trace s1 @ [(Some i, Run_Started)], oc_tasks := dict_put i (Driving start 0) (oc_tasks s1)\<rparr>"
    using execute_running_run [OF ok1 ph1] by blast
  have reach: "oc_reach st k (s, adm, lost) (t, adm, lost)"
    by (rule oc_reach.step [OF reach1 oc_step.started [OF ph1 run]]) (use assms(3) in simp)
  have ph: "phase_of i t = Some (Driving start 0)" by (simp add: t phase_of_def)
  show ?thesis
  proof (rule that [OF _ _ ph])
    show "op_then (execute_begin i start) (execute_running i start) s = (Inr (), t)"
      using begin_run run by (simp add: op_then_ok)
    show "driving_from st k (s, adm, lost) adm lost i start t" using reach ph by (auto simp: driving_from_def)
  qed (simp_all add: t s1_def)
qed

text \<open>From a state that is driving run \<open>i\<close>, the three ends of \<open>_execute\<close> are steps too.\<close>

lemma driving_ends:
  assumes drive: "driving_from st k x adm lost i start u" and ok: "oc_ok x" and k: "length adm \<le> k"
  shows "\<exists>v. execute_outcome i (driven i u) out now u = (Inr (), v) \<and> oc_reach st k x (v, adm, lost)"
    and "\<exists>v. execute_cancelled i start (driven i u) now later u = (Inr (), v) \<and> oc_reach st k x (v, adm, lost)"
    and "oc_reach st k x (snd (forget_task i u), adm, lost @ [i])"
proof -
  obtain n where reach: "oc_reach st k x (u, adm, lost)" and ph: "phase_of i u = Some (Driving start n)"
    using drive by (auto simp: driving_from_def)
  have n: "driven i u = n" by (simp add: driven_def ph)
  have oku: "oc_ok (u, adm, lost)" by (rule oc_reach_ok [OF reach ok])
  obtain v where v: "execute_outcome i n out now u = (Inr (), v)" using execute_outcome_run [OF oku ph] by blast
  have "oc_reach st k x (v, adm, lost)" by (rule oc_reach.step [OF reach oc_step.ended [OF ph v]]) (use k in simp)
  with v n show "\<exists>v. execute_outcome i (driven i u) out now u = (Inr (), v) \<and> oc_reach st k x (v, adm, lost)" by blast
  obtain v where v: "execute_cancelled i start n now later u = (Inr (), v)"
    using execute_cancelled_run [OF oku ph] by blast
  then have cancel: "cancel_run i now later u = (Inr True, v)" by (simp add: cancel_run_def ph op_simps)
  have "oc_reach st k x (v, adm, lost)"
    using oc_reach.step [OF reach oc_step.cancelled [OF cancel, of st adm lost]] k ph by simp
  with v n show "\<exists>v. execute_cancelled i start (driven i u) now later u = (Inr (), v) \<and> oc_reach st k x (v, adm, lost)"
    by blast
  obtain r v where v: "forget_task i u = (r, v)" by fastforce
  have "oc_reach st k x (v, adm, lost @ [i])"
    by (rule oc_reach.step [OF reach oc_step.raised [OF ph v]]) (use k in simp)
  with v show "oc_reach st k x (snd (forget_task i u), adm, lost @ [i])" by simp
qed

text \<open>
  C26. The real runner keeps to the life cycle: from any reachable state in which the task of a run
  has not started, driving the run with the adapter, whatever the child prints and however it
  ends, is a sequence of steps of the service's life cycle; the run is lost (its row is left
  without a terminal status) exactly when the adapter raises.
\<close>

theorem execute_refines:
  assumes "oc_ok (s, adm, lost)" and "phase_of i s = Some Unstarted" and "length adm \<le> k"
    and "execute c path w tm i q s = (e, t)"
  shows "oc_reach st k (s, adm, lost) (t, adm, if \<exists>x. e = Run_Raised x then lost @ [i] else lost)"
proof -
  obtain s1 where begun: "op_then (execute_begin i (tm_start tm)) (execute_running i (tm_start tm)) s = (Inr (), s1)"
    and drive: "driving_from st k (s, adm, lost) adm lost i (tm_start tm) s1"
    by (rule begun_and_running [OF assms(1,2,3)])
  obtain r signals u where run: "run_one c path w q (service_on_event i (tm_event tm)) s1 = ((r, signals), u)"
    by (metis surj_pair)
  have driven: "driving_from st k (s, adm, lost) adm lost i (tm_start tm) u"
    by (rule run_one_keeps [OF callback_keeps [OF assms(3)] drive run])
  note ends = driving_ends [OF driven assms(1,3)]
  have exec: "execute c path w tm i q s = (case r of
       Returned out \<Rightarrow> close_with i (Returned out) (execute_outcome i (driven i u) out (tm_end tm) u)
     | Run_Raised e \<Rightarrow> (Run_Raised e, snd (forget_task i u))
     | Cancelled_Out \<Rightarrow> close_with i Cancelled_Out (execute_cancelled i (tm_start tm) (driven i u) (tm_cancelled tm) (tm_end tm) u)
     | Pending \<Rightarrow> (Pending, u))"
    using begun run by (simp add: execute_def split: run_end.split)
  show ?thesis
  proof (cases r)
    case (Returned out)
    obtain v where v: "execute_outcome i (driven i u) out (tm_end tm) u = (Inr (), v)"
      "oc_reach st k (s, adm, lost) (v, adm, lost)" using ends(1) by blast
    then have "e = Returned out" "t = v" using assms(4) exec Returned by (simp_all add: close_with_def)
    then show ?thesis using v(2) by simp
  next
    case (Run_Raised x)
    then show ?thesis using assms(4) exec ends(3) by auto
  next
    case Cancelled_Out
    obtain v where v: "execute_cancelled i (tm_start tm) (driven i u) (tm_cancelled tm) (tm_end tm) u = (Inr (), v)"
      "oc_reach st k (s, adm, lost) (v, adm, lost)" using ends(2) by blast
    then have "e = Cancelled_Out" "t = v" using assms(4) exec Cancelled_Out by (simp_all add: close_with_def)
    then show ?thesis using v(2) by simp
  next
    case Pending
    then show ?thesis using assms(4) exec driven by (simp add: driving_from_def)
  qed
qed

text \<open>
  What a run leaves behind: when the adapter returns, the row of the run has the terminal
  status of the outcome, its times, as many events as the outcome counts, its skipped lines and
  its exit code where there is one; the trace has the start, one entry for each event and the
  outcome, in that order; the task is gone and the other rows are untouched.
\<close>

theorem executed_row:
  assumes "oc_ok (s, adm, lost)" and "phase_of i s = Some Unstarted" and "find_run i (oc_runs s) = Some row"
    and "execute c path w tm i q s = (Returned out, t)"
  shows "\<exists>r. find_run i (oc_runs t) = Some r
    \<and> ru_status r = terminal_of (ro_status out) \<and> ru_started_at r = Some (iso (tm_start tm))
    \<and> ru_completed_at r = Some (iso (tm_end tm)) \<and> ru_duration r = Some (ro_duration out)
    \<and> ru_event_count r = ro_events_emitted out \<and> ru_parse_error_count r = ro_events_skipped out
    \<and> ru_exit_code r = coalesce_null (ro_exit_code out) (ru_exit_code row)
    \<and> ru_error_detail r = coalesce (ro_error out) []
    \<and> oc_trace t = oc_trace s @ (Some i, Run_Started) # replicate (ro_events_emitted out) (Some i, Run_Event)
        @ [(Some i, Run_Outcome (terminal_of (ro_status out)))]
    \<and> phase_of i t = None \<and> (\<forall>j. j \<noteq> i \<longrightarrow> find_run j (oc_runs t) = find_run j (oc_runs s))"
proof -
  obtain s1 where begun: "op_then (execute_begin i (tm_start tm)) (execute_running i (tm_start tm)) s = (Inr (), s1)"
    and drive: "driving_from st (length adm) (s, adm, lost) adm lost i (tm_start tm) s1"
    and ph1: "phase_of i s1 = Some (Driving (tm_start tm) 0)"
    and rows1: "oc_runs s1 = update_where (\<lambda>q. ru_id q = i)
      (apply_changes Running (no_changes\<lparr>rc_started_at := Some (iso (tm_start tm))\<rparr>)) (oc_runs s)"
    and trace1: "oc_trace s1 = oc_trace s @ [(Some i, Run_Started)]"
    by (rule begun_and_running [OF assms(1,2) order_refl])
  obtain r signals u where run: "run_one c path w q (service_on_event i (tm_event tm)) s1 = ((r, signals), u)"
    by (metis surj_pair)
  have "driving_from st (length adm) (s, adm, lost) adm lost i (tm_start tm) u"
    by (rule run_one_keeps [OF callback_keeps [OF order_refl] drive run])
  then have oku: "oc_ok (u, adm, lost)" using oc_reach_ok assms(1) by (auto simp: driving_from_def)
  have r: "r = Returned out"
    using assms(4) begun run
    by (auto simp: execute_def close_with_def split: run_end.splits prod.splits sum.splits)
  obtain evs where evs: "foreach (service_on_event i (tm_event tm)) evs s1 = (Inr (), u)" "length evs = ro_events_emitted out"
    using returned_events [OF run [unfolded r]] by blast
  have u: "oc_runs u = oc_runs s1" "phase_of i u = Some (Driving (tm_start tm) (length evs))"
      "oc_trace u = oc_trace s1 @ replicate (length evs) (Some i, Run_Event)"
    using service_events [OF evs(1) ph1] by simp_all
  have n: "driven i u = length evs" by (simp add: driven_def u(2))
  have t: "t = ended_state i (terminal_of (ro_status out)) (outcome_changes (length evs) out (tm_end tm))
      (Run_Outcome (terminal_of (ro_status out))) u"
    using assms(4) begun run execute_outcome_run [OF oku u(2), of "driven i u" out "tm_end tm"]
    by (simp add: execute_def r n close_with_def)
  have "find_run i (oc_runs t) = Some (apply_changes (terminal_of (ro_status out)) (outcome_changes (length evs) out (tm_end tm))
      (apply_changes Running (no_changes\<lparr>rc_started_at := Some (iso (tm_start tm))\<rparr>) row))"
    using assms(3) by (simp add: t ended_state_fields u(1) rows1 find_run_update)
  moreover have "phase_of i t = None" by (simp add: t ended_state_fields)
  moreover have "find_run j (oc_runs t) = find_run j (oc_runs s)" if "j \<noteq> i" for j
    using that by (simp add: t ended_state_fields u(1) rows1 find_run_update option.map_id)
  moreover have "oc_trace t = oc_trace s @ (Some i, Run_Started) # replicate (ro_events_emitted out) (Some i, Run_Event)
        @ [(Some i, Run_Outcome (terminal_of (ro_status out)))]"
    by (simp add: t ended_state_def u(3) trace1 evs(2))
  ultimately show ?thesis
    by (simp add: apply_changes_def outcome_changes_def no_changes_def evs(2))
qed

section \<open>A run that succeeds\<close>

definition queued_state :: oc_service where
  "queued_state = \<lparr>oc_runs = [new_run ''a'' 0 ''go'' None None None None], oc_intake_paused = False,
     oc_tasks = [(''a'', Unstarted)], oc_last_event = [], oc_trace = []\<rparr>"

definition sample_times :: times where
  "sample_times = \<lparr>tm_start = 1, tm_event = (\<lambda>_. 2), tm_cancelled = 3, tm_end = 4\<rparr>"

lemma queued_state_ok: "oc_ok (queued_state, [], [])" "phase_of ''a'' queued_state = Some Unstarted"
    "find_run ''a'' (oc_runs queued_state) = Some (new_run ''a'' 0 ''go'' None None None None)"
  by (auto simp: oc_ok_def queued_state_def table_ok_def tasks_ok_def unique_by_def phase_of_def find_run_def new_run_def
    terminal_status_def phase_status_def task_ids_def active_ids_def active_status_def dom_def split: if_splits)

lemma sample_execute:
  obtains out t where "execute default_opencode path (sample_run 0) sample_times ''a'' q queued_state = (Returned out, t)"
    and "ro_status out = Opencode_Service.Completed" and "ro_events_emitted out = 1"
proof -
  let ?cb = "service_on_event ''a'' (tm_event sample_times)"
  obtain s1 where begun: "op_then (execute_begin ''a'' (tm_start sample_times)) (execute_running ''a'' (tm_start sample_times))
        queued_state = (Inr (), s1)"
    and drive: "driving_from tiny 0 (queued_state, [], []) [] [] ''a'' (tm_start sample_times) s1"
    and ph: "phase_of ''a'' s1 = Some (Driving (tm_start sample_times) 0)"
    by (rule begun_and_running [OF queued_state_ok(1,2), of 0 "tm_start sample_times" tiny]) simp
  obtain u where "?cb \<lparr>re_type = OTHER, re_raw_type = truncate_utf8 [] 65536, re_payload = truncate_utf8 ''{}'' 65536,
      re_sequence = 0\<rparr> s1 = (Inr (), u)" using service_event [OF ph] by blast
  from sample_run_one [where on_event = ?cb and code = 0 and path = path and q = q, OF this] obtain out where
    run: "run_one default_opencode path (sample_run 0) q ?cb s1 = ((Returned out, []), u)"
    and out: "ro_status out = Opencode_Service.Completed" "ro_events_emitted out = 1" by simp
  have "driving_from tiny 0 (queued_state, [], []) [] [] ''a'' (tm_start sample_times) u"
    by (rule run_one_keeps [OF callback_keeps drive run]) simp
  from driving_ends(1) [OF this queued_state_ok(1)] obtain v where
    "execute_outcome ''a'' (driven ''a'' u) out (tm_end sample_times) u = (Inr (), v)" by auto
  with begun run have "execute default_opencode path (sample_run 0) sample_times ''a'' q queued_state = (Returned out, v)"
    by (simp add: execute_def close_with_def)
  with out that show ?thesis by blast
qed

lemma execute_refines_witness:
  "\<exists>t. oc_reach tiny 0 (queued_state, [], []) (t, [], [])
     \<and> snd (execute default_opencode ''opencode'' (sample_run 0) sample_times ''a'' sample_request queued_state) = t"
proof -
  obtain out t where run: "execute default_opencode ''opencode'' (sample_run 0) sample_times ''a'' sample_request queued_state
      = (Returned out, t)" by (rule sample_execute)
  have "length ([] :: admissions) \<le> 0" by simp
  from execute_refines [OF queued_state_ok(1,2) this run, of tiny] run show ?thesis by simp
qed

lemma executed_row_witness:
  "\<exists>r. find_run ''a'' (oc_runs (snd (execute default_opencode ''opencode'' (sample_run 0) sample_times ''a'' sample_request
      queued_state))) = Some r \<and> ru_status r = Succeeded \<and> ru_event_count r = 1"
proof -
  obtain out t where run: "execute default_opencode ''opencode'' (sample_run 0) sample_times ''a'' sample_request queued_state
      = (Returned out, t)" "ro_status out = Opencode_Service.Completed" "ro_events_emitted out = 1" by (rule sample_execute)
  from executed_row [OF queued_state_ok run(1)] run show ?thesis by auto
qed

end
