(* ===== verification/Telemetry.thy ===== *)
theory Telemetry
  imports Opencode_Runner Tick_Loop
begin

text \<open>
  The local telemetry: the rotating writer with its three budgets (\<open>telemetry/rotation.py\<close>), the
  sink of the executor's events with its sequence numbers (\<open>opencode/telemetry.py\<close>), the log
  mirror (\<open>telemetry/log_mirror.py\<close>) and the sample (\<open>telemetry/sampler.py\<close>). The spool directory
  is the list of its files, in the order the file system gives them; calls of the file system
  succeed, and the modification time of a file is the time of its last write.
\<close>

section \<open>The spool\<close>

record spool_file =
  sf_name :: string
  sf_lines :: "string list"
  sf_mtime :: rat

record spool_config =
  sc_prefix :: string
  sc_max_file_bytes :: nat
  sc_max_spool_bytes :: nat
  sc_retention_hours :: rat

definition line_bytes :: "string \<Rightarrow> nat" where
  "line_bytes l = length (utf8_bytes l) + 1"

definition file_size :: "spool_file \<Rightarrow> nat" where
  "file_size f = sum_list (map line_bytes (sf_lines f))"

definition active_name :: "string \<Rightarrow> string" where
  "active_name prefix = prefix @ ''.jsonl''"

text \<open>The glob \<open>prefix*.jsonl\<close>.\<close>

definition in_family :: "string \<Rightarrow> spool_file \<Rightarrow> bool" where
  "in_family prefix f \<longleftrightarrow> length prefix + 6 \<le> length (sf_name f)
     \<and> starts_with (sf_name f) prefix \<and> ends_with (sf_name f) ''.jsonl''"

definition rotation_suffix :: "rat \<Rightarrow> string" where
  "rotation_suffix now = zfill 13 (decimal (nat \<lfloor>now * 1000\<rfloor>))"

text \<open>The names \<open>_rotate\<close> tries: the clock is read again for each.\<close>

definition target_name :: "string \<Rightarrow> (nat \<Rightarrow> rat) \<Rightarrow> nat \<Rightarrow> string" where
  "target_name prefix clock counter = prefix @ ''-'' @ rotation_suffix (clock counter)
     @ (if counter = 0 then [] else ''-'' @ decimal counter) @ ''.jsonl''"

fun free_target :: "string \<Rightarrow> (nat \<Rightarrow> rat) \<Rightarrow> string list \<Rightarrow> nat \<Rightarrow> nat \<Rightarrow> string option" where
  "free_target prefix clock names 0 counter = None"
| "free_target prefix clock names (Suc fuel) counter =
     (let target = target_name prefix clock counter in
      if target \<in> set names then free_target prefix clock names fuel (counter + 1) else Some target)"

text \<open>One of as many names as there are files, and one more, is free: that much fuel is enough.\<close>

definition rotate_file :: "spool_config \<Rightarrow> (nat \<Rightarrow> rat) \<Rightarrow> spool_file list \<Rightarrow> spool_file list option" where
  "rotate_file sc clock files =
     (let names = map sf_name files; active = active_name (sc_prefix sc) in
      map_option (\<lambda>target. update_where (\<lambda>f. sf_name f = active) (\<lambda>f. f\<lparr>sf_name := target\<rparr>) files)
        (free_target (sc_prefix sc) clock names (length names + 1) 0))"

text \<open>\<open>open("a")\<close> and one line.\<close>

definition append_line :: "string \<Rightarrow> string \<Rightarrow> rat \<Rightarrow> spool_file list \<Rightarrow> spool_file list" where
  "append_line name line now files =
     (if name \<in> sf_name ` set files
      then update_where (\<lambda>f. sf_name f = name) (\<lambda>f. f\<lparr>sf_lines := sf_lines f @ [line], sf_mtime := now\<rparr>) files
      else files @ [\<lparr>sf_name = name, sf_lines = [line], sf_mtime = now\<rparr>])"

text \<open>The second sweep, oldest first: the names it deletes.\<close>

fun drop_over :: "nat \<Rightarrow> string \<Rightarrow> nat \<Rightarrow> spool_file list \<Rightarrow> string list" where
  "drop_over cap active used [] = []"
| "drop_over cap active used (f # fs) =
     (if used \<le> cap then []
      else if sf_name f = active then drop_over cap active used fs
      else sf_name f # drop_over cap active (used - file_size f) fs)"

definition expired :: "spool_config \<Rightarrow> rat \<Rightarrow> spool_file \<Rightarrow> bool" where
  "expired sc now f \<longleftrightarrow> in_family (sc_prefix sc) f \<and> sf_name f \<noteq> active_name (sc_prefix sc)
     \<and> sf_mtime f < now - sc_retention_hours sc * 3600"

definition enforce_budget :: "spool_config \<Rightarrow> rat \<Rightarrow> spool_file list \<Rightarrow> spool_file list" where
  "enforce_budget sc now files =
     (let left = filter (\<lambda>f. \<not> expired sc now f) files;
          survivors = sort_key sf_mtime (filter (in_family (sc_prefix sc)) left);
          used = sum_list (map file_size survivors);
          gone = drop_over (sc_max_spool_bytes sc) (active_name (sc_prefix sc)) used survivors
      in filter (\<lambda>f. sf_name f \<notin> set gone) left)"

definition active_full :: "spool_config \<Rightarrow> spool_file list \<Rightarrow> bool" where
  "active_full sc files \<longleftrightarrow>
     (\<exists>f \<in> set files. sf_name f = active_name (sc_prefix sc) \<and> file_size f \<ge> sc_max_file_bytes sc)"

definition write_line ::
  "spool_config \<Rightarrow> (nat \<Rightarrow> rat) \<Rightarrow> rat \<Rightarrow> string \<Rightarrow> spool_file list \<Rightarrow> spool_file list option" where
  "write_line sc clock now line files =
     map_option (\<lambda>fs. enforce_budget sc now (append_line (active_name (sc_prefix sc)) line now fs))
       (if active_full sc files then rotate_file sc clock files else Some files)"

section \<open>A rotation always finds a name\<close>

definition undecimal :: "string \<Rightarrow> nat" where
  "undecimal s = foldl (\<lambda>a c. a * 10 + (of_char c - 48)) 0 s"

lemma undecimal_decimal: "undecimal (decimal n) = n"
proof (induction n rule: decimal.induct)
  case (1 n)
  have digit: "(of_char (digit k) :: nat) - 48 = k" if "k < 10" for k
    using that by (simp add: digit_def)
  show ?case
  proof (cases "n < 10")
    case True
    then show ?thesis by (subst decimal.simps) (simp add: undecimal_def digit)
  next
    case False
    then have "undecimal (decimal (n div 10)) = n div 10" using 1 by simp
    with False show ?thesis by (subst decimal.simps) (simp add: undecimal_def digit)
  qed
qed

lemma no_dash: "CHR ''-'' \<notin> set (decimal n)" "CHR ''-'' \<notin> set (rotation_suffix now)"
proof -
  have "\<not> is_digit CHR ''-''" by (simp add: is_digit_def)
  then show "CHR ''-'' \<notin> set (decimal n)" for n using decimal_digits [of n] by (auto simp: list_all_iff)
  then show "CHR ''-'' \<notin> set (rotation_suffix now)" by (auto simp: rotation_suffix_def zfill_def)
qed

lemma target_name_inj:
  assumes "target_name prefix clock i = target_name prefix clock j"
  shows "i = j"
proof -
  let ?tail = "\<lambda>c. rotation_suffix (clock c) @ (if c = 0 then [] else CHR ''-'' # decimal c)"
  have "?tail i = ?tail j" using assms by (simp add: target_name_def split: if_splits)
  then have "split_on CHR ''-'' (?tail i) = split_on CHR ''-'' (?tail j)" by simp
  moreover have "split_on CHR ''-'' (?tail c) = rotation_suffix (clock c) # (if c = 0 then [] else [decimal c])" for c
    using no_dash by (simp add: split_on_word split_on_append_sep)
  ultimately have "(if i = 0 then [] else [decimal i]) = (if j = 0 then [] else [decimal j])" by simp
  then have "i = 0 \<and> j = 0 \<or> decimal i = decimal j" by (simp split: if_splits)
  then show ?thesis using undecimal_decimal by metis
qed

lemma free_target_None:
  "free_target prefix clock names fuel c = None \<Longrightarrow> target_name prefix clock ` {c ..< c + fuel} \<subseteq> set names"
proof (induction fuel arbitrary: c)
  case (Suc fuel)
  then have "target_name prefix clock c \<in> set names" "free_target prefix clock names fuel (c + 1) = None"
    by (auto simp: Let_def split: if_splits)
  moreover have "{c ..< c + Suc fuel} = insert c {c + 1 ..< (c + 1) + fuel}" by auto
  ultimately show ?case using Suc.IH [of "c + 1"] by simp
qed simp

lemma free_target_Some: "free_target prefix clock names fuel c = Some t \<Longrightarrow> t \<notin> set names \<and> (\<exists>k. t = target_name prefix clock k)"
  by (induction fuel arbitrary: c) (auto simp: Let_def split: if_splits)

lemma rotation_finds_name: "free_target prefix clock names (length names + 1) 0 \<noteq> None"
proof
  assume "free_target prefix clock names (length names + 1) 0 = None"
  then have sub: "target_name prefix clock ` {0 ..< length names + 1} \<subseteq> set names"
    using free_target_None [of prefix clock names "length names + 1" 0] by (simp only: add_0)
  have "card (target_name prefix clock ` {0 ..< length names + 1}) = length names + 1"
    by (subst card_image) (auto intro: inj_onI target_name_inj)
  moreover have "card (target_name prefix clock ` {0 ..< length names + 1}) \<le> card (set names)"
    using sub by (intro card_mono) auto
  ultimately show False using card_length [of names] by linarith
qed

section \<open>What a write leaves\<close>

lemma active_in_family: "sf_name f = active_name p \<Longrightarrow> in_family p f"
  by (simp add: in_family_def active_name_def starts_with_def ends_with_def)

lemma target_in_family: "sf_name f = target_name p clock k \<Longrightarrow> in_family p f"
  by (simp add: in_family_def target_name_def starts_with_def ends_with_def)

definition in_all :: "spool_file list \<Rightarrow> nat" where
  "in_all fs = sum_list (map file_size fs)"

lemma drop_over_names: "n \<in> set (drop_over cap a u fs) \<Longrightarrow> n \<in> sf_name ` set fs \<and> n \<noteq> a"
  by (induction cap a u fs rule: drop_over.induct) (auto split: if_splits)

text \<open>After the sweep the family fits, or only the active file is left of it.\<close>

lemma drop_over_fits:
  assumes "distinct (map sf_name fs)"
  shows "extra + in_all (filter (\<lambda>f. sf_name f \<notin> set (drop_over cap a (extra + in_all fs) fs)) fs) \<le> cap
    \<or> (\<forall>f \<in> set fs. sf_name f \<noteq> a \<longrightarrow> sf_name f \<in> set (drop_over cap a (extra + in_all fs) fs))"
  using assms
proof (induction fs arbitrary: extra)
  case Nil
  then show ?case by simp
next
  case (Cons f fs)
  let ?u = "extra + in_all (f # fs)"
  have fresh: "sf_name f \<notin> set (drop_over cap a v fs)" for v
    using drop_over_names Cons.prems by fastforce
  have dist: "distinct (map sf_name fs)" using Cons.prems by simp
  consider "?u \<le> cap" | "?u > cap" "sf_name f = a" | "?u > cap" "sf_name f \<noteq> a" by linarith
  then show ?case
  proof cases
    case 1
    then show ?thesis by simp
  next
    case 2
    have "?u = (extra + file_size f) + in_all fs" by (simp add: in_all_def)
    then have "drop_over cap a ?u (f # fs) = drop_over cap a ((extra + file_size f) + in_all fs) fs" using 2 by (simp add: add.assoc)
    then show ?thesis using Cons.IH [OF dist, of "extra + file_size f"] fresh 2(2) by (auto simp: in_all_def add.assoc)
  next
    case 3
    have "drop_over cap a ?u (f # fs) = sf_name f # drop_over cap a (extra + in_all fs) fs"
      using 3 by (simp add: in_all_def)
    moreover have "filter (\<lambda>g. sf_name g \<notin> set (sf_name f # D)) fs = filter (\<lambda>g. sf_name g \<notin> set D) fs" for D
      using Cons.prems by (intro filter_cong) (auto simp: image_iff)
    ultimately show ?thesis using Cons.IH [OF dist, of extra] by auto
  qed
qed

text \<open>The sweep takes the oldest first.\<close>

lemma drop_over_oldest:
  assumes "distinct (map sf_name fs)" and "sorted (map sf_mtime fs)"
    and "f \<in> set fs" "sf_name f \<in> set (drop_over cap a u fs)"
    and "g \<in> set fs" "sf_name g \<notin> set (drop_over cap a u fs)" "sf_name g \<noteq> a"
  shows "sf_mtime f \<le> sf_mtime g"
  using assms
proof (induction cap a u fs rule: drop_over.induct)
  case (2 cap a u h fs)
  show ?case
  proof (cases "u \<le> cap")
    case True
    then show ?thesis using "2.prems"(4) by simp
  next
    case over: False
    show ?thesis
    proof (cases "sf_name h = a")
      case True
      then have "f \<in> set fs" "g \<in> set fs"
        using "2.prems" over drop_over_names [of "sf_name f" cap a u fs] by auto
      then show ?thesis using "2.IH"(1) over True "2.prems" by simp
    next
      case False
      then have "g \<in> set fs" using "2.prems" over by auto
      show ?thesis
      proof (cases "f = h")
        case True
        then show ?thesis using "2.prems"(2) \<open>g \<in> set fs\<close> by simp
      next
        case other: False
        then have "f \<in> set fs" using "2.prems"(3) by simp
        moreover have "sf_name f \<noteq> sf_name h" using calculation "2.prems"(1) by (auto simp: image_iff)
        ultimately show ?thesis using "2.IH"(2) over False "2.prems" \<open>g \<in> set fs\<close> by simp
      qed
    qed
  qed
qed simp

lemma enforce_budget_spool:
  fixes sc :: spool_config and now :: rat
  assumes "distinct (map sf_name files)"
  defines "kept \<equiv> enforce_budget sc now files" and "fam \<equiv> in_family (sc_prefix sc)" and "active \<equiv> active_name (sc_prefix sc)"
  shows "set kept \<subseteq> set files" and "distinct (map sf_name kept)"
    and "in_all (filter fam kept) \<le> sc_max_spool_bytes sc \<or> (\<forall>f \<in> set kept. fam f \<longrightarrow> sf_name f = active)"
    and "\<forall>f \<in> set kept. fam f \<and> sf_name f \<noteq> active \<longrightarrow> sf_mtime f \<ge> now - sc_retention_hours sc * 3600"
    and "filter (\<lambda>f. \<not> fam f) kept = filter (\<lambda>f. \<not> fam f) files"
    and "\<forall>f \<in> set files. sf_name f = active \<longrightarrow> f \<in> set kept"
    and "\<forall>f \<in> set files. \<forall>g \<in> set kept. fam f \<and> f \<notin> set kept \<and> fam g \<and> sf_name g \<noteq> active \<longrightarrow> sf_mtime f \<le> sf_mtime g"
proof -
  define live where "live = filter (\<lambda>f. \<not> expired sc now f) files"
  define survivors where "survivors = sort_key sf_mtime (filter fam live)"
  define gone where "gone = drop_over (sc_max_spool_bytes sc) active (in_all survivors) survivors"
  have kept: "kept = filter (\<lambda>f. sf_name f \<notin> set gone) live"
    by (simp add: kept_def enforce_budget_def Let_def live_def survivors_def gone_def in_all_def fam_def active_def)
  have dist: "distinct (map sf_name live)" using assms(1) by (simp add: live_def distinct_map_filter)
  then have dsurv: "distinct (map sf_name survivors)"
    unfolding survivors_def by (metis distinct_map_filter distinct_map distinct_sort set_sort)
  have surv: "set survivors = {f \<in> set live. fam f}" by (simp add: survivors_def)
  have gone_fam: "n \<in> sf_name ` {f \<in> set live. fam f} \<and> n \<noteq> active" if "n \<in> set gone" for n
    using drop_over_names [OF that [unfolded gone_def]] surv by simp
  have same: "f = g" if "f \<in> set live" "g \<in> set live" "sf_name f = sf_name g" for f g
    using that dist by (auto simp: distinct_map inj_on_def)
  show "set kept \<subseteq> set files" by (auto simp: kept live_def)
  show "distinct (map sf_name kept)" using dist by (simp add: kept distinct_map_filter)
  have sum: "in_all (filter fam kept) = in_all (filter (\<lambda>f. sf_name f \<notin> set gone) survivors)"
  proof -
    have "distinct (filter fam kept)" "distinct (filter (\<lambda>f. sf_name f \<notin> set gone) survivors)"
      using dist dsurv by (auto simp: kept distinct_map)
    moreover have "set (filter fam kept) = set (filter (\<lambda>f. sf_name f \<notin> set gone) survivors)"
      using surv by (auto simp: kept)
    ultimately show ?thesis unfolding in_all_def by (metis sum_list_distinct_conv_sum_set)
  qed
  have fits: "in_all (filter (\<lambda>f. sf_name f \<notin> set gone) survivors) \<le> sc_max_spool_bytes sc
      \<or> (\<forall>f \<in> set survivors. sf_name f \<noteq> active \<longrightarrow> sf_name f \<in> set gone)"
    using drop_over_fits [OF dsurv, of 0 "sc_max_spool_bytes sc" active] by (simp add: gone_def)
  show "in_all (filter fam kept) \<le> sc_max_spool_bytes sc \<or> (\<forall>f \<in> set kept. fam f \<longrightarrow> sf_name f = active)"
    using fits unfolding sum by (auto simp: surv kept)
  show "\<forall>f \<in> set kept. fam f \<and> sf_name f \<noteq> active \<longrightarrow> sf_mtime f \<ge> now - sc_retention_hours sc * 3600"
    by (auto simp: kept live_def expired_def fam_def active_def)
  show "filter (\<lambda>f. \<not> fam f) kept = filter (\<lambda>f. \<not> fam f) files"
  proof -
    have "sf_name f \<notin> set gone \<and> \<not> expired sc now f" if "f \<in> set files" "\<not> fam f" for f
    proof -
      have "\<not> expired sc now f" using that(2) by (simp add: expired_def fam_def)
      then have "f \<in> set live" using that(1) by (simp add: live_def)
      with same gone_fam that(2) show ?thesis using \<open>\<not> expired sc now f\<close> by blast
    qed
    then show ?thesis by (auto simp: kept live_def intro!: filter_cong)
  qed
  show "\<forall>f \<in> set files. sf_name f = active \<longrightarrow> f \<in> set kept"
    using gone_fam by (auto simp: kept live_def expired_def active_def)
  show "\<forall>f \<in> set files. \<forall>g \<in> set kept. fam f \<and> f \<notin> set kept \<and> fam g \<and> sf_name g \<noteq> active \<longrightarrow> sf_mtime f \<le> sf_mtime g"
  proof (intro ballI impI)
    fix f g
    assume f: "f \<in> set files" and g: "g \<in> set kept"
      and fg: "fam f \<and> f \<notin> set kept \<and> fam g \<and> sf_name g \<noteq> active"
    show "sf_mtime f \<le> sf_mtime g"
    proof (cases "expired sc now f")
      case True
      then show ?thesis using g fg by (auto simp: kept live_def expired_def fam_def active_def)
    next
      case False
      have "sorted (map sf_mtime survivors)" by (simp add: survivors_def)
      moreover have "f \<in> set survivors" "sf_name f \<in> set gone" using False f fg by (auto simp: surv live_def kept)
      moreover have "g \<in> set survivors" "sf_name g \<notin> set gone" using g fg by (auto simp: surv kept)
      ultimately show ?thesis using drop_over_oldest [OF dsurv] fg unfolding gone_def by blast
    qed
  qed
qed

text \<open>Rotation renames the active file to a name nobody has; the rest stays.\<close>

lemma rotate_file_spool:
  assumes "distinct (map sf_name files)"
  obtains target fs where "rotate_file sc clock files = Some fs" and "target \<notin> sf_name ` set files"
    and "fs = update_where (\<lambda>f. sf_name f = active_name (sc_prefix sc)) (\<lambda>f. f\<lparr>sf_name := target\<rparr>) files"
    and "distinct (map sf_name fs)" and "\<And>f. sf_name f = target \<Longrightarrow> in_family (sc_prefix sc) f"
    and "active_name (sc_prefix sc) \<notin> sf_name ` set fs"
proof -
  let ?a = "active_name (sc_prefix sc)"
  obtain target where t: "free_target (sc_prefix sc) clock (map sf_name files) (length (map sf_name files) + 1) 0 = Some target"
    using rotation_finds_name by blast
  obtain k where fresh: "target \<notin> sf_name ` set files" and k: "target = target_name (sc_prefix sc) clock k"
    using free_target_Some [OF t] by auto
  let ?fs = "update_where (\<lambda>f. sf_name f = ?a) (\<lambda>f. f\<lparr>sf_name := target\<rparr>) files"
  have "map sf_name ?fs = map (\<lambda>n. if n = ?a then target else n) (map sf_name files)"
    by (simp add: update_where_def)
  moreover have "distinct \<dots>"
    using assms fresh by (auto simp: distinct_map inj_on_def)
  ultimately have dist: "distinct (map sf_name ?fs)" by simp
  have ta: "target \<noteq> ?a"
  proof
    assume "target = ?a"
    then have "length target = length (sc_prefix sc) + 6" by (simp add: active_name_def)
    then show False unfolding k by (simp add: target_name_def)
  qed
  show ?thesis
  proof (rule that [OF _ fresh refl dist])
    show "rotate_file sc clock files = Some ?fs" using t by (simp only: rotate_file_def Let_def option.map)
    show "in_family (sc_prefix sc) f" if "sf_name f = target" for f
      using target_in_family that k by simp
    show "?a \<notin> sf_name ` set ?fs" using ta by (auto simp: update_where_def)
  qed
qed

lemma append_line_spool:
  assumes "distinct (map sf_name files)"
  shows "distinct (map sf_name (append_line name line now files))"
    and "\<forall>f \<in> set (append_line name line now files). sf_name f \<noteq> name \<longrightarrow> f \<in> set files"
    and "\<forall>f \<in> set files. sf_name f \<noteq> name \<longrightarrow> f \<in> set (append_line name line now files)"
    and "\<exists>f \<in> set (append_line name line now files). sf_name f = name \<and> (\<exists>ls. sf_lines f = ls @ [line]
      \<and> (ls = [] \<or> (\<exists>g \<in> set files. sf_name g = name \<and> sf_lines g = ls)))"
    and "(\<And>f. sf_name f = name \<Longrightarrow> \<not> keep f) \<Longrightarrow> filter keep (append_line name line now files) = filter keep files"
proof -
  let ?g = "\<lambda>f. f\<lparr>sf_lines := sf_lines f @ [line], sf_mtime := now\<rparr>"
  have upd: "map sf_name (update_where (\<lambda>f. sf_name f = name) ?g files) = map sf_name files"
    by (simp add: update_where_def)
  show "distinct (map sf_name (append_line name line now files))"
    using assms upd by (simp add: append_line_def)
  show "\<forall>f \<in> set (append_line name line now files). sf_name f \<noteq> name \<longrightarrow> f \<in> set files"
    by (auto simp: append_line_def update_where_def split: if_splits)
  show "\<forall>f \<in> set files. sf_name f \<noteq> name \<longrightarrow> f \<in> set (append_line name line now files)"
    by (force simp: append_line_def update_where_def)
  show "\<exists>f \<in> set (append_line name line now files). sf_name f = name \<and> (\<exists>ls. sf_lines f = ls @ [line]
      \<and> (ls = [] \<or> (\<exists>g \<in> set files. sf_name g = name \<and> sf_lines g = ls)))"
  proof (cases "name \<in> sf_name ` set files")
    case True
    then obtain g where g: "g \<in> set files" "sf_name g = name" by auto
    then have "?g g \<in> set (append_line name line now files)" using True by (force simp: append_line_def update_where_def)
    then show ?thesis using g by (intro bexI [of _ "?g g"]) auto
  next
    case False
    then show ?thesis by (simp add: append_line_def)
  qed
  show "filter keep (append_line name line now files) = filter keep files" if "\<And>f. sf_name f = name \<Longrightarrow> \<not> keep f"
  proof (cases "name \<in> sf_name ` set files")
    case True
    have "filter keep (update_where (\<lambda>f. sf_name f = name) ?g files) = filter keep files"
      using that by (induction files) (auto simp: update_where_def)
    then show ?thesis using True by (simp add: append_line_def)
  qed (simp add: append_line_def that)
qed

text \<open>
  C33. The three budgets of a spool: a write always succeeds in finding its rotation name; afterwards
  the files of the family fit the cap or only the active one is left, no closed file is older
  than the retention, what was swept for space is no newer than what stayed, the active file ends
  with the line and is at most one line over the size at which it rotates; no closed file was
  rewritten, no name is used twice, and the files of other families are untouched.
\<close>

theorem write_line_budget:
  fixes sc :: spool_config
  defines "fam \<equiv> in_family (sc_prefix sc)" and "active \<equiv> active_name (sc_prefix sc)"
  assumes names: "distinct (map sf_name files)" and "sc_max_file_bytes sc > 0"
  shows "\<exists>files'. write_line sc clock now line files = Some files' \<and> distinct (map sf_name files')
    \<and> (in_all (filter fam files') \<le> sc_max_spool_bytes sc \<or> (\<forall>f \<in> set files'. fam f \<longrightarrow> sf_name f = active))
    \<and> (\<forall>f \<in> set files'. fam f \<and> sf_name f \<noteq> active \<longrightarrow> sf_mtime f \<ge> now - sc_retention_hours sc * 3600)
    \<and> (\<exists>f \<in> set files'. sf_name f = active \<and> last (sf_lines f) = line
         \<and> file_size f < sc_max_file_bytes sc + line_bytes line)
    \<and> (\<forall>f \<in> set files'. sf_name f \<noteq> active \<longrightarrow> f \<in> set files \<or> (\<exists>g \<in> set files. sf_name g = active \<and> f = g\<lparr>sf_name := sf_name f\<rparr>))
    \<and> (\<forall>f \<in> set files. \<forall>g \<in> set files'. fam f \<and> sf_name f \<noteq> active \<and> f \<notin> set files' \<and> fam g \<and> sf_name g \<noteq> active
         \<longrightarrow> sf_mtime f \<le> sf_mtime g)
    \<and> filter (\<lambda>f. \<not> fam f) files' = filter (\<lambda>f. \<not> fam f) files"
proof -
  obtain fs where fs: "(if active_full sc files then rotate_file sc clock files else Some files) = Some fs"
      "distinct (map sf_name fs)" "filter (\<lambda>f. \<not> fam f) fs = filter (\<lambda>f. \<not> fam f) files"
      "\<forall>f \<in> set fs. sf_name f = active \<longrightarrow> file_size f < sc_max_file_bytes sc"
      "\<forall>f \<in> set fs. sf_name f \<noteq> active \<longrightarrow> f \<in> set files \<or> (\<exists>g \<in> set files. sf_name g = active \<and> f = g\<lparr>sf_name := sf_name f\<rparr>)"
      "\<forall>f \<in> set files. sf_name f \<noteq> active \<longrightarrow> f \<in> set fs"
  proof (cases "active_full sc files")
    case False
    then have "\<forall>f \<in> set files. sf_name f = active \<longrightarrow> file_size f < sc_max_file_bytes sc"
      by (auto simp: active_full_def active_def)
    with False names show ?thesis by (intro that [of files]) simp_all
  next
    case True
    obtain target fs where r: "rotate_file sc clock files = Some fs" "target \<notin> sf_name ` set files"
      "fs = update_where (\<lambda>f. sf_name f = active_name (sc_prefix sc)) (\<lambda>f. f\<lparr>sf_name := target\<rparr>) files"
      "distinct (map sf_name fs)" "\<And>f. sf_name f = target \<Longrightarrow> in_family (sc_prefix sc) f"
      "active_name (sc_prefix sc) \<notin> sf_name ` set fs" by (rule rotate_file_spool [OF names, where sc = sc and clock = clock]) (rule that, assumption+)
    have "filter (\<lambda>f. \<not> fam f) fs = filter (\<lambda>f. \<not> fam f) files"
      unfolding r(3) using r(5) active_in_family by (induction files) (auto simp: update_where_def fam_def)
    moreover have "\<forall>f \<in> set fs. sf_name f \<noteq> active \<longrightarrow> f \<in> set files \<or> (\<exists>g \<in> set files. sf_name g = active \<and> f = g\<lparr>sf_name := sf_name f\<rparr>)"
      unfolding r(3) by (auto simp: update_where_def active_def)
    moreover have "\<forall>f \<in> set fs. sf_name f = active \<longrightarrow> file_size f < sc_max_file_bytes sc"
      using r(6) by (force simp: active_def)
    moreover have "\<forall>f \<in> set files. sf_name f \<noteq> active \<longrightarrow> f \<in> set fs"
      unfolding r(3) by (auto simp: update_where_def active_def)
    ultimately show ?thesis using that [of fs] True r(1,4) by simp
  qed
  define added where "added = append_line active line now fs"
  note app = append_line_spool [OF fs(2), where name = active and line = line and now = now, folded added_def]
  have inact: "\<not> \<not> fam f" if "sf_name f = active" for f using active_in_family that by (simp add: fam_def active_def)
  note kept = enforce_budget_spool [OF app(1), of sc now, folded fam_def active_def]
  obtain f ls where f: "f \<in> set added" "sf_name f = active" "sf_lines f = ls @ [line]"
      "ls = [] \<or> (\<exists>g \<in> set fs. sf_name g = active \<and> sf_lines g = ls)" using app(4) by blast
  have "sum_list (map line_bytes ls) < sc_max_file_bytes sc"
    using f(4) fs(4) assms(4) by (auto simp: file_size_def)
  then have size: "file_size f < sc_max_file_bytes sc + line_bytes line" using f(3) by (simp add: file_size_def)
  show ?thesis
  proof (intro exI conjI)
    show "write_line sc clock now line files = Some (enforce_budget sc now added)"
      using fs(1) by (simp add: write_line_def added_def active_def)
    show "\<exists>f \<in> set (enforce_budget sc now added). sf_name f = active \<and> last (sf_lines f) = line
         \<and> file_size f < sc_max_file_bytes sc + line_bytes line"
      using f size kept(6) by auto
    show "\<forall>f \<in> set (enforce_budget sc now added). sf_name f \<noteq> active \<longrightarrow>
        f \<in> set files \<or> (\<exists>g \<in> set files. sf_name g = active \<and> f = g\<lparr>sf_name := sf_name f\<rparr>)"
      using kept(1) app(2) fs(5) by blast
    show "filter (\<lambda>f. \<not> fam f) (enforce_budget sc now added) = filter (\<lambda>f. \<not> fam f) files"
      using kept(5) app(5) [OF inact] fs(3) by simp
    show "\<forall>f \<in> set files. \<forall>g \<in> set (enforce_budget sc now added). fam f \<and> sf_name f \<noteq> active
        \<and> f \<notin> set (enforce_budget sc now added) \<and> fam g \<and> sf_name g \<noteq> active \<longrightarrow> sf_mtime f \<le> sf_mtime g"
      using kept(7) app(3) fs(6) by blast
  qed (use kept in simp_all)
qed

definition sample_spool :: spool_config where
  "sample_spool = \<lparr>sc_prefix = ''log'', sc_max_file_bytes = 4, sc_max_spool_bytes = 8, sc_retention_hours = 1\<rparr>"

lemma write_line_budget_witness:
  "\<exists>files'. write_line sample_spool (\<lambda>_. 5) 5 ''new'' [\<lparr>sf_name = ''log.jsonl'', sf_lines = [''old!''], sf_mtime = 4\<rparr>]
       = Some files'
     \<and> (\<exists>f \<in> set files'. sf_name f = active_name ''log'' \<and> last (sf_lines f) = ''new'')"
  using write_line_budget [of "[\<lparr>sf_name = ''log.jsonl'', sf_lines = [''old!''], sf_mtime = 4\<rparr>]" sample_spool
      "\<lambda>_. 5" 5 "''new''"]
  by (auto simp: sample_spool_def)

section \<open>The executor's events\<close>

text \<open>
  One line before it is serialised; its fields are what \<open>record_*\<close> adds. The counters give each
  line of a run its number; a terminal event gives its number up.
\<close>

definition known_event_fields :: "string list" where
  "known_event_fields = [''tool'', ''command'', ''path'', ''permission'', ''pattern'', ''decision'', ''prompt_tokens'',
     ''completion_tokens'', ''cost'']"

definition terminal_events :: "string list" where
  "terminal_events = [''completed'', ''failed'', ''timeout'', ''cancelled'']"

record sink =
  sk_seq :: "(string \<times> nat) list"
  sk_lines :: "string list"

record sink_tools =
  st_dumps :: "(string \<times> json) list \<Rightarrow> string"
  st_loads :: "string \<Rightarrow> json option"
  st_redact :: "string \<Rightarrow> string"
  st_max_line_bytes :: nat

definition extract_known_fields :: "sink_tools \<Rightarrow> string \<Rightarrow> (string \<times> json) list" where
  "extract_known_fields tools payload = (case st_loads tools payload of
     Some (JDict kvs) \<Rightarrow> concat (map (\<lambda>key. case map_of kvs key of None \<Rightarrow> [] | Some v \<Rightarrow> [(key, v)]) known_event_fields)
   | _ \<Rightarrow> [])"

definition dict_update :: "(string \<times> json) list \<Rightarrow> (string \<times> json) list \<Rightarrow> (string \<times> json) list" where
  "dict_update d e = fold (\<lambda>(k, v). dict_put k v) e d"

definition opt_json :: "('a \<Rightarrow> json) \<Rightarrow> 'a option \<Rightarrow> json" where
  "opt_json f x = (case x of None \<Rightarrow> JNull | Some y \<Rightarrow> f y)"

definition next_seq :: "string option \<Rightarrow> bool \<Rightarrow> sink \<Rightarrow> nat \<times> sink" where
  "next_seq run_id terminal s = (case run_id of
     None \<Rightarrow> (0, s)
   | Some i \<Rightarrow> (let n = (case map_of (sk_seq s) i of None \<Rightarrow> 0 | Some k \<Rightarrow> k) in
       (n, s\<lparr>sk_seq := (if terminal then filter (\<lambda>(j, _). j \<noteq> i) (sk_seq s) else dict_put i (n + 1) (sk_seq s))\<rparr>)))"

definition line_head :: "json \<Rightarrow> string option \<Rightarrow> string option \<Rightarrow> nat \<Rightarrow> string \<Rightarrow> (string \<times> json) list" where
  "line_head t run_id session_id n event = [(''t'', t), (''run_id'', opt_json JStr run_id),
     (''session_id'', opt_json JStr session_id), (''seq'', JInt (int n)), (''event'', JStr event)]"

definition render_line ::
  "sink_tools \<Rightarrow> json \<Rightarrow> string option \<Rightarrow> string option \<Rightarrow> nat \<Rightarrow> string \<Rightarrow> (string \<times> json) list \<Rightarrow> string" where
  "render_line tools t run_id session_id n event payload =
     (let head = line_head t run_id session_id n event;
          full = st_redact tools (st_dumps tools (dict_update head payload))
      in if length (utf8_bytes full) > st_max_line_bytes tools
         then st_dumps tools (head @ [(''truncated'', JBool True)]) else full)"

text \<open>\<open>_write\<close>: \<open>fails\<close> says that the writer raises, which is logged; the number is used up all the same.\<close>

definition sink_write ::
  "sink_tools \<Rightarrow> bool \<Rightarrow> json \<Rightarrow> string option \<Rightarrow> string option \<Rightarrow> string \<Rightarrow> (string \<times> json) list \<Rightarrow> sink \<Rightarrow> sink" where
  "sink_write tools fails t run_id session_id event payload s =
     (case next_seq run_id (event \<in> set terminal_events) s of
        (n, s') \<Rightarrow> if fails then s'
          else s'\<lparr>sk_lines := sk_lines s' @ [render_line tools t run_id session_id n event payload]\<rparr>)"

datatype sink_event =
    Submitted_Line run_request
  | Started_Line
  | Event_Line run_event
  | Outcome_Line run_outcome
  | Cancelled_Line rat
  | Intervention_Line string string string

definition status_value :: "runner_status \<Rightarrow> string" where
  "status_value st = (case st of Opencode_Service.Completed \<Rightarrow> ''completed'' | Runner_Failed \<Rightarrow> ''failed'' | Runner_Timeout \<Rightarrow> ''timeout'')"

definition sink_event_name :: "sink_event \<Rightarrow> string" where
  "sink_event_name ev = (case ev of Submitted_Line q \<Rightarrow> ''submitted'' | Started_Line \<Rightarrow> ''started''
     | Event_Line e \<Rightarrow> ''run_event'' | Outcome_Line out \<Rightarrow> status_value (ro_status out)
     | Cancelled_Line d \<Rightarrow> ''cancelled'' | Intervention_Line a r d \<Rightarrow> ''intervention'')"

definition prompt_preview_fraction :: nat where
  "prompt_preview_fraction = 4"

definition sink_event_fields :: "sink_tools \<Rightarrow> (rat \<Rightarrow> string) \<Rightarrow> sink_event \<Rightarrow> (string \<times> json) list" where
  "sink_event_fields tools show_float ev = (case ev of
     Submitted_Line q \<Rightarrow> [(''prompt'', JStr (truncate_utf8 (rr_prompt q) (st_max_line_bytes tools div prompt_preview_fraction))),
       (''continue_last'', JBool (rr_continue_last q)), (''fork'', JBool (rr_fork q)), (''model'', opt_json JStr (rr_model q)),
       (''agent'', opt_json JStr (rr_agent q)), (''auto_approve'', opt_json JBool (rr_auto_approve q))]
   | Started_Line \<Rightarrow> []
   | Event_Line e \<Rightarrow> dict_update [(''raw_type'', JStr (re_raw_type e)), (''payload'', JStr (re_payload e))]
       (extract_known_fields tools (re_payload e))
   | Outcome_Line out \<Rightarrow> [(''exit_code'', opt_json JInt (ro_exit_code out)),
       (''duration_seconds'', JFloat (show_float (ro_duration out))), (''events_emitted'', JInt (int (ro_events_emitted out))),
       (''events_skipped'', JInt (int (ro_events_skipped out))), (''truncated'', JBool (ro_truncated out)),
       (''error'', opt_json JStr (ro_error out))]
   | Cancelled_Line d \<Rightarrow> [(''duration_seconds'', JFloat (show_float d))]
   | Intervention_Line action outcome detail \<Rightarrow> [(''action'', JStr action), (''outcome'', JStr outcome), (''detail'', JStr detail)])"

text \<open>One call of a \<open>record_*\<close> method.\<close>

record sink_call =
  sl_fails :: bool
  sl_time :: rat
  sl_run :: "string option"
  sl_session :: "string option"
  sl_event :: sink_event

definition record_line :: "sink_tools \<Rightarrow> (rat \<Rightarrow> string) \<Rightarrow> sink_call \<Rightarrow> sink \<Rightarrow> sink" where
  "record_line tools show_float cl = sink_write tools (sl_fails cl) (JFloat (show_float (sl_time cl))) (sl_run cl) (sl_session cl)
     (sink_event_name (sl_event cl)) (sink_event_fields tools show_float (sl_event cl))"

section \<open>The numbers of a run\<close>

text \<open>The number a call gives its line.\<close>

definition seq_of :: "sink_call \<Rightarrow> sink \<Rightarrow> nat" where
  "seq_of cl s = fst (next_seq (sl_run cl) (sink_event_name (sl_event cl) \<in> set terminal_events) s)"

fun numbered :: "sink_tools \<Rightarrow> (rat \<Rightarrow> string) \<Rightarrow> sink_call list \<Rightarrow> sink \<Rightarrow> (sink_call \<times> nat) list" where
  "numbered tools sf [] s = []"
| "numbered tools sf (cl # cls) s = (cl, seq_of cl s) # numbered tools sf cls (record_line tools sf cl s)"

definition ends_run :: "sink_call \<Rightarrow> bool" where
  "ends_run cl \<longleftrightarrow> sink_event_name (sl_event cl) \<in> set terminal_events"

definition next_number :: "string \<Rightarrow> sink \<Rightarrow> nat" where
  "next_number i s = (case map_of (sk_seq s) i of None \<Rightarrow> 0 | Some k \<Rightarrow> k)"

lemma map_of_without: "map_of (filter (\<lambda>(j, _). j \<noteq> i) kvs) k = (if k = i then None else map_of kvs k)"
  by (induction kvs) auto

lemma record_line_seq:
  "next_number i (record_line tools sf cl s) = (if sl_run cl = Some i then (if ends_run cl then 0 else next_number i s + 1)
     else next_number i s)"
  "sl_run cl = Some i \<Longrightarrow> seq_of cl s = next_number i s"
  by (auto simp: record_line_def sink_write_def next_seq_def next_number_def seq_of_def ends_run_def Let_def
    map_of_without split: option.splits)

text \<open>
  A consumer can see every gap: whatever calls are interleaved and whichever of them fail to
  reach the disk, the lines of a run up to its terminal one are numbered on without a gap from the
  run's next number (nought for a new run), and the terminal line is the last of them; after it
  the run's counter is back at nought, and the counters of other runs have not moved.
\<close>

theorem run_lines_numbered:
  assumes "\<forall>cl \<in> set cls. sl_run cl = Some i \<longrightarrow> \<not> ends_run cl" and "sl_run end_call = Some i" and "ends_run end_call"
  defines "calls \<equiv> cls @ [end_call]" and "mine \<equiv> \<lambda>cl. sl_run cl = Some i"
  shows "map snd (filter (mine \<circ> fst) (numbered tools sf calls s))
      = [next_number i s ..< next_number i s + length (filter mine calls)]
    \<and> next_number i (fold (record_line tools sf) calls s) = 0
    \<and> (\<forall>j. (\<forall>cl \<in> set calls. sl_run cl \<noteq> Some j) \<longrightarrow>
         next_number j (fold (record_line tools sf) calls s) = next_number j s)"
proof -
  have seqs: "map snd (filter (mine \<circ> fst) (numbered tools sf (cls @ [end_call]) s))
      = [next_number i s ..< next_number i s + length (filter mine (cls @ [end_call]))]"
    using assms(1)
  proof (induction cls arbitrary: s)
    case Nil
    then show ?case using assms(2) by (simp add: mine_def record_line_seq(2))
  next
    case (Cons cl cls)
    then have IH: "map snd (filter (mine \<circ> fst) (numbered tools sf (cls @ [end_call]) (record_line tools sf cl s)))
      = [next_number i (record_line tools sf cl s) ..< next_number i (record_line tools sf cl s) + length (filter mine (cls @ [end_call]))]"
      by (intro Cons.IH) simp
    show ?case
    proof (cases "mine cl")
      case True
      then have "next_number i (record_line tools sf cl s) = next_number i s + 1" "seq_of cl s = next_number i s"
        using Cons.prems by (auto simp: mine_def record_line_seq)
      then show ?thesis using True IH assms(2) by (simp add: mine_def comp_def upt_conv_Cons del: upt_Suc)
    next
      case False
      then have "next_number i (record_line tools sf cl s) = next_number i s" by (simp add: mine_def record_line_seq)
      then show ?thesis using False IH by (simp add: comp_def)
    qed
  qed
  have "next_number j (fold (record_line tools sf) cs s) = next_number j s" if "\<forall>cl \<in> set cs. sl_run cl \<noteq> Some j" for j cs
    using that by (induction cs arbitrary: s) (simp_all add: record_line_seq(1))
  then show ?thesis
    using seqs assms(2,3) by (simp add: calls_def record_line_seq(1))
qed

definition sample_sink_tools :: sink_tools where
  "sample_sink_tools = \<lparr>st_dumps = (\<lambda>_. ''line''), st_loads = (\<lambda>_. None), st_redact = (\<lambda>x. x), st_max_line_bytes = 64\<rparr>"

definition sample_call :: "bool \<Rightarrow> string \<Rightarrow> sink_event \<Rightarrow> sink_call" where
  "sample_call fails i ev = \<lparr>sl_fails = fails, sl_time = 0, sl_run = Some i, sl_session = None, sl_event = ev\<rparr>"

lemma run_lines_numbered_witness:
  "map snd (filter ((\<lambda>cl. sl_run cl = Some ''a'') \<circ> fst) (numbered sample_sink_tools (\<lambda>_. ''0.0'')
     ([sample_call False ''a'' Started_Line, sample_call False ''b'' Started_Line, sample_call True ''a'' Started_Line]
      @ [sample_call False ''a'' (Cancelled_Line 1)]) \<lparr>sk_seq = [], sk_lines = []\<rparr>)) = [0, 1, 2]"
proof -
  let ?cls = "[sample_call False ''a'' Started_Line, sample_call False ''b'' Started_Line, sample_call True ''a'' Started_Line]"
  have "\<forall>cl \<in> set ?cls. sl_run cl = Some ''a'' \<longrightarrow> \<not> ends_run cl"
    "sl_run (sample_call False ''a'' (Cancelled_Line 1)) = Some ''a''" "ends_run (sample_call False ''a'' (Cancelled_Line 1))"
    by (simp_all add: sample_call_def ends_run_def sink_event_name_def terminal_events_def)
  from run_lines_numbered [OF this, of sample_sink_tools "\<lambda>_. ''0.0''" "\<lparr>sk_seq = [], sk_lines = []\<rparr>"] show ?thesis
    by (simp add: sample_call_def next_number_def upt_rec)
qed

text \<open>An intervention after the end starts the run's numbers again, and leaves a counter nothing removes.\<close>

lemma numbers_reused:
  "seq_of (sample_call False ''a'' (Intervention_Line ''retry'' ''applied'' [])) 
     (record_line sample_sink_tools (\<lambda>_. ''0.0'') (sample_call False ''a'' (Cancelled_Line 1)) \<lparr>sk_seq = [(''a'', 7)], sk_lines = []\<rparr>) = 0"
  by (simp add: record_line_seq(2) [where i = "''a''"] record_line_seq(1) sample_call_def ends_run_def sink_event_name_def terminal_events_def)

section \<open>The log mirror\<close>

text \<open>
  \<open>emit\<close>: the formatter and the write are inside one \<open>try\<close>; a record that cannot be formatted, or
  a write that fails (the flag), goes to \<open>handleError\<close> and leaves the spool as it is.
\<close>

definition emit :: "spool_config \<Rightarrow> ('r \<Rightarrow> string option) \<Rightarrow> (nat \<Rightarrow> rat) \<Rightarrow> rat \<Rightarrow> bool \<Rightarrow> 'r \<Rightarrow> spool_file list \<Rightarrow> spool_file list" where
  "emit sc formatter clock now fails r files =
     (case formatter r of None \<Rightarrow> files
      | Some line \<Rightarrow> if fails then files else (case write_line sc clock now line files of None \<Rightarrow> files | Some fs \<Rightarrow> fs))"

section \<open>The sampler\<close>

definition peak_rss_kib :: "bool \<Rightarrow> nat option \<Rightarrow> nat option" where
  "peak_rss_kib darwin maxrss = map_option (\<lambda>m. (if darwin then m else m * 1024) div 1024) maxrss"

record telemetry_sample =
  sm_t :: rat
  sm_elapsed_s :: int
  sm_rss_kib :: "nat option"
  sm_ticks :: "nat option"
  sm_paused :: "bool option"
  sm_paused_reason :: "pause_reason option"
  sm_last_decision :: "string option"
  sm_last_duration_seconds :: "rat option"
  sm_failures_total :: "nat option"
  sm_consecutive_failures :: "nat option"
  sm_consecutive_overruns :: "nat option"
  sm_idle_total :: "nat option"
  sm_act_total :: "nat option"
  sm_escalate_total :: "nat option"

definition collect_sample :: "rat \<Rightarrow> int \<Rightarrow> nat option \<Rightarrow> tick_state option \<Rightarrow> telemetry_sample" where
  "collect_sample now elapsed rss tick = (case tick of
     None \<Rightarrow> \<lparr>sm_t = now, sm_elapsed_s = elapsed, sm_rss_kib = rss, sm_ticks = None, sm_paused = None,
       sm_paused_reason = None, sm_last_decision = None, sm_last_duration_seconds = None, sm_failures_total = None,
       sm_consecutive_failures = None, sm_consecutive_overruns = None, sm_idle_total = None, sm_act_total = None,
       sm_escalate_total = None\<rparr>
   | Some s \<Rightarrow> \<lparr>sm_t = now, sm_elapsed_s = elapsed, sm_rss_kib = rss, sm_ticks = Some (ts_ticks_run s),
       sm_paused = Some (ts_paused s), sm_paused_reason = ts_pause_reason s,
       sm_last_decision = map_option decision_value (ts_last_decision s),
       sm_last_duration_seconds = ts_last_duration s, sm_failures_total = Some (ts_failures_total s),
       sm_consecutive_failures = Some (ts_consecutive_failures s),
       sm_consecutive_overruns = Some (ts_consecutive_overruns s), sm_idle_total = Some (ts_idle_total s),
       sm_act_total = Some (ts_act_total s), sm_escalate_total = Some (ts_escalate_total s)\<rparr>)"

text \<open>
  One round of \<open>_run\<close>: what the wait brought (a stop, or the time), the readings of that moment,
  and whether the reading or the write raises, which is logged and swallowed.
\<close>

record sampler_round =
  sr_stop :: bool
  sr_fails :: bool
  sr_wall :: rat
  sr_monotonic :: rat
  sr_rss :: "nat option"
  sr_tick :: "tick_state option"

definition sample_once :: "spool_config \<Rightarrow> (telemetry_sample \<Rightarrow> string) \<Rightarrow> (nat \<Rightarrow> rat) \<Rightarrow> rat \<Rightarrow> sampler_round \<Rightarrow> spool_file list \<Rightarrow> spool_file list option" where
  "sample_once sc show_sample clock started r files =
     (if sr_fails r then None
      else write_line sc clock (sr_wall r)
        (show_sample (collect_sample (sr_wall r) \<lfloor>sr_monotonic r - started\<rfloor> (sr_rss r) (sr_tick r))) files)"

fun sampler_run :: "spool_config \<Rightarrow> (telemetry_sample \<Rightarrow> string) \<Rightarrow> (nat \<Rightarrow> rat) \<Rightarrow> rat \<Rightarrow> sampler_round list \<Rightarrow> spool_file list \<Rightarrow> spool_file list" where
  "sampler_run sc show_sample clock started [] files = files"
| "sampler_run sc show_sample clock started (r # rs) files =
     (if sr_stop r then files
      else sampler_run sc show_sample clock started rs
        (case sample_once sc show_sample clock started r files of None \<Rightarrow> files | Some fs \<Rightarrow> fs))"

text \<open>
  No failing round ends the loop: the rounds that fail are as if they had not been. The two
  producers keep the spool within its budget because \<open>write_line\<close> does.
\<close>

lemma failed_rounds_invisible:
  "sampler_run sc show_sample clock started rs files
     = sampler_run sc show_sample clock started (filter (\<lambda>r. sr_stop r \<or> \<not> sr_fails r) rs) files"
  by (induction rs arbitrary: files) (auto simp: sample_once_def)

text \<open>The totals a sample carries never go down, and add up to the ticks.\<close>

definition totals_grow :: "tick_state \<Rightarrow> tick_state \<Rightarrow> bool" where
  "totals_grow s t \<longleftrightarrow> ts_idle_total s \<le> ts_idle_total t \<and> ts_act_total s \<le> ts_act_total t
     \<and> ts_escalate_total s \<le> ts_escalate_total t \<and> ts_failures_total s \<le> ts_failures_total t"

lemma record_decision_grows: "totals_grow s (record_decision d s)"
  by (cases d) (simp_all add: totals_grow_def)

lemma loop_step_grows: "loop_step cfg ps qt \<Longrightarrow> totals_grow (snd ps) (snd qt)"
proof (induction rule: loop_step.induct)
  case (tick_decided s d duration now)
  then show ?case by (cases d) (simp_all add: totals_grow_def breaker_defs)
qed (simp_all add: totals_grow_def breaker_defs)

lemma loop_reach_grows: "loop_reach cfg ps qt \<Longrightarrow> totals_grow (snd ps) (snd qt)"
  by (induction rule: rtranclp_induct) (auto simp: totals_grow_def dest: loop_step_grows)

lemma reachable_total:
  assumes "check_config cfg = Inr ()" "loop_reach cfg (Resting, initial_tick_state) ps"
  shows "ts_ticks_run (snd ps) = ts_idle_total (snd ps) + ts_act_total (snd ps) + ts_escalate_total (snd ps)"
proof -
  have "loop_ok cfg (Resting, initial_tick_state)"
    using assms(1) by (simp add: loop_ok_def initial_tick_state_def valid_config)
  with assms(2) have "loop_ok cfg ps"
    by (induction rule: rtranclp_induct) (use loop_step_ok [OF assms(1)] in blast)+
  then show ?thesis by (cases ps) (simp add: loop_ok_def)
qed

definition sample_totals :: "telemetry_sample \<Rightarrow> nat option \<times> nat option \<times> nat option \<times> nat option" where
  "sample_totals sm = (sm_ticks sm, sm_idle_total sm, sm_act_total sm, sm_escalate_total sm)"

text \<open>
  Two samples tell the decisions taken between them exactly, though the samples are rarer
  than the ticks: one taken in a reachable state of the tick loop and one in a state reachable
  from it, pauses and failures included, both carry totals; none of them went down, and the three
  differences add up to the ticks between the two.
\<close>

theorem sample_window_exact:
  assumes "check_config cfg = Inr ()" and "loop_reach cfg (Resting, initial_tick_state) (p, s)"
    and "loop_reach cfg (p, s) (q, t)"
  shows "\<exists>n i a e n' i' a' e'.
       sample_totals (collect_sample now1 elapsed1 rss1 (Some s)) = (Some n, Some i, Some a, Some e)
     \<and> sample_totals (collect_sample now2 elapsed2 rss2 (Some t)) = (Some n', Some i', Some a', Some e')
     \<and> i \<le> i' \<and> a \<le> a' \<and> e \<le> e' \<and> n' = n + (i' - i) + (a' - a) + (e' - e)"
proof -
  have "totals_grow s t" using loop_reach_grows [OF assms(3)] by simp
  moreover have "ts_ticks_run s = ts_idle_total s + ts_act_total s + ts_escalate_total s"
    using reachable_total [OF assms(1,2)] by simp
  moreover have "ts_ticks_run t = ts_idle_total t + ts_act_total t + ts_escalate_total t"
    using reachable_total [OF assms(1) rtranclp_trans [OF assms(2,3)]] by simp
  ultimately show ?thesis by (simp add: sample_totals_def collect_sample_def totals_grow_def)
qed

lemma sample_window_exact_witness:
  "\<exists>t n' i' a' e'. sample_totals (collect_sample 60 60 None (Some t)) = (Some n', Some i', Some a', Some e')
     \<and> a' = 1 \<and> n' = i' + a' + e'"
proof -
  let ?c = sample_config
  let ?s1 = "initial_tick_state\<lparr>ts_in_flight := True\<rparr>"
  let ?t = "complete_tick ?c ACT 1 0 ?s1"
  have "loop_step ?c (Resting, initial_tick_state) (Deciding, ?s1)"
    by (rule tick_started) (simp add: initial_tick_state_def)
  moreover have "loop_step ?c (Deciding, ?s1) (Dispatching, ?t)" by (rule tick_decided)
  ultimately have reach: "loop_reach ?c (Resting, initial_tick_state) (Dispatching, ?t)"
    by (meson r_into_rtranclp rtranclp_trans)
  have ok: "check_config ?c = Inr ()" by (simp add: check_config_def sample_config_def)
  have start: "sample_totals (collect_sample 0 0 None (Some initial_tick_state)) = (Some 0, Some 0, Some 0, Some 0)"
    by (simp add: sample_totals_def collect_sample_def initial_tick_state_def)
  have one: "ts_act_total ?t = 1"
    by (simp add: breaker_defs initial_tick_state_def)
  from sample_window_exact [OF ok rtranclp.rtrancl_refl reach, of 0 0 None 60 60 None]
  obtain n' i' a' e' where totals: "sample_totals (collect_sample 60 60 None (Some ?t)) = (Some n', Some i', Some a', Some e')"
    and sum: "n' = i' + a' + e'" by (auto simp: start)
  from totals one have "a' = 1" by (simp add: sample_totals_def collect_sample_def)
  with totals sum show ?thesis by blast
qed

end
