(* ===== verification/Storage.thy ===== *)
theory Storage
  imports Prelude "HOL-Library.Multiset"
begin

text \<open>
  The database: the discovery and the run of the migrations (\<open>storage/migrator.py\<close>) and the
  life of the connections (\<open>storage/database.py\<close>). The SQL of a migration is data that SQLite
  executes; its execution is a parameter, an operation on the database that may raise.
\<close>

section \<open>The migrations of a directory\<close>

record dir_entry =
  de_name :: string
  de_is_file :: bool
  de_text :: "string option"

record migration =
  mg_version :: int
  mg_name :: string
  mg_sql :: string

datatype 'e migration_error =
    Duplicate_Version int
  | Not_Contiguous "int list"
  | Unreadable
  | Applied_Gap "int list"
  | Newer_Schema int int
  | Sql_Error 'e
  | No_Such_Table
  | Version_Taken int

definition digit_value :: "char \<Rightarrow> int" where
  "digit_value c = of_char c - 48"

definition digit_ok :: "char \<Rightarrow> bool" where
  "digit_ok c \<longleftrightarrow> c \<in> set ''0123456789''"

definition word_ok :: "char \<Rightarrow> bool" where
  "word_ok c \<longleftrightarrow> c \<in> set ''abcdefghijklmnopqrstuvwxyz0123456789_''"

text \<open>
  The pattern: four digits, an underscore, a word, \<open>.sql\<close>. The \<open>$\<close> of the pattern also matches
  before a last line break.
\<close>

definition match_name :: "string \<Rightarrow> (int \<times> string) option" where
  "match_name name =
     (let n = (if name \<noteq> [] \<and> last name = CHR 0x0A then butlast name else name);
          word = take (length n - 9) (drop 5 n)
      in if 10 \<le> length n \<and> list_all digit_ok (take 4 n) \<and> n ! 4 = CHR ''_''
           \<and> list_all word_ok word \<and> drop (length n - 4) n = ''.sql''
         then Some (foldl (\<lambda>a c. a * 10 + digit_value c) 0 (take 4 n), word) else None)"

text \<open>The loop over the directory: the dict by version, in the order of its insertions.\<close>

fun scan :: "dir_entry list \<Rightarrow> migration list \<Rightarrow> 'e migration_error + migration list" where
  "scan [] found = Inr found"
| "scan (entry # entries) found =
     (if \<not> de_is_file entry then scan entries found
      else case match_name (de_name entry) of
        None \<Rightarrow> scan entries found
      | Some (version, name) \<Rightarrow>
          if version \<in> mg_version ` set found then Inl (Duplicate_Version version)
          else case de_text entry of
            None \<Rightarrow> Inl Unreadable
          | Some sql \<Rightarrow> scan entries (found @ [\<lparr>mg_version = version, mg_name = name, mg_sql = sql\<rparr>]))"

definition discover_migrations :: "dir_entry list \<Rightarrow> 'e migration_error + migration list" where
  "discover_migrations entries = (case scan entries [] of
     Inl e \<Rightarrow> Inl e
   | Inr found \<Rightarrow>
       let migrations = sort_key mg_version found; actual = map mg_version migrations
       in if actual \<noteq> [1..int (length migrations)] then Inl (Not_Contiguous actual) else Inr migrations)"

section \<open>The run\<close>

text \<open>The table \<open>schema_version\<close>, nothing before it is created, and everything else.\<close>

record 'c schema_db =
  sd_versions :: "(int \<times> string) list option"
  sd_content :: 'c

type_synonym ('c, 'e) sql_engine = "string \<Rightarrow> ('c schema_db, 'e, unit) op"

definition applied_versions :: "'c schema_db \<Rightarrow> int list" where
  "applied_versions d = (case sd_versions d of None \<Rightarrow> [] | Some rows \<Rightarrow> sort (map fst rows))"

definition insert_version :: "migration \<Rightarrow> ('c schema_db, 'e migration_error, unit) op" where
  "insert_version m d = (case sd_versions d of
     None \<Rightarrow> (Inl No_Such_Table, d)
   | Some rows \<Rightarrow> if mg_version m \<in> fst ` set rows then (Inl (Version_Taken (mg_version m)), d)
                 else (Inr (), d\<lparr>sd_versions := Some (rows @ [(mg_version m, mg_name m)])\<rparr>))"

definition exec_script :: "('c, 'e) sql_engine \<Rightarrow> string \<Rightarrow> ('c schema_db, 'e migration_error, unit) op" where
  "exec_script exec sql d = (case exec sql d of (Inl e, d') \<Rightarrow> (Inl (Sql_Error e), d') | (Inr x, d') \<Rightarrow> (Inr x, d'))"

definition apply_migration :: "('c, 'e) sql_engine \<Rightarrow> migration \<Rightarrow> ('c schema_db, 'e migration_error, unit) op" where
  "apply_migration exec m = transaction (op_then (exec_script exec (mg_sql m)) (insert_version m))"

definition last_or_zero :: "int list \<Rightarrow> int" where
  "last_or_zero vs = (if vs = [] then 0 else last vs)"

definition run_migrations :: "('c, 'e) sql_engine \<Rightarrow> dir_entry list \<Rightarrow> ('c schema_db, 'e migration_error, unit) op" where
  "run_migrations exec entries = (case discover_migrations entries of
     Inl e \<Rightarrow> raise e
   | Inr migrations \<Rightarrow> op_bind (asks applied_versions) (\<lambda>applied.
       op_then (demand (applied = [1..int (length applied)]) (Applied_Gap applied))
        (let current = last_or_zero applied; latest = last_or_zero (map mg_version migrations) in
         op_then (demand (current \<le> latest) (Newer_Schema current latest))
          (foreach (apply_migration exec) (filter (\<lambda>m. current < mg_version m) migrations)))))"

section \<open>What discovery accepts\<close>

lemma scan_ok: "scan entries found = (Inr ms :: 'e migration_error + migration list) \<Longrightarrow> distinct (map mg_version found) \<Longrightarrow>
  distinct (map mg_version ms) \<and> map (\<lambda>m. (mg_version m, mg_name m)) ms
    = map (\<lambda>m. (mg_version m, mg_name m)) found @ List.map_filter (\<lambda>e. if de_is_file e then match_name (de_name e) else None) entries"
proof (induction entries arbitrary: found)
  case Nil
  then show ?case by (simp add: List.map_filter_simps)
next
  case (Cons e entries)
  show ?case
  proof (cases "de_is_file e \<and> match_name (de_name e) \<noteq> None")
    case False
    then show ?thesis using Cons by (auto simp: List.map_filter_simps split: option.splits)
  next
    case True
    then obtain v n where m: "match_name (de_name e) = Some (v, n)" by auto
    with True Cons.prems(1) obtain sql where "v \<notin> mg_version ` set found"
      and scan: "scan entries (found @ [\<lparr>mg_version = v, mg_name = n, mg_sql = sql\<rparr>]) = (Inr ms :: 'e migration_error + migration list)"
      by (auto split: if_splits option.splits)
    then show ?thesis using Cons.IH [OF scan] Cons.prems(2) True m
      by (auto simp: List.map_filter_simps)
  qed
qed

lemma discover_ok:
  assumes "discover_migrations entries = (Inr ms :: 'e migration_error + migration list)"
  shows "map mg_version ms = [1..int (length ms)]"
    "mset (map (\<lambda>m. (mg_version m, mg_name m)) ms)
       = mset (List.map_filter (\<lambda>e. if de_is_file e then match_name (de_name e) else None) entries)"
proof -
  from assms obtain found where f: "scan entries [] = (Inr found :: 'e migration_error + migration list)"
    and ms: "ms = sort_key mg_version found" "map mg_version ms = [1..int (length ms)]"
    by (auto simp: discover_migrations_def Let_def split: sum.splits if_splits)
  show "map mg_version ms = [1..int (length ms)]" by (rule ms(2))
  show "mset (map (\<lambda>m. (mg_version m, mg_name m)) ms)
       = mset (List.map_filter (\<lambda>e. if de_is_file e then match_name (de_name e) else None) entries)"
  proof -
    have "mset (map (\<lambda>m. (mg_version m, mg_name m)) ms) = mset (map (\<lambda>m. (mg_version m, mg_name m)) found)"
      by (simp only: ms(1) mset_map mset_sort)
    with scan_ok [OF f] show ?thesis by simp
  qed
qed

section \<open>What a run leaves\<close>

text \<open>The committed part of a run: each migration applied in its own transaction, none failing.\<close>

fun upgrade :: "('c, 'e) sql_engine \<Rightarrow> migration list \<Rightarrow> 'c schema_db \<Rightarrow> 'c schema_db option" where
  "upgrade exec [] d = Some d"
| "upgrade exec (m # ms) d = (case apply_migration exec m d of (Inl e, d') \<Rightarrow> None | (Inr x, d') \<Rightarrow> upgrade exec ms d')"

text \<open>A script may create the version table; it does not write it.\<close>

definition scripts_ok :: "('c, 'e) sql_engine \<Rightarrow> migration list \<Rightarrow> bool" where
  "scripts_ok exec ms \<longleftrightarrow> (\<forall>m \<in> set ms. \<forall>d d'. exec (mg_sql m) d = (Inr (), d') \<longrightarrow>
     sd_versions d' = sd_versions d \<or> sd_versions d = None \<and> sd_versions d' = Some [])"

definition version_rows :: "'c schema_db \<Rightarrow> (int \<times> string) list" where
  "version_rows d = (case sd_versions d of None \<Rightarrow> [] | Some rows \<Rightarrow> rows)"

lemma applied_versions_rows: "applied_versions d = sort (map fst (version_rows d))"
  by (simp add: applied_versions_def version_rows_def split: option.splits)

lemma apply_migration_rows:
  fixes exec :: "('c, 'e) sql_engine"
  assumes "apply_migration exec m d = (Inr x, d')" and "scripts_ok exec [m]"
  shows "version_rows d' = version_rows d @ [(mg_version m, mg_name m)]"
proof -
  from transaction_okE [OF assms(1) [unfolded apply_migration_def]]
  obtain y d1 where "exec_script exec (mg_sql m) d = (Inr y, d1)" and ins: "insert_version m d1 = (Inr x :: 'e migration_error + unit, d')"
    by (rule op_then_okE)
  then have "exec (mg_sql m) d = (Inr (), d1)" by (auto simp: exec_script_def split: prod.splits sum.splits)
  with assms(2) have "sd_versions d1 = sd_versions d \<or> sd_versions d = None \<and> sd_versions d1 = Some []"
    by (auto simp: scripts_ok_def)
  moreover have "sd_versions d' = Some (the (sd_versions d1) @ [(mg_version m, mg_name m)])" "sd_versions d1 \<noteq> None"
    using ins by (auto simp: insert_version_def split: option.splits if_splits)
  ultimately show ?thesis by (auto simp: version_rows_def)
qed

lemma upgrade_rows:
  "upgrade exec ms d = Some d' \<Longrightarrow> scripts_ok exec ms \<Longrightarrow>
     version_rows d' = version_rows d @ map (\<lambda>m. (mg_version m, mg_name m)) ms"
proof (induction ms arbitrary: d)
  case (Cons m ms)
  then obtain x d1 where step: "apply_migration exec m d = (Inr x, d1)" and rest: "upgrade exec ms d1 = Some d'"
    by (auto split: prod.splits sum.splits)
  have "scripts_ok exec [m]" "scripts_ok exec ms" using Cons.prems(2) by (auto simp: scripts_ok_def)
  then show ?case using Cons.IH [OF rest] apply_migration_rows [OF step] by simp
qed simp

text \<open>A run that stops has committed the migrations before the one that failed, and nothing of that one.\<close>

lemma foreach_upgrade:
  obtains j r d' where "foreach (apply_migration exec) ms d = (r, d')" and "j \<le> length ms"
    and "upgrade exec (take j ms) d = Some d'" and "r = Inr () \<longleftrightarrow> j = length ms"
    and "\<forall>e. r = Inl e \<longrightarrow> apply_migration exec (ms ! j) d' = (Inl e, d')"
proof (induction ms arbitrary: d thesis)
  case Nil
  then show ?case by (simp add: ret_def)
next
  case (Cons m ms)
  show ?case
  proof (cases "apply_migration exec m d")
    case (Pair r d1)
    show ?thesis
    proof (cases r)
      case (Inl e)
      then have "d1 = d" using Pair transaction_error_state by (metis apply_migration_def)
      then show ?thesis using Pair Inl by (intro Cons.prems [of "Inl e" d 0]) (simp_all add: op_then_def op_bind_def)
    next
      case (Inr x)
      obtain r' d' j where "foreach (apply_migration exec) ms d1 = (r', d')" "j \<le> length ms"
        "upgrade exec (take j ms) d1 = Some d'" "r' = Inr () \<longleftrightarrow> j = length ms"
        "\<forall>e. r' = Inl e \<longrightarrow> apply_migration exec (ms ! j) d' = (Inl e, d')"
        by (rule Cons.IH)
      then show ?thesis using Pair Inr
        by (intro Cons.prems [of r' d' "Suc j"]) (simp_all add: op_then_def op_bind_def)
    qed
  qed
qed

lemma foreach_append: "foreach f (xs @ ys) = op_then (foreach f xs) (foreach f ys)"
  by (induction xs) (auto simp: op_then_def op_bind_def ret_def fun_eq_iff split: prod.splits sum.splits)

subsection \<open>The pending migrations\<close>

lemma last_or_zero_upto [simp]: "last_or_zero [1..int k] = int k"
  by (cases k) (simp_all add: last_or_zero_def upto_rec2)

lemma pending_drop:
  assumes "map mg_version ms = [1..int n]"
  shows "filter (\<lambda>m. int k < mg_version m) ms = drop k ms"
proof -
  have len: "length ms = n" using arg_cong [OF assms, of length] by simp
  have v: "mg_version (ms ! i) = int i + 1" if "i < length ms" for i
    using that nth_map [of i ms mg_version] assms len by (simp add: nth_upto)
  have "filter (\<lambda>m. int k < mg_version m) (take k ms) = []"
    by (auto simp: filter_empty_conv in_set_conv_nth v)
  moreover have "filter (\<lambda>m. int k < mg_version m) (drop k ms) = drop k ms"
    by (auto simp: filter_id_conv in_set_conv_nth v)
  ultimately show ?thesis by (metis append_Nil append_take_drop_id filter_append)
qed

lemma run_pending:
  fixes exec :: "('c, 'e) sql_engine"
  assumes "discover_migrations entries = (Inr ms :: 'e migration_error + migration list)" and "applied_versions d = [1..int k]" and "k \<le> length ms"
  shows "run_migrations exec entries d = foreach (apply_migration exec) (drop k ms) d"
  using assms(2,3) discover_ok(1) [OF assms(1)]
  by (simp add: run_migrations_def assms(1) op_bind_asks demand_def op_then_ret pending_drop)

lemma applied_append:
  assumes "applied_versions d = [1..int k]" and "version_rows d' = version_rows d @ rows" and "map fst rows = [int k + 1..int j]" and "k \<le> j"
  shows "applied_versions d' = [1..int j]"
proof -
  have "mset (map fst (version_rows d)) = mset [1..int k]" using assms(1) by (metis applied_versions_rows mset_sort)
  moreover have "[1..int j] = [1..int k] @ [int k + 1..int j]" using assms(4)
    by (cases "k = 0") (simp, intro upto_split2, simp_all)
  ultimately have "mset [1..int j] = mset (map fst (version_rows d'))" by (simp add: assms(2,3))
  then show ?thesis unfolding applied_versions_rows by (intro properties_for_sort) simp_all
qed

lemma applied_after:
  assumes "map mg_version ms = [1..int (length ms)]" and "scripts_ok exec ms" and "applied_versions d = [1..int k]"
    and "upgrade exec (take i (drop k ms)) d = Some d'" and "i \<le> length (drop k ms)"
  shows "applied_versions d' = [1..int (k + i)]"
proof -
  have "scripts_ok exec (take i (drop k ms))" using assms(2) by (auto simp: scripts_ok_def dest!: in_set_takeD in_set_dropD)
  from upgrade_rows [OF assms(4) this] show ?thesis
  proof (rule applied_append [OF assms(3)])
    have "map mg_version (take i (drop k ms)) = take i (drop k [1..int (length ms)])"
      by (simp only: take_map drop_map assms(1) flip: take_map drop_map)
    also have "\<dots> = [int k + 1..int (k + i)]"
      using assms(5) by (intro nth_equalityI) (simp_all add: nth_upto)
    finally show "map fst (map (\<lambda>m. (mg_version m, mg_name m)) (take i (drop k ms))) = [int k + 1..int (k + i)]"
      by (simp add: comp_def)
  qed simp
qed

text \<open>
  C31. Whatever fails, the schema is at a version: on a database whose recorded versions are \<open>1..k\<close>,
  no newer than the build, the run ends with the versions \<open>1..j\<close> recorded for some \<open>j \<ge> k\<close>, and the
  database is exactly what committing the scripts \<open>k+1..j\<close> one after the other makes of it; it
  returns exactly if that reached the last bundled version, and otherwise raises what the next
  script raised, with nothing of that script left.
\<close>

theorem run_migrations_atomic:
  fixes exec :: "('c, 'e) sql_engine"
  assumes "discover_migrations entries = (Inr ms :: 'e migration_error + migration list)" and "scripts_ok exec ms"
    and "applied_versions d = [1..int k]" and "k \<le> length ms"
  shows "\<exists>j r d'. run_migrations exec entries d = (r, d') \<and> k \<le> j \<and> j \<le> length ms
     \<and> applied_versions d' = [1..int j] \<and> upgrade exec (take (j - k) (drop k ms)) d = Some d'
     \<and> (r = Inr () \<longleftrightarrow> j = length ms) \<and> (\<forall>e. r = Inl e \<longrightarrow> apply_migration exec (ms ! j) d' = (Inl e, d'))"
proof -
  obtain i r d' where run: "foreach (apply_migration exec) (drop k ms) d = (r, d')" and i: "i \<le> length (drop k ms)"
    and up: "upgrade exec (take i (drop k ms)) d = Some d'" and r: "r = Inr () \<longleftrightarrow> i = length (drop k ms)"
      "\<forall>e. r = Inl e \<longrightarrow> apply_migration exec (drop k ms ! i) d' = (Inl e, d')"
    by (rule foreach_upgrade)
  have "applied_versions d' = [1..int (k + i)]"
    using applied_after [OF discover_ok(1) [OF assms(1)] assms(2,3) up] i by simp
  moreover have "run_migrations exec entries d = (r, d')" using run by (simp add: run_pending [OF assms(1,3,4)])
  ultimately show ?thesis using up r i assms(4)
    by (intro exI [of _ "k + i"] exI [of _ r] exI [of _ d']) auto
qed

text \<open>
  C32. Releases can be skipped: if the migrations of one build are the first ones of a later build
  and its run succeeded, the run of the later build gives the same result and the same database
  as if it had met the database first. With the same build twice this is idempotence.
\<close>

theorem upgrades_compose:
  fixes exec :: "('c, 'e) sql_engine"
  assumes "discover_migrations entries = (Inr ms :: 'e migration_error + migration list)"
    and "discover_migrations entries' = (Inr (ms @ later) :: 'e migration_error + migration list)"
    and "scripts_ok exec ms" and "applied_versions d = [1..int k]" and "k \<le> length ms"
    and "run_migrations exec entries d = (Inr (), d1)"
  shows "run_migrations exec entries' d1 = run_migrations exec entries' d"
proof -
  have run: "foreach (apply_migration exec) (drop k ms) d = (Inr (), d1)"
    using assms(6) by (simp add: run_pending [OF assms(1,4,5)])
  obtain i r d' where loop: "foreach (apply_migration exec) (drop k ms) d = (r, d')"
    and up: "upgrade exec (take i (drop k ms)) d = Some d'" and i: "i \<le> length (drop k ms)" "r = Inr () \<longleftrightarrow> i = length (drop k ms)"
    by (rule foreach_upgrade)
  have "applied_versions d1 = [1..int (length ms)]"
    using applied_after [OF discover_ok(1) [OF assms(1)] assms(3,4) up i(1)] run loop i(2) assms(5) by simp
  then have "run_migrations exec entries' d1 = foreach (apply_migration exec) (drop (length ms) (ms @ later)) d1"
    by (intro run_pending [OF assms(2)]) simp_all
  also have "\<dots> = foreach (apply_migration exec) (drop k (ms @ later)) d"
    using assms(5) run by (simp add: foreach_append op_then_ok)
  also have "\<dots> = run_migrations exec entries' d"
    using assms(5) by (intro run_pending [OF assms(2,4), symmetric]) simp
  finally show ?thesis .
qed

text \<open>A gap in the recorded versions, or a database ahead of the build, is refused before anything is written.\<close>

lemma run_migrations_refuses:
  fixes exec :: "('c, 'e) sql_engine"
  assumes "discover_migrations entries = (Inr ms :: 'e migration_error + migration list)"
  shows "applied_versions d \<noteq> [1..int (length (applied_versions d))] \<Longrightarrow>
       run_migrations exec entries d = (Inl (Applied_Gap (applied_versions d)), d)"
    and "applied_versions d = [1..int k] \<Longrightarrow> length ms < k \<Longrightarrow>
       run_migrations exec entries d = (Inl (Newer_Schema (int k) (int (length ms))), d)"
  using discover_ok(1) [OF assms]
  by (simp_all add: run_migrations_def assms op_bind_asks demand_def op_then_ret) (simp_all add: op_defs Let_def)

definition sample_entry :: "string \<Rightarrow> string \<Rightarrow> dir_entry" where
  "sample_entry name sql = \<lparr>de_name = name, de_is_file = True, de_text = Some sql\<rparr>"

definition sample_engine :: "(string list, string) sql_engine" where
  "sample_engine sql d = (if sql = ''boom'' then (Inl ''syntax error'', d\<lparr>sd_content := []\<rparr>)
     else (Inr (), d\<lparr>sd_versions := Some (version_rows d), sd_content := sd_content d @ [sql]\<rparr>))"

definition sample_migration :: "int \<Rightarrow> string \<Rightarrow> string \<Rightarrow> migration" where
  "sample_migration v name sql = \<lparr>mg_version = v, mg_name = name, mg_sql = sql\<rparr>"

lemma sample_scripts_ok: "scripts_ok sample_engine ms"
  by (auto simp: scripts_ok_def sample_engine_def version_rows_def split: if_splits option.splits)

lemma sample_discovered:
  "discover_migrations [sample_entry ''0002_rbac.sql'' ''boom'', sample_entry ''README.md'' [], sample_entry ''0001_init.sql'' ''init'']
     = (Inr [sample_migration 1 ''init'' ''init'', sample_migration 2 ''rbac'' ''boom''] :: string migration_error + migration list)"
  "discover_migrations [sample_entry ''0001_init.sql'' ''init'']
     = (Inr [sample_migration 1 ''init'' ''init''] :: string migration_error + migration list)"
  by code_simp+

lemma run_migrations_atomic_witness:
  "\<exists>j d'. snd (run_migrations sample_engine [sample_entry ''0002_rbac.sql'' ''boom'', sample_entry ''README.md'' [],
       sample_entry ''0001_init.sql'' ''init''] \<lparr>sd_versions = None, sd_content = []\<rparr>) = d'
     \<and> j \<le> 2 \<and> applied_versions d' = [1..int j]"
proof -
  have "applied_versions \<lparr>sd_versions = None, sd_content = [] :: string list\<rparr> = [1..int 0]"
    by (simp add: applied_versions_def)
  from run_migrations_atomic [OF sample_discovered(1) sample_scripts_ok this]
  obtain j r d' where "run_migrations sample_engine [sample_entry ''0002_rbac.sql'' ''boom'', sample_entry ''README.md'' [],
       sample_entry ''0001_init.sql'' ''init''] \<lparr>sd_versions = None, sd_content = []\<rparr> = (r, d')"
    "j \<le> length [sample_migration 1 ''init'' ''init'', sample_migration 2 ''rbac'' ''boom'']" "applied_versions d' = [1..int j]"
    by blast
  then show ?thesis by (intro exI [of _ j] exI [of _ d']) (simp add: numeral_2_eq_2)
qed

lemma upgrades_compose_witness:
  "run_migrations sample_engine [sample_entry ''0001_init.sql'' ''init'']
       \<lparr>sd_versions = Some [(1, ''init'')], sd_content = [''init'']\<rparr>
     = run_migrations sample_engine [sample_entry ''0001_init.sql'' ''init''] \<lparr>sd_versions = None, sd_content = []\<rparr>"
proof (rule upgrades_compose [where ms = "[sample_migration 1 ''init'' ''init'']" and later = "[]" and k = 0])
  show "run_migrations sample_engine [sample_entry ''0001_init.sql'' ''init''] \<lparr>sd_versions = None, sd_content = []\<rparr>
    = (Inr (), \<lparr>sd_versions = Some [(1, ''init'')], sd_content = [''init'']\<rparr>)" by code_simp
qed (simp_all add: sample_discovered sample_scripts_ok applied_versions_def)

section \<open>The connections\<close>

text \<open>
  One handle per thread, opened at its first use. A handle is a number; \<open>po_open\<close> are the
  handles SQLite holds open. \<open>po_closing\<close> stands between the two effects of \<open>close\<close>, which are
  not one: the handles are closed under the lock, the flag is set after it.
\<close>

record pool =
  po_closed :: bool
  po_closing :: bool
  po_local :: "string \<Rightarrow> nat option"
  po_all :: "nat list"
  po_open :: "nat list"
  po_next :: nat

datatype storage_error = Closed_Database | No_WAL

definition new_pool :: pool where
  "new_pool = \<lparr>po_closed = False, po_closing = False, po_local = Map.empty, po_all = [], po_open = [], po_next = 0\<rparr>"

definition open_conn :: "bool \<Rightarrow> (pool, storage_error, nat) op" where
  "open_conn wal s = (if wal then (Inr (po_next s), s\<lparr>po_open := po_next s # po_open s, po_next := po_next s + 1\<rparr>)
     else (Inl No_WAL, s\<lparr>po_next := po_next s + 1\<rparr>))"

definition register :: "string \<Rightarrow> nat \<Rightarrow> pool \<Rightarrow> pool" where
  "register t c s = s\<lparr>po_local := (po_local s)(t \<mapsto> c), po_all := po_all s @ [c]\<rparr>"

definition connection :: "string \<Rightarrow> bool \<Rightarrow> (pool, storage_error, nat) op" where
  "connection t wal =
     op_bind (asks id) (\<lambda>s. op_then (demand (\<not> po_closed s) Closed_Database)
       (case po_local s t of Some c \<Rightarrow> ret c
        | None \<Rightarrow> op_bind (open_conn wal) (\<lambda>c. op_then (put (register t c)) (ret c))))"

definition close_handles :: "pool \<Rightarrow> pool" where
  "close_handles s = s\<lparr>po_open := filter (\<lambda>c. c \<notin> set (po_all s)) (po_open s), po_all := [], po_closing := True\<rparr>"

definition close_flag :: "pool \<Rightarrow> pool" where
  "close_flag s = s\<lparr>po_closed := True, po_closing := False\<rparr>"

definition close_pool :: "pool \<Rightarrow> pool" where
  "close_pool s = close_flag (close_handles s)"

text \<open>\<open>is_healthy\<close>: only errors of SQLite are caught, so what \<open>connection\<close> raises escapes.\<close>

definition is_healthy :: "string \<Rightarrow> bool \<Rightarrow> bool \<Rightarrow> (pool, storage_error, bool) op" where
  "is_healthy t wal answers = op_bind (connection t wal) (\<lambda>c. asks (\<lambda>s. answers \<and> c \<in> set (po_open s)))"

lemma is_healthy_raises: "fst (is_healthy t wal answers (close_pool s)) = Inl Closed_Database"
  by (simp add: is_healthy_def connection_def close_pool_def close_flag_def op_defs)

subsection \<open>Threads\<close>

text \<open>A thread in \<open>connection\<close>: past its checks, or holding the handle it opened.\<close>

datatype thread_at = Outside | Past_Checks | Holding nat

inductive pool_step :: "(string \<Rightarrow> thread_at) \<times> pool \<Rightarrow> (string \<Rightarrow> thread_at) \<times> pool \<Rightarrow> bool" where
  checked: "pc t = Outside \<Longrightarrow> \<not> po_closed s \<Longrightarrow> po_local s t = None \<Longrightarrow> pool_step (pc, s) (pc(t := Past_Checks), s)"
| opened: "pc t = Past_Checks \<Longrightarrow> open_conn True s = (Inr c, s') \<Longrightarrow> pool_step (pc, s) (pc(t := Holding c), s')"
| refused: "pc t = Past_Checks \<Longrightarrow> open_conn False s = (Inl e, s') \<Longrightarrow> pool_step (pc, s) (pc(t := Outside), s')"
| registered: "pc t = Holding c \<Longrightarrow> pool_step (pc, s) (pc(t := Outside), register t c s)"
| handles_closed: "pool_step (pc, s) (pc, close_handles s)"
| flagged: "po_closing s \<Longrightarrow> pool_step (pc, s) (pc, close_flag s)"

abbreviation pool_reach :: "(string \<Rightarrow> thread_at) \<times> pool \<Rightarrow> bool" where
  "pool_reach \<equiv> pool_step\<^sup>*\<^sup>* ((\<lambda>_. Outside), new_pool)"

text \<open>The handles a thread has, cached or about to be.\<close>

definition has_handle :: "(string \<Rightarrow> thread_at) \<Rightarrow> pool \<Rightarrow> string \<Rightarrow> nat \<Rightarrow> bool" where
  "has_handle pc s t c \<longleftrightarrow> po_local s t = Some c \<or> pc t = Holding c"

definition pool_ok :: "(string \<Rightarrow> thread_at) \<times> pool \<Rightarrow> bool" where
  "pool_ok = (\<lambda>(pc, s). (\<forall>c \<in> set (po_open s). c \<in> set (po_all s) \<or> (\<exists>t. pc t = Holding c))
     \<and> (\<forall>t t' c. has_handle pc s t c \<and> has_handle pc s t' c \<longrightarrow> t = t')
     \<and> (\<forall>t c. has_handle pc s t c \<longrightarrow> c < po_next s))"

lemma pool_step_ok: "pool_step ps qt \<Longrightarrow> pool_ok ps \<Longrightarrow> pool_ok qt"
proof (induction rule: pool_step.induct)
  case (checked pc t s)
  then show ?case by (simp add: pool_ok_def has_handle_def) (metis thread_at.distinct(3))
next
  case (opened pc t s c s')
  then have s': "s' = s\<lparr>po_open := c # po_open s, po_next := c + 1\<rparr>" and c: "c = po_next s"
    by (auto simp: open_conn_def)
  have has: "has_handle (pc(t := Holding c)) s' t' c' \<longleftrightarrow> has_handle pc s t' c' \<or> t' = t \<and> c' = c" for t' c'
    using opened(1) by (auto simp: has_handle_def s')
  have below: "has_handle pc s t' c' \<Longrightarrow> c' < c" for t' c' using opened(3) by (simp add: pool_ok_def c)
  have old: "\<forall>c' \<in> set (po_open s). c' \<in> set (po_all s) \<or> (\<exists>t'. pc t' = Holding c')"
    and one: "\<And>t1 t2 c'. has_handle pc s t1 c' \<Longrightarrow> has_handle pc s t2 c' \<Longrightarrow> t1 = t2"
    using opened(3) by (auto simp: pool_ok_def)
  have still: "\<exists>t'. (pc(t := Holding c)) t' = Holding c'" if "pc t'' = Holding c'" for t'' c'
    using that opened(1) by (intro exI [of _ t'']) auto
  have "c' \<in> set (po_all s') \<or> (\<exists>t'. (pc(t := Holding c)) t' = Holding c')" if "c' \<in> set (po_open s')" for c'
  proof (cases "c' = c")
    case True
    then show ?thesis by (intro disjI2 exI [of _ t]) simp
  next
    case False
    with that old have "c' \<in> set (po_all s') \<or> (\<exists>t'. pc t' = Holding c')" by (auto simp: s')
    with still show ?thesis by blast
  qed
  moreover have "t1 = t2" if "has_handle (pc(t := Holding c)) s' t1 c'" "has_handle (pc(t := Holding c)) s' t2 c'" for t1 t2 c'
    using that below one by (auto simp: has)
  moreover have "c' < po_next s'" if "has_handle (pc(t := Holding c)) s' t' c'" for t' c'
    using iffD1 [OF has that] below [of t' c'] by (auto simp: s')
  ultimately show ?case unfolding pool_ok_def by blast
next
  case (refused pc t s e s')
  then have s': "s' = s\<lparr>po_next := po_next s + 1\<rparr>" by (auto simp: open_conn_def)
  have has: "has_handle (pc(t := Outside)) s' t' c' \<longleftrightarrow> has_handle pc s t' c'" for t' c'
    using refused(1) by (auto simp: has_handle_def s')
  have "(\<exists>t'. (pc(t := Outside)) t' = Holding c') \<longleftrightarrow> (\<exists>t'. pc t' = Holding c')" for c'
    using refused(1) by (metis fun_upd_other fun_upd_same thread_at.distinct(3,5))
  then show ?case using refused(3)
    by (auto simp: pool_ok_def has less_SucI simp del: fun_upd_apply) (auto simp: s' less_SucI simp del: fun_upd_apply)
next
  case (registered pc t c s)
  have has: "has_handle (pc(t := Outside)) (register t c s) t' c' \<Longrightarrow> has_handle pc s t' c'" for t' c'
    using registered(1) by (auto simp: has_handle_def register_def split: if_splits)
  have still: "c' = c \<or> (\<exists>t'. (pc(t := Outside)) t' = Holding c')" if "pc t'' = Holding c'" for t'' c'
    using that registered(1) by (cases "t'' = t") (auto intro: exI [of _ t''])
  have "c' \<in> set (po_all (register t c s)) \<or> (\<exists>t'. (pc(t := Outside)) t' = Holding c')"
    if "c' \<in> set (po_open (register t c s))" for c'
  proof -
    have "c' \<in> set (po_all s) \<or> (\<exists>t'. pc t' = Holding c')" using that registered(2) by (simp add: pool_ok_def register_def)
    then show ?thesis
    proof (elim disjE exE)
      fix t'
      assume "pc t' = Holding c'"
      from still [OF this] show ?thesis by (elim disjE) (simp_all only: register_def pool.simps set_append, simp_all)
    qed (simp add: register_def)
  qed
  moreover have "t1 = t2" if "has_handle (pc(t := Outside)) (register t c s) t1 c'" "has_handle (pc(t := Outside)) (register t c s) t2 c'" for t1 t2 c'
    using has [OF that(1)] has [OF that(2)] registered(2) unfolding pool_ok_def by blast
  moreover have "c' < po_next (register t c s)" if "has_handle (pc(t := Outside)) (register t c s) t' c'" for t' c'
    using has [OF that] registered(2) by (simp add: pool_ok_def register_def)
  ultimately show ?case unfolding pool_ok_def by blast
next
  case (handles_closed pc s)
  then show ?case by (auto simp: pool_ok_def has_handle_def close_handles_def)
next
  case (flagged s pc)
  then show ?case by (auto simp: pool_ok_def has_handle_def close_flag_def)
qed

text \<open>
  No two threads ever share a connection, and none leaks while the pool is in use: in every
  reachable state an open handle is registered or in the hands of a thread inside \<open>connection\<close>; so a
  \<open>close\<close> that meets no such thread leaves no handle open, and afterwards every thread, whether it
  had a connection or not, gets an error and never a connection.
\<close>

theorem pool_closes:
  assumes "pool_reach (pc, s)"
  shows "(\<forall>t t' c. po_local s t = Some c \<longrightarrow> po_local s t' = Some c \<longrightarrow> t = t')
     \<and> (\<forall>c \<in> set (po_open s). c \<in> set (po_all s) \<or> (\<exists>t. pc t = Holding c))
     \<and> ((\<forall>t. pc t = Outside) \<longrightarrow> po_open (close_pool s) = []
        \<and> (\<forall>t wal. connection t wal (close_pool s) = (Inl Closed_Database, close_pool s)))"
proof -
  have "pool_ok ((\<lambda>_. Outside), new_pool)" by (simp add: pool_ok_def has_handle_def new_pool_def)
  with assms have ok: "pool_ok (pc, s)"
    by (induction rule: rtranclp_induct) (simp_all add: pool_step_ok)
  then have "po_open (close_pool s) = []" if "\<forall>t. pc t = Outside"
    using that by (auto simp: pool_ok_def close_pool_def close_flag_def close_handles_def filter_empty_conv)
  moreover have "connection t wal (close_pool s) = (Inl Closed_Database, close_pool s)" for t wal
    by (simp add: connection_def close_pool_def close_flag_def op_defs)
  moreover have "t = t'" if "po_local s t = Some c" "po_local s t' = Some c" for t t' c
    using ok that unfolding pool_ok_def has_handle_def by blast
  ultimately show ?thesis using ok by (simp add: pool_ok_def)
qed

text \<open>Two threads, one of them done: the other's handle is not touched, and the pool closes.\<close>

lemma pool_closes_witness:
  "\<exists>pc s. pool_reach (pc, s) \<and> po_open s \<noteq> [] \<and> po_open (close_pool s) = []"
proof -
  let ?s1 = "new_pool\<lparr>po_open := [0], po_next := 1\<rparr>"
  let ?s2 = "register ''main'' 0 ?s1"
  have "pool_step ((\<lambda>_. Outside), new_pool) ((\<lambda>_. Outside)(''main'' := Past_Checks), new_pool)"
    by (rule checked) (simp_all add: new_pool_def)
  moreover have "pool_step ((\<lambda>_. Outside)(''main'' := Past_Checks), new_pool) ((\<lambda>_. Outside)(''main'' := Past_Checks, ''main'' := Holding 0), ?s1)"
    by (rule opened) (simp_all add: open_conn_def new_pool_def)
  moreover have "pool_step ((\<lambda>_. Outside)(''main'' := Past_Checks, ''main'' := Holding 0), ?s1)
      (((\<lambda>_. Outside)(''main'' := Past_Checks, ''main'' := Holding 0))(''main'' := Outside), ?s2)"
    by (rule registered) simp
  ultimately have "pool_reach (((\<lambda>_. Outside)(''main'' := Past_Checks, ''main'' := Holding 0))(''main'' := Outside), ?s2)"
    by (meson r_into_rtranclp rtranclp_trans)
  moreover from pool_closes [OF this] have "po_open (close_pool ?s2) = []" by simp
  ultimately show ?thesis by (intro exI conjI) (assumption, simp_all add: register_def)
qed

text \<open>
  A thread between its check and its registration when \<open>close\<close> runs keeps an open handle, and the
  next \<open>close\<close> is the only thing that would close it.
\<close>

lemma close_race:
  "let s1 = snd (open_conn True new_pool); s2 = register ''worker'' 0 (close_pool s1)
   in po_closed s2 \<and> po_open s2 = [0] \<and> po_all s2 = [0]"
  by (simp add: Let_def open_conn_def new_pool_def register_def close_pool_def close_flag_def close_handles_def)

end
