(* ===== verification/Heart_Duties.thy ===== *)
theory Heart_Duties
  imports Heart Opencode_Runner "HOL-Library.Multiset"
begin

text \<open>
  The benched duties of the Heart: request triage (\<open>heart/triage.py\<close>), context curation
  (\<open>heart/curation.py\<close>) and structured extraction (\<open>heart/extraction.py\<close>), each the prompt, the
  guarded generation of \<open>Heart\<close>, and a strict reading of the reply. \<open>json.loads\<close> is a parameter, as
  in \<open>Opencode_Runner\<close>; the texts of the prompts are parameters too, with the fields they fill.
\<close>

datatype 'e duty_error = Heart_Refused runtime_error | Parser_Raised 'e | Int_Too_Long

definition generate_reply ::
  "'x backend \<Rightarrow> nat option \<Rightarrow> string \<Rightarrow> (runtime \<times> 'x, 'e duty_error, string) op" where
  "generate_reply b max_tokens prompt hx = (case heart_generate b prompt max_tokens hx of
     (Inl e, hx1) \<Rightarrow> (Inl (Heart_Refused e), hx1) | (Inr raw, hx1) \<Rightarrow> (Inr raw, hx1))"

section \<open>Triage\<close>

datatype triage_class = TRIVIAL | TOOL_ONLY | COMPLEX

definition routes_to_brain :: "triage_class \<Rightarrow> bool" where
  "routes_to_brain c \<longleftrightarrow> c \<noteq> TRIVIAL"

definition separator_variants :: "(string \<times> triage_class) list" where
  "separator_variants = [(''trivial'', TRIVIAL), (''tool-only'', TOOL_ONLY), (''tool_only'', TOOL_ONLY),
     (''toolonly'', TOOL_ONLY), (''complex'', COMPLEX)]"

definition try_parse_triage :: "string \<Rightarrow> triage_class option" where
  "try_parse_triage raw =
     (let after_thinking = after_last think_mark raw;
          normalized = lower (strip_by is_space after_thinking);
          word = strip_by is_mark (first_word normalized)
      in map_of separator_variants word)"

definition parse_triage :: "string \<Rightarrow> triage_class" where
  "parse_triage raw = (case try_parse_triage raw of None \<Rightarrow> COMPLEX | Some c \<Rightarrow> c)"

record triage_outcome =
  to_request :: string
  to_class :: triage_class
  to_parsed :: "triage_class option"
  to_raw_output :: string
  to_prompt_tokens :: nat

definition classify :: "'x backend \<Rightarrow> template \<Rightarrow> nat option \<Rightarrow> string \<Rightarrow> (runtime \<times> 'x, 'e duty_error, triage_outcome) op" where
  "classify b template max_tokens request =
     (let prompt = render template request in
      op_bind (generate_reply b max_tokens prompt) (\<lambda>raw.
        let parsed = try_parse_triage raw in
        ret \<lparr>to_request = request, to_class = (case parsed of Some c \<Rightarrow> c | None \<Rightarrow> parse_triage raw),
             to_parsed = parsed, to_raw_output = raw, to_prompt_tokens = hb_token_count b prompt\<rparr>))"

lemma variant_letters:
  "(w, c) \<in> set separator_variants \<Longrightarrow> w \<noteq> [] \<and> list_all (\<lambda>c. \<not> is_space c \<and> \<not> is_mark c) w"
  by (auto simp: separator_variants_def is_space_def is_mark_def)

lemma variants_map: "map_of separator_variants w = Some c \<longleftrightarrow> (w, c) \<in> set separator_variants"
proof -
  have "distinct (map fst separator_variants)" by (simp add: separator_variants_def)
  then show ?thesis by (metis map_of_SomeD map_of_is_SomeI)
qed

text \<open>
  Triage can only fail towards the Brain: a classified request is answered without it exactly
  when the reply of the model, after its last thinking mark, opens with the word trivial, up to case
  and punctuation; every other reply, empty, ambiguous or garbled, routes to the Brain.
\<close>

theorem triage_fails_to_brain:
  assumes "classify b template max_tokens request (h, x) = (Inr out, hx)"
  shows "\<not> routes_to_brain (to_class out) \<longleftrightarrow> opens_with (after_last think_mark (to_raw_output out)) ''trivial''"
proof -
  let ?a = "after_last think_mark (to_raw_output out)"
  have out: "to_class out = (case map_of separator_variants (answer_word ?a) of Some c \<Rightarrow> c | None \<Rightarrow> COMPLEX)"
    using assms by (auto simp: classify_def Let_def op_bind_def ret_def parse_triage_def try_parse_triage_def answer_word_def
        split: prod.splits sum.splits option.splits)
  have "to_class out = TRIVIAL \<longleftrightarrow> (answer_word ?a, TRIVIAL) \<in> set separator_variants"
    unfolding out variants_map [symmetric] by (auto split: option.split)
  also have "\<dots> \<longleftrightarrow> answer_word ?a = ''trivial''" by (auto simp: separator_variants_def)
  also have "\<dots> \<longleftrightarrow> opens_with ?a ''trivial''"
    using answer_word_opens [of ?a "''trivial''"] opens_answer_word [of ?a "''trivial''"] variant_letters [of "''trivial''" TRIVIAL]
    by (auto simp: separator_variants_def)
  finally show ?thesis by (simp add: routes_to_brain_def)
qed

definition sample_backend :: "string \<Rightarrow> unit backend" where
  "sample_backend reply = \<lparr>hb_load = (\<lambda>x. (Inr (), x)), hb_unload = (\<lambda>x. (Inr (), x)), hb_token_count = length,
     hb_generate = (\<lambda>_ _ x. (Inr reply, x))\<rparr>"

definition sample_heart :: runtime where
  "sample_heart = \<lparr>hr_context_tokens = 4096, hr_max_output_tokens = 64, hr_loaded = True\<rparr>"

lemma triage_fails_to_brain_witness:
  "\<exists>out hx. (classify (sample_backend ''Maybe trivial?'') ([], []) None ''rename a file'' (sample_heart, ())
       :: (string duty_error + triage_outcome) \<times> _) = (Inr out, hx)
     \<and> routes_to_brain (to_class out) \<and> \<not> opens_with (after_last think_mark (to_raw_output out)) ''trivial''"
proof -
  let ?run = "classify (sample_backend ''Maybe trivial?'') ([], []) None ''rename a file'' (sample_heart, ())
       :: (string duty_error + triage_outcome) \<times> _"
  have "?run = (Inr \<lparr>to_request = ''rename a file'', to_class = COMPLEX, to_parsed = None,
      to_raw_output = ''Maybe trivial?'', to_prompt_tokens = 13\<rparr>, (sample_heart, ()))" by code_simp
  from triage_fails_to_brain [OF this] this show ?thesis by (simp add: routes_to_brain_def)
qed

section \<open>Curation\<close>

record curation_event =
  ce_sequence :: int
  ce_raw_type :: string
  ce_payload :: string

definition render_event :: "curation_event \<Rightarrow> string" where
  "render_event e = ''['' @ show_int (ce_sequence e) @ ''] '' @ ce_raw_type e @ '': '' @ ce_payload e"

text \<open>Both loops: add while the next event fits, stop at the first that does not, and tell whether one did not.\<close>

fun keep_within :: "(string \<Rightarrow> nat) \<Rightarrow> int \<Rightarrow> int \<Rightarrow> curation_event list \<Rightarrow> int list \<times> bool" where
  "keep_within token_count budget cumulative [] = ([], False)"
| "keep_within token_count budget cumulative (e # es) =
     (let cost = int (token_count (render_event e)) in
      if cumulative + cost > budget then ([], True)
      else case keep_within token_count budget (cumulative + cost) es of (kept, exceeded) \<Rightarrow> (ce_sequence e # kept, exceeded))"

definition recency_window_selection :: "curation_event list \<Rightarrow> int \<Rightarrow> (string \<Rightarrow> nat) \<Rightarrow> int set" where
  "recency_window_selection events budget token_count =
     set (fst (keep_within token_count budget 0 (rev (sort_key ce_sequence (rev events)))))"

text \<open>The numbers of a text, from left to right; \<open>int\<close> refuses one of more than 4300 digits.\<close>

definition is_dec :: "char \<Rightarrow> bool" where
  "is_dec c \<longleftrightarrow> c \<in> set ''0123456789''"

function digit_runs :: "string \<Rightarrow> string list" where
  "digit_runs s = (case dropWhile (\<lambda>c. \<not> is_dec c) s of [] \<Rightarrow> []
     | c # r \<Rightarrow> (c # takeWhile is_dec r) # digit_runs (dropWhile is_dec r))"
  by auto
termination
proof (relation "measure length")
  fix s c r assume "dropWhile (\<lambda>c. \<not> is_dec c) s = c # r"
  then have "length (c # r) \<le> length s" by (metis length_dropWhile_le)
  moreover have "length (dropWhile is_dec r) \<le> length r" by (rule length_dropWhile_le)
  ultimately show "(dropWhile is_dec r, s) \<in> measure length" by simp
qed simp

declare digit_runs.simps [simp del]

definition max_int_digits :: nat where
  "max_int_digits = 4300"

definition int_of_digits :: "string \<Rightarrow> int" where
  "int_of_digits s = foldl (\<lambda>a c. a * 10 + (of_char c - 48)) 0 s"

fun mentioned :: "int set \<Rightarrow> string list \<Rightarrow> int list \<Rightarrow> 'e duty_error + int list" where
  "mentioned valid [] ordered = Inr ordered"
| "mentioned valid (s # ss) ordered =
     (if length s > max_int_digits then Inl Int_Too_Long
      else let value = int_of_digits s in
        if value \<in> valid \<and> value \<notin> set ordered then mentioned valid ss (ordered @ [value]) else mentioned valid ss ordered)"

definition try_parse_curation :: "string \<Rightarrow> int set \<Rightarrow> 'e duty_error + int list option" where
  "try_parse_curation raw valid = (case mentioned valid (digit_runs (after_last think_mark raw)) [] of
     Inl e \<Rightarrow> Inl e | Inr ordered \<Rightarrow> Inr (if ordered = [] then None else Some ordered))"

definition enforce_selection :: "curation_event list \<Rightarrow> int list \<Rightarrow> int \<Rightarrow> (string \<Rightarrow> nat) \<Rightarrow> int set \<times> bool" where
  "enforce_selection events ordered budget token_count =
     (let by_sequence = map_of (rev (map (\<lambda>e. (ce_sequence e, e)) events));
          (kept, exceeded) = keep_within token_count budget 0 (map (\<lambda>i. the (by_sequence i)) ordered)
      in (set kept, exceeded))"

record curation_outcome =
  cu_selected :: "int set"
  cu_parsed :: "int set option"
  cu_raw_output :: string
  cu_prompt_tokens :: nat
  cu_exceeded :: bool

definition max_events :: "int \<Rightarrow> nat list \<Rightarrow> int" where
  "max_events budget tokens =
     (let average = (if tokens = [] then 1 else of_nat (sum_list tokens) / of_nat (length tokens) :: rat)
      in if average > 0 then max 1 \<lfloor>of_int budget / average\<rfloor> else int (length tokens))"

definition curate ::
  "'x backend \<Rightarrow> (string \<Rightarrow> string \<Rightarrow> string) \<Rightarrow> nat option \<Rightarrow> curation_event list \<Rightarrow> int \<Rightarrow> (runtime \<times> 'x, 'e duty_error, curation_outcome) op" where
  "curate b template max_tokens events budget =
     (let valid = set (map ce_sequence events); rendered = map render_event events;
          prompt = template (join [CHR 0x0A] rendered) (show_int (max_events budget (map (hb_token_count b) rendered)))
      in op_bind (generate_reply b max_tokens prompt) (\<lambda>raw.
        let fallback = recency_window_selection events budget (hb_token_count b) in
        case try_parse_curation raw valid of
          Inl e \<Rightarrow> raise e
        | Inr None \<Rightarrow> ret \<lparr>cu_selected = fallback, cu_parsed = None, cu_raw_output = raw,
            cu_prompt_tokens = hb_token_count b prompt, cu_exceeded = False\<rparr>
        | Inr (Some ordered) \<Rightarrow>
            let (selected, exceeded) = enforce_selection events ordered budget (hb_token_count b)
            in ret \<lparr>cu_selected = selected, cu_parsed = Some (set ordered), cu_raw_output = raw,
                 cu_prompt_tokens = hb_token_count b prompt, cu_exceeded = exceeded\<rparr>))"

subsection \<open>The budget\<close>

definition tokens_of :: "(string \<Rightarrow> nat) \<Rightarrow> curation_event list \<Rightarrow> int" where
  "tokens_of token_count es = (\<Sum>e\<leftarrow>es. int (token_count (render_event e)))"

lemma tokens_of_simps [simp]: "tokens_of tc [] = 0" "tokens_of tc (e # es) = int (tc (render_event e)) + tokens_of tc es"
  by (simp_all add: tokens_of_def)

lemma tokens_of_nonneg [simp]: "0 \<le> tokens_of tc es"
  by (induction es) simp_all

lemma keep_within_prefix:
  obtains n where "n \<le> length es" and "keep_within tc b u es = (map ce_sequence (take n es), n < length es)"
    and "n = 0 \<or> u + tokens_of tc (take n es) \<le> b" and "n < length es \<longrightarrow> b < u + tokens_of tc (take (Suc n) es)"
proof (induction es arbitrary: u thesis)
  case Nil
  then show ?case by simp
next
  case (Cons e es)
  let ?c = "int (tc (render_event e))"
  show ?case
  proof (cases "u + ?c > b")
    case True
    then show ?thesis by (intro Cons.prems [of 0]) simp_all
  next
    case False
    obtain n where "n \<le> length es" "keep_within tc b (u + ?c) es = (map ce_sequence (take n es), n < length es)"
      "n = 0 \<or> u + ?c + tokens_of tc (take n es) \<le> b" "n < length es \<longrightarrow> b < u + ?c + tokens_of tc (take (Suc n) es)"
      by (rule Cons.IH)
    then show ?thesis using False by (intro Cons.prems [of "Suc n"]) auto
  qed
qed

lemma tokens_take_le: "tokens_of tc (take n es) \<le> tokens_of tc es"
proof -
  have "tokens_of tc es = tokens_of tc (take n es) + tokens_of tc (drop n es)"
    by (simp add: tokens_of_def flip: sum_list_append map_append)
  then show ?thesis using tokens_of_nonneg [of tc "drop n es"] by linarith
qed

lemma keep_within_exceeds: "snd (keep_within tc b 0 es) \<longleftrightarrow> es \<noteq> [] \<and> b < tokens_of tc es"
proof -
  obtain n where n: "n \<le> length es" "keep_within tc b 0 es = (map ce_sequence (take n es), n < length es)"
    "n = 0 \<or> 0 + tokens_of tc (take n es) \<le> b" "n < length es \<longrightarrow> b < 0 + tokens_of tc (take (Suc n) es)"
    by (rule keep_within_prefix)
  show ?thesis using n tokens_take_le [of tc "Suc n" es] by (cases "n = length es") auto
qed

lemma keep_within_all: "\<not> snd (keep_within tc b 0 es) \<Longrightarrow> fst (keep_within tc b 0 es) = map ce_sequence es"
  by (rule keep_within_prefix [of es tc b 0]) auto

lemma mentioned_valid:
  "mentioned valid ss ordered = Inr found \<Longrightarrow> distinct ordered \<Longrightarrow> set ordered \<subseteq> valid \<Longrightarrow> distinct found \<and> set found \<subseteq> valid"
  by (induction ss arbitrary: ordered) (auto simp: Let_def split: if_splits)

lemma tokens_of_set:
  assumes "distinct (map ce_sequence events)" "distinct es" "set es \<subseteq> set events"
  shows "tokens_of tc (filter (\<lambda>e. ce_sequence e \<in> set (map ce_sequence es)) events) = tokens_of tc es"
proof -
  have "set (filter (\<lambda>e. ce_sequence e \<in> set (map ce_sequence es)) events) = set es"
    using assms by (auto simp: distinct_map inj_on_def)
  moreover have "distinct (filter (\<lambda>e. ce_sequence e \<in> set (map ce_sequence es)) events)"
    using assms(1) by (simp add: distinct_map)
  ultimately show ?thesis using assms(2) by (simp add: tokens_of_def sum_list_distinct_conv_sum_set)
qed

lemma by_sequence:
  assumes "distinct (map ce_sequence events)" "i \<in> set (map ce_sequence events)"
  shows "the (map_of (rev (map (\<lambda>e. (ce_sequence e, e)) events)) i) \<in> set events"
    "ce_sequence (the (map_of (rev (map (\<lambda>e. (ce_sequence e, e)) events)) i)) = i"
proof -
  from assms(2) obtain e where e: "e \<in> set events" "ce_sequence e = i" by auto
  have "map fst (rev (map (\<lambda>e. (ce_sequence e, e)) events)) = rev (map ce_sequence events)" by (simp add: rev_map comp_def)
  then have "map_of (rev (map (\<lambda>e. (ce_sequence e, e)) events)) i = Some e"
    using assms(1) e by (intro map_of_is_SomeI) auto
  with e show "the (map_of (rev (map (\<lambda>e. (ce_sequence e, e)) events)) i) \<in> set events"
    "ce_sequence (the (map_of (rev (map (\<lambda>e. (ce_sequence e, e)) events)) i)) = i" by simp_all
qed

text \<open>What either loop keeps of some of the events is within the budget.\<close>

lemma keep_within_budget:
  fixes tc :: "string \<Rightarrow> nat" and b :: int
  assumes "distinct (map ce_sequence events)" "distinct (map ce_sequence es)" "set es \<subseteq> set events"
  defines "kept \<equiv> set (fst (keep_within tc b 0 es))"
  shows "kept \<subseteq> set (map ce_sequence es)"
    and "tokens_of tc (filter (\<lambda>e. ce_sequence e \<in> kept) events) \<le> max 0 b"
    and "snd (keep_within tc b 0 es) \<longleftrightarrow> kept \<noteq> set (map ce_sequence es)"
proof -
  obtain n where n: "n \<le> length es" "keep_within tc b 0 es = (map ce_sequence (take n es), n < length es)"
    "n = 0 \<or> 0 + tokens_of tc (take n es) \<le> b"
    by (rule keep_within_prefix)
  then have kept: "kept = set (map ce_sequence (take n es))" by (simp add: kept_def)
  then show "kept \<subseteq> set (map ce_sequence es)" by (auto dest: in_set_takeD)
  have "distinct (take n es)" "set (take n es) \<subseteq> set events" using assms(2,3) by (auto simp: distinct_map dest: in_set_takeD)
  then show "tokens_of tc (filter (\<lambda>e. ce_sequence e \<in> kept) events) \<le> max 0 b"
    using tokens_of_set [OF assms(1), of "take n es" tc] n(3) unfolding kept by auto
  have "card kept = n" using assms(2) n(1) unfolding kept by (simp add: distinct_card take_map flip: take_map)
  then have "kept = set (map ce_sequence es) \<longleftrightarrow> n = length es"
    using assms(2) distinct_card [OF assms(2)] kept by auto
  then show "snd (keep_within tc b 0 es) \<longleftrightarrow> kept \<noteq> set (map ce_sequence es)" using n(1,2) by auto
qed

lemma curate_cases:
  fixes out :: curation_outcome
  assumes "curate b template max_tokens events budget hx0 = (Inr out :: 'e duty_error + curation_outcome, hx)"
  obtains (fallback) "cu_selected out = recency_window_selection events budget (hb_token_count b)" "cu_parsed out = None"
      "\<not> cu_exceeded out"
    | (named) raw ordered where "try_parse_curation raw (set (map ce_sequence events)) = (Inr (Some ordered) :: 'e duty_error + int list option)"
      "cu_parsed out = Some (set ordered)"
      "enforce_selection events ordered budget (hb_token_count b) = (cu_selected out, cu_exceeded out)"
proof -
  from assms obtain raw hx1 where "(case try_parse_curation raw (set (map ce_sequence events)) :: 'e duty_error + int list option of
          Inl e \<Rightarrow> raise e
        | Inr None \<Rightarrow> ret \<lparr>cu_selected = recency_window_selection events budget (hb_token_count b), cu_parsed = None,
            cu_raw_output = raw, cu_prompt_tokens = hb_token_count b (template (join [CHR 0x0A] (map render_event events))
              (show_int (max_events budget (map (hb_token_count b) (map render_event events))))), cu_exceeded = False\<rparr>
        | Inr (Some ordered) \<Rightarrow> (case enforce_selection events ordered budget (hb_token_count b) of (selected, exceeded) \<Rightarrow>
            ret \<lparr>cu_selected = selected, cu_parsed = Some (set ordered), cu_raw_output = raw,
              cu_prompt_tokens = hb_token_count b (template (join [CHR 0x0A] (map render_event events))
              (show_int (max_events budget (map (hb_token_count b) (map render_event events))))), cu_exceeded = exceeded\<rparr>)) hx1 = (Inr out, hx)"
    unfolding curate_def Let_def by (rule op_bind_okE) (rule that)
  then show ?thesis
    by (cases "try_parse_curation raw (set (map ce_sequence events)) :: 'e duty_error + int list option")
      (auto simp: raise_def ret_def split: option.splits prod.splits intro: fallback named)
qed

text \<open>
  C34. Whatever the model answers, the curated selection holds events of the transcript only and
  their rendered tokens fit the budget. A reply that names no event falls back to the recency
  window; otherwise the selection is part of what the model named, and the outcome says the
  budget was exceeded exactly when something named was dropped, which is exactly when all of it
  together would not have fitted.
\<close>

theorem curate_within_budget:
  assumes "distinct (map ce_sequence events)"
    and "curate b template max_tokens events budget (h, x) = (Inr out, hx)"
  shows "cu_selected out \<subseteq> set (map ce_sequence events)
     \<and> tokens_of (hb_token_count b) (filter (\<lambda>e. ce_sequence e \<in> cu_selected out) events) \<le> max 0 budget
     \<and> (case cu_parsed out of
          None \<Rightarrow> cu_selected out = recency_window_selection events budget (hb_token_count b) \<and> \<not> cu_exceeded out
        | Some p \<Rightarrow> p \<noteq> {} \<and> cu_selected out \<subseteq> p \<and> (cu_exceeded out \<longleftrightarrow> cu_selected out \<noteq> p)
            \<and> (cu_exceeded out \<longleftrightarrow> budget < tokens_of (hb_token_count b) (filter (\<lambda>e. ce_sequence e \<in> p) events)))"
proof -
  let ?tc = "hb_token_count b" and ?valid = "set (map ce_sequence events)"
  from assms(2) show ?thesis
  proof (cases rule: curate_cases)
    case fallback
    let ?newest = "rev (sort_key ce_sequence (rev events))"
    have "mset (map ce_sequence ?newest) = mset (map ce_sequence events)" by (simp only: mset_map mset_rev mset_sort)
    then have "distinct (map ce_sequence ?newest)" using assms(1) mset_eq_imp_distinct_iff by blast
    note keep = keep_within_budget [OF assms(1) this, of ?tc budget]
    show ?thesis using keep(1,2) fallback by (simp add: recency_window_selection_def)
  next
    case (named raw ordered)
    then have ord: "distinct ordered" "set ordered \<subseteq> ?valid" "ordered \<noteq> []"
      using mentioned_valid [of ?valid _ "[]" ordered]
      by (auto simp: try_parse_curation_def split: sum.splits if_splits)
    define es where "es = map (\<lambda>i. the (map_of (rev (map (\<lambda>e. (ce_sequence e, e)) events)) i)) ordered"
    have es: "map ce_sequence es = ordered" "set es \<subseteq> set events"
      using by_sequence [OF assms(1)] ord(2) by (auto simp: es_def intro!: map_idI)
    have sel: "cu_selected out = set (fst (keep_within ?tc budget 0 es))" "cu_exceeded out = snd (keep_within ?tc budget 0 es)"
      using named(3) by (auto simp: enforce_selection_def es_def Let_def split: prod.splits)
    have dist: "distinct (map ce_sequence es)" using ord(1) es(1) by simp
    note keep = keep_within_budget [OF assms(1) dist es(2), of ?tc budget]
    have "tokens_of ?tc (filter (\<lambda>e. ce_sequence e \<in> set ordered) events) = tokens_of ?tc es"
      using tokens_of_set [OF assms(1) _ es(2), of ?tc] es(1) distinct_map [THEN iffD1, OF dist] by simp
    moreover have "es \<noteq> []" using es(1) ord(3) by auto
    ultimately show ?thesis
      using keep keep_within_exceeds [of ?tc budget es] ord(2,3) named(2) unfolding sel es(1) by auto
  qed
qed

definition sample_events :: "curation_event list" where
  "sample_events = [\<lparr>ce_sequence = 0, ce_raw_type = ''text'', ce_payload = ''start''\<rparr>,
     \<lparr>ce_sequence = 1, ce_raw_type = ''error'', ce_payload = ''denied''\<rparr>]"

lemma curate_within_budget_witness:
  "\<exists>out hx. (curate (sample_backend ''Events 1, 7 and 0'') (\<lambda>e m. e @ m) None sample_events 18 (sample_heart, ())
       :: (string duty_error + curation_outcome) \<times> _) = (Inr out, hx)
     \<and> tokens_of length (filter (\<lambda>e. ce_sequence e \<in> cu_selected out) sample_events) \<le> 18"
proof -
  let ?run = "curate (sample_backend ''Events 1, 7 and 0'') (\<lambda>e m. e @ m) None sample_events 18 (sample_heart, ())
       :: (string duty_error + curation_outcome) \<times> _"
  have run: "?run = (Inr \<lparr>cu_selected = {1}, cu_parsed = Some {0, 1}, cu_raw_output = ''Events 1, 7 and 0'', cu_prompt_tokens = 34, cu_exceeded = True\<rparr>, (sample_heart, ()))"
    by code_simp
  have "distinct (map ce_sequence sample_events)" by (simp add: sample_events_def)
  from curate_within_budget [OF this run] show ?thesis using run by (intro exI conjI) (assumption, simp add: sample_backend_def)
qed

section \<open>Extraction\<close>

definition action_value :: "opencode_action \<Rightarrow> string" where
  "action_value a = (case a of RETRY \<Rightarrow> ''retry'' | NUDGE \<Rightarrow> ''nudge'' | COMPACT \<Rightarrow> ''compact''
     | PAUSE_INTAKE \<Rightarrow> ''pause_intake'' | ESCALATE_TO_BRAIN \<Rightarrow> ''escalate_to_brain'')"

definition action_of :: "string \<Rightarrow> opencode_action option" where
  "action_of w = find (\<lambda>a. action_value a = w) [RETRY, NUDGE, COMPACT, PAUSE_INTAKE, ESCALATE_TO_BRAIN]"

datatype failure_cause = SHELL_DENIED | PERMISSION_DENIED | TIMED_OUT | ERRORED | OTHER_CAUSE

definition cause_value :: "failure_cause \<Rightarrow> string" where
  "cause_value c = (case c of SHELL_DENIED \<Rightarrow> ''shell_denied'' | PERMISSION_DENIED \<Rightarrow> ''permission_denied''
     | TIMED_OUT \<Rightarrow> ''timeout'' | ERRORED \<Rightarrow> ''error'' | OTHER_CAUSE \<Rightarrow> ''other'')"

definition cause_of :: "string \<Rightarrow> failure_cause option" where
  "cause_of w = find (\<lambda>c. cause_value c = w) [SHELL_DENIED, PERMISSION_DENIED, TIMED_OUT, ERRORED, OTHER_CAUSE]"

record intervention_candidate =
  ic_run_id :: string
  ic_status :: string
  ic_detail :: string

record intervention_extraction =
  ix_action :: "opencode_action option"
  ix_run_id :: "string option"
  ix_reason :: string

record failure_extraction =
  fx_cause :: failure_cause
  fx_evidence :: int

definition open_brace :: char where "open_brace = CHR 0x7B"
definition close_brace :: char where "close_brace = CHR 0x7D"

text \<open>The scan of \<open>_first_balanced_object\<close> from its first opening brace, by the depth before each character.\<close>

fun balanced_prefix :: "nat \<Rightarrow> string \<Rightarrow> string option" where
  "balanced_prefix depth [] = None"
| "balanced_prefix depth (c # s) =
     (if c = open_brace then map_option (Cons c) (balanced_prefix (depth + 1) s)
      else if c = close_brace then
        (if depth - 1 = 0 then Some [c] else map_option (Cons c) (balanced_prefix (depth - 1) s))
      else map_option (Cons c) (balanced_prefix depth s))"

definition first_balanced_object :: "string \<Rightarrow> string option" where
  "first_balanced_object s = (case dropWhile (\<lambda>c. c \<noteq> open_brace) s of [] \<Rightarrow> None | c # r \<Rightarrow> balanced_prefix 0 (c # r))"

fun first_object :: "(string \<Rightarrow> 'e json_result) \<Rightarrow> string list \<Rightarrow> 'e duty_error + (string \<times> json) list option" where
  "first_object loads [] = Inr None"
| "first_object loads (c # cs) = (case loads c of
     Not_Json \<Rightarrow> first_object loads cs
   | Loads_Raises e \<Rightarrow> Inl (Parser_Raised e)
   | Loaded (JDict kvs) \<Rightarrow> Inr (Some kvs)
   | Loaded _ \<Rightarrow> first_object loads cs)"

definition parse_json_object :: "(string \<Rightarrow> 'e json_result) \<Rightarrow> string \<Rightarrow> 'e duty_error + (string \<times> json) list option" where
  "parse_json_object loads raw =
     (let after_thinking = strip_by is_space (after_last think_mark raw)
      in first_object loads (after_thinking # (case first_balanced_object after_thinking of
           Some balanced \<Rightarrow> if balanced \<noteq> after_thinking then [balanced] else [] | None \<Rightarrow> [])))"

definition max_reason_length :: nat where
  "max_reason_length = 200"

definition read_intervention :: "string set \<Rightarrow> (string \<times> json) list \<Rightarrow> intervention_extraction option" where
  "read_intervention valid_run_ids kvs = (case string_field ''action'' kvs of
     None \<Rightarrow> None
   | Some action_raw \<Rightarrow>
       (case (if lower (strip_by is_space action_raw) = ''none'' then Some None else map_option Some (action_of action_raw)) of
          None \<Rightarrow> None
        | Some action \<Rightarrow>
            (case (case map_of kvs ''run_id'' of None \<Rightarrow> Some None | Some JNull \<Rightarrow> Some None
                   | Some (JStr i) \<Rightarrow> if i \<in> valid_run_ids then Some (Some i) else None | Some _ \<Rightarrow> None) of
               None \<Rightarrow> None
             | Some run_id \<Rightarrow> Some \<lparr>ix_action = action, ix_run_id = run_id,
                 ix_reason = take max_reason_length (case string_field ''reason'' kvs of Some r \<Rightarrow> r | None \<Rightarrow> [])\<rparr>)))"

definition try_parse_intervention ::
  "(string \<Rightarrow> 'e json_result) \<Rightarrow> string \<Rightarrow> string set \<Rightarrow> 'e duty_error + intervention_extraction option" where
  "try_parse_intervention loads raw valid_run_ids = (case parse_json_object loads raw of
     Inl e \<Rightarrow> Inl e | Inr None \<Rightarrow> Inr None | Inr (Some kvs) \<Rightarrow> Inr (read_intervention valid_run_ids kvs))"

definition try_parse_title :: "nat \<Rightarrow> string \<Rightarrow> string option" where
  "try_parse_title max_length raw =
     (let stripped = strip_by is_space (after_last think_mark raw)
      in if stripped = [] then None else if CHR 0x0A \<in> set stripped then None
         else if length stripped > max_length then None else Some stripped)"

definition read_failure :: "int set \<Rightarrow> (string \<times> json) list \<Rightarrow> failure_extraction option" where
  "read_failure valid_sequences kvs = (case string_field ''cause'' kvs of
     None \<Rightarrow> None
   | Some cause_raw \<Rightarrow> (case cause_of cause_raw of
       None \<Rightarrow> None
     | Some cause \<Rightarrow> (case map_of kvs ''evidence_event_seq'' of
         Some (JInt i) \<Rightarrow> if i \<in> valid_sequences then Some \<lparr>fx_cause = cause, fx_evidence = i\<rparr> else None
       | _ \<Rightarrow> None)))"

definition try_parse_failure :: "(string \<Rightarrow> 'e json_result) \<Rightarrow> string \<Rightarrow> int set \<Rightarrow> 'e duty_error + failure_extraction option" where
  "try_parse_failure loads raw valid_sequences = (case parse_json_object loads raw of
     Inl e \<Rightarrow> Inl e | Inr None \<Rightarrow> Inr None | Inr (Some kvs) \<Rightarrow> Inr (read_failure valid_sequences kvs))"

section \<open>The readers and their prompts\<close>

definition line_break :: string where "line_break = [CHR 0x0A]"

definition render_candidate :: "intervention_candidate \<Rightarrow> string" where
  "render_candidate c = ''['' @ ic_run_id c @ ''] '' @ ic_status c @ '': '' @ ic_detail c"

definition render_intervention_state :: "intervention_candidate list \<Rightarrow> bool \<Rightarrow> nat \<Rightarrow> nat \<Rightarrow> nat \<Rightarrow> string" where
  "render_intervention_state candidates intake_paused failed timed_out denied =
     (let rows = (if candidates = [] then [''(no active or recent OpenCode runs)''] else map render_candidate candidates);
          intake = (if intake_paused then ''paused'' else ''accepting new runs'')
      in join line_break rows @ line_break @ ''Intake: '' @ intake @ ''.'' @ line_break @ ''Recent outcomes: ''
         @ decimal failed @ '' failed, '' @ decimal timed_out @ '' timed out, '' @ decimal denied @ '' permission denial(s).'')"

record 'p extraction_outcome =
  xo_parsed :: "'p option"
  xo_raw_output :: string
  xo_prompt_tokens :: nat

text \<open>The tail the three methods share: generate, read, and log what could not be read.\<close>

definition read_reply ::
  "'x backend \<Rightarrow> nat option \<Rightarrow> string \<Rightarrow> (string \<Rightarrow> 'e duty_error + 'p option) \<Rightarrow> (runtime \<times> 'x, 'e duty_error, 'p extraction_outcome) op" where
  "read_reply b max_tokens prompt reader =
     op_bind (generate_reply b max_tokens prompt) (\<lambda>raw. case reader raw of
       Inl e \<Rightarrow> raise e
     | Inr parsed \<Rightarrow> ret \<lparr>xo_parsed = parsed, xo_raw_output = raw, xo_prompt_tokens = hb_token_count b prompt\<rparr>)"

definition extract_intervention where
  "extract_intervention loads b template max_tokens candidates intake_paused failed timed_out denied =
     read_reply b max_tokens (render template (render_intervention_state candidates intake_paused failed timed_out denied))
       (\<lambda>raw. try_parse_intervention loads raw (set (map ic_run_id candidates)))"

definition extract_title ::
  "'x backend \<Rightarrow> (string \<Rightarrow> string \<Rightarrow> string) \<Rightarrow> nat option \<Rightarrow> nat \<Rightarrow> string \<Rightarrow> curation_event list
     \<Rightarrow> (runtime \<times> 'x, 'e duty_error, string extraction_outcome) op" where
  "extract_title b template max_tokens max_title_length prompt events =
     read_reply b max_tokens (template prompt (join line_break (map render_event events)))
       (\<lambda>raw. Inr (try_parse_title max_title_length raw))"

definition extract_failure_cause ::
  "(string \<Rightarrow> 'e json_result) \<Rightarrow> 'x backend \<Rightarrow> template \<Rightarrow> nat option \<Rightarrow> curation_event list
     \<Rightarrow> (runtime \<times> 'x, 'e duty_error, failure_extraction extraction_outcome) op" where
  "extract_failure_cause loads b template max_tokens events =
     read_reply b max_tokens (render template (join line_break (map render_event events)))
       (\<lambda>raw. try_parse_failure loads raw (set (map ce_sequence events)))"

subsection \<open>The first balanced object\<close>

definition brace_depth :: "string \<Rightarrow> int" where
  "brace_depth s = int (count_list s open_brace) - int (count_list s close_brace)"

lemma braces_differ [simp]: "open_brace \<noteq> close_brace" "close_brace \<noteq> open_brace"
  by (simp_all add: open_brace_def close_brace_def)

lemma brace_depth_simps [simp]:
  "brace_depth [] = 0" "brace_depth (open_brace # s) = brace_depth s + 1" "brace_depth (close_brace # s) = brace_depth s - 1"
  "c \<noteq> open_brace \<Longrightarrow> c \<noteq> close_brace \<Longrightarrow> brace_depth (c # s) = brace_depth s"
  by (simp_all add: brace_depth_def)

text \<open>\<open>brace_closed d u\<close>: from depth \<open>d\<close>, the text \<open>u\<close> comes back to nought with its last character and not before.\<close>

definition brace_closed :: "int \<Rightarrow> string \<Rightarrow> bool" where
  "brace_closed d u \<longleftrightarrow> u \<noteq> [] \<and> d + brace_depth u = 0 \<and> (\<forall>n. n < length u \<longrightarrow> 0 < n \<longrightarrow> 0 < d + brace_depth (take n u))"

lemma brace_closed_Cons:
  "brace_closed d (c # u) \<longleftrightarrow> (let d' = d + brace_depth [c] in if u = [] then d' = 0 else 0 < d' \<and> brace_closed d' u)"
proof (cases "u = []")
  case False
  have split: "brace_depth (c # v) = brace_depth [c] + brace_depth v" for v by (simp add: brace_depth_def)
  have "(\<forall>n. n < length (c # u) \<longrightarrow> 0 < n \<longrightarrow> 0 < d + brace_depth (take n (c # u)))
      \<longleftrightarrow> (\<forall>m < length u. 0 < d + brace_depth (c # take m u))"
    by (metis Suc_less_eq gr0_implies_Suc length_Cons take_Suc_Cons zero_less_Suc)
  also have "\<dots> \<longleftrightarrow> 0 < d + brace_depth [c] \<and> (\<forall>m. m < length u \<longrightarrow> 0 < m \<longrightarrow> 0 < d + brace_depth [c] + brace_depth (take m u))"
    using False by (auto simp: split [of "take _ u"] add.assoc)
  finally show ?thesis using False by (simp add: brace_closed_def Let_def split [of u] add.assoc) blast
qed (simp add: brace_closed_def Let_def)

lemma brace_closed_Nil [simp]: "\<not> brace_closed d []"
  by (simp add: brace_closed_def)

lemma balanced_prefix_iff:
  "0 < d \<Longrightarrow> balanced_prefix d s = Some u \<longleftrightarrow> (\<exists>post. s = u @ post) \<and> brace_closed (int d) u"
proof (induction s arbitrary: d u)
  case Nil
  then show ?case by (auto simp: brace_closed_def)
next
  case (Cons c s)
  show ?case
  proof (cases u)
    case Nil
    then show ?thesis by (auto simp: brace_closed_def)
  next
    case (Cons c' u')
    consider "c = open_brace" | "c = close_brace" "d = 1" | "c = close_brace" "1 < d" | "c \<noteq> open_brace" "c \<noteq> close_brace"
      using Cons.prems by fastforce
    then show ?thesis
    proof cases
      case 1
      then show ?thesis using Cons.prems Cons.IH [of "Suc d" u'] by (auto simp: Cons brace_closed_Cons Let_def algebra_simps)
    next
      case 2
      then show ?thesis by (auto simp: Cons brace_closed_Cons Let_def)
    next
      case 3
      then show ?thesis using Cons.IH [of "d - 1" u'] by (auto simp: Cons brace_closed_Cons Let_def of_nat_diff)
    next
      case 4
      then show ?thesis using Cons.prems Cons.IH [of d u'] by (auto simp: Cons brace_closed_Cons Let_def)
    qed
  qed
qed

text \<open>
  The scan is exact: \<open>_first_balanced_object\<close> returns \<open>s\<close> if and only if \<open>s\<close> is the piece of the
  text that starts at its first opening brace and ends where the braces first balance; with no
  opening brace, or braces that never balance, it returns nothing.
\<close>

lemma first_balanced_iff:
  "first_balanced_object t = Some s \<longleftrightarrow>
     (\<exists>pre post. t = pre @ s @ post \<and> open_brace \<notin> set pre \<and> hd s = open_brace \<and> brace_closed 0 s)"
proof
  assume found: "first_balanced_object t = Some s"
  let ?pre = "takeWhile (\<lambda>c. c \<noteq> open_brace) t"
  obtain c r where d: "dropWhile (\<lambda>c. c \<noteq> open_brace) t = c # r"
    using found by (cases "dropWhile (\<lambda>c. c \<noteq> open_brace) t") (auto simp: first_balanced_object_def)
  then have c: "c = open_brace" using hd_dropWhile [of "\<lambda>c. c \<noteq> open_brace" t] by simp
  from found d c obtain u where u: "balanced_prefix (Suc 0) r = Some u" "s = open_brace # u"
    by (auto simp: first_balanced_object_def)
  then obtain post where "r = u @ post" "brace_closed 1 u" by (auto simp: balanced_prefix_iff)
  moreover have "t = ?pre @ c # r" using d by (metis takeWhile_dropWhile_id)
  moreover from \<open>brace_closed 1 u\<close> have "u \<noteq> []" by auto
  ultimately have "t = ?pre @ s @ post" "brace_closed 0 s" using c u(2) by (simp_all add: brace_closed_Cons Let_def)
  moreover have "open_brace \<notin> set ?pre" by (auto dest: set_takeWhileD)
  ultimately show "\<exists>pre post. t = pre @ s @ post \<and> open_brace \<notin> set pre \<and> hd s = open_brace \<and> brace_closed 0 s"
    using u(2) by (intro exI [of _ ?pre] exI [of _ post]) simp
next
  assume "\<exists>pre post. t = pre @ s @ post \<and> open_brace \<notin> set pre \<and> hd s = open_brace \<and> brace_closed 0 s"
  then obtain pre post where t: "t = pre @ s @ post" and pre: "open_brace \<notin> set pre" and s: "hd s = open_brace" "brace_closed 0 s"
    by blast
  from s obtain u where u: "s = open_brace # u" by (cases s) auto
  with s(2) have "brace_closed 1 u" by (auto simp: brace_closed_Cons Let_def split: if_splits)
  then have "balanced_prefix (Suc 0) (u @ post) = Some u" by (auto simp: balanced_prefix_iff)
  moreover have "dropWhile (\<lambda>c. c \<noteq> open_brace) t = open_brace # u @ post"
    using pre by (auto simp: t u dropWhile_append)
  ultimately show "first_balanced_object t = Some s" by (simp add: first_balanced_object_def u)
qed

subsection \<open>What a reading guarantees\<close>

lemma strip_piece: obtains us vs where "s = us @ strip_by p s @ vs"
  by (rule strip_by_parts)

lemma after_last_suffix: "\<exists>us. s = us @ after_last sep s"
proof (induction s)
  case (Cons c s)
  show ?case
  proof (cases "contains sep s")
    case True
    with Cons show ?thesis by (metis after_last.simps(2) append_Cons)
  next
    case False
    then show ?thesis by (cases "starts_with (c # s) sep") (simp_all, metis append_take_drop_id)
  qed
qed simp

lemma parse_json_object_piece:
  assumes "parse_json_object loads raw = Inr (Some kvs)"
  obtains before piece later where "raw = before @ piece @ later" "loads piece = Loaded (JDict kvs)"
proof -
  let ?a = "strip_by is_space (after_last think_mark raw)"
  obtain u where "raw = u @ after_last think_mark raw" using after_last_suffix by blast
  moreover obtain us vs where "after_last think_mark raw = us @ ?a @ vs" by (rule strip_piece)
  ultimately have raw: "raw = (u @ us) @ ?a @ vs" by (metis append_assoc)
  have first: "first_object loads cs = Inr (Some kvs) \<Longrightarrow> \<exists>c \<in> set cs. loads c = Loaded (JDict kvs)" for cs
    by (induction cs) (auto split: json_result.splits json.splits)
  from assms have "first_object loads (?a # (case first_balanced_object ?a of
      Some balanced \<Rightarrow> if balanced \<noteq> ?a then [balanced] else [] | None \<Rightarrow> [])) = Inr (Some kvs)"
    by (simp add: parse_json_object_def Let_def)
  from first [OF this] consider "loads ?a = Loaded (JDict kvs)"
    | s where "first_balanced_object ?a = Some s" "loads s = Loaded (JDict kvs)"
    by (cases "first_balanced_object ?a") (auto split: if_splits)
  then show ?thesis
  proof cases
    case 1
    with raw show ?thesis by (rule that)
  next
    case 2
    then obtain pre post where "?a = pre @ s @ post" unfolding first_balanced_iff by blast
    with raw have "raw = ((u @ us) @ pre) @ s @ (post @ vs)" by simp
    then show ?thesis using 2(2) by (rule that)
  qed
qed

text \<open>The two closed vocabularies.\<close>

lemma action_of_value [simp]: "action_of (action_value a) = Some a"
  by (cases a) (simp_all add: action_of_def action_value_def)

lemma action_of_iff: "action_of w = Some a \<longleftrightarrow> w = action_value a"
  by (cases a) (auto simp: action_of_def action_value_def)

lemma cause_of_iff: "cause_of w = Some c \<longleftrightarrow> w = cause_value c"
  by (cases c) (auto simp: cause_of_def cause_value_def)

lemma read_reply_parsed:
  fixes reader :: "string \<Rightarrow> 'e duty_error + 'p option"
  assumes "read_reply b max_tokens prompt reader hx0 = (Inr out, hx)"
  shows "reader (xo_raw_output out) = Inr (xo_parsed out)"
  using assms unfolding read_reply_def
  by (elim op_bind_okE) (auto simp: raise_def ret_def split: sum.splits)

text \<open>
  C35. The extractor never invents: whatever the model answers, an intervention it returns names no
  run but one it was shown, and names it, its action and its reason in a JSON object that is a
  piece of the reply; the action is the literal none or exactly a word of the closed vocabulary,
  never a near miss; the reason is at most 200 characters of the one in the object.
\<close>

theorem extraction_grounded:
  assumes "extract_intervention loads b template max_tokens candidates intake_paused failed timed_out denied (h, x) = (Inr out, hx)"
    and "xo_parsed out = Some ix"
  shows "(\<exists>before piece later kvs w. xo_raw_output out = before @ piece @ later \<and> loads piece = Loaded (JDict kvs)
       \<and> string_field ''action'' kvs = Some w
       \<and> (case ix_action ix of None \<Rightarrow> lower (strip_by is_space w) = ''none'' | Some a \<Rightarrow> w = action_value a)
       \<and> (case ix_run_id ix of None \<Rightarrow> True
          | Some i \<Rightarrow> map_of kvs ''run_id'' = Some (JStr i) \<and> i \<in> set (map ic_run_id candidates))
       \<and> (ix_reason ix = [] \<or> (\<exists>r. map_of kvs ''reason'' = Some (JStr r) \<and> ix_reason ix = take 200 r)))
     \<and> length (ix_reason ix) \<le> 200"
proof -
  have "try_parse_intervention loads (xo_raw_output out) (set (map ic_run_id candidates)) = Inr (Some ix)"
    using read_reply_parsed [OF assms(1) [unfolded extract_intervention_def]] assms(2) by simp
  then obtain kvs where obj: "parse_json_object loads (xo_raw_output out) = Inr (Some kvs)"
    and read: "read_intervention (set (map ic_run_id candidates)) kvs = Some ix"
    by (auto simp: try_parse_intervention_def split: sum.splits option.splits)
  obtain before piece later where piece: "xo_raw_output out = before @ piece @ later" "loads piece = Loaded (JDict kvs)"
    using obj by (rule parse_json_object_piece)
  have "length (ix_reason ix) \<le> 200" "ix_reason ix = [] \<or> (\<exists>r. map_of kvs ''reason'' = Some (JStr r) \<and> ix_reason ix = take 200 r)"
    using read by (auto simp: read_intervention_def string_field_def max_reason_length_def
      split: option.splits json.splits if_splits)
  moreover have "\<exists>w. string_field ''action'' kvs = Some w
      \<and> (case ix_action ix of None \<Rightarrow> lower (strip_by is_space w) = ''none'' | Some a \<Rightarrow> w = action_value a)"
    using read by (auto simp: read_intervention_def action_of_iff split: option.splits json.splits if_splits)
  moreover have "case ix_run_id ix of None \<Rightarrow> True
      | Some i \<Rightarrow> map_of kvs ''run_id'' = Some (JStr i) \<and> i \<in> set (map ic_run_id candidates)"
    using read by (auto simp: read_intervention_def split: option.splits json.splits if_splits)
  ultimately show ?thesis using piece by blast
qed

text \<open>The object the prompt asks for.\<close>

definition intervention_json :: "intervention_extraction \<Rightarrow> (string \<times> json) list" where
  "intervention_json ix =
     [(''action'', JStr (case ix_action ix of None \<Rightarrow> ''none'' | Some a \<Rightarrow> action_value a)),
      (''run_id'', case ix_run_id ix of None \<Rightarrow> JNull | Some i \<Rightarrow> JStr i), (''reason'', JStr (ix_reason ix))]"

lemma read_intervention_json:
  assumes "\<forall>i. ix_run_id ix = Some i \<longrightarrow> i \<in> valid" and "length (ix_reason ix) \<le> 200"
  shows "read_intervention valid (intervention_json ix) = Some ix"
proof -
  have none: "lower (strip_by is_space (action_value a)) \<noteq> ''none''" "lower (strip_by is_space ''none'') = ''none''" for a
    by (cases a) (simp_all add: action_value_def lower_def strip_by_def is_space_def lower_char_def Let_def)
  show ?thesis
    using assms none by (cases ix) (auto simp: read_intervention_def intervention_json_def string_field_def max_reason_length_def
        split: option.splits)
qed


text \<open>The same of a failure: its cause is a word of the vocabulary, its evidence an event that was shown.\<close>

lemma failure_grounded:
  assumes "extract_failure_cause loads b template max_tokens events (h, x) = (Inr out, hx)" and "xo_parsed out = Some fx"
  shows "fx_evidence fx \<in> set (map ce_sequence events)"
    and "\<exists>before piece later kvs. xo_raw_output out = before @ piece @ later \<and> loads piece = Loaded (JDict kvs)
      \<and> string_field ''cause'' kvs = Some (cause_value (fx_cause fx)) \<and> map_of kvs ''evidence_event_seq'' = Some (JInt (fx_evidence fx))"
proof -
  have "try_parse_failure loads (xo_raw_output out) (set (map ce_sequence events)) = Inr (Some fx)"
    using read_reply_parsed [OF assms(1) [unfolded extract_failure_cause_def]] assms(2) by simp
  then obtain kvs where obj: "parse_json_object loads (xo_raw_output out) = Inr (Some kvs)"
    and read: "read_failure (set (map ce_sequence events)) kvs = Some fx"
    by (auto simp: try_parse_failure_def split: sum.splits option.splits)
  obtain before piece later where piece: "xo_raw_output out = before @ piece @ later" "loads piece = Loaded (JDict kvs)"
    using obj by (rule parse_json_object_piece)
  show "fx_evidence fx \<in> set (map ce_sequence events)"
    using read by (auto simp: read_failure_def split: option.splits json.splits if_splits)
  have "string_field ''cause'' kvs = Some (cause_value (fx_cause fx))" "map_of kvs ''evidence_event_seq'' = Some (JInt (fx_evidence fx))"
    using read by (auto simp: read_failure_def cause_of_iff split: option.splits json.splits if_splits)
  with piece show "\<exists>before piece later kvs. xo_raw_output out = before @ piece @ later \<and> loads piece = Loaded (JDict kvs)
      \<and> string_field ''cause'' kvs = Some (cause_value (fx_cause fx)) \<and> map_of kvs ''evidence_event_seq'' = Some (JInt (fx_evidence fx))"
    by blast
qed

definition sample_answer :: intervention_extraction where
  "sample_answer = \<lparr>ix_action = Some RETRY, ix_run_id = Some ''r1'', ix_reason = ''it failed''\<rparr>"

definition sample_object :: string where
  "sample_object = open_brace # ''retry r1'' @ [close_brace]"

definition sample_loads :: "string \<Rightarrow> string json_result" where
  "sample_loads t = (if t = sample_object then Loaded (JDict (intervention_json sample_answer)) else Not_Json)"

definition sample_reply :: string where
  "sample_reply = ''hm</think> Sure: '' @ sample_object @ ''.''"

lemma sample_closed: "brace_closed 0 sample_object"
  by (simp add: sample_object_def brace_closed_Cons Let_def open_brace_def close_brace_def brace_depth_def)


definition sample_candidates :: "intervention_candidate list" where
  "sample_candidates = [\<lparr>ic_run_id = ''r1'', ic_status = ''failed'', ic_detail = ''exit 1''\<rparr>]"

lemma extraction_grounded_witness:
  "\<exists>out hx. (extract_intervention sample_loads (sample_backend sample_reply) ([], []) None sample_candidates False 1 0 0 (sample_heart, ())
       :: (string duty_error + intervention_extraction extraction_outcome) \<times> _) = (Inr out, hx)
     \<and> xo_parsed out = Some sample_answer \<and> length (ix_reason sample_answer) \<le> 200"
proof -
  let ?run = "extract_intervention sample_loads (sample_backend sample_reply) ([], []) None sample_candidates False 1 0 0 (sample_heart, ())
       :: (string duty_error + intervention_extraction extraction_outcome) \<times> _"
  obtain out where run: "?run = (Inr out, (sample_heart, ()))" and parsed: "xo_parsed out = Some sample_answer"
  proof -
    have "?run = (Inr \<lparr>xo_parsed = Some sample_answer, xo_raw_output = sample_reply, xo_prompt_tokens =
       hb_token_count (sample_backend sample_reply) (render ([], []) (render_intervention_state sample_candidates False 1 0 0))\<rparr>, (sample_heart, ()))"
      by code_simp
    then show ?thesis by (rule that) simp
  qed
  from extraction_grounded [OF run parsed] run parsed show ?thesis by blast
qed

end
