(* ===== verification/Bench.thy ===== *)
theory Bench
  imports Heart_Duties
begin

text \<open>
  The offline bench of the Heart (\<open>heart/eval\<close>): the shared measurement (\<open>metrics.py\<close>), the four
  runners (\<open>runner.py\<close>, \<open>triage_runner.py\<close>, \<open>curation_runner.py\<close>, \<open>extraction_runner.py\<close>) and the
  gates their reports are judged by (\<open>report.py\<close> and its siblings). The ports under test, the
  Brain and the clock are parameters, operations on one state. Floats are rationals; the wording of
  a check and what a report only carries (model, host, commit, time, memory) are left out.
\<close>

section \<open>Measurement\<close>

text \<open>\<open>round\<close>: to the nearest integer, a half to the even one.\<close>

definition round_even :: "rat \<Rightarrow> int" where
  "round_even q = (let f = \<lfloor>q\<rfloor>; d = q - of_int f
     in if d < 1/2 then f else if d > 1/2 then f + 1 else if even f then f else f + 1)"

definition percentile_rank :: "nat \<Rightarrow> rat \<Rightarrow> nat" where
  "percentile_rank n q = nat (max 0 (min (int n - 1) (round_even (q * (of_nat n - 1)))))"

definition percentile :: "rat list \<Rightarrow> rat \<Rightarrow> rat" where
  "percentile values q =
     (let ordered = sort values
      in if length ordered = 1 then ordered ! 0 else ordered ! percentile_rank (length ordered) q)"

definition median :: "nat list \<Rightarrow> rat" where
  "median values =
     (let ordered = sort values; n = length ordered
      in if odd n then of_nat (ordered ! (n div 2)) else (of_nat (ordered ! (n div 2 - 1)) + of_nat (ordered ! (n div 2))) / 2)"

record bench_stats =
  bs_latency_p50 :: rat
  bs_latency_p95 :: rat
  bs_tokens_min :: nat
  bs_tokens_median :: rat
  bs_tokens_max :: nat

definition stats_of :: "rat list \<Rightarrow> nat list \<Rightarrow> bench_stats" where
  "stats_of latencies tokens =
     \<lparr>bs_latency_p50 = (if latencies = [] then 0 else percentile latencies (1/2)),
      bs_latency_p95 = (if latencies = [] then 0 else percentile latencies (19/20)),
      bs_tokens_min = (if tokens = [] then 0 else Min (set tokens)),
      bs_tokens_median = (if tokens = [] then 0 else median tokens),
      bs_tokens_max = (if tokens = [] then 0 else Max (set tokens))\<rparr>"

definition count_where :: "('a \<Rightarrow> bool) \<Rightarrow> 'a list \<Rightarrow> nat" where
  "count_where p xs = length (filter p xs)"

definition rate :: "nat \<Rightarrow> nat \<Rightarrow> rat" where
  "rate numerator denominator = (if denominator = 0 then 0 else of_nat numerator / of_nat denominator)"

text \<open>A result of the two suites that classify: the tick suite over decisions, the triage suite over classes.\<close>

record 'l fixture_result =
  fr_fixture_id :: string
  fr_expected :: 'l
  fr_actual :: "'l option"
  fr_raw_output :: string
  fr_latency :: rat
  fr_prompt_tokens :: nat
  fr_tags :: "string set"

definition correct :: "'l fixture_result \<Rightarrow> bool" where
  "correct r \<longleftrightarrow> fr_actual r = Some (fr_expected r)"

definition parse_fallback :: "'l fixture_result \<Rightarrow> bool" where
  "parse_fallback r \<longleftrightarrow> fr_actual r = None"

record 'l label_metrics =
  lm_accuracy :: rat
  lm_recall_by_label :: "('l \<times> rat) list"
  lm_label_counts :: "('l \<times> nat) list"
  lm_recall_by_tag :: "(string \<times> rat) list"
  lm_tag_counts :: "(string \<times> nat) list"
  lm_parse_fallback_rate :: rat

definition label_metrics :: "'l list \<Rightarrow> 'l fixture_result list \<Rightarrow> 'l label_metrics" where
  "label_metrics labels results =
     (let n = length results;
          count = (\<lambda>l. count_where (\<lambda>r. fr_expected r = l) results);
          hits = (\<lambda>l. count_where (\<lambda>r. fr_expected r = l \<and> correct r) results);
          all_tags = sorted_list_of_set (\<Union> (fr_tags ` set results));
          tag_count = (\<lambda>t. count_where (\<lambda>r. t \<in> fr_tags r) results);
          tag_hits = (\<lambda>t. count_where (\<lambda>r. t \<in> fr_tags r \<and> correct r) results)
      in \<lparr>lm_accuracy = of_nat (count_where correct results) / of_nat n,
          lm_recall_by_label = map (\<lambda>l. (l, rate (hits l) (count l))) labels,
          lm_label_counts = map (\<lambda>l. (l, count l)) labels,
          lm_recall_by_tag = map (\<lambda>t. (t, rate (tag_hits t) (tag_count t))) all_tags,
          lm_tag_counts = map (\<lambda>t. (t, tag_count t)) all_tags,
          lm_parse_fallback_rate = of_nat (count_where parse_fallback results) / of_nat n\<rparr>)"

section \<open>Running a suite\<close>

datatype 'e bench_error = Port_Raised 'e | Zero_Division

definition on_port :: "('s, 'e, 'a) op \<Rightarrow> ('s, 'e bench_error, 'a) op" where
  "on_port m s = (case m s of (Inl e, t) \<Rightarrow> (Inl (Port_Raised e), t) | (Inr x, t) \<Rightarrow> (Inr x, t))"

definition timed :: "('s, 'e, rat) op \<Rightarrow> ('s, 'e, 'a) op \<Rightarrow> ('s, 'e bench_error, 'a \<times> rat) op" where
  "timed perf_counter m =
     on_port (op_bind perf_counter (\<lambda>start. op_bind m (\<lambda>x. op_bind perf_counter (\<lambda>stop. ret (x, stop - start)))))"

text \<open>The averages of an empty suite divide by nought.\<close>

definition report_of :: "('r list \<Rightarrow> 'p) \<Rightarrow> 'r list \<Rightarrow> ('s, 'e bench_error, 'p) op" where
  "report_of build results = (if results = [] then raise Zero_Division else ret (build results))"

record gate_result =
  gr_passed :: bool
  gr_checks :: "bool list"
  gr_latency_threshold :: rat

definition gate_of :: "bool list \<Rightarrow> rat \<Rightarrow> gate_result" where
  "gate_of checks threshold = \<lparr>gr_passed = list_all id checks, gr_checks = checks, gr_latency_threshold = threshold\<rparr>"

definition max_latency_fraction :: rat where
  "max_latency_fraction = 1/5"

subsection \<open>The tick suite\<close>

record tick_fixture =
  tf_id :: string
  tf_expect :: decision
  tf_items :: "snapshot_item list"
  tf_tags :: "string set"

record tick_report =
  tr_results :: "decision fixture_result list"
  tr_metrics :: "decision label_metrics"
  tr_false_on_idle :: nat
  tr_stats :: bench_stats

definition obviously_idle :: string where
  "obviously_idle = ''obviously_idle''"

definition false_act_or_escalate :: "decision fixture_result \<Rightarrow> bool" where
  "false_act_or_escalate r \<longleftrightarrow> fr_actual r = Some ACT \<or> fr_actual r = Some ESCALATE"

definition build_tick_report :: "decision fixture_result list \<Rightarrow> tick_report" where
  "build_tick_report results =
     \<lparr>tr_results = results, tr_metrics = label_metrics [IDLE, ACT, ESCALATE] results,
      tr_false_on_idle = count_where (\<lambda>r. obviously_idle \<in> fr_tags r \<and> false_act_or_escalate r) results,
      tr_stats = stats_of (map fr_latency results) (map fr_prompt_tokens results)\<rparr>"

definition run_tick_fixture ::
  "('s, 'e, rat) op \<Rightarrow> (string \<Rightarrow> ('s, 'e, string) op) \<Rightarrow> (string \<Rightarrow> nat) \<Rightarrow> int \<Rightarrow> template \<Rightarrow> tick_fixture
     \<Rightarrow> ('s, 'e bench_error, decision fixture_result) op" where
  "run_tick_fixture perf_counter generate token_count budget_tokens template f =
     (let prompt = build_prompt (tf_items f) budget_tokens token_count template
      in op_bind (timed perf_counter (generate (tp_text prompt))) (\<lambda>(raw, latency).
          ret \<lparr>fr_fixture_id = tf_id f, fr_expected = tf_expect f, fr_actual = try_parse_decision raw, fr_raw_output = raw,
               fr_latency = latency, fr_prompt_tokens = tp_tokens prompt, fr_tags = tf_tags f\<rparr>))"

definition run_bench ::
  "('s, 'e, rat) op \<Rightarrow> (string \<Rightarrow> ('s, 'e, string) op) \<Rightarrow> (string \<Rightarrow> nat) \<Rightarrow> int \<Rightarrow> template \<Rightarrow> tick_fixture list
     \<Rightarrow> ('s, 'e bench_error, tick_report) op" where
  "run_bench perf_counter generate token_count budget_tokens template fixtures =
     op_bind (op_map (run_tick_fixture perf_counter generate token_count budget_tokens template) fixtures)
       (report_of build_tick_report)"

definition tick_gate :: "rat \<Rightarrow> tick_report \<Rightarrow> gate_result" where
  "tick_gate interval_seconds report =
     (let threshold = interval_seconds * max_latency_fraction
      in gate_of [lm_accuracy (tr_metrics report) \<ge> 9/10, tr_false_on_idle report = 0,
           lm_parse_fallback_rate (tr_metrics report) = 0, bs_latency_p95 (tr_stats report) \<le> threshold] threshold)"

subsection \<open>The triage suite\<close>

record triage_fixture =
  gf_id :: string
  gf_expect :: triage_class
  gf_request :: string
  gf_tags :: "string set"

definition triage_value :: "triage_class \<Rightarrow> string" where
  "triage_value c = (case c of TRIVIAL \<Rightarrow> ''trivial'' | TOOL_ONLY \<Rightarrow> ''tool-only'' | COMPLEX \<Rightarrow> ''complex'')"

definition all_classes :: "triage_class list" where
  "all_classes = [TRIVIAL, TOOL_ONLY, COMPLEX]"

definition routed_to_brain :: "triage_class fixture_result \<Rightarrow> bool" where
  "routed_to_brain r \<longleftrightarrow> (case fr_actual r of None \<Rightarrow> True | Some c \<Rightarrow> routes_to_brain c)"

definition under_route :: "triage_class fixture_result \<Rightarrow> bool" where
  "under_route r \<longleftrightarrow> routes_to_brain (fr_expected r) \<and> \<not> routed_to_brain r"

definition over_route :: "triage_class fixture_result \<Rightarrow> bool" where
  "over_route r \<longleftrightarrow> \<not> routes_to_brain (fr_expected r) \<and> routed_to_brain r"

definition build_confusion :: "triage_class fixture_result list \<Rightarrow> (triage_class \<times> (string \<times> nat) list) list" where
  "build_confusion results = map (\<lambda>l. (l,
      map (\<lambda>c. (triage_value c, count_where (\<lambda>r. fr_expected r = l \<and> fr_actual r = Some c) results)) all_classes
      @ [(''unparsed'', count_where (\<lambda>r. fr_expected r = l \<and> fr_actual r = None) results)])) all_classes"

record triage_report =
  gp_results :: "triage_class fixture_result list"
  gp_metrics :: "triage_class label_metrics"
  gp_complex_to_trivial :: nat
  gp_tool_only_to_trivial :: nat
  gp_over_route_count :: nat
  gp_over_route_rate :: rat
  gp_brain_calls_saved :: rat
  gp_confusion :: "(triage_class \<times> (string \<times> nat) list) list"
  gp_stats :: bench_stats

definition build_triage_report :: "triage_class fixture_result list \<Rightarrow> triage_report" where
  "build_triage_report results =
     (let n = length results
      in \<lparr>gp_results = results, gp_metrics = label_metrics all_classes results,
          gp_complex_to_trivial = count_where (\<lambda>r. fr_expected r = COMPLEX \<and> fr_actual r = Some TRIVIAL) results,
          gp_tool_only_to_trivial = count_where (\<lambda>r. fr_expected r = TOOL_ONLY \<and> fr_actual r = Some TRIVIAL) results,
          gp_over_route_count = count_where over_route results,
          gp_over_route_rate = of_nat (count_where over_route results) / of_nat n,
          gp_brain_calls_saved = of_nat (count_where (\<lambda>r. \<not> routed_to_brain r) results) / of_nat n,
          gp_confusion = build_confusion results,
          gp_stats = stats_of (map fr_latency results) (map fr_prompt_tokens results)\<rparr>)"

definition run_triage_fixture ::
  "('s, 'e, rat) op \<Rightarrow> (string \<Rightarrow> ('s, 'e, triage_outcome) op) \<Rightarrow> triage_fixture
     \<Rightarrow> ('s, 'e bench_error, triage_class fixture_result) op" where
  "run_triage_fixture perf_counter triage f =
     op_bind (timed perf_counter (triage (gf_request f))) (\<lambda>(out, latency).
       ret \<lparr>fr_fixture_id = gf_id f, fr_expected = gf_expect f, fr_actual = to_parsed out,
            fr_raw_output = to_raw_output out, fr_latency = latency, fr_prompt_tokens = to_prompt_tokens out,
            fr_tags = gf_tags f\<rparr>)"

definition run_triage_bench ::
  "('s, 'e, rat) op \<Rightarrow> (string \<Rightarrow> ('s, 'e, triage_outcome) op) \<Rightarrow> triage_fixture list
     \<Rightarrow> ('s, 'e bench_error, triage_report) op" where
  "run_triage_bench perf_counter triage fixtures =
     op_bind (op_map (run_triage_fixture perf_counter triage) fixtures) (report_of build_triage_report)"

definition max_latency_p95 :: rat where
  "max_latency_p95 = 1"

definition min_trivial_recall :: rat where
  "min_trivial_recall = 3/4"

definition triage_gate :: "triage_report \<Rightarrow> gate_result" where
  "triage_gate report =
     gate_of [gp_complex_to_trivial report = 0, gp_tool_only_to_trivial report = 0,
       the (map_of (lm_recall_by_label (gp_metrics report)) TRIVIAL) \<ge> min_trivial_recall,
       lm_parse_fallback_rate (gp_metrics report) = 0, bs_latency_p95 (gp_stats report) \<le> max_latency_p95] max_latency_p95"

subsection \<open>The curation suite\<close>

record curation_fixture =
  cf_id :: string
  cf_events :: "curation_event list"
  cf_must_keep :: "int set"
  cf_failure_cause :: string
  cf_tags :: "string set"

record curation_result =
  cr_fixture_id :: string
  cr_must_keep :: "int set"
  cr_selected_curated :: "int set"
  cr_selected_truncated :: "int set"
  cr_parse_fallback :: bool
  cr_exceeded_budget :: bool
  cr_curated_answer :: string
  cr_truncated_answer :: string
  cr_curated_identified :: bool
  cr_truncated_identified :: bool
  cr_latency :: rat
  cr_prompt_tokens :: nat
  cr_tags :: "string set"

definition curated_recall :: "curation_result \<Rightarrow> bool" where
  "curated_recall r \<longleftrightarrow> cr_must_keep r \<subseteq> cr_selected_curated r"

record curation_report =
  cp_results :: "curation_result list"
  cp_must_keep_recall_rate :: rat
  cp_curated_identified :: nat
  cp_truncated_identified :: nat
  cp_parse_fallback_rate :: rat
  cp_exceeded_budget :: nat
  cp_stats :: bench_stats

definition render_selection :: "curation_event list \<Rightarrow> int set \<Rightarrow> string" where
  "render_selection events selected =
     join line_break (map render_event (sort_key ce_sequence (filter (\<lambda>e. ce_sequence e \<in> selected) events)))"

text \<open>\<open>re.findall("[a-z0-9']+")\<close>\<close>

definition word_char :: "char \<Rightarrow> bool" where
  "word_char c \<longleftrightarrow> c \<in> set ''abcdefghijklmnopqrstuvwxyz0123456789'' \<or> c = CHR 0x27"

function word_runs :: "string \<Rightarrow> string list" where
  "word_runs s = (case dropWhile (\<lambda>c. \<not> word_char c) s of [] \<Rightarrow> []
     | c # r \<Rightarrow> (c # takeWhile word_char r) # word_runs (dropWhile word_char r))"
  by auto

termination
proof (relation "measure length")
  fix s c and r :: string
  assume "dropWhile (\<lambda>c. \<not> word_char c) s = c # r"
  then have "length (c # r) \<le> length s" by (metis length_dropWhile_le)
  moreover have "length (dropWhile word_char r) \<le> length r" by (rule length_dropWhile_le)
  ultimately show "(dropWhile word_char r, s) \<in> measure length" by simp
qed simp

declare word_runs.simps [simp del]

definition identifies_failure_cause :: "string \<Rightarrow> string \<Rightarrow> bool" where
  "identifies_failure_cause answer failure_cause =
     (let answer_lower = lower answer; cause_lower = strip_by is_space (lower failure_cause)
      in if cause_lower = [] then False
         else if contains cause_lower answer_lower then True
         else let words = filter (\<lambda>w. length w > 2) (word_runs cause_lower)
              in if words = [] then False else list_all (\<lambda>w. contains w answer_lower) words)"

definition failure_question :: "string \<Rightarrow> string" where
  "failure_question transcript =
     ''Here is a partial transcript of an OpenCode coding-agent run. What caused it to end the way it did? Answer in 1-3 sentences.''
     @ line_break @ line_break @ ''Transcript:'' @ line_break @ transcript"

text \<open>The answer of a stream: its text, or the error in place of it.\<close>

fun read_answer :: "string list \<Rightarrow> brain_event list \<Rightarrow> string" where
  "read_answer parts [] = concat parts"
| "read_answer parts (Text_Delta t # events) = read_answer (parts @ [t]) events"
| "read_answer parts (Failed c message r u # events) = ''(brain error: '' @ message @ '')''"
| "read_answer parts (Done u # events) = read_answer parts events"

definition ask_brain ::
  "(brain_request \<Rightarrow> ('s, 'e, brain_event list) op) \<Rightarrow> string \<Rightarrow> string \<Rightarrow> nat \<Rightarrow> ('s, 'e, string) op" where
  "ask_brain brain model transcript max_output_tokens =
     op_bind (brain \<lparr>br_messages = [\<lparr>bm_role = ''user'', bm_content = failure_question transcript\<rparr>],
         br_model = model, br_max_output_tokens = max_output_tokens\<rparr>) (\<lambda>events. ret (read_answer [] events))"

definition bench_budget :: "rat \<Rightarrow> (string \<Rightarrow> nat) \<Rightarrow> curation_event list \<Rightarrow> int" where
  "bench_budget fraction token_count events = max 1 \<lfloor>fraction * of_nat (\<Sum>e\<leftarrow>events. token_count (render_event e))\<rfloor>"

definition build_curation_report :: "curation_result list \<Rightarrow> curation_report" where
  "build_curation_report results =
     (let n = length results
      in \<lparr>cp_results = results,
          cp_must_keep_recall_rate = of_nat (count_where curated_recall results) / of_nat n,
          cp_curated_identified = count_where cr_curated_identified results,
          cp_truncated_identified = count_where cr_truncated_identified results,
          cp_parse_fallback_rate = of_nat (count_where cr_parse_fallback results) / of_nat n,
          cp_exceeded_budget = count_where cr_exceeded_budget results,
          cp_stats = stats_of (map cr_latency results) (map cr_prompt_tokens results)\<rparr>)"

definition run_curation_fixture ::
  "('s, 'e, rat) op \<Rightarrow> (curation_event list \<Rightarrow> int \<Rightarrow> ('s, 'e, curation_outcome) op)
     \<Rightarrow> (brain_request \<Rightarrow> ('s, 'e, brain_event list) op) \<Rightarrow> string \<Rightarrow> nat \<Rightarrow> (string \<Rightarrow> nat) \<Rightarrow> rat
     \<Rightarrow> curation_fixture \<Rightarrow> ('s, 'e bench_error, curation_result) op" where
  "run_curation_fixture perf_counter curator brain model max_tokens token_count fraction f =
     (let events = cf_events f; budget = bench_budget fraction token_count events
      in op_bind (timed perf_counter (curator events budget)) (\<lambda>(out, latency).
        let truncated = recency_window_selection events budget token_count
        in op_bind (on_port (ask_brain brain model (render_selection events (cu_selected out)) max_tokens)) (\<lambda>curated_answer.
          op_bind (on_port (ask_brain brain model (render_selection events truncated) max_tokens)) (\<lambda>truncated_answer.
            ret \<lparr>cr_fixture_id = cf_id f, cr_must_keep = cf_must_keep f, cr_selected_curated = cu_selected out,
                 cr_selected_truncated = truncated, cr_parse_fallback = (cu_parsed out = None),
                 cr_exceeded_budget = cu_exceeded out, cr_curated_answer = curated_answer,
                 cr_truncated_answer = truncated_answer,
                 cr_curated_identified = identifies_failure_cause curated_answer (cf_failure_cause f),
                 cr_truncated_identified = identifies_failure_cause truncated_answer (cf_failure_cause f),
                 cr_latency = latency, cr_prompt_tokens = cu_prompt_tokens out, cr_tags = cf_tags f\<rparr>))))"

definition run_curation_bench where
  "run_curation_bench perf_counter curator brain model max_tokens token_count fraction fixtures =
     op_bind (op_map (run_curation_fixture perf_counter curator brain model max_tokens token_count fraction) fixtures)
       (report_of build_curation_report)"

definition curation_gate :: "rat \<Rightarrow> curation_report \<Rightarrow> gate_result" where
  "curation_gate interval_seconds report =
     (let threshold = interval_seconds * max_latency_fraction
      in gate_of [int (cp_curated_identified report) - int (cp_truncated_identified report) \<ge> 1,
           cp_must_keep_recall_rate report = 1, cp_parse_fallback_rate report = 0,
           bs_latency_p95 (cp_stats report) \<le> threshold] threshold)"

subsection \<open>The extraction suite\<close>

record intervention_fixture =
  nf_id :: string
  nf_candidates :: "intervention_candidate list"
  nf_intake_paused :: bool
  nf_recent_failed :: nat
  nf_recent_timeout :: nat
  nf_recent_denied :: nat
  nf_expected_action :: "opencode_action option"
  nf_expected_run_id :: "string option"
  nf_tags :: "string set"

record title_fixture =
  lf_id :: string
  lf_prompt :: string
  lf_events :: "curation_event list"
  lf_expected_title :: string
  lf_tags :: "string set"

record failure_fixture =
  ff_id :: string
  ff_events :: "curation_event list"
  ff_expected_cause :: failure_cause
  ff_expected_evidence :: int
  ff_tags :: "string set"

datatype extraction_fixture =
    Intervention_Fixture intervention_fixture
  | Title_Fixture title_fixture
  | Failure_Fixture failure_fixture

text \<open>Actions from the least to the most disruptive; no action is the least.\<close>

definition action_rank :: "opencode_action option \<Rightarrow> nat" where
  "action_rank a = (case a of None \<Rightarrow> 0 | Some RETRY \<Rightarrow> 1 | Some NUDGE \<Rightarrow> 2 | Some COMPACT \<Rightarrow> 3
     | Some PAUSE_INTAKE \<Rightarrow> 4 | Some ESCALATE_TO_BRAIN \<Rightarrow> 5)"

datatype agreement = Agree | More_Conservative | Less_Conservative | Wrong_Run

definition direction ::
  "opencode_action option \<Rightarrow> string option \<Rightarrow> opencode_action option \<Rightarrow> string option \<Rightarrow> agreement" where
  "direction expected_action expected_run_id actual_action actual_run_id =
     (if actual_action = expected_action then if actual_run_id = expected_run_id then Agree else Wrong_Run
      else if action_rank actual_action > action_rank expected_action then More_Conservative else Less_Conservative)"

record intervention_result =
  nr_fixture_id :: string
  nr_expected_action :: "opencode_action option"
  nr_expected_run_id :: "string option"
  nr_actual_action :: "opencode_action option"
  nr_actual_run_id :: "string option"
  nr_schema_valid :: bool
  nr_raw_output :: string
  nr_prompt_tokens :: nat
  nr_tags :: "string set"

definition result_direction :: "intervention_result \<Rightarrow> agreement option" where
  "result_direction r =
     (if nr_schema_valid r
      then Some (direction (nr_expected_action r) (nr_expected_run_id r) (nr_actual_action r) (nr_actual_run_id r)) else None)"

record title_result =
  lr_fixture_id :: string
  lr_expected_title :: string
  lr_actual_title :: "string option"
  lr_raw_output :: string
  lr_prompt_tokens :: nat
  lr_tags :: "string set"

record failure_result =
  xr_fixture_id :: string
  xr_expected_cause :: failure_cause
  xr_expected_evidence :: int
  xr_actual_cause :: "failure_cause option"
  xr_actual_evidence :: "int option"
  xr_raw_output :: string
  xr_prompt_tokens :: nat
  xr_tags :: "string set"

definition cause_correct :: "failure_result \<Rightarrow> bool" where
  "cause_correct r \<longleftrightarrow> xr_actual_cause r \<noteq> None \<and> xr_actual_cause r = Some (xr_expected_cause r)"

definition evidence_correct :: "failure_result \<Rightarrow> bool" where
  "evidence_correct r \<longleftrightarrow> xr_actual_cause r \<noteq> None \<and> xr_actual_evidence r = Some (xr_expected_evidence r)"

datatype extraction_result =
    Intervention_Result intervention_result
  | Title_Result title_result
  | Failure_Result failure_result

fun prompt_tokens_of :: "extraction_result \<Rightarrow> nat" where
  "prompt_tokens_of (Intervention_Result r) = nr_prompt_tokens r"
| "prompt_tokens_of (Title_Result r) = lr_prompt_tokens r"
| "prompt_tokens_of (Failure_Result r) = xr_prompt_tokens r"

record extraction_report =
  ep_interventions :: "intervention_result list"
  ep_titles :: "title_result list"
  ep_failures :: "failure_result list"
  ep_stats :: bench_stats
  ep_schema_valid_rate :: rat
  ep_hallucinations :: nat
  ep_agreement_rate :: rat
  ep_more_conservative :: nat
  ep_less_conservative :: nat
  ep_wrong_run :: nat
  ep_parse_fallback_rate :: rat
  ep_title_valid_rate :: rat
  ep_title_fallback_rate :: rat
  ep_failure_valid_rate :: rat
  ep_cause_accuracy :: rat
  ep_evidence_accuracy :: rat
  ep_failure_fallback_rate :: rat

definition build_extraction_report ::
  "intervention_result list \<Rightarrow> title_result list \<Rightarrow> failure_result list \<Rightarrow> rat list \<Rightarrow> nat list \<Rightarrow> extraction_report" where
  "build_extraction_report ns ls xs latencies tokens =
     (let n = length ns; valid = count_where nr_schema_valid ns;
          towards = (\<lambda>d. count_where (\<lambda>r. result_direction r = Some d) ns);
          titles = length ls; title_valid = count_where (\<lambda>r. lr_actual_title r \<noteq> None) ls;
          failures = length xs; failure_valid = count_where (\<lambda>r. xr_actual_cause r \<noteq> None) xs
      in \<lparr>ep_interventions = ns, ep_titles = ls, ep_failures = xs, ep_stats = stats_of latencies tokens,
          ep_schema_valid_rate = rate valid n, ep_hallucinations = 0, ep_agreement_rate = rate (towards Agree) n,
          ep_more_conservative = towards More_Conservative, ep_less_conservative = towards Less_Conservative,
          ep_wrong_run = towards Wrong_Run, ep_parse_fallback_rate = rate (n - valid) n,
          ep_title_valid_rate = rate title_valid titles, ep_title_fallback_rate = rate (titles - title_valid) titles,
          ep_failure_valid_rate = rate failure_valid failures,
          ep_cause_accuracy = rate (count_where cause_correct xs) failures,
          ep_evidence_accuracy = rate (count_where evidence_correct xs) failures,
          ep_failure_fallback_rate = rate (failures - failure_valid) failures\<rparr>)"

record ('s, 'e) extractor_port =
  pt_intervention :: "intervention_candidate list \<Rightarrow> bool \<Rightarrow> nat \<Rightarrow> nat \<Rightarrow> nat \<Rightarrow> ('s, 'e, intervention_extraction extraction_outcome) op"
  pt_title :: "string \<Rightarrow> curation_event list \<Rightarrow> ('s, 'e, string extraction_outcome) op"
  pt_failure :: "curation_event list \<Rightarrow> ('s, 'e, failure_extraction extraction_outcome) op"

fun run_extraction_fixture ::
  "('s, 'e, rat) op \<Rightarrow> ('s, 'e) extractor_port \<Rightarrow> extraction_fixture \<Rightarrow> ('s, 'e bench_error, extraction_result \<times> rat) op" where
  "run_extraction_fixture perf_counter port (Intervention_Fixture f) =
     op_bind (timed perf_counter (pt_intervention port (nf_candidates f) (nf_intake_paused f)
        (nf_recent_failed f) (nf_recent_timeout f) (nf_recent_denied f))) (\<lambda>(out, latency).
       ret (Intervention_Result \<lparr>nr_fixture_id = nf_id f, nr_expected_action = nf_expected_action f,
          nr_expected_run_id = nf_expected_run_id f, nr_actual_action = Option.bind (xo_parsed out) ix_action,
          nr_actual_run_id = Option.bind (xo_parsed out) ix_run_id, nr_schema_valid = (xo_parsed out \<noteq> None),
          nr_raw_output = xo_raw_output out, nr_prompt_tokens = xo_prompt_tokens out, nr_tags = nf_tags f\<rparr>, latency))"
| "run_extraction_fixture perf_counter port (Title_Fixture f) =
     op_bind (timed perf_counter (pt_title port (lf_prompt f) (lf_events f))) (\<lambda>(out, latency).
       ret (Title_Result \<lparr>lr_fixture_id = lf_id f, lr_expected_title = lf_expected_title f, lr_actual_title = xo_parsed out,
          lr_raw_output = xo_raw_output out, lr_prompt_tokens = xo_prompt_tokens out, lr_tags = lf_tags f\<rparr>, latency))"
| "run_extraction_fixture perf_counter port (Failure_Fixture f) =
     op_bind (timed perf_counter (pt_failure port (ff_events f))) (\<lambda>(out, latency).
       ret (Failure_Result \<lparr>xr_fixture_id = ff_id f, xr_expected_cause = ff_expected_cause f,
          xr_expected_evidence = ff_expected_evidence f, xr_actual_cause = map_option fx_cause (xo_parsed out),
          xr_actual_evidence = map_option fx_evidence (xo_parsed out), xr_raw_output = xo_raw_output out,
          xr_prompt_tokens = xo_prompt_tokens out, xr_tags = ff_tags f\<rparr>, latency))"

definition interventions_in :: "extraction_result list \<Rightarrow> intervention_result list" where
  "interventions_in rs = concat (map (\<lambda>r. case r of Intervention_Result n \<Rightarrow> [n] | _ \<Rightarrow> []) rs)"

definition titles_in :: "extraction_result list \<Rightarrow> title_result list" where
  "titles_in rs = concat (map (\<lambda>r. case r of Title_Result l \<Rightarrow> [l] | _ \<Rightarrow> []) rs)"

definition failures_in :: "extraction_result list \<Rightarrow> failure_result list" where
  "failures_in rs = concat (map (\<lambda>r. case r of Failure_Result x \<Rightarrow> [x] | _ \<Rightarrow> []) rs)"

definition run_extraction_bench ::
  "('s, 'e, rat) op \<Rightarrow> ('s, 'e) extractor_port \<Rightarrow> extraction_fixture list \<Rightarrow> ('s, 'e bench_error, extraction_report) op" where
  "run_extraction_bench perf_counter port fixtures =
     op_bind (op_map (run_extraction_fixture perf_counter port) fixtures) (\<lambda>measured.
       let results = map fst measured
       in ret (build_extraction_report (interventions_in results) (titles_in results) (failures_in results)
            (map snd measured) (map prompt_tokens_of results)))"

definition max_more_conservative_rate :: rat where "max_more_conservative_rate = 1/5"
definition min_title_valid_rate :: rat where "min_title_valid_rate = 9/10"
definition min_cause_accuracy :: rat where "min_cause_accuracy = 3/4"
definition min_evidence_accuracy :: rat where "min_evidence_accuracy = 3/4"

definition intervention_gate :: "extraction_report \<Rightarrow> gate_result" where
  "intervention_gate report =
     gate_of [ep_parse_fallback_rate report = 0, ep_hallucinations report = 0, ep_less_conservative report = 0,
       ep_wrong_run report = 0,
       rate (ep_more_conservative report) (length (ep_interventions report)) \<le> max_more_conservative_rate,
       bs_latency_p95 (ep_stats report) \<le> max_latency_p95] max_latency_p95"

definition title_gate :: "extraction_report \<Rightarrow> gate_result" where
  "title_gate report =
     gate_of [ep_title_valid_rate report \<ge> min_title_valid_rate, bs_latency_p95 (ep_stats report) \<le> max_latency_p95] max_latency_p95"

definition failure_gate :: "extraction_report \<Rightarrow> gate_result" where
  "failure_gate report =
     gate_of [ep_failure_fallback_rate report = 0, ep_cause_accuracy report \<ge> min_cause_accuracy,
       ep_evidence_accuracy report \<ge> min_evidence_accuracy, bs_latency_p95 (ep_stats report) \<le> max_latency_p95] max_latency_p95"

section \<open>What the measurement means\<close>

lemma count_where_simps [simp]: "count_where p [] = 0" "count_where p (x # xs) = (if p x then 1 else 0) + count_where p xs"
  by (simp_all add: count_where_def)

lemma count_where_0 [simp]: "count_where p xs = 0 \<longleftrightarrow> (\<forall>x \<in> set xs. \<not> p x)"
  by (simp add: count_where_def filter_empty_conv)

lemma count_where_le: "count_where p xs \<le> length xs"
  by (simp add: count_where_def)

lemma count_where_all: "count_where p xs = length xs \<longleftrightarrow> (\<forall>x \<in> set xs. p x)"
  using count_where_le [of p] length_filter_less [of _ xs p] by (fastforce simp: count_where_def)

lemma count_where_cong: "(\<And>x. x \<in> set xs \<Longrightarrow> p x = q x) \<Longrightarrow> count_where p xs = count_where q xs"
  by (induction xs) simp_all

lemma count_where_not: "count_where p xs + count_where (\<lambda>x. \<not> p x) xs = length xs"
  by (induction xs) auto

lemma count_where_by_label:
  assumes "finite L" and "\<And>x. x \<in> set xs \<Longrightarrow> p x \<Longrightarrow> f x \<in> L"
  shows "(\<Sum>l\<in>L. count_where (\<lambda>x. f x = l \<and> p x) xs) = count_where p xs"
  using assms(2)
proof (induction xs)
  case (Cons x xs)
  have "(\<Sum>l\<in>L. count_where (\<lambda>y. f y = l \<and> p y) (x # xs))
      = (\<Sum>l\<in>L. if f x = l then if p x then 1 else 0 else 0) + (\<Sum>l\<in>L. count_where (\<lambda>y. f y = l \<and> p y) xs)"
    by (auto simp: sum.distrib intro!: sum.cong)
  also have "(\<Sum>l\<in>L. if f x = l then if p x then 1 else 0 else (0 :: nat)) = (if p x then 1 else 0)"
    using Cons.prems assms(1) by (auto simp: sum.delta')
  finally show ?case using Cons by simp
qed simp

lemma rate_0 [simp]: "rate a b = 0 \<longleftrightarrow> a = 0 \<or> b = 0"
  by (simp add: rate_def)

lemma rate_times: "a \<le> b \<Longrightarrow> rate a b * of_nat b = of_nat a"
  by (simp add: rate_def)

lemma rate_ge: "c > 0 \<Longrightarrow> c \<le> rate a b \<longleftrightarrow> b > 0 \<and> c * of_nat b \<le> of_nat a"
  by (auto simp: rate_def field_simps)

lemma rate_le: "c \<ge> 0 \<Longrightarrow> rate a b \<le> c \<longleftrightarrow> b = 0 \<or> of_nat a \<le> c * of_nat b"
  by (auto simp: rate_def field_simps)

text \<open>A percentile is at most \<open>t\<close> exactly if more values than its rank are.\<close>

lemma round_even_bounds: "q - 1/2 \<le> of_int (round_even q)" "of_int (round_even q) \<le> q + 1/2"
  by (simp_all add: round_even_def Let_def) linarith+

lemma sorted_nth_le_iff:
  assumes "sorted xs" and "k < length xs"
  shows "xs ! k \<le> (t :: rat) \<longleftrightarrow> k < count_where (\<lambda>v. v \<le> t) xs"
  using assms
proof (induction xs arbitrary: k)
  case (Cons x xs)
  show ?case
  proof (cases k)
    case 0
    show ?thesis using Cons.prems(1) 0 by force
  next
    case (Suc j)
    have at_j: "xs ! j \<le> t \<longleftrightarrow> j < count_where (\<lambda>v. v \<le> t) xs" using Cons Suc by simp
    show ?thesis
    proof (cases "x \<le> t")
      case True
      then show ?thesis using at_j Suc by simp
    next
      case False
      then have above: "\<not> v \<le> t" if "v \<in> set xs" for v using that Cons.prems(1) by (auto intro: order_trans)
      then have "\<not> xs ! j \<le> t" using Cons.prems(2) Suc by simp
      moreover have "count_where (\<lambda>v. v \<le> t) xs = 0" using above by simp
      ultimately show ?thesis using False Suc by (simp del: count_where_0)
    qed
  qed
qed simp

lemma percentile_le_iff:
  assumes "vals \<noteq> []"
  shows "percentile vals q \<le> t \<longleftrightarrow> percentile_rank (length vals) q < count_where (\<lambda>v. v \<le> t) vals"
proof -
  let ?k = "percentile_rank (length vals) q"
  have k: "?k < length (sort vals)" using assms by (cases vals) (auto simp: percentile_rank_def)
  have "percentile vals q = sort vals ! ?k"
    using k by (auto simp: percentile_def Let_def)
  moreover have "count_where (\<lambda>v. v \<le> t) (sort vals) = count_where (\<lambda>v. v \<le> t) vals"
    by (simp add: count_where_def filter_sort)
  ultimately show ?thesis using sorted_nth_le_iff [OF sorted_sort k, of t] by simp
qed

lemma p95_few_slow:
  assumes "vals \<noteq> []" and "percentile vals (19/20) \<le> t"
  shows "20 * count_where (\<lambda>v. \<not> v \<le> t) vals \<le> length vals + 9"
proof -
  let ?n = "length vals" and ?r = "percentile_rank (length vals) (19/20)"
  have n: "?n \<ge> 1" using assms(1) by (cases vals) auto
  define k where "k = round_even (19/20 * (of_nat ?n - 1))"
  have "of_int k \<ge> 19/20 * (of_nat ?n - 1) - (1/2 :: rat)"
    unfolding k_def by (rule round_even_bounds(1))
  then have "(of_int (20 * k) :: rat) \<ge> of_int (19 * (int ?n - 1) - 10)" by (simp add: field_simps)
  then have "20 * k \<ge> 19 * (int ?n - 1) - 10" by (simp only: of_int_le_iff)
  moreover have "?r = nat (max 0 (min (int ?n - 1) k))" by (simp add: percentile_rank_def k_def)
  moreover have "19 * j \<le> 20 * i + 29" if "20 * k \<ge> 19 * (int j - 1) - 10" "i = nat (max 0 (min (int j - 1) k))" "1 \<le> j" for i j
    using that by (auto simp: max_def min_def nat_le_iff split: if_splits)
  ultimately have "19 * ?n \<le> 20 * ?r + 29" using n by blast
  moreover have "?r < count_where (\<lambda>v. v \<le> t) vals" using percentile_le_iff [OF assms(1)] assms(2) by simp
  ultimately show ?thesis using count_where_not [of "\<lambda>v. v \<le> t" vals] by simp
qed

section \<open>The triage gate\<close>

lemma op_map_results:
  assumes "op_map f xs s = (Inr ys, t)" and "\<And>x u y v. f x u = (Inr y, v) \<Longrightarrow> g y = h x"
  shows "map g ys = map h xs"
  using assms(1)
proof (induction xs arbitrary: s ys)
  case (Cons x xs)
  from Cons.prems obtain y u zs where "f x s = (Inr y, u)" "op_map f xs u = (Inr zs, t)" "ys = y # zs"
    by (auto simp: ret_def elim!: op_bind_okE)
  then show ?case using Cons.IH assms(2) by simp
qed (simp add: ret_def)

lemma report_of_ok: "report_of build results s = (Inr report, t) \<longleftrightarrow> results \<noteq> [] \<and> report = build results \<and> t = s"
  by (auto simp: report_of_def raise_def ret_def)

lemma run_triage_bench_report:
  assumes "run_triage_bench perf_counter triage fixtures s = (Inr report, t)"
  obtains results where "results \<noteq> []" "report = build_triage_report results"
    "map fr_fixture_id results = map gf_id fixtures" "map fr_expected results = map gf_expect fixtures"
proof -
  obtain results u where run: "op_map (run_triage_fixture perf_counter triage) fixtures s = (Inr results, u)"
      "results \<noteq> []" "report = build_triage_report results"
    using assms unfolding run_triage_bench_def by (auto simp: report_of_ok elim!: op_bind_okE)
  show ?thesis
    by (rule that [OF run(2,3)]; rule op_map_results [OF run(1)])
      (auto simp: run_triage_fixture_def ret_def elim!: op_bind_okE)
qed

lemma timed_raises: "timed perf_counter m s = (Inl e, t) \<Longrightarrow> \<exists>x. e = Port_Raised x"
  by (auto simp: timed_def on_port_def split: prod.splits sum.splits)

lemma op_map_raises:
  assumes "op_map f xs s = (Inl e, t)" and "\<And>x u v. f x u = (Inl e, v) \<Longrightarrow> P"
  shows P
  using assms(1)
proof (induction xs arbitrary: s)
  case (Cons x xs)
  then show ?case using assms(2) by (auto simp: op_bind_def ret_def split: prod.splits sum.splits)
qed (simp add: ret_def)

lemma triage_bench_raises:
  assumes "run_triage_bench perf_counter triage fixtures s = (Inl e, t)" and "fixtures \<noteq> []"
  shows "\<exists>x. e = Port_Raised x"
proof -
  have raises: "\<exists>x. e = Port_Raised x" if "run_triage_fixture perf_counter triage y u = (Inl e, v)" for y u e v
    using that timed_raises by (fastforce simp: run_triage_fixture_def op_bind_def ret_def split: prod.splits sum.splits)
  have run: "op_bind (op_map (run_triage_fixture perf_counter triage) fixtures) (report_of build_triage_report) s = (Inl e, t)"
    using assms(1) by (simp add: run_triage_bench_def)
  then consider u where "op_map (run_triage_fixture perf_counter triage) fixtures s = (Inl e, u)"
    | results u where "op_map (run_triage_fixture perf_counter triage) fixtures s = (Inr results, u)" "results = []"
    by (auto simp: op_bind_def report_of_def ret_def split: prod.splits sum.splits if_splits)
  then show ?thesis
  proof cases
    case 1
    then show ?thesis by (rule op_map_raises) (rule raises)
  next
    case 2
    have "map (\<lambda>_. ()) results = map (\<lambda>_. ()) fixtures" by (rule op_map_results [OF 2(1)]) simp
    with 2(2) assms(2) show ?thesis by simp
  qed
qed

lemma gate_passed [simp]: "gr_passed (gate_of checks threshold) \<longleftrightarrow> (\<forall>c \<in> set checks. c)"
  by (simp add: gate_of_def list_all_iff)

lemma trivial_kept: "fr_expected r = TRIVIAL \<and> correct r \<longleftrightarrow> fr_expected r = TRIVIAL \<and> \<not> routed_to_brain r"
  by (auto simp: correct_def routed_to_brain_def routes_to_brain_def split: option.splits)

text \<open>
  What a passed triage gate says. When the bench returns, its results are those of the fixtures in
  order. The gate passes exactly if every reply named a class, no request that needs the Brain
  would have been answered without it, there were trivial requests and at least three quarters of
  them would have been, and the latency holds. Then the reported saving is exactly the trivial
  requests kept from the Brain, and at most one call in twenty, rounded up by half a call, was slow.
\<close>

theorem triage_gate_exact:
  assumes "run_triage_bench perf_counter triage fixtures s = (Inr report, t)"
  defines "results \<equiv> gp_results report"
  shows "map fr_fixture_id results = map gf_id fixtures \<and> map fr_expected results = map gf_expect fixtures
     \<and> (gr_passed (triage_gate report) \<longleftrightarrow>
          (\<forall>r \<in> set results. fr_actual r \<noteq> None \<and> \<not> under_route r)
          \<and> 0 < count_where (\<lambda>r. fr_expected r = TRIVIAL) results
          \<and> 3 * count_where (\<lambda>r. fr_expected r = TRIVIAL) results
              \<le> 4 * count_where (\<lambda>r. fr_expected r = TRIVIAL \<and> \<not> routed_to_brain r) results
          \<and> bs_latency_p95 (gp_stats report) \<le> 1)
     \<and> (gr_passed (triage_gate report) \<longrightarrow>
          gp_brain_calls_saved report * of_nat (length results)
            = of_nat (count_where (\<lambda>r. fr_expected r = TRIVIAL \<and> \<not> routed_to_brain r) results)
          \<and> 20 * count_where (\<lambda>r. \<not> fr_latency r \<le> 1) results \<le> length results + 9)"
proof -
  obtain rs where rs: "rs \<noteq> []" "report = build_triage_report rs" "map fr_fixture_id rs = map gf_id fixtures"
      "map fr_expected rs = map gf_expect fixtures"
    using assms(1) by (rule run_triage_bench_report)
  have results: "results = rs" by (simp add: results_def rs(2) build_triage_report_def Let_def)
  let ?trivial = "count_where (\<lambda>r. fr_expected r = TRIVIAL) rs"
  let ?kept = "count_where (\<lambda>r. fr_expected r = TRIVIAL \<and> \<not> routed_to_brain r) rs"
  have recall: "the (map_of (lm_recall_by_label (gp_metrics report)) TRIVIAL) = rate ?kept ?trivial"
    by (simp add: rs(2) build_triage_report_def label_metrics_def Let_def all_classes_def trivial_kept)
  have safe: "(\<forall>r \<in> set rs. \<not> under_route r)
      \<longleftrightarrow> gp_complex_to_trivial report = 0 \<and> gp_tool_only_to_trivial report = 0"
  proof -
    have "under_route r \<longleftrightarrow> (fr_expected r = COMPLEX \<or> fr_expected r = TOOL_ONLY) \<and> fr_actual r = Some TRIVIAL" for r
      by (cases "fr_expected r"; cases "fr_actual r") (simp_all add: under_route_def routed_to_brain_def routes_to_brain_def)
    then show ?thesis by (auto simp: rs(2) build_triage_report_def Let_def)
  qed
  have parsed: "lm_parse_fallback_rate (gp_metrics report) = 0 \<longleftrightarrow> (\<forall>r \<in> set rs. fr_actual r \<noteq> None)"
    using rs(1) by (simp add: rs(2) build_triage_report_def label_metrics_def Let_def parse_fallback_def)
  have enough: "min_trivial_recall \<le> rate ?kept ?trivial \<longleftrightarrow> 0 < ?trivial \<and> 3 * ?trivial \<le> 4 * ?kept"
  proof -
    have "(3/4 * of_nat ?trivial \<le> (of_nat ?kept :: rat)) \<longleftrightarrow> of_nat (3 * ?trivial) \<le> (of_nat (4 * ?kept) :: rat)"
      by (simp add: field_simps)
    then show ?thesis using rate_ge [of min_trivial_recall] by (simp only: min_trivial_recall_def of_nat_le_iff)
  qed
  have gate: "gr_passed (triage_gate report) \<longleftrightarrow> (\<forall>r \<in> set rs. fr_actual r \<noteq> None \<and> \<not> under_route r)
      \<and> 0 < ?trivial \<and> 3 * ?trivial \<le> 4 * ?kept \<and> bs_latency_p95 (gp_stats report) \<le> 1"
    using safe parsed enough by (simp add: triage_gate_def recall max_latency_p95_def) blast
  moreover have "gp_brain_calls_saved report * of_nat (length rs) = of_nat ?kept"
    if "\<forall>r \<in> set rs. \<not> under_route r"
  proof -
    have "count_where (\<lambda>r. \<not> routed_to_brain r) rs = ?kept"
      using that by (intro count_where_cong) (auto simp: under_route_def routes_to_brain_def)
    then show ?thesis using rs(1) by (simp add: rs(2) build_triage_report_def Let_def)
  qed
  moreover have "20 * count_where (\<lambda>r. \<not> fr_latency r \<le> 1) rs \<le> length rs + 9" if "bs_latency_p95 (gp_stats report) \<le> 1"
  proof -
    have "percentile (map fr_latency rs) (19/20) \<le> 1"
      using that rs(1) by (simp add: rs(2) build_triage_report_def Let_def stats_of_def)
    from p95_few_slow [OF _ this] show ?thesis using rs(1) by (simp add: count_where_def filter_map comp_def)
  qed
  ultimately show ?thesis using rs(3,4) by (simp add: results)
qed

definition stepping_clock :: "(nat, string, rat) op" where
  "stepping_clock n = (Inr (of_nat n / 8), n + 1)"

definition canned_triage :: "string \<Rightarrow> (nat, string, triage_outcome) op" where
  "canned_triage request = ret \<lparr>to_request = request, to_class = parse_triage request, to_parsed = try_parse_triage request,
     to_raw_output = request, to_prompt_tokens = length request\<rparr>"

definition sample_fixtures :: "triage_fixture list" where
  "sample_fixtures = [\<lparr>gf_id = ''a'', gf_expect = TRIVIAL, gf_request = ''trivial'', gf_tags = {}\<rparr>,
     \<lparr>gf_id = ''b'', gf_expect = COMPLEX, gf_request = ''complex'', gf_tags = {}\<rparr>]"

lemma triage_gate_exact_witness:
  "\<exists>report t. run_triage_bench stepping_clock canned_triage sample_fixtures 0 = (Inr report, t)
     \<and> gr_passed (triage_gate report) \<and> gp_brain_calls_saved report * 2 = 1"
proof -
  let ?r = "\<lambda>i c q. \<lparr>fr_fixture_id = i, fr_expected = c, fr_actual = Some c, fr_raw_output = q, fr_latency = 1/8,
      fr_prompt_tokens = 7, fr_tags = {}\<rparr>"
  let ?rs = "[?r ''a'' TRIVIAL ''trivial'', ?r ''b'' COMPLEX ''complex'']"
  have parse: "try_parse_triage ''trivial'' = Some TRIVIAL" "try_parse_triage ''complex'' = Some COMPLEX" by code_simp+
  have run: "run_triage_bench stepping_clock canned_triage sample_fixtures 0 = (Inr (build_triage_report ?rs), 4)"
    by (simp add: run_triage_bench_def run_triage_fixture_def sample_fixtures_def timed_def on_port_def stepping_clock_def canned_triage_def
        report_of_def op_defs parse eval_nat_numeral)
  note exact = triage_gate_exact [OF run]
  have results: "gp_results (build_triage_report ?rs) = ?rs" by (simp add: build_triage_report_def Let_def)
  have "\<lfloor>19/20 :: rat\<rfloor> = 0" by (simp add: floor_eq_iff)
  then have p95: "bs_latency_p95 (gp_stats (build_triage_report ?rs)) \<le> 1"
    by (simp add: build_triage_report_def Let_def stats_of_def percentile_le_iff percentile_rank_def round_even_def)
  have passed: "gr_passed (triage_gate (build_triage_report ?rs))"
    using exact p95 unfolding results by (simp add: under_route_def routed_to_brain_def routes_to_brain_def)
  moreover have "gp_brain_calls_saved (build_triage_report ?rs) * 2 = 1"
    using exact passed unfolding results by (simp add: routed_to_brain_def routes_to_brain_def)
  ultimately show ?thesis using run by blast
qed

lemma map_of_graph: "l \<in> set ls \<Longrightarrow> map_of (map (\<lambda>l. (l, g l)) ls) l = Some (g l)"
  by (induction ls) auto

text \<open>
  The numbers of a report agree with each other: over all labels the counts add up to the results
  and the recalls, weighted with the counts, to the accuracy; a row of the confusion matrix adds up
  to the count of its class.
\<close>

theorem label_metrics_agree:
  assumes "results \<noteq> []" and "\<forall>r \<in> set results. fr_expected r \<in> set labels" and "distinct labels"
  defines "m \<equiv> label_metrics labels results"
  shows "(\<Sum>l\<leftarrow>labels. the (map_of (lm_label_counts m) l)) = length results
     \<and> (\<Sum>l\<leftarrow>labels. the (map_of (lm_recall_by_label m) l) * of_nat (the (map_of (lm_label_counts m) l)))
        = lm_accuracy m * of_nat (length results)"
proof -
  let ?count = "\<lambda>l. count_where (\<lambda>r. fr_expected r = l) results"
  let ?hits = "\<lambda>l. count_where (\<lambda>r. fr_expected r = l \<and> correct r) results"
  have hits_le: "?hits l \<le> ?count l" for l
    by (induction results) auto
  have "(\<Sum>l\<leftarrow>labels. the (map_of (lm_label_counts m) l)) = (\<Sum>l\<in>set labels. ?count l)"
    using assms(3) by (auto simp: m_def label_metrics_def Let_def sum_list_distinct_conv_sum_set map_of_graph intro!: sum.cong)
  also have "\<dots> = length results"
    using count_where_by_label [of "set labels" results "\<lambda>_. True" fr_expected] assms(2) by (simp add: count_where_def)
  finally have counts: "(\<Sum>l\<leftarrow>labels. the (map_of (lm_label_counts m) l)) = length results" .
  have "(\<Sum>l\<leftarrow>labels. the (map_of (lm_recall_by_label m) l) * of_nat (the (map_of (lm_label_counts m) l)))
      = (\<Sum>l\<in>set labels. rate (?hits l) (?count l) * of_nat (?count l))"
    using assms(3) by (auto simp: m_def label_metrics_def Let_def sum_list_distinct_conv_sum_set map_of_graph intro!: sum.cong)
  also have "\<dots> = of_nat (\<Sum>l\<in>set labels. ?hits l)"
    by (simp add: rate_times [OF hits_le])
  also have "(\<Sum>l\<in>set labels. ?hits l) = count_where correct results"
    using count_where_by_label [of "set labels" results correct fr_expected] assms(2) by simp
  finally show ?thesis
    using counts assms(1) by (simp add: m_def label_metrics_def Let_def)
qed

section \<open>The extraction gates\<close>

lemma action_rank_inj: "action_rank a = action_rank b \<longleftrightarrow> a = b"
  by (cases a; cases b) (auto simp: action_rank_def split: opencode_action.splits)

text \<open>
  The direction compares the whole answer: agreement is equality of both fields, the other
  directions order the actions, and swapping what was expected with what came swaps them.
\<close>

lemma direction_exact:
  "(direction a i b j = Agree \<longleftrightarrow> a = b \<and> i = j)
   \<and> (direction a i b j = Wrong_Run \<longleftrightarrow> a = b \<and> i \<noteq> j)
   \<and> (direction a i b j = More_Conservative \<longleftrightarrow> action_rank a < action_rank b)
   \<and> (direction a i b j = Less_Conservative \<longleftrightarrow> action_rank b < action_rank a)"
  using action_rank_inj [of a b] by (auto simp: direction_def)

text \<open>
  What licenses the swap of the intervention policy: the gate passes exactly if every reply was
  read, none chose a less disruptive action than expected or the right action for another run,
  and at most one in five a more disruptive one; so at least four in five agree entirely.
\<close>

theorem intervention_gate_exact:
  defines "report ns ls xs latencies tokens \<equiv> build_extraction_report ns ls xs latencies tokens"
  shows "(gr_passed (intervention_gate (report ns ls xs latencies tokens)) \<longleftrightarrow>
        (\<forall>r \<in> set ns. nr_schema_valid r
          \<and> action_rank (nr_expected_action r) \<le> action_rank (nr_actual_action r)
          \<and> (nr_actual_action r = nr_expected_action r \<longrightarrow> nr_actual_run_id r = nr_expected_run_id r))
        \<and> 5 * count_where (\<lambda>r. nr_actual_action r \<noteq> nr_expected_action r) ns \<le> length ns
        \<and> bs_latency_p95 (stats_of latencies tokens) \<le> 1)
     \<and> (gr_passed (intervention_gate (report ns ls xs latencies tokens)) \<longrightarrow>
        4 * length ns \<le> 5 * count_where (\<lambda>r. result_direction r = Some Agree) ns)"
proof -
  let ?to = "\<lambda>d. count_where (\<lambda>r. result_direction r = Some d) ns"
  have valid: "rate (length ns - count_where nr_schema_valid ns) (length ns) = 0 \<longleftrightarrow> (\<forall>r \<in> set ns. nr_schema_valid r)"
    using count_where_le [of nr_schema_valid ns] count_where_all [of nr_schema_valid ns] by auto
  have rates: "rate c (length ns) \<le> 1/5 \<longleftrightarrow> 5 * c \<le> length ns" if "c \<le> length ns" for c
  proof -
    have "(of_nat c \<le> 1/5 * (of_nat (length ns) :: rat)) \<longleftrightarrow> of_nat (5 * c) \<le> (of_nat (length ns) :: rat)"
      by (simp add: field_simps)
    then show ?thesis using that rate_le [of "1/5" c "length ns"] by (simp only: of_nat_le_iff) auto
  qed
  let ?good = "\<lambda>r. nr_schema_valid r \<and> action_rank (nr_expected_action r) \<le> action_rank (nr_actual_action r)
      \<and> (nr_actual_action r = nr_expected_action r \<longrightarrow> nr_actual_run_id r = nr_expected_run_id r)"
  have good: "(\<forall>r \<in> set ns. nr_schema_valid r) \<and> ?to Less_Conservative = 0 \<and> ?to Wrong_Run = 0 \<longleftrightarrow> (\<forall>r \<in> set ns. ?good r)"
    by (auto simp: result_direction_def direction_exact)
  have differ: "?to More_Conservative = count_where (\<lambda>r. nr_actual_action r \<noteq> nr_expected_action r) ns"
      and agree: "?to Agree = count_where (\<lambda>r. \<not> nr_actual_action r \<noteq> nr_expected_action r) ns"
    if "\<forall>r \<in> set ns. ?good r"
    using that action_rank_inj by (auto intro!: count_where_cong simp: result_direction_def direction_exact order_less_le)
  have "gr_passed (intervention_gate (report ns ls xs latencies tokens)) \<longleftrightarrow>
      (\<forall>r \<in> set ns. ?good r) \<and> 5 * ?to More_Conservative \<le> length ns \<and> bs_latency_p95 (stats_of latencies tokens) \<le> 1"
    using rates [OF count_where_le] valid good
    by (auto simp: report_def intervention_gate_def build_extraction_report_def Let_def max_latency_p95_def
        max_more_conservative_rate_def simp del: count_where_0)
  then show ?thesis
    using differ agree count_where_not [of "\<lambda>r. nr_actual_action r \<noteq> nr_expected_action r" ns] by auto
qed

text \<open>
  \<open>extraction_report.py\<close> promises a vacuous pass of the gate of a job that has no fixture. That holds
  of the first job only: the rate of an empty job is nought, below what the other two demand.
\<close>

lemma missing_job_fails:
  "\<not> gr_passed (title_gate (build_extraction_report ns [] xs latencies tokens))"
  "\<not> gr_passed (failure_gate (build_extraction_report ns ls [] latencies tokens))"
  "bs_latency_p95 (stats_of latencies tokens) \<le> 1
     \<Longrightarrow> gr_passed (intervention_gate (build_extraction_report [] ls xs latencies tokens))"
  by (simp_all add: title_gate_def failure_gate_def intervention_gate_def build_extraction_report_def Let_def
      min_title_valid_rate_def min_cause_accuracy_def max_latency_p95_def max_more_conservative_rate_def rate_def)

section \<open>The proxy of the curation suite\<close>

text \<open>
  An answer that repeats the label of the cause counts, whatever else it says. As the error of the
  Brain takes the place of its answer, a stream that fails with the word of the cause in its
  message is scored as an answer that identifies it.
\<close>

lemma label_identifies:
  "strip_by is_space (lower cause) \<noteq> [] \<Longrightarrow> contains (strip_by is_space (lower cause)) (lower answer)
     \<Longrightarrow> identifies_failure_cause answer cause"
  by (simp add: identifies_failure_cause_def Let_def)

lemma brain_error_identifies:
  "identifies_failure_cause (read_answer [] [Failed c ''Request timeout'' True None]) ''Timeout''"
proof -
  have "strip_by is_space (lower ''Timeout'') = ''timeout''"
    "contains ''timeout'' (lower ''(brain error: Request timeout)'')" by code_simp+
  then show ?thesis by (intro label_identifies) (simp_all add: label_identifies)
qed

lemma bench_budget_positive: "1 \<le> bench_budget fraction token_count events"
  by (simp add: bench_budget_def)

end
