(* ===== verification/Bench_Fixtures.thy ===== *)
theory Bench_Fixtures
  imports Bench
begin

text \<open>
  The labelled fixtures of the bench (\<open>heart/eval/fixtures.py\<close>): reading a file line by line, the
  parser of each kind of fixture and the checks on a whole set. Reading the file and \<open>json.loads\<close> are
  parameters. A value whose type is not the one its field is annotated with is not checked by the
  code, which then raises or carries it along; the model stops there with \<open>Ill_Typed\<close>. A key missing
  below the top level of a line raises a plain \<open>KeyError\<close> in the code, \<open>Raw_Key_Error\<close> here.
\<close>

section \<open>Reading values\<close>

datatype 'e fixture_error =
    File_Not_Found
  | Not_Valid_Json nat
  | Missing_Key nat string
  | Not_A_Label nat
  | Empty_Value nat string
  | Duplicate_Sequences nat
  | Unknown_Reference nat
  | Not_A_Job nat
  | No_Fixtures
  | Duplicate_Ids "string list"
  | Missing_Classes "string list"
  | Raw_Key_Error string
  | Ill_Typed
  | Loads_Raised 'e

type_synonym ('e, 'a) parse = "(unit, 'e fixture_error, 'a) op"

definition falsy :: "json \<Rightarrow> bool" where
  "falsy v = (case v of JNull \<Rightarrow> True | JBool b \<Rightarrow> \<not> b | JInt i \<Rightarrow> i = 0 | JFloat s \<Rightarrow> s = ''0.0'' \<or> s = ''-0.0''
     | JStr s \<Rightarrow> s = [] | JList vs \<Rightarrow> vs = [] | JDict kvs \<Rightarrow> kvs = [])"

definition item_at :: "'e fixture_error \<Rightarrow> string \<Rightarrow> json \<Rightarrow> ('e, json) parse" where
  "item_at missing key v = (case v of
     JDict kvs \<Rightarrow> (case map_of kvs key of None \<Rightarrow> raise missing | Some x \<Rightarrow> ret x)
   | _ \<Rightarrow> raise Ill_Typed)"

definition item_or :: "json \<Rightarrow> string \<Rightarrow> json \<Rightarrow> ('e, json) parse" where
  "item_or fallback key v = (case v of
     JDict kvs \<Rightarrow> ret (case map_of kvs key of None \<Rightarrow> fallback | Some x \<Rightarrow> x)
   | _ \<Rightarrow> raise Ill_Typed)"

definition required :: "nat \<Rightarrow> json \<Rightarrow> string \<Rightarrow> ('e, json) parse" where
  "required line raw key = item_at (Missing_Key line key) key raw"

definition nested :: "json \<Rightarrow> string \<Rightarrow> ('e, json) parse" where
  "nested v key = item_at (Raw_Key_Error key) key v"

definition as_text :: "json \<Rightarrow> ('e, string) parse" where
  "as_text v = (case v of JStr s \<Rightarrow> ret s | _ \<Rightarrow> raise Ill_Typed)"

definition as_int :: "json \<Rightarrow> ('e, int) parse" where
  "as_int v = (case v of JInt i \<Rightarrow> ret i | _ \<Rightarrow> raise Ill_Typed)"

definition as_count :: "json \<Rightarrow> ('e, nat) parse" where
  "as_count v = (case v of JInt i \<Rightarrow> if i \<ge> 0 then ret (nat i) else raise Ill_Typed | _ \<Rightarrow> raise Ill_Typed)"

definition as_bool :: "json \<Rightarrow> ('e, bool) parse" where
  "as_bool v = (case v of JBool b \<Rightarrow> ret b | _ \<Rightarrow> raise Ill_Typed)"

definition as_list :: "json \<Rightarrow> ('e, json list) parse" where
  "as_list v = (case v of JList vs \<Rightarrow> ret vs | _ \<Rightarrow> raise Ill_Typed)"

text \<open>\<open>frozenset(raw.get("tags", []))\<close>: a text is the set of its characters, an object that of its keys.\<close>

definition tags_of :: "json \<Rightarrow> ('e, string set) parse" where
  "tags_of raw = op_bind (item_or (JList []) ''tags'' raw) (\<lambda>v. case v of
     JList vs \<Rightarrow> op_bind (op_map as_text vs) (\<lambda>ss. ret (set ss))
   | JStr s \<Rightarrow> ret ((\<lambda>c. [c]) ` set s)
   | JDict kvs \<Rightarrow> ret (fst ` set kvs)
   | _ \<Rightarrow> raise Ill_Typed)"

definition label_of :: "nat \<Rightarrow> (string \<Rightarrow> 'l option) \<Rightarrow> json \<Rightarrow> ('e, 'l) parse" where
  "label_of line read v = (case v of
     JStr s \<Rightarrow> (case read s of None \<Rightarrow> raise (Not_A_Label line) | Some l \<Rightarrow> ret l)
   | _ \<Rightarrow> raise (Not_A_Label line))"

definition blank :: "string \<Rightarrow> bool" where
  "blank s \<longleftrightarrow> strip_by is_space s = []"

section \<open>Lines\<close>

text \<open>\<open>str.splitlines\<close>, which ends a line at more characters than the line break.\<close>

definition is_break :: "char \<Rightarrow> bool" where
  "is_break c \<longleftrightarrow> c \<in> {CHR 0x0A, CHR 0x0B, CHR 0x0C, CHR 0x0D, CHR 0x1C, CHR 0x1D, CHR 0x1E, CHR 0x85}"

function splitlines :: "string \<Rightarrow> string list" where
  "splitlines s = (if s = [] then [] else
     takeWhile (\<lambda>c. \<not> is_break c) s # (case dropWhile (\<lambda>c. \<not> is_break c) s of
        [] \<Rightarrow> []
      | c # r \<Rightarrow> splitlines (if c = CHR 0x0D \<and> r \<noteq> [] \<and> hd r = CHR 0x0A then tl r else r)))"
  by auto

termination
proof (relation "measure length")
  fix s c and r :: string
  assume "dropWhile (\<lambda>c. \<not> is_break c) s = c # r"
  then have "length (c # r) \<le> length s" by (metis length_dropWhile_le)
  then show "(if c = CHR 0x0D \<and> r \<noteq> [] \<and> hd r = CHR 0x0A then tl r else r, s) \<in> measure length" by auto
qed simp

declare splitlines.simps [simp del]

definition iter_fixture_lines :: "string \<Rightarrow> (nat \<times> string) list" where
  "iter_fixture_lines text =
     filter (\<lambda>(n, l). l \<noteq> [] \<and> hd l \<noteq> CHR ''#'') (map (\<lambda>(n, l). (n, strip_by is_space l)) (enumerate 1 (splitlines text)))"

definition load_line :: "(string \<Rightarrow> 'e json_result) \<Rightarrow> nat \<Rightarrow> string \<Rightarrow> ('e, json) parse" where
  "load_line loads line l = (case loads l of
     Loaded v \<Rightarrow> ret v | Not_Json \<Rightarrow> raise (Not_Valid_Json line) | Loads_Raises e \<Rightarrow> raise (Loads_Raised e))"

section \<open>Checks on a set\<close>

definition duplicates :: "string list \<Rightarrow> string list" where
  "duplicates ids = sorted_list_of_set (set (filter (\<lambda>i. 1 < count_list ids i) ids))"

definition check_no_duplicate_ids :: "string list \<Rightarrow> ('e, unit) parse" where
  "check_no_duplicate_ids ids = demand (duplicates ids = []) (Duplicate_Ids (duplicates ids))"

definition validate_fixture_set :: "string list \<Rightarrow> 'l list \<Rightarrow> 'l list \<Rightarrow> ('l \<Rightarrow> string) \<Rightarrow> ('e, unit) parse" where
  "validate_fixture_set ids labels members value =
     (let missing = sort (map value (filter (\<lambda>l. l \<notin> set labels) members))
      in op_then (check_no_duplicate_ids ids) (demand (missing = []) (Missing_Classes missing)))"

definition load_set :: "string option \<Rightarrow> (nat \<Rightarrow> string \<Rightarrow> ('e, 'f) parse) \<Rightarrow> ('f list \<Rightarrow> ('e, unit) parse) \<Rightarrow> ('e, 'f list) parse" where
  "load_set file parse_line check_set = (case file of
     None \<Rightarrow> raise File_Not_Found
   | Some text \<Rightarrow> op_bind (op_map (\<lambda>(n, l). parse_line n l) (iter_fixture_lines text)) (\<lambda>fixtures.
       if fixtures = [] then raise No_Fixtures else op_then (check_set fixtures) (ret fixtures)))"

section \<open>Tick and triage fixtures\<close>

definition parse_item :: "json \<Rightarrow> ('e, snapshot_item) parse" where
  "parse_item v =
     op_bind (op_bind (nested v ''source'') as_text) (\<lambda>source.
     op_bind (op_bind (nested v ''text'') as_text) (\<lambda>text.
     op_bind (op_bind (item_or (JInt 0) ''priority'' v) as_int) (\<lambda>priority.
       ret \<lparr>si_source = source, si_text = text, si_priority = priority\<rparr>)))"

definition parse_tick_line :: "(string \<Rightarrow> 'e json_result) \<Rightarrow> nat \<Rightarrow> string \<Rightarrow> ('e, tick_fixture) parse" where
  "parse_tick_line loads line l =
     op_bind (load_line loads line l) (\<lambda>raw.
     op_bind (required line raw ''id'') (\<lambda>fixture_id.
     op_bind (required line raw ''expect'') (\<lambda>expect_raw.
     op_bind (required line raw ''items'') (\<lambda>items_raw.
     op_bind (label_of line decision_of expect_raw) (\<lambda>expect.
     op_then (demand (\<not> falsy items_raw) (Empty_Value line ''items''))
     (op_bind (as_list items_raw) (\<lambda>vs.
     op_bind (op_map parse_item vs) (\<lambda>items.
     op_bind (tags_of raw) (\<lambda>tags.
     op_bind (as_text fixture_id) (\<lambda>i.
       ret \<lparr>tf_id = i, tf_expect = expect, tf_items = items, tf_tags = tags\<rparr>))))))))))"

definition load_fixtures :: "(string \<Rightarrow> 'e json_result) \<Rightarrow> string option \<Rightarrow> ('e, tick_fixture list) parse" where
  "load_fixtures loads file = load_set file (parse_tick_line loads)
     (\<lambda>fs. validate_fixture_set (map tf_id fs) (map tf_expect fs) [IDLE, ACT, ESCALATE] decision_value)"

definition class_of :: "string \<Rightarrow> triage_class option" where
  "class_of w = find (\<lambda>c. triage_value c = w) all_classes"

definition parse_triage_line :: "(string \<Rightarrow> 'e json_result) \<Rightarrow> nat \<Rightarrow> string \<Rightarrow> ('e, triage_fixture) parse" where
  "parse_triage_line loads line l =
     op_bind (load_line loads line l) (\<lambda>raw.
     op_bind (required line raw ''id'') (\<lambda>fixture_id.
     op_bind (required line raw ''expect'') (\<lambda>expect_raw.
     op_bind (required line raw ''request'') (\<lambda>request_raw.
     op_bind (label_of line class_of expect_raw) (\<lambda>expect.
     op_bind (as_text request_raw) (\<lambda>request.
     op_then (demand (\<not> blank request) (Empty_Value line ''request''))
     (op_bind (tags_of raw) (\<lambda>tags.
     op_bind (as_text fixture_id) (\<lambda>i.
       ret \<lparr>gf_id = i, gf_expect = expect, gf_request = request, gf_tags = tags\<rparr>)))))))))"

definition load_triage_fixtures :: "(string \<Rightarrow> 'e json_result) \<Rightarrow> string option \<Rightarrow> ('e, triage_fixture list) parse" where
  "load_triage_fixtures loads file = load_set file (parse_triage_line loads)
     (\<lambda>fs. validate_fixture_set (map gf_id fs) (map gf_expect fs) all_classes triage_value)"

section \<open>Curation fixtures\<close>

definition parse_event :: "json \<Rightarrow> ('e, curation_event) parse" where
  "parse_event v =
     op_bind (op_bind (nested v ''sequence'') as_int) (\<lambda>seq.
     op_bind (op_bind (nested v ''raw_type'') as_text) (\<lambda>raw_type.
     op_bind (op_bind (nested v ''payload'') as_text) (\<lambda>payload.
       ret \<lparr>ce_sequence = seq, ce_raw_type = raw_type, ce_payload = payload\<rparr>)))"

definition parse_events :: "nat \<Rightarrow> json \<Rightarrow> ('e, curation_event list) parse" where
  "parse_events line events_raw =
     op_then (demand (\<not> falsy events_raw) (Empty_Value line ''events''))
     (op_bind (op_bind (as_list events_raw) (op_map parse_event)) (\<lambda>events.
     op_then (demand (card (set (map ce_sequence events)) = length events) (Duplicate_Sequences line))
       (ret events)))"

definition parse_curation_line :: "(string \<Rightarrow> 'e json_result) \<Rightarrow> nat \<Rightarrow> string \<Rightarrow> ('e, curation_fixture) parse" where
  "parse_curation_line loads line l =
     op_bind (load_line loads line l) (\<lambda>raw.
     op_bind (required line raw ''id'') (\<lambda>fixture_id.
     op_bind (required line raw ''events'') (\<lambda>events_raw.
     op_bind (required line raw ''must_keep'') (\<lambda>must_keep_raw.
     op_bind (required line raw ''failure_cause'') (\<lambda>cause_raw.
     op_bind (parse_events line events_raw) (\<lambda>events.
     op_bind (op_bind (as_list must_keep_raw) (op_map as_int)) (\<lambda>kept.
     op_then (demand (kept \<noteq> []) (Empty_Value line ''must_keep''))
     (op_then (demand (set kept \<subseteq> set (map ce_sequence events)) (Unknown_Reference line))
     (op_bind (as_text cause_raw) (\<lambda>failure_cause.
     op_then (demand (\<not> blank failure_cause) (Empty_Value line ''failure_cause''))
     (op_bind (tags_of raw) (\<lambda>tags.
     op_bind (as_text fixture_id) (\<lambda>i.
       ret \<lparr>cf_id = i, cf_events = events, cf_must_keep = set kept, cf_failure_cause = failure_cause,
            cf_tags = tags\<rparr>)))))))))))))"

definition load_curation_fixtures :: "(string \<Rightarrow> 'e json_result) \<Rightarrow> string option \<Rightarrow> ('e, curation_fixture list) parse" where
  "load_curation_fixtures loads file = load_set file (parse_curation_line loads) (\<lambda>fs. check_no_duplicate_ids (map cf_id fs))"

section \<open>Extraction fixtures\<close>

definition parse_candidate :: "json \<Rightarrow> ('e, intervention_candidate) parse" where
  "parse_candidate v =
     op_bind (op_bind (nested v ''run_id'') as_text) (\<lambda>i.
     op_bind (op_bind (nested v ''status'') as_text) (\<lambda>st.
     op_bind (op_bind (nested v ''detail'') as_text) (\<lambda>detail.
       ret \<lparr>ic_run_id = i, ic_status = st, ic_detail = detail\<rparr>)))"

definition as_optional_text :: "json \<Rightarrow> ('e, string option) parse" where
  "as_optional_text v = (case v of JNull \<Rightarrow> ret None | JStr s \<Rightarrow> ret (Some s) | _ \<Rightarrow> raise Ill_Typed)"

definition parse_intervention_fixture :: "nat \<Rightarrow> json \<Rightarrow> ('e, extraction_fixture) parse" where
  "parse_intervention_fixture line raw =
     op_bind (required line raw ''id'') (\<lambda>fixture_id.
     op_bind (required line raw ''candidates'') (\<lambda>candidates_raw.
     op_bind (required line raw ''intake_paused'') (\<lambda>paused_raw.
     op_bind (required line raw ''recent_failed'') (\<lambda>failed_raw.
     op_bind (required line raw ''recent_timeout'') (\<lambda>timeout_raw.
     op_bind (required line raw ''recent_permission_denied'') (\<lambda>denied_raw.
     op_bind (required line raw ''expected_action'') (\<lambda>action_raw.
     op_bind (item_or JNull ''expected_run_id'' raw) (\<lambda>run_raw.
     op_then (demand (\<not> falsy candidates_raw) (Empty_Value line ''candidates''))
     (op_bind (op_bind (as_list candidates_raw) (op_map parse_candidate)) (\<lambda>candidates.
     op_bind (if action_raw = JNull then ret None else op_bind (label_of line action_of action_raw) (\<lambda>a. ret (Some a))) (\<lambda>action.
     op_bind (as_optional_text run_raw) (\<lambda>run_id.
     op_then (demand (\<forall>i \<in> set_option run_id. i \<in> set (map ic_run_id candidates)) (Unknown_Reference line))
     (op_bind (as_bool paused_raw) (\<lambda>paused.
     op_bind (as_count failed_raw) (\<lambda>failed.
     op_bind (as_count timeout_raw) (\<lambda>timed_out.
     op_bind (as_count denied_raw) (\<lambda>denied.
     op_bind (tags_of raw) (\<lambda>tags.
     op_bind (as_text fixture_id) (\<lambda>i.
       ret (Intervention_Fixture \<lparr>nf_id = i, nf_candidates = candidates, nf_intake_paused = paused,
         nf_recent_failed = failed, nf_recent_timeout = timed_out, nf_recent_denied = denied, nf_expected_action = action,
         nf_expected_run_id = run_id, nf_tags = tags\<rparr>))))))))))))))))))))"

definition parse_title_fixture :: "nat \<Rightarrow> json \<Rightarrow> ('e, extraction_fixture) parse" where
  "parse_title_fixture line raw =
     op_bind (required line raw ''id'') (\<lambda>fixture_id.
     op_bind (required line raw ''prompt'') (\<lambda>prompt_raw.
     op_bind (required line raw ''events'') (\<lambda>events_raw.
     op_bind (required line raw ''expected_title'') (\<lambda>title_raw.
     op_bind (parse_events line events_raw) (\<lambda>events.
     op_bind (as_text prompt_raw) (\<lambda>prompt.
     op_then (demand (\<not> blank prompt) (Empty_Value line ''prompt''))
     (op_bind (as_text title_raw) (\<lambda>title.
     op_then (demand (\<not> blank title) (Empty_Value line ''expected_title''))
     (op_bind (tags_of raw) (\<lambda>tags.
     op_bind (as_text fixture_id) (\<lambda>i.
       ret (Title_Fixture \<lparr>lf_id = i, lf_prompt = prompt, lf_events = events, lf_expected_title = title,
         lf_tags = tags\<rparr>))))))))))))"

definition parse_failure_fixture :: "nat \<Rightarrow> json \<Rightarrow> ('e, extraction_fixture) parse" where
  "parse_failure_fixture line raw =
     op_bind (required line raw ''id'') (\<lambda>fixture_id.
     op_bind (required line raw ''events'') (\<lambda>events_raw.
     op_bind (required line raw ''expected_cause'') (\<lambda>cause_raw.
     op_bind (required line raw ''expected_evidence_seq'') (\<lambda>evidence_raw.
     op_bind (parse_events line events_raw) (\<lambda>events.
     op_bind (label_of line cause_of cause_raw) (\<lambda>cause.
     op_bind (as_int evidence_raw) (\<lambda>evidence.
     op_then (demand (evidence \<in> set (map ce_sequence events)) (Unknown_Reference line))
     (op_bind (tags_of raw) (\<lambda>tags.
     op_bind (as_text fixture_id) (\<lambda>i.
       ret (Failure_Fixture \<lparr>ff_id = i, ff_events = events, ff_expected_cause = cause, ff_expected_evidence = evidence,
         ff_tags = tags\<rparr>)))))))))))"

definition dispatch_job :: "nat \<Rightarrow> json \<Rightarrow> json \<Rightarrow> ('e, extraction_fixture) parse" where
  "dispatch_job line raw job = (case job of
     JStr w \<Rightarrow> (if w = ''intervention'' then parse_intervention_fixture line raw
       else if w = ''title'' then parse_title_fixture line raw
       else if w = ''failure_cause'' then parse_failure_fixture line raw
       else raise (Not_A_Job line))
   | JList vs \<Rightarrow> raise Ill_Typed
   | JDict kvs \<Rightarrow> raise Ill_Typed
   | _ \<Rightarrow> raise (Not_A_Job line))"

definition parse_extraction_line :: "(string \<Rightarrow> 'e json_result) \<Rightarrow> nat \<Rightarrow> string \<Rightarrow> ('e, extraction_fixture) parse" where
  "parse_extraction_line loads line l =
     op_bind (load_line loads line l) (\<lambda>raw. op_bind (item_or JNull ''job'' raw) (dispatch_job line raw))"

fun extraction_id :: "extraction_fixture \<Rightarrow> string" where
  "extraction_id (Intervention_Fixture f) = nf_id f"
| "extraction_id (Title_Fixture f) = lf_id f"
| "extraction_id (Failure_Fixture f) = ff_id f"

definition load_extraction_fixtures :: "(string \<Rightarrow> 'e json_result) \<Rightarrow> string option \<Rightarrow> ('e, extraction_fixture list) parse" where
  "load_extraction_fixtures loads file =
     load_set file (parse_extraction_line loads) (\<lambda>fs. check_no_duplicate_ids (map extraction_id fs))"

section \<open>What a loaded set guarantees\<close>

lemma load_set_ok:
  assumes "load_set file parse_line check_set s = (Inr fs, t)"
  shows "fs \<noteq> []" and "check_set fs () = (Inr (), ())" and "f \<in> set fs \<Longrightarrow> \<exists>n l. parse_line n l () = (Inr f, ())"
proof -
  obtain contents where run: "op_map (\<lambda>(n, l). parse_line n l) (iter_fixture_lines contents) () = (Inr fs, ())"
      "fs \<noteq> []" "check_set fs () = (Inr (), ())"
    using assms by (auto simp: load_set_def raise_def ret_def split: option.splits if_splits elim!: op_bind_okE op_then_okE)
  have "\<forall>f \<in> set fs. \<exists>n l. parse_line n l () = (Inr f, ())"
    if "op_map (\<lambda>(n, l). parse_line n l) ls () = (Inr fs, ())" for ls :: "(nat \<times> string) list" and fs
    using that
  proof (induction ls arbitrary: fs)
    case (Cons a ls)
    then obtain f gs where "(case a of (n, l) \<Rightarrow> parse_line n l) () = (Inr f, ())"
        "op_map (\<lambda>(n, l). parse_line n l) ls () = (Inr gs, ())" "fs = f # gs"
      by (auto simp: ret_def elim!: op_bind_okE)
    then show ?case using Cons.IH by (cases a) auto
  qed (simp add: ret_def)
  with run show "fs \<noteq> []" "check_set fs () = (Inr (), ())" "f \<in> set fs \<Longrightarrow> \<exists>n l. parse_line n l () = (Inr f, ())"
    by blast+
qed

lemma no_duplicates: "duplicates ids = [] \<longleftrightarrow> distinct ids"
proof -
  have "duplicates ids = [] \<longleftrightarrow> (\<forall>i \<in> set ids. count_list ids i \<le> 1)"
    by (auto simp: duplicates_def filter_empty_conv not_less)
  also have "\<dots> \<longleftrightarrow> distinct ids"
  proof (induction ids)
    case (Cons i ids)
    have "count_list ids i = 0 \<longleftrightarrow> i \<notin> set ids" by (simp add: count_list_0_iff)
    with Cons show ?case by (auto simp: le_Suc_eq split: if_splits)
  qed simp
  finally show ?thesis .
qed

lemma check_no_duplicate_ids_ok: "check_no_duplicate_ids ids s = (Inr x, t) \<Longrightarrow> distinct ids"
  by (simp add: check_no_duplicate_ids_def no_duplicates)

lemma sort_empty: "sort xs = [] \<longleftrightarrow> xs = []"
  by (metis set_empty set_sort)

lemma validate_fixture_set_ok:
  "validate_fixture_set ids labels members value s = (Inr x, t) \<Longrightarrow> distinct ids \<and> set members \<subseteq> set labels"
  by (auto simp: validate_fixture_set_def Let_def sort_empty filter_empty_conv elim!: op_then_okE dest!: check_no_duplicate_ids_ok)

lemma parse_events_ok:
  "parse_events line v s = (Inr events, t) \<Longrightarrow> distinct (map ce_sequence events)"
  by (auto simp: parse_events_def ret_def elim!: op_then_okE op_bind_okE intro: card_distinct)

text \<open>
  A triage set that loads can be measured: its ids are distinct and no request is blank, and
  whatever port and clock it is run with, the bench ends with a report or with what the port
  raised, never with a division by nought, and its report has examples of every class, so that no
  recall in it is a default.
\<close>

theorem loaded_triage_measured:
  assumes "load_triage_fixtures loads file u = (Inr fixtures, v)"
  shows "distinct (map gf_id fixtures) \<and> (\<forall>f \<in> set fixtures. \<not> blank (gf_request f))
     \<and> (case run_triage_bench perf_counter triage fixtures s of
          (Inl e, t) \<Rightarrow> \<exists>x. e = Port_Raised x
        | (Inr report, t) \<Rightarrow> length (gp_results report) = length fixtures
            \<and> (\<forall>c. 0 < the (map_of (lm_label_counts (gp_metrics report)) c)))"
proof -
  note ok = load_set_ok [OF assms [unfolded load_triage_fixtures_def]]
  have classes: "distinct (map gf_id fixtures)" "set all_classes \<subseteq> set (map gf_expect fixtures)"
    using validate_fixture_set_ok [OF ok(2)] by auto
  have "\<not> blank (gf_request f)" if "f \<in> set fixtures" for f
    using ok(3) [OF that] by (auto simp: parse_triage_line_def ret_def elim!: op_then_okE op_bind_okE)
  moreover have "case run_triage_bench perf_counter triage fixtures s of
          (Inl e, t) \<Rightarrow> \<exists>x. e = Port_Raised x
        | (Inr report, t) \<Rightarrow> length (gp_results report) = length fixtures
            \<and> (\<forall>c. 0 < the (map_of (lm_label_counts (gp_metrics report)) c))"
  proof (cases "run_triage_bench perf_counter triage fixtures s")
    case (Pair r t)
    show ?thesis
    proof (cases r)
      case (Inl e)
      show ?thesis using triage_bench_raises [OF Pair [unfolded Inl] ok(1)] Pair Inl by simp
    next
      case (Inr report)
      obtain rs where rs: "rs \<noteq> []" "report = build_triage_report rs" "map fr_fixture_id rs = map gf_id fixtures"
          "map fr_expected rs = map gf_expect fixtures"
        using Pair [unfolded Inr] by (rule run_triage_bench_report)
      have "0 < count_where (\<lambda>r. fr_expected r = c) rs" for c
      proof -
        have "c \<in> set (map fr_expected rs)" using classes(2) by (cases c) (auto simp: rs(4) all_classes_def)
        then show ?thesis by (auto simp: zero_less_iff_neq_zero)
      qed
      moreover have "c \<in> set all_classes" for c by (cases c) (simp_all add: all_classes_def)
      ultimately show ?thesis
        using Pair Inr rs(3) by (auto simp: rs(2) build_triage_report_def label_metrics_def Let_def map_of_graph
            dest: map_eq_imp_length_eq)
    qed
  qed
  ultimately show ?thesis using classes by blast
qed

text \<open>
  What is scored against is there: a loaded curation fixture keeps a non-empty part of its own
  transcript, whose numbers are distinct; a loaded extraction fixture expects a run among its own
  candidates, and evidence among its own events. Ids are distinct over a whole file.
\<close>

fun extraction_fixture_ok :: "extraction_fixture \<Rightarrow> bool" where
  "extraction_fixture_ok (Intervention_Fixture f) \<longleftrightarrow>
     (\<forall>i. nf_expected_run_id f = Some i \<longrightarrow> i \<in> set (map ic_run_id (nf_candidates f)))"
| "extraction_fixture_ok (Title_Fixture f) \<longleftrightarrow>
     \<not> blank (lf_prompt f) \<and> \<not> blank (lf_expected_title f) \<and> distinct (map ce_sequence (lf_events f))"
| "extraction_fixture_ok (Failure_Fixture f) \<longleftrightarrow>
     ff_expected_evidence f \<in> set (map ce_sequence (ff_events f)) \<and> distinct (map ce_sequence (ff_events f))"

lemma loaded_curation_grounded:
  assumes "load_curation_fixtures loads file s = (Inr fixtures, t)"
  shows "distinct (map cf_id fixtures)"
    and "f \<in> set fixtures \<Longrightarrow> cf_must_keep f \<noteq> {} \<and> cf_must_keep f \<subseteq> set (map ce_sequence (cf_events f))
      \<and> distinct (map ce_sequence (cf_events f)) \<and> \<not> blank (cf_failure_cause f)"
proof -
  note ok = load_set_ok [OF assms [unfolded load_curation_fixtures_def]]
  show "distinct (map cf_id fixtures)" using ok(2) by (rule check_no_duplicate_ids_ok)
  assume "f \<in> set fixtures"
  from ok(3) [OF this] obtain n l where "parse_curation_line loads n l () = (Inr f, ())" by blast
  then show "cf_must_keep f \<noteq> {} \<and> cf_must_keep f \<subseteq> set (map ce_sequence (cf_events f))
      \<and> distinct (map ce_sequence (cf_events f)) \<and> \<not> blank (cf_failure_cause f)"
    unfolding parse_curation_line_def by (elim op_then_okE op_bind_okE) (clarsimp simp: ret_def, erule parse_events_ok)
qed

lemma parse_intervention_ok: "parse_intervention_fixture line raw s = (Inr f, t) \<Longrightarrow> extraction_fixture_ok f"
  unfolding parse_intervention_fixture_def by (elim op_then_okE op_bind_okE) (auto simp: ret_def)

lemma parse_title_ok: "parse_title_fixture line raw s = (Inr f, t) \<Longrightarrow> extraction_fixture_ok f"
  unfolding parse_title_fixture_def by (elim op_then_okE op_bind_okE) (auto simp: ret_def dest: parse_events_ok)

lemma parse_failure_ok: "parse_failure_fixture line raw s = (Inr f, t) \<Longrightarrow> extraction_fixture_ok f"
  unfolding parse_failure_fixture_def by (elim op_then_okE op_bind_okE) (auto simp: ret_def dest: parse_events_ok)

lemma dispatch_job_ok: "dispatch_job line raw job s = (Inr f, t) \<Longrightarrow> extraction_fixture_ok f"
  by (auto simp: dispatch_job_def raise_def split: json.splits if_splits
      dest: parse_intervention_ok parse_title_ok parse_failure_ok)

lemma loaded_extraction_grounded:
  assumes "load_extraction_fixtures loads file s = (Inr fixtures, t)"
  shows "distinct (map extraction_id fixtures)" and "f \<in> set fixtures \<Longrightarrow> extraction_fixture_ok f"
proof -
  note ok = load_set_ok [OF assms [unfolded load_extraction_fixtures_def]]
  show "distinct (map extraction_id fixtures)" using ok(2) by (rule check_no_duplicate_ids_ok)
  assume "f \<in> set fixtures"
  from ok(3) [OF this] obtain line l where "parse_extraction_line loads line l () = (Inr f, ())" by blast
  then show "extraction_fixture_ok f"
    unfolding parse_extraction_line_def by (elim op_bind_okE) (rule dispatch_job_ok)
qed

text \<open>A key missing inside an item is no \<open>FixtureError\<close>, though the loader promises one for every missing key.\<close>

lemma nested_key_escapes: "parse_item (JDict [(''text'', JStr ''x'')]) s = (Inl (Raw_Key_Error ''source''), s)"
  by (simp add: parse_item_def nested_def item_at_def op_defs)

end
