(* ===== verification/Log_Record.thy ===== *)
theory Log_Record
  imports Redaction
begin

text \<open>
  One line of the log: the record a formatter is handed, what it makes of it
  (\<open>logging/formatter.py\<close>), and which secrets are known before the first handler is installed
  (\<open>logging/setup.py\<close>). The payload is the value given to \<open>json.dumps\<close>; an object that is no JSON value
  is represented by its \<open>str\<close>, which is what the code redacts.
\<close>

primrec redact_value :: "(string \<Rightarrow> string) \<Rightarrow> json \<Rightarrow> json" where
  "redact_value hide JNull = JNull"
| "redact_value hide (JBool b) = JBool b"
| "redact_value hide (JInt i) = JInt i"
| "redact_value hide (JFloat x) = JFloat x"
| "redact_value hide (JStr s) = JStr (hide s)"
| "redact_value hide (JList vs) = JList (map (redact_value hide) vs)"
| "redact_value hide (JDict kvs) = JDict (map (map_prod id (redact_value hide)) kvs)"

record log_record =
  lo_timestamp :: string
  lo_level :: string
  lo_logger :: string
  lo_message :: string
  lo_attributes :: "(string \<times> json) list"
  lo_exception :: "string option"
  lo_stack :: "string option"

text \<open>The attributes every record of the standard library has; the others come from \<open>extra\<close>.\<close>

definition reserved_attributes :: "string list" where
  "reserved_attributes = [''name'', ''msg'', ''args'', ''levelname'', ''levelno'', ''pathname'', ''filename'', ''module'',
     ''exc_info'', ''exc_text'', ''stack_info'', ''lineno'', ''funcName'', ''created'', ''msecs'', ''relativeCreated'',
     ''thread'', ''threadName'', ''processName'', ''process'', ''taskName'']"

definition record_head :: "(string \<Rightarrow> string) \<Rightarrow> string option \<Rightarrow> log_record \<Rightarrow> (string \<times> json) list" where
  "record_head hide request_id r =
     [(''timestamp'', JStr (lo_timestamp r)), (''level'', JStr (lo_level r)), (''logger'', JStr (lo_logger r)),
      (''message'', JStr (hide (lo_message r)))]
     @ (case request_id of None \<Rightarrow> [] | Some i \<Rightarrow> [(''request_id'', JStr i)])"

definition extra_of :: "(string \<times> json) list \<Rightarrow> log_record \<Rightarrow> (string \<times> json) list" where
  "extra_of payload r =
     filter (\<lambda>(key, value). key \<notin> set reserved_attributes \<and> key \<notin> fst ` set payload) (lo_attributes r)"

definition format_record :: "(string \<Rightarrow> string) \<Rightarrow> string option \<Rightarrow> log_record \<Rightarrow> (string \<times> json) list" where
  "format_record hide request_id r =
     (let payload = record_head hide request_id r; extra = extra_of payload r
      in payload
         @ (if extra = [] then [] else [(''extra'', redact_value hide (JDict extra))])
         @ (case lo_exception r of None \<Rightarrow> [] | Some e \<Rightarrow> [(''exception'', JStr (hide e))])
         @ (case lo_stack r of None \<Rightarrow> [] | Some e \<Rightarrow> [(''stack'', JStr (hide e))]))"

definition configured_secrets :: "string option \<Rightarrow> string option \<Rightarrow> string set \<Rightarrow> string set" where
  "configured_secrets api_token brain_api_key secrets = register_secret brain_api_key (register_secret api_token secrets)"

section \<open>No value carries a registered secret\<close>

primrec texts_of :: "json \<Rightarrow> string set" where
  "texts_of JNull = {}"
| "texts_of (JBool b) = {}"
| "texts_of (JInt i) = {}"
| "texts_of (JFloat x) = {}"
| "texts_of (JStr s) = {s}"
| "texts_of (JList vs) = \<Union> (set (map texts_of vs))"
| "texts_of (JDict kvs) = \<Union> (snd ` set (map (map_prod id texts_of) kvs))"

lemma texts_redacted: "texts_of (redact_value hide v) \<subseteq> range hide"
proof (induction v)
  case (JDict kvs)
  have "texts_of (redact_value hide x) \<subseteq> range hide" if "(key, x) \<in> set kvs" for key x
    using JDict that by (force simp: snds.simps)
  then show ?case by force
qed auto

lemma varying_head:
  assumes "(key, v) \<in> set (record_head hide request_id r)" and "key \<notin> {''timestamp'', ''level'', ''logger'', ''request_id''}"
  shows "v = JStr (hide (lo_message r))"
  using assms by (auto simp: record_head_def split: option.splits)

lemma varying_parts:
  assumes "(key, v) \<in> set (format_record hide request_id r)"
    and "key \<notin> {''timestamp'', ''level'', ''logger'', ''request_id''}"
  shows "\<exists>x. v = redact_value hide x"
proof -
  have part: "\<exists>x. JStr (hide t) = redact_value hide x" for t by (metis redact_value.simps(5))
  have optional: "\<exists>x. v = redact_value hide x"
    if "(key, v) \<in> set (case e of None \<Rightarrow> [] | Some t \<Rightarrow> [(name, JStr (hide t))])" for e name
    using that part by (cases e) auto
  let ?extra = "extra_of (record_head hide request_id r) r"
  have "(key, v) \<in> set (record_head hide request_id r)
      \<or> (key, v) \<in> set (if ?extra = [] then [] else [(''extra'', redact_value hide (JDict ?extra))])
      \<or> (key, v) \<in> set (case lo_exception r of None \<Rightarrow> [] | Some e \<Rightarrow> [(''exception'', JStr (hide e))])
      \<or> (key, v) \<in> set (case lo_stack r of None \<Rightarrow> [] | Some e \<Rightarrow> [(''stack'', JStr (hide e))])"
    using assms(1) unfolding format_record_def Let_def set_append Un_iff .
  then show ?thesis
  proof (elim disjE)
    assume "(key, v) \<in> set (record_head hide request_id r)"
    with assms(2) show ?thesis using varying_head part by metis
  next
    assume "(key, v) \<in> set (if ?extra = [] then [] else [(''extra'', redact_value hide (JDict ?extra))])"
    then have "v = redact_value hide (JDict ?extra)" by (simp del: redact_value.simps split: if_splits)
    then show ?thesis by blast
  qed (rule optional, assumption)+
qed

text \<open>
  Of the parts of a line that vary with what is logged, the message, everything below \<open>extra\<close>, the
  exception and the stack, no text carries a registered secret, however deep it lies in a value.
\<close>

theorem log_record_masked:
  assumes "\<forall>p \<in> set patterns. pattern_ok p" and "plain w" and "w \<noteq> []" and "w \<in> set secrets"
    and "(key, v) \<in> set (format_record (redact patterns secrets) request_id r)"
    and "key \<notin> {''timestamp'', ''level'', ''logger'', ''request_id''}" and "s \<in> texts_of v"
  shows "\<not> contains w s"
proof -
  have masked: "\<not> contains w (redact patterns secrets t)" for t
  proof
    assume "contains w (redact patterns secrets t)"
    then have "contains w (fold (\<lambda>secret t. replace secret redacted t) (rev (sort_key length secrets)) t)"
      using contains_patterns [OF assms(2,3,1)] unfolding redact_def by blast
    from contains_literals [OF assms(2,3) this] assms(4) show False by simp
  qed
  have "s \<in> range (redact patterns secrets)"
    using varying_parts [OF assms(5,6)] assms(7) texts_redacted by blast
  with masked show ?thesis by auto
qed

text \<open>The keys of a dictionary below \<open>extra\<close> are written as they are.\<close>

lemma keys_pass: "redact_value hide (JDict [(''k'', JDict [(secret, JNull)])]) = JDict [(''k'', JDict [(secret, JNull)])]"
  by simp

text \<open>Both configured secrets are known before a handler exists, unless they are too short to be registered.\<close>

lemma configured_known:
  "s \<in> configured_secrets api_token key secrets
     \<longleftrightarrow> s \<in> secrets \<or> min_secret_length \<le> length s \<and> (api_token = Some s \<or> key = Some s)"
  by (auto simp: configured_secrets_def register_secret_def split: option.splits)

end
