(* ===== verification/Api_Surface.thy ===== *)
theory Api_Surface
  imports Opencode_Lifecycle Tick_Loop Storage
begin

text \<open>
  The edge of the API: the one error shape (\<open>api/problems.py\<close>, \<open>api/exception_handlers.py\<close>), the
  request id (\<open>api/middleware.py\<close>), readiness (\<open>api/readiness.py\<close>, \<open>api/routes/health.py\<close>), and the
  routes of the executor and of the tick loop (\<open>api/routes/opencode_runs.py\<close>,
  \<open>opencode_intake.py\<close>, \<open>heart.py\<close>). Authorization comes before any of these handlers and is the
  subject of \<open>Gate\<close>. A response is its status with a body, or a problem with its code.
\<close>

section \<open>Problems\<close>

datatype 'b response = Answer nat 'b | Problem nat string

text \<open>
  \<open>status_for_error\<close> for the errors of the auth package: the nearest mapped ancestor. What is no
  \<open>AnsinaError\<close> reaches the handler of unhandled exceptions, a 500 as well.
\<close>

fun auth_status :: "err \<Rightarrow> nat" where
  "auth_status (ForbiddenError a b) = 403"
| "auth_status (SudoRequiredError a b) = 403"
| "auth_status (StepUpUnavailableError a) = 403"
| "auth_status (SudoLockedOutError a) = 429"
| "auth_status (LoginThrottledError a) = 429"
| "auth_status EncryptionKeyMissingError = 503"
| "auth_status (SelfEscalationError a) = 403"
| "auth_status (BootstrapIdentityError a) = 403"
| "auth_status (LastAdminError a) = 409"
| "auth_status (DuplicateError a) = 409"
| "auth_status (TokenAlreadyIssuedError a) = 409"
| "auth_status (TotpAlreadyEnrolledError a) = 409"
| "auth_status (BuiltinRoleError a) = 409"
| "auth_status (RoleInUseError a b) = 409"
| "auth_status (NotFoundError a) = 404"
| "auth_status (UnknownSubjectError a b) = 404"
| "auth_status (InvalidGrantError a) = 422"
| "auth_status (WeakPasswordError a) = 400"
| "auth_status OidcCallbackError = 400"
| "auth_status OidcStateError = 400"
| "auth_status OidcTokenError = 401"
| "auth_status OidcProvisioningError = 403"
| "auth_status OidcProviderError = 502"
| "auth_status _ = 500"

text \<open>The \<open>Retry-After\<close> header of \<open>ansina_error_handler\<close>.\<close>

fun retry_after :: "err \<Rightarrow> int option" where
  "retry_after (SudoLockedOutError seconds) = Some seconds"
| "retry_after (LoginThrottledError seconds) = Some seconds"
| "retry_after _ = None"

definition code_request_invalid :: string where "code_request_invalid = ''ansina.request.invalid''"
definition code_not_found :: string where "code_not_found = ''ansina.not_found''"
definition code_internal_error :: string where "code_internal_error = ''ansina.internal_error''"
definition code_not_ready :: string where "code_not_ready = ''ansina.not_ready''"
definition code_opencode_disabled :: string where "code_opencode_disabled = ''ansina.opencode.disabled''"
definition code_heart_disabled :: string where "code_heart_disabled = ''ansina.heart.disabled''"

text \<open>The executor's errors, \<open>OpencodeRunFailedError\<close> where no route catches it.\<close>

fun opencode_problem :: "opencode_error \<Rightarrow> 'b response" where
  "opencode_problem OpencodeIntakePausedError = Problem 409 ''ansina.opencode.intake_paused''"
| "opencode_problem (OpencodeBusyError n) = Problem 429 ''ansina.opencode.busy''"
| "opencode_problem (OpencodeRunFailedError n) = Problem 500 ''ansina.opencode.run_failed''"
| "opencode_problem _ = Problem 500 code_internal_error"

section \<open>The request id\<close>

definition max_id_length :: nat where
  "max_id_length = 128"

definition printable :: "char \<Rightarrow> bool" where
  "printable c \<longleftrightarrow> 32 \<le> (of_char c :: nat) \<and> of_char c \<le> (126 :: nat)"

fun extract_inbound_id :: "(string \<times> string) list \<Rightarrow> string option" where
  "extract_inbound_id [] = None"
| "extract_inbound_id ((key, v) # headers) =
     (if key = ''x-request-id'' then
        (if \<not> list_all (\<lambda>c. (of_char c :: nat) < 128) v then None
         else if 0 < length v \<and> length v \<le> max_id_length \<and> list_all printable v then Some v else None)
      else extract_inbound_id headers)"

definition request_id :: "string \<Rightarrow> (string \<times> string) list \<Rightarrow> string" where
  "request_id fresh headers = (case extract_inbound_id headers of Some i \<Rightarrow> i | None \<Rightarrow> fresh)"

text \<open>No header smuggles a line break or a long text into the log.\<close>

lemma request_id_safe:
  assumes "list_all printable fresh" "length fresh = 32"
  shows "list_all printable (request_id fresh headers) \<and> 0 < length (request_id fresh headers)
    \<and> length (request_id fresh headers) \<le> 128"
proof -
  have "extract_inbound_id headers = Some i \<Longrightarrow> list_all printable i \<and> 0 < length i \<and> length i \<le> 128" for i
    by (induction headers rule: extract_inbound_id.induct) (auto simp: max_id_length_def split: if_splits)
  then show ?thesis using assms by (auto simp: request_id_def split: option.splits)
qed

section \<open>Readiness\<close>

text \<open>A check answers or raises; registering a name again replaces its check in place.\<close>

type_synonym check = "storage_error + bool"

definition register_check :: "string \<Rightarrow> check \<Rightarrow> (string \<times> check) list \<Rightarrow> (string \<times> check) list" where
  "register_check name check checks = dict_put name check checks"

fun snapshot :: "(string \<times> check) list \<Rightarrow> storage_error + (string \<times> bool) list" where
  "snapshot [] = Inr []"
| "snapshot ((name, check) # checks) = (case check of
     Inl e \<Rightarrow> Inl e
   | Inr b \<Rightarrow> (case snapshot checks of Inl e \<Rightarrow> Inl e | Inr rest \<Rightarrow> Inr ((name, b) # rest)))"

definition readyz :: "(string \<times> check) list \<Rightarrow> (string \<times> bool) list response" where
  "readyz checks = (case snapshot checks of
     Inl e \<Rightarrow> Problem 500 ''ansina.storage.error''
   | Inr results \<Rightarrow> if list_all snd results then Answer 200 results else Problem 503 code_not_ready)"

lemma snapshot_iff: "snapshot checks = Inr results \<longleftrightarrow> checks = map (\<lambda>(name, b). (name, Inr b)) results"
proof
  show "snapshot checks = Inr results \<Longrightarrow> checks = map (\<lambda>(name, b). (name, Inr b)) results"
    by (induction checks arbitrary: results) (auto split: sum.splits)
  have "snapshot (map (\<lambda>(name, b). (name, Inr b)) results) = Inr results" by (induction results) auto
  then show "checks = map (\<lambda>(name, b). (name, Inr b)) results \<Longrightarrow> snapshot checks = Inr results" by simp
qed

lemma readyz_ready:
  "readyz checks = Answer 200 results \<longleftrightarrow> checks = map (\<lambda>(name, b). (name, Inr b)) results \<and> list_all snd results"
  by (auto simp: readyz_def simp flip: snapshot_iff split: sum.splits if_splits)

text \<open>A closed database is not reported as unready: its check raises and the route answers 500.\<close>

lemma closed_database_readyz:
  "readyz [(''storage'', fst (is_healthy t wal answers (close_pool s)))] = Problem 500 ''ansina.storage.error''"
  by (simp add: readyz_def is_healthy_raises)

section \<open>The routes of the executor\<close>

text \<open>The service is \<open>None\<close> where the executor is disabled.\<close>

type_synonym 'b route = "oc_service option \<Rightarrow> 'b response \<times> oc_service option"

definition with_service :: "(oc_service \<Rightarrow> 'b response \<times> oc_service) \<Rightarrow> 'b route" where
  "with_service handler state = (case state of
     None \<Rightarrow> (Problem 503 code_opencode_disabled, None)
   | Some s \<Rightarrow> (case handler s of (r, s') \<Rightarrow> (r, Some s')))"

definition submit_run :: "oc_settings \<Rightarrow> instant \<Rightarrow> string \<Rightarrow> run_request \<Rightarrow> opencode_run route" where
  "submit_run st now new_id payload = with_service (\<lambda>s.
     if \<not> request_ok payload then (Problem 400 code_request_invalid, s)
     else case submit st payload None now new_id s of
       (Inl (OpencodeRunFailedError n), s') \<Rightarrow> (Problem 400 code_request_invalid, s')
     | (Inl e, s') \<Rightarrow> (opencode_problem e, s')
     | (Inr r, s') \<Rightarrow> (Answer 202 r, s'))"

record run_page =
  rp_runs :: "opencode_run list"
  rp_count :: nat
  rp_limit :: nat
  rp_has_more :: bool

text \<open>The \<open>since\<close> of a query: a text \<open>parse_iso\<close> refuses, or a timestamp in the form rows carry.\<close>

datatype since_arg = Malformed | Since stamp

definition max_limit :: nat where "max_limit = 500"

definition list_page :: "nat \<Rightarrow> stamp option \<Rightarrow> opencode_run list \<Rightarrow> run_page" where
  "list_page limit since rows =
     (let runs = runs_list_recent (limit + 1) since rows; page = take limit runs
      in \<lparr>rp_runs = page, rp_count = length page, rp_limit = limit, rp_has_more = limit < length runs\<rparr>)"

definition list_runs :: "int \<Rightarrow> since_arg option \<Rightarrow> run_page route" where
  "list_runs limit since state =
     (if limit < 1 \<or> int max_limit < limit then (Problem 422 code_request_invalid, state)
      else with_service (\<lambda>s. case since of
        Some Malformed \<Rightarrow> (Problem 400 code_request_invalid, s)
      | Some (Since t) \<Rightarrow> (Answer 200 (list_page (nat limit) (Some t) (oc_runs s)), s)
      | None \<Rightarrow> (Answer 200 (list_page (nat limit) None (oc_runs s)), s)) state)"

definition get_run :: "string \<Rightarrow> opencode_run route" where
  "get_run run_id = with_service (\<lambda>s. case find_run run_id (oc_runs s) of
     None \<Rightarrow> (Problem 404 code_not_found, s) | Some r \<Rightarrow> (Answer 200 r, s))"

definition cancel_route :: "string \<Rightarrow> instant \<Rightarrow> instant \<Rightarrow> opencode_run route" where
  "cancel_route run_id now later = with_service (\<lambda>s. case cancel_run run_id now later s of
     (Inl e, s') \<Rightarrow> (opencode_problem e, s')
   | (Inr cancelled, s') \<Rightarrow> (case find_run run_id (oc_runs s') of
       None \<Rightarrow> (if cancelled then Problem 500 code_internal_error else Problem 404 code_not_found, s')
     | Some r \<Rightarrow> (if cancelled then Answer 200 r else Problem 404 code_not_found, s')))"

record intake_status =
  is_enabled :: bool
  is_intake_paused :: bool
  is_active_runs :: nat

definition get_intake_status :: "intake_status route" where
  "get_intake_status = with_service (\<lambda>s.
     (Answer 200 \<lparr>is_enabled = True, is_intake_paused = oc_intake_paused s, is_active_runs = count_active (oc_runs s)\<rparr>, s))"

definition pause_intake_route :: "intake_status route" where
  "pause_intake_route = with_service (\<lambda>s. case pause_intake s of (r, s') \<Rightarrow>
     (Answer 200 \<lparr>is_enabled = True, is_intake_paused = True, is_active_runs = count_active (oc_runs s')\<rparr>, s'))"

definition resume_intake_route :: "intake_status route" where
  "resume_intake_route = with_service (\<lambda>s. case resume_intake s of (r, s') \<Rightarrow>
     (Answer 200 \<lparr>is_enabled = True, is_intake_paused = False, is_active_runs = count_active (oc_runs s')\<rparr>, s'))"

section \<open>The routes of the tick loop\<close>

record tick_status =
  tk_running :: bool
  tk_paused :: bool
  tk_paused_reason :: "pause_reason option"
  tk_ticks :: nat
  tk_last_decision :: "decision option"
  tk_last_tick_at :: "instant option"
  tk_last_duration :: "rat option"

definition get_tick_status :: "(tick_state \<times> bool) option \<Rightarrow> tick_status response" where
  "get_tick_status loop = (case loop of
     None \<Rightarrow> Problem 503 code_heart_disabled
   | Some (s, healthy) \<Rightarrow> Answer 200 \<lparr>tk_running = healthy, tk_paused = ts_paused s, tk_paused_reason = ts_pause_reason s,
       tk_ticks = ts_ticks_run s, tk_last_decision = ts_last_decision s, tk_last_tick_at = ts_last_tick_at s,
       tk_last_duration = ts_last_duration s\<rparr>)"

definition pause_tick_loop :: "tick_state option \<Rightarrow> bool response \<times> tick_state option" where
  "pause_tick_loop loop = (case loop of None \<Rightarrow> (Problem 503 code_heart_disabled, None)
     | Some s \<Rightarrow> (Answer 200 True, Some (pause None s)))"

definition resume_tick_loop :: "tick_state option \<Rightarrow> bool response \<times> tick_state option" where
  "resume_tick_loop loop = (case loop of None \<Rightarrow> (Problem 503 code_heart_disabled, None)
     | Some s \<Rightarrow> (Answer 200 False, Some (resume s)))"

section \<open>What the routes answer\<close>

lemma find_run_appended: "i \<notin> ru_id ` set rows \<Longrightarrow> ru_id r = i \<Longrightarrow> find_run i (rows @ [r]) = Some r"
  by (induction rows) (auto simp: find_run_def)

text \<open>
  C37. Submission, every branch and its order: 503 where the executor is disabled, 400 for a
  contradictory request, 409 while intake is paused, 400 for a prompt over the limit, 429 for a full
  backlog, 500 for an id already taken, each leaving the service exactly as it was; otherwise 202
  with the new queued row, which \<open>GET\<close> of its id then returns and which takes one place of the
  backlog.
\<close>

theorem submit_run_answers:
  "submit_run st now new_id q None = (Problem 503 code_opencode_disabled, None)
   \<and> (let (r, state) = submit_run st now new_id q (Some s) in
     if \<not> request_ok q then (r, state) = (Problem 400 code_request_invalid, Some s)
     else if oc_intake_paused s then (r, state) = (Problem 409 ''ansina.opencode.intake_paused'', Some s)
     else if os_max_prompt_chars st < length (rr_prompt q) then (r, state) = (Problem 400 code_request_invalid, Some s)
     else if os_queue_max_depth st \<le> count_active (oc_runs s) then (r, state) = (Problem 429 ''ansina.opencode.busy'', Some s)
     else if new_id \<in> ru_id ` set (oc_runs s) then (r, state) = (Problem 500 code_internal_error, Some s)
     else \<exists>run s'. r = Answer 202 run \<and> state = Some s' \<and> ru_id run = new_id \<and> ru_status run = Queued \<and> ru_prompt run = rr_prompt q
       \<and> oc_runs s' = oc_runs s @ [run] \<and> phase_of new_id s' = Some Unstarted
       \<and> get_run new_id state = (Answer 200 run, state) \<and> count_active (oc_runs s') = Suc (count_active (oc_runs s)))"
proof -
  have check: "submit_check st q s = (if oc_intake_paused s then (Inl OpencodeIntakePausedError, s)
      else if os_max_prompt_chars st < length (rr_prompt q) then (Inl (OpencodeRunFailedError (length (rr_prompt q))), s)
      else if os_queue_max_depth st \<le> count_active (oc_runs s) then (Inl (OpencodeBusyError (os_queue_max_depth st)), s)
      else (Inr (), s))"
    by (simp add: submit_check_def op_defs)
  let ?run = "new_run new_id (iso now) (rr_prompt q) (rr_session_id q) (rr_model q) (rr_agent q) None"
  have create: "submit_create q None now new_id s = (if new_id \<in> ru_id ` set (oc_runs s) then (Inl Row_Clash, s)
      else (Inr ?run, s\<lparr>oc_runs := oc_runs s @ [?run], oc_trace := oc_trace s @ [(Some new_id, Submitted q)],
        oc_tasks := dict_put new_id Unstarted (oc_tasks s)\<rparr>))"
    by (simp add: submit_create_def on_runs_def run_create_def op_defs Let_def record_trace_def set_phase_def new_run_def)
  have run: "ru_id ?run = new_id" "ru_status ?run = Queued" "ru_prompt ?run = rr_prompt q" by (simp_all add: new_run_def)
  have count: "count_active (oc_runs s @ [?run]) = Suc (count_active (oc_runs s))"
    by (simp add: count_active_def active_status_def run)
  have none: "submit_run st now new_id q None = (Problem 503 code_opencode_disabled, None)"
    by (simp add: submit_run_def with_service_def)
  show ?thesis
    using none run count find_run_appended [of new_id "oc_runs s" ?run]
    by (auto simp: submit_run_def with_service_def submit_def op_then_def op_bind_def check create get_run_def phase_of_def)
qed

text \<open>
  The witness of every branch: a service that is paused, full, or already has the id refuses; the
  next request is taken.
\<close>

definition api_settings :: oc_settings where
  "api_settings = \<lparr>os_max_prompt_chars = 10, os_queue_max_depth = 1, os_intake_paused_on_boot = False\<rparr>"

definition api_request :: run_request where
  "api_request = \<lparr>rr_prompt = ''hello'', rr_session_id = None, rr_continue_last = False, rr_fork = False, rr_model = None,
     rr_agent = None, rr_auto_approve = None\<rparr>"

lemma submit_run_answers_witness:
  "\<exists>run s'. submit_run api_settings 0 ''a'' api_request (Some (new_service api_settings [])) = (Answer 202 run, Some s')
     \<and> get_run ''a'' (Some s') = (Answer 200 run, Some s')"
  using submit_run_answers [of api_settings 0 "''a''" api_request "new_service api_settings []"]
  by (simp add: api_settings_def api_request_def request_ok_def new_service_def count_active_def Let_def split: prod.splits) auto

text \<open>
  Cancellation: 404 exactly when no task of that id is tracked. A task that had started leaves a
  cancelled row; one that had not is dropped, and the 200 carries a row that says queued.
\<close>

lemma cancel_untracked: "phase_of run_id s = None \<Longrightarrow> cancel_route run_id now later (Some s) = (Problem 404 code_not_found, Some s)"
  by (simp add: cancel_route_def with_service_def cancel_run_def split: option.splits)

lemma cancel_unstarted_answers_queued:
  assumes "phase_of run_id s = Some Unstarted" and "find_run run_id (oc_runs s) = Some r"
  shows "fst (cancel_route run_id now later (Some s)) = Answer 200 r"
  using assms by (simp add: cancel_route_def with_service_def cancel_run_def forget_task_def op_defs)

end
