(* ===== verification/Settings_Rules.thy ===== *)
theory Settings_Rules
  imports Complex_Main Prelude
begin

text \<open>
  The rules of the configuration (\<open>config/settings.py\<close>) beyond single bounds: secrets come from the
  environment only, what a token of the administrator must look like, and the checks between
  fields and between sections. pydantic fills the fields; here are the validators it calls. The
  report of an error is represented by its constructor, without its wording.
\<close>

datatype config_error =
    Secrets_In_File "string list list"
  | Field_Too_Short string
  | Token_Charset
  | Token_Entropy
  | Reserved_Username
  | Admin_Pairing
  | Password_Bounds
  | Oidc_Missing "string list"
  | Cors_Wildcard
  | Cors_No_Origins
  | File_Over_Spool
  | Schedule_Missing
  | Unsafe_Bind
  | Unobserved_Executor

section \<open>Secrets and the file\<close>

text \<open>The tree of the models: a field is a secret, a section of its own, or something else.\<close>

datatype field_type = Secret_Field | Section "(string \<times> field_type) list" | Other_Field

fun walk_secret_paths :: "string list \<Rightarrow> (string \<times> field_type) list \<Rightarrow> string list list" where
  "walk_secret_paths prefix [] = []"
| "walk_secret_paths prefix ((name, ty) # fs) =
     (case ty of Secret_Field \<Rightarrow> [prefix @ [name]]
      | Section sub \<Rightarrow> walk_secret_paths (prefix @ [name]) sub
      | Other_Field \<Rightarrow> []) @ walk_secret_paths prefix fs"

fun find_secret_key_paths :: "string list list \<Rightarrow> string list \<Rightarrow> (string \<times> json) list \<Rightarrow> string list list" where
  "find_secret_key_paths secrets prefix [] = []"
| "find_secret_key_paths secrets prefix ((key, v) # kvs) =
     (let path = prefix @ [key] in
      (if path \<in> set secrets then [path]
       else case v of JDict sub \<Rightarrow> find_secret_key_paths secrets path sub | _ \<Rightarrow> []))
     @ find_secret_key_paths secrets prefix kvs"

definition toml_source :: "(string \<times> field_type) list \<Rightarrow> (string \<times> json) list \<Rightarrow> config_error + (string \<times> json) list" where
  "toml_source model data =
     (let found = find_secret_key_paths (walk_secret_paths [] model) [] data
      in if found \<noteq> [] then Inl (Secrets_In_File found) else Inr data)"

text \<open>The sections of \<open>Settings\<close> that hold a secret, with one other field each.\<close>

definition settings_model :: "(string \<times> field_type) list" where
  "settings_model =
     [(''server'', Section [(''host'', Other_Field), (''port'', Other_Field)]),
      (''security'', Section
         [(''enabled'', Other_Field), (''admin_username'', Other_Field), (''api_token'', Secret_Field),
          (''encryption'', Section [(''key'', Secret_Field)]),
          (''oidc'', Section [(''enabled'', Other_Field), (''client_secret'', Secret_Field)])]),
      (''brain'', Section [(''enabled'', Other_Field), (''api_key'', Secret_Field)]),
      (''telemetry'', Section [(''enabled'', Other_Field), (''s3'', Section
         [(''enabled'', Other_Field), (''access_key_id'', Secret_Field), (''secret_access_key'', Secret_Field)])]),
      (''opencode'', Section [(''enabled'', Other_Field), (''provider_api_key'', Secret_Field)])]"

lemma settings_secrets:
  "walk_secret_paths [] settings_model =
     [[''security'', ''api_token''], [''security'', ''encryption'', ''key''], [''security'', ''oidc'', ''client_secret''],
      [''brain'', ''api_key''], [''telemetry'', ''s3'', ''access_key_id''], [''telemetry'', ''s3'', ''secret_access_key''],
      [''opencode'', ''provider_api_key'']]"
  by code_simp

text \<open>Which paths the models make secret, and which paths a file sets.\<close>

fun secret_at :: "(string \<times> field_type) list \<Rightarrow> string list \<Rightarrow> bool" where
  "secret_at fs [] = False"
| "secret_at fs [k] = ((k, Secret_Field) \<in> set fs)"
| "secret_at fs (k # p) = (\<exists>sub. (k, Section sub) \<in> set fs \<and> secret_at sub p)"

fun sets_path :: "(string \<times> json) list \<Rightarrow> string list \<Rightarrow> bool" where
  "sets_path kvs [] = False"
| "sets_path kvs [k] = (k \<in> fst ` set kvs)"
| "sets_path kvs (k # p) = (\<exists>sub. (k, JDict sub) \<in> set kvs \<and> sets_path sub p)"

lemma secret_at_Nil: "\<not> secret_at [] p"
  by (cases "([] :: (string \<times> field_type) list, p)" rule: secret_at.cases) auto

lemma secret_at_Cons: "secret_at ((name, ty) # fs) p \<longleftrightarrow> secret_at fs p
    \<or> (ty = Secret_Field \<and> p = [name]) \<or> (\<exists>sub q. ty = Section sub \<and> p = name # q \<and> secret_at sub q)"
  by (cases "(fs, p)" rule: secret_at.cases) auto

lemma walk_iff: "path \<in> set (walk_secret_paths prefix fs) \<longleftrightarrow> (\<exists>p. path = prefix @ p \<and> secret_at fs p)"
proof (induction prefix fs arbitrary: path rule: walk_secret_paths.induct)
  case (1 prefix)
  then show ?case by (simp add: secret_at_Nil)
next
  case (2 prefix name ty fs)
  show ?case
  proof (cases ty)
    case (Section sub)
    then show ?thesis using 2(1) [OF Section] 2(2) by (auto simp: secret_at_Cons)
  qed (use 2(2) in \<open>auto simp: secret_at_Cons\<close>)
qed

lemma sets_path_Cons: "sets_path ((key, v) # kvs) p \<longleftrightarrow> sets_path kvs p \<or> p = [key]
    \<or> (\<exists>sub q. v = JDict sub \<and> p = key # q \<and> sets_path sub q)"
  by (cases "(kvs, p)" rule: sets_path.cases) auto

lemma sets_path_Nil: "\<not> sets_path [] p"
  by (cases "([] :: (string \<times> json) list, p)" rule: sets_path.cases) auto

lemma found_sound:
  "path \<in> set (find_secret_key_paths secrets prefix kvs) \<Longrightarrow> path \<in> set secrets \<and> (\<exists>p. path = prefix @ p \<and> sets_path kvs p)"
proof (induction secrets prefix kvs arbitrary: path rule: find_secret_key_paths.induct)
  case (2 secrets prefix key v kvs)
  show ?case
  proof (cases "prefix @ [key] \<in> set secrets")
    case True
    then show ?thesis using 2 by (auto simp: sets_path_Cons)
  next
    case False
    with 2(3) consider "path \<in> set (find_secret_key_paths secrets prefix kvs)"
      | sub where "v = JDict sub" "path \<in> set (find_secret_key_paths secrets (prefix @ [key]) sub)"
      by (auto simp: Let_def split: json.splits)
    then show ?thesis
    proof cases
      case 1
      then show ?thesis using 2(2) by (auto simp: sets_path_Cons)
    next
      case (2 sub)
      from "2.IH"(1) [OF refl False \<open>v = JDict sub\<close> 2(2)] obtain p where "path \<in> set secrets" "path = (prefix @ [key]) @ p" "sets_path sub p"
        by blast
      then show ?thesis using \<open>v = JDict sub\<close> by (auto simp: sets_path_Cons intro!: exI [of _ "key # p"])
    qed
  qed
qed simp

lemma found_complete:
  "prefix @ p \<in> set secrets \<Longrightarrow> sets_path kvs p \<Longrightarrow> find_secret_key_paths secrets prefix kvs \<noteq> []"
proof (induction secrets prefix kvs arbitrary: p rule: find_secret_key_paths.induct)
  case (1 secrets prefix)
  then show ?case by (simp add: sets_path_Nil)
next
  case (2 secrets prefix key v kvs)
  show ?case
  proof (cases "prefix @ [key] \<in> set secrets")
    case False
    from 2(4) consider "sets_path kvs p" | "p = [key]" | sub q where "v = JDict sub" "p = key # q" "sets_path sub q"
      by (auto simp: sets_path_Cons)
    then show ?thesis
    proof cases
      case 3
      then show ?thesis using 2(1) [OF refl False, of sub q] 2(3) False by simp
    qed (use 2 False in \<open>auto simp: Let_def\<close>)
  qed (simp add: Let_def)
qed



section \<open>The administrator's token\<close>

definition token_min_length :: nat where
  "token_min_length = 32"

definition token_char :: "char \<Rightarrow> bool" where
  "token_char c \<longleftrightarrow> c \<in> set ''ABCDEFGHIJKLMNOPQRSTUVWXYZabcdefghijklmnopqrstuvwxyz0123456789_-''"

text \<open>The match of \<open>^[A-Za-z0-9_-]+$\<close>: the \<open>$\<close> also matches before one last line break.\<close>

definition charset_match :: "string \<Rightarrow> bool" where
  "charset_match s \<longleftrightarrow>
     (let body = (if s \<noteq> [] \<and> last s = CHR 0x0A then butlast s else s) in body \<noteq> [] \<and> list_all token_char body)"

text \<open>Shannon's entropy of the characters, over the reals where the code has floats.\<close>

definition token_entropy :: "string \<Rightarrow> real" where
  "token_entropy s = (if s = [] then 0
     else - (\<Sum>c \<in> set s. (count_list s c / length s) * log 2 (count_list s c / length s)))"

definition min_entropy :: real where
  "min_entropy = 5 / 2"

definition validate_token :: "string option \<Rightarrow> config_error + string option" where
  "validate_token v = (case v of
     None \<Rightarrow> Inr None
   | Some raw \<Rightarrow>
       if length raw < token_min_length then Inl (Field_Too_Short ''security.api_token'')
       else if \<not> charset_match raw then Inl Token_Charset
       else if token_entropy raw < min_entropy then Inl Token_Entropy
       else Inr (Some raw))"

text \<open>Entropy is at most the logarithm of the number of different characters.\<close>

lemma entropy_le_log_card:
  assumes "s \<noteq> []"
  shows "token_entropy s \<le> log 2 (card (set s))"
proof -
  let ?n = "real (length s)" and ?k = "real (card (set s))"
  define prob where "prob c = count_list s c / length s" for c
  have n: "0 < ?n" and k: "0 < ?k" using assms by (simp_all add: card_gt_0_iff)
  have p: "0 < prob c" if "c \<in> set s" for c
  proof -
    have "count_list s c \<noteq> 0" using that by (simp add: count_list_0_iff)
    then show ?thesis using n by (simp add: prob_def)
  qed
  have "(\<Sum>c \<in> set s. count_list s c) = length s" by (simp add: sum_count_set)
  then have one: "(\<Sum>c \<in> set s. prob c) = 1" using n by (simp add: prob_def flip: sum_divide_distrib of_nat_sum)
  have gibbs: "- (prob c * log 2 (prob c)) - prob c * log 2 ?k \<le> (1 / ?k - prob c) / ln 2" if "c \<in> set s" for c
  proof -
    have "ln (1 / (prob c * ?k)) \<le> 1 / (prob c * ?k) - 1" using p [OF that] k by (intro ln_le_minus_one) simp
    then have "prob c * (ln (1 / (prob c * ?k)) / ln 2) \<le> prob c * ((1 / (prob c * ?k) - 1) / ln 2)"
      using p [OF that] by (intro mult_left_mono divide_right_mono) simp_all
    also have "\<dots> = (1 / ?k - prob c) / ln 2" using p [OF that] k assms by (simp add: field_simps)
    also have "prob c * (ln (1 / (prob c * ?k)) / ln 2) = - (prob c * log 2 (prob c)) - prob c * log 2 ?k"
      using p [OF that] k assms by (simp add: log_def ln_div ln_mult field_simps)
    finally show ?thesis .
  qed
  have "token_entropy s - log 2 ?k = (\<Sum>c \<in> set s. - (prob c * log 2 (prob c)) - prob c * log 2 ?k)"
    using assms one by (simp add: token_entropy_def prob_def [symmetric] sum_subtractf sum_negf flip: sum_distrib_right)
  also have "\<dots> \<le> (\<Sum>c \<in> set s. (1 / ?k - prob c) / ln 2)" by (intro sum_mono gibbs)
  also have "\<dots> = ((\<Sum>c \<in> set s. 1 / ?k) - (\<Sum>c \<in> set s. prob c)) / ln 2" by (simp add: sum_subtractf flip: sum_divide_distrib)
  also have "\<dots> = 0" using k one assms by simp
  finally show ?thesis by simp
qed

lemma log_5: "log 2 5 < (5 / 2 :: real)"
proof -
  have "2 * log 2 5 = log 2 (25 :: real)" using log_nat_power [of 5 2 2] by simp
  also have "\<dots> < log 2 32" by simp
  also have "\<dots> = 5" using log_nat_power [of 2 2 5] by simp
  finally show ?thesis by simp
qed

text \<open>
  C39. What the strength check guarantees: an accepted token has at least 32 characters, at least six
  of them different, all of them letters, digits, a dash or an underscore, except that the last
  one may be a line break.
\<close>

theorem accepted_token_strong:
  assumes "validate_token (Some raw) = Inr v"
  shows "v = Some raw \<and> 32 \<le> length raw \<and> 6 \<le> card (set raw) \<and> list_all token_char (butlast raw)
    \<and> (token_char (last raw) \<or> last raw = CHR 0x0A)"
proof -
  have long: "32 \<le> length raw" "v = Some raw" and chars: "charset_match raw" and ent: "min_entropy \<le> token_entropy raw"
    using assms by (auto simp: validate_token_def token_min_length_def split: if_splits)
  then have ne: "raw \<noteq> []" by auto
  have "6 \<le> card (set raw)"
  proof (rule ccontr)
    assume "\<not> 6 \<le> card (set raw)"
    then have "real (card (set raw)) \<le> 5" "0 < real (card (set raw))" using ne by (simp_all add: card_gt_0_iff)
    then have "log 2 (card (set raw)) \<le> log 2 5" by simp
    with ent entropy_le_log_card [OF ne] log_5 show False by (simp add: min_entropy_def)
  qed
  moreover have "list_all token_char (butlast raw) \<and> (token_char (last raw) \<or> last raw = CHR 0x0A)"
    using chars ne by (cases raw rule: rev_cases) (auto simp: charset_match_def Let_def split: if_splits)
  ultimately show ?thesis using long by simp
qed

text \<open>Thirty-two characters, each of eight four times: an entropy of three.\<close>

definition sample_token :: string where
  "sample_token = ''abcdefghabcdefghabcdefghabcdefgh''"

lemma sample_token_accepted: "validate_token (Some sample_token) = Inr (Some sample_token)"
proof -
  have "log 2 (1 / 8) = (-3 :: real)" using log_nat_power [of 2 2 3] by (simp add: log_divide)
  moreover have letters: "set sample_token = set ''abcdefgh''" by (auto simp: sample_token_def)
  have "count_list sample_token c = 4" if "c \<in> set ''abcdefgh''" for c using that by (auto simp: sample_token_def)
  moreover have "length sample_token = 32" "sample_token \<noteq> []" by (simp_all add: sample_token_def)
  ultimately have "token_entropy sample_token = - (\<Sum>c \<in> set ''abcdefgh''. (1 / 8) * (- 3))"
    unfolding token_entropy_def letters by (simp add: sum.cong)
  then have "token_entropy sample_token = 3" by simp
  moreover have "charset_match sample_token" by code_simp
  ultimately show ?thesis by (simp add: validate_token_def token_min_length_def min_entropy_def sample_token_def)
qed

lemma accepted_token_strong_witness: "6 \<le> card (set sample_token) \<and> list_all token_char (butlast sample_token)"
  using accepted_token_strong [OF sample_token_accepted] by simp

text \<open>A token that ends in a line break is accepted, though no header can carry it.\<close>

lemma line_break_accepted: "charset_match (s @ [CHR 0x0A]) \<longleftrightarrow> s \<noteq> [] \<and> list_all token_char s"
  by (simp add: charset_match_def)

section \<open>Checks between fields\<close>

definition reserved_username :: string where
  "reserved_username = ''bootstrap-admin''"

definition validate_admin :: "string option \<Rightarrow> string option \<Rightarrow> config_error + unit" where
  "validate_admin username token =
     (if username = Some [] then Inl (Field_Too_Short ''security.admin_username'')
      else if username = Some reserved_username then Inl Reserved_Username
      else case validate_token token of
        Inl e \<Rightarrow> Inl e
      | Inr _ \<Rightarrow> if (username = None) \<noteq> (token = None) then Inl Admin_Pairing else Inr ())"

definition validate_length_bounds :: "nat \<Rightarrow> nat \<Rightarrow> config_error + unit" where
  "validate_length_bounds min_length max_length = (if max_length < min_length then Inl Password_Bounds else Inr ())"

definition strip_trailing_slash :: "string \<Rightarrow> string" where
  "strip_trailing_slash s = rev (dropWhile (\<lambda>c. c = CHR ''/'') (rev s))"

record oidc_conf =
  ocf_enabled :: bool
  ocf_issuer :: string
  ocf_client_id :: string
  ocf_client_secret :: "string option"
  ocf_redirect_uri :: string

definition validate_oidc :: "oidc_conf \<Rightarrow> config_error + oidc_conf" where
  "validate_oidc raw =
     (let c = raw\<lparr>ocf_issuer := strip_trailing_slash (ocf_issuer raw)\<rparr> in
      if \<not> ocf_enabled c then Inr c
      else let missing = map fst (filter (\<lambda>(name, v). v = []) [(''issuer'', ocf_issuer c), (''client_id'', ocf_client_id c),
                 (''redirect_uri'', ocf_redirect_uri c)]) @ (if ocf_client_secret c = None then [''client_secret''] else [])
           in if missing \<noteq> [] then Inl (Oidc_Missing missing) else Inr c)"

record cors_conf =
  cf_enabled :: bool
  cf_allowed_origins :: "string list"

definition validate_cors :: "cors_conf \<Rightarrow> config_error + cors_conf" where
  "validate_cors raw =
     (if ''*'' \<in> set (cf_allowed_origins raw) then Inl Cors_Wildcard
      else let c = raw\<lparr>cf_allowed_origins := map strip_trailing_slash (cf_allowed_origins raw)\<rparr>
           in if cf_enabled c \<and> cf_allowed_origins c = [] then Inl Cors_No_Origins else Inr c)"

definition validate_file_fits :: "nat \<Rightarrow> nat \<Rightarrow> config_error + unit" where
  "validate_file_fits max_file max_spool = (if max_file > max_spool then Inl File_Over_Spool else Inr ())"

definition validate_fault_injection :: "bool \<Rightarrow> string option \<Rightarrow> config_error + unit" where
  "validate_fault_injection enabled schedule = (if enabled \<and> schedule = None then Inl Schedule_Missing else Inr ())"

text \<open>
  \<open>_is_loopback\<close>: a dotted IPv4 address is four decimal numbers below 256, none of more than three
  digits or with a leading nought; an IPv6 address is read by the parameter \<open>ip6_loopback\<close>.
\<close>

definition octet :: "string \<Rightarrow> nat option" where
  "octet s = (if s = [] \<or> 3 < length s \<or> \<not> list_all (\<lambda>c. c \<in> set ''0123456789'') s \<or> (hd s = CHR ''0'' \<and> s \<noteq> ''0'') then None
     else let n = foldl (\<lambda>a c. a * 10 + (of_char c - 48)) 0 s in if n \<le> 255 then Some n else None)"

definition ipv4 :: "string \<Rightarrow> nat list option" where
  "ipv4 s = (let parts = split_on CHR ''.'' s; octets = map octet parts in
     if length parts = 4 \<and> list_all (\<lambda>x. x \<noteq> None) octets then Some (map the octets) else None)"

definition is_loopback :: "(string \<Rightarrow> bool option) \<Rightarrow> string \<Rightarrow> bool" where
  "is_loopback ip6_loopback host =
     (if host = ''localhost'' then True
      else case ipv4 host of
        Some octets \<Rightarrow> hd octets = 127
      | None \<Rightarrow> (case ip6_loopback host of Some b \<Rightarrow> b | None \<Rightarrow> False))"

section \<open>The whole\<close>

record settings_conf =
  sf_host :: string
  sf_security_enabled :: bool
  sf_admin_username :: "string option"
  sf_api_token :: "string option"
  sf_password_min :: nat
  sf_password_max :: nat
  sf_oidc :: oidc_conf
  sf_cors :: cors_conf
  sf_fault_enabled :: bool
  sf_fault_schedule :: "string option"
  sf_telemetry_enabled :: bool
  sf_max_file :: nat
  sf_max_spool :: nat
  sf_opencode_enabled :: bool

text \<open>
  The validators in the order pydantic runs them: a section when it is built, then those of the
  whole. pydantic gathers the errors of fields; a \<open>ConfigError\<close> of a validator stops at once. Here
  the first one is the answer: what is accepted is the same.
\<close>

definition check_settings :: "(string \<Rightarrow> bool option) \<Rightarrow> settings_conf \<Rightarrow> config_error + settings_conf" where
  "check_settings ip6 s =
     (case validate_length_bounds (sf_password_min s) (sf_password_max s) of Inl e \<Rightarrow> Inl e | Inr _ \<Rightarrow>
      case validate_oidc (sf_oidc s) of Inl e \<Rightarrow> Inl e | Inr oidc \<Rightarrow>
      case validate_cors (sf_cors s) of Inl e \<Rightarrow> Inl e | Inr cors \<Rightarrow>
      case validate_admin (sf_admin_username s) (sf_api_token s) of Inl e \<Rightarrow> Inl e | Inr _ \<Rightarrow>
      case validate_fault_injection (sf_fault_enabled s) (sf_fault_schedule s) of Inl e \<Rightarrow> Inl e | Inr _ \<Rightarrow>
      case validate_file_fits (sf_max_file s) (sf_max_spool s) of Inl e \<Rightarrow> Inl e | Inr _ \<Rightarrow>
      if \<not> sf_security_enabled s \<and> \<not> is_loopback ip6 (sf_host s) then Inl Unsafe_Bind
      else if sf_opencode_enabled s \<and> \<not> sf_telemetry_enabled s then Inl Unobserved_Executor
      else Inr (s\<lparr>sf_oidc := oidc, sf_cors := cors\<rparr>))"

lemma strip_trailing_slash_iff:
  "strip_trailing_slash s = w \<longleftrightarrow> (w = [] \<or> last w \<noteq> CHR ''/'') \<and> (\<exists>n. s = w @ replicate n CHR ''/'')"
proof
  assume w: "strip_trailing_slash s = w"
  let ?t = "takeWhile (\<lambda>c. c = CHR ''/'') (rev s)"
  have "rev s = ?t @ rev w" using w by (metis rev_rev_ident strip_trailing_slash_def takeWhile_dropWhile_id)
  then have "s = w @ rev ?t" by (metis rev_append rev_rev_ident)
  moreover have "?t = replicate (length ?t) CHR ''/''" by (rule replicate_eqI) (auto dest: set_takeWhileD)
  then have "rev ?t = replicate (length ?t) CHR ''/''" by (metis rev_replicate)
  moreover have "w = [] \<or> last w \<noteq> CHR ''/''"
  proof (cases "dropWhile (\<lambda>c. c = CHR ''/'') (rev s) = []")
    case False
    then have "hd (dropWhile (\<lambda>c. c = CHR ''/'') (rev s)) \<noteq> CHR ''/''" by (rule hd_dropWhile)
    then show ?thesis using w False by (auto simp: strip_trailing_slash_def last_rev)
  qed (use w in \<open>metis rev.simps(1) strip_trailing_slash_def\<close>)
  ultimately show "(w = [] \<or> last w \<noteq> CHR ''/'') \<and> (\<exists>n. s = w @ replicate n CHR ''/'')" by metis
next
  assume "(w = [] \<or> last w \<noteq> CHR ''/'') \<and> (\<exists>n. s = w @ replicate n CHR ''/'')"
  then obtain n where s: "s = w @ replicate n CHR ''/''" and w: "w = [] \<or> last w \<noteq> CHR ''/''" by blast
  have "dropWhile (\<lambda>c. c = CHR ''/'') (replicate n CHR ''/'' @ rev w) = rev w"
    using w by (subst dropWhile_append2) (auto simp: hd_rev neq_Nil_conv dropWhile_eq_self_iff)
  then show "strip_trailing_slash s = w" by (simp add: strip_trailing_slash_def s)
qed

text \<open>
  What an accepted configuration guarantees: without security the server listens on a loopback
  address only; the executor runs only with telemetry; the administrator is configured by a name
  and a strong token together or not at all, and never under the reserved name; enabled OIDC has
  its four values and enabled CORS its origins; a full log file fits its spool; and a wildcard
  origin gets through exactly if the file spelled it with a slash behind it, as the check looks for
  it before the slashes are removed.
\<close>

theorem accepted_settings:
  assumes "check_settings ip6 s = Inr s'"
  shows "(\<not> sf_security_enabled s' \<longrightarrow> is_loopback ip6 (sf_host s'))
     \<and> (sf_opencode_enabled s' \<longrightarrow> sf_telemetry_enabled s')
     \<and> (case sf_api_token s' of None \<Rightarrow> sf_admin_username s' = None
        | Some token \<Rightarrow> validate_token (Some token) = Inr (Some token)
            \<and> (\<exists>name. sf_admin_username s' = Some name \<and> name \<noteq> [] \<and> name \<noteq> reserved_username))
     \<and> (ocf_enabled (sf_oidc s') \<longrightarrow> ocf_issuer (sf_oidc s') \<noteq> [] \<and> last (ocf_issuer (sf_oidc s')) \<noteq> CHR ''/''
        \<and> ocf_client_id (sf_oidc s') \<noteq> [] \<and> ocf_redirect_uri (sf_oidc s') \<noteq> [] \<and> ocf_client_secret (sf_oidc s') \<noteq> None)
     \<and> (cf_enabled (sf_cors s') \<longrightarrow> cf_allowed_origins (sf_cors s') \<noteq> [])
     \<and> sf_max_file s' \<le> sf_max_spool s'
     \<and> (''*'' \<in> set (cf_allowed_origins (sf_cors s'))
        \<longleftrightarrow> (\<exists>n > 0. CHR ''*'' # replicate n CHR ''/'' \<in> set (cf_allowed_origins (sf_cors s))))"
proof -
  obtain oidc cors where oidc: "validate_oidc (sf_oidc s) = Inr oidc" and cors: "validate_cors (sf_cors s) = Inr cors"
    and admin: "validate_admin (sf_admin_username s) (sf_api_token s) = Inr ()"
    and fits: "validate_file_fits (sf_max_file s) (sf_max_spool s) = Inr ()"
    and bind: "sf_security_enabled s \<or> is_loopback ip6 (sf_host s)" "sf_opencode_enabled s \<longrightarrow> sf_telemetry_enabled s"
    and s': "s' = s\<lparr>sf_oidc := oidc, sf_cors := cors\<rparr>"
    using assms by (auto simp: check_settings_def split: sum.splits if_splits)
  have "case sf_api_token s of None \<Rightarrow> sf_admin_username s = None
        | Some token \<Rightarrow> validate_token (Some token) = Inr (Some token)
            \<and> (\<exists>name. sf_admin_username s = Some name \<and> name \<noteq> [] \<and> name \<noteq> reserved_username)"
    using admin by (auto simp: validate_admin_def validate_token_def split: if_splits sum.splits option.splits)
  moreover have "ocf_enabled oidc \<longrightarrow> ocf_issuer oidc \<noteq> [] \<and> last (ocf_issuer oidc) \<noteq> CHR ''/'' \<and> ocf_client_id oidc \<noteq> []
      \<and> ocf_redirect_uri oidc \<noteq> [] \<and> ocf_client_secret oidc \<noteq> None"
  proof -
    let ?issuer = "strip_trailing_slash (ocf_issuer (sf_oidc s))"
    have "?issuer = [] \<or> last ?issuer \<noteq> CHR ''/''" using strip_trailing_slash_iff [THEN iffD1, OF refl] by blast
    with oidc show ?thesis by (auto simp: validate_oidc_def Let_def split: if_splits)
  qed
  moreover have "cf_enabled cors \<longrightarrow> cf_allowed_origins cors \<noteq> []"
    using cors by (auto simp: validate_cors_def Let_def split: if_splits)
  moreover have "''*'' \<in> set (cf_allowed_origins cors)
      \<longleftrightarrow> (\<exists>n > 0. CHR ''*'' # replicate n CHR ''/'' \<in> set (cf_allowed_origins (sf_cors s)))"
  proof -
    have origins: "cf_allowed_origins cors = map strip_trailing_slash (cf_allowed_origins (sf_cors s))" "''*'' \<notin> set (cf_allowed_origins (sf_cors s))"
      using cors by (auto simp: validate_cors_def Let_def split: if_splits)
    have star: "strip_trailing_slash o1 = ''*'' \<longleftrightarrow> (\<exists>n. o1 = CHR ''*'' # replicate n CHR ''/'')" for o1
      using strip_trailing_slash_iff [of o1 "''*''"] by simp
    have "''*'' \<in> set (cf_allowed_origins cors) \<longleftrightarrow> (\<exists>o1 \<in> set (cf_allowed_origins (sf_cors s)). strip_trailing_slash o1 = ''*'')"
      unfolding origins(1) set_map image_iff by (simp only: eq_commute [of "''*''"])
    also have "\<dots> \<longleftrightarrow> (\<exists>n. CHR ''*'' # replicate n CHR ''/'' \<in> set (cf_allowed_origins (sf_cors s)))"
      unfolding star by blast
    finally show ?thesis using origins(2) by (metis gr0I replicate_0)
  qed
  moreover have "sf_max_file s \<le> sf_max_spool s" using fits by (auto simp: validate_file_fits_def split: if_splits)
  ultimately show ?thesis using bind unfolding s' by (auto split: option.splits)
qed

definition sample_settings_conf :: settings_conf where
  "sample_settings_conf = \<lparr>sf_host = ''127.0.0.1'', sf_security_enabled = False, sf_admin_username = None, sf_api_token = None,
     sf_password_min = 12, sf_password_max = 1024,
     sf_oidc = \<lparr>ocf_enabled = False, ocf_issuer = [], ocf_client_id = [], ocf_client_secret = None, ocf_redirect_uri = []\<rparr>,
     sf_cors = \<lparr>cf_enabled = True, cf_allowed_origins = [''*/'']\<rparr>, sf_fault_enabled = False, sf_fault_schedule = None,
     sf_telemetry_enabled = False, sf_max_file = 1, sf_max_spool = 2, sf_opencode_enabled = False\<rparr>"

text \<open>The wildcard with a slash behind it: refused in one spelling, accepted in the other.\<close>

lemma accepted_settings_witness:
  "\<exists>s'. check_settings (\<lambda>_. None) sample_settings_conf = Inr s' \<and> is_loopback (\<lambda>_. None) (sf_host s')
     \<and> ''*'' \<in> set (cf_allowed_origins (sf_cors s'))"
proof -
  have oidc: "validate_oidc (sf_oidc sample_settings_conf) = Inr (sf_oidc sample_settings_conf)"
    by (simp add: validate_oidc_def sample_settings_conf_def strip_trailing_slash_def)
  have cors: "validate_cors (sf_cors sample_settings_conf) = Inr \<lparr>cf_enabled = True, cf_allowed_origins = [''*'']\<rparr>"
    by (simp add: validate_cors_def sample_settings_conf_def strip_trailing_slash_def)
  have loop: "is_loopback (\<lambda>_. None) ''127.0.0.1''" by code_simp
  have proj: "sf_host sample_settings_conf = ''127.0.0.1''" "sf_admin_username sample_settings_conf = None"
    "sf_api_token sample_settings_conf = None" "sf_password_min sample_settings_conf = 12" "sf_password_max sample_settings_conf = 1024"
    "\<not> sf_fault_enabled sample_settings_conf" "sf_max_file sample_settings_conf = 1" "sf_max_spool sample_settings_conf = 2"
    "\<not> sf_opencode_enabled sample_settings_conf"
    by (simp_all add: sample_settings_conf_def)
  have run: "check_settings (\<lambda>_. None) sample_settings_conf
      = Inr (sample_settings_conf\<lparr>sf_oidc := sf_oidc sample_settings_conf, sf_cors := \<lparr>cf_enabled = True, cf_allowed_origins = [''*'']\<rparr>\<rparr>)"
    by (simp add: check_settings_def oidc cors proj loop validate_admin_def validate_token_def validate_length_bounds_def
        validate_fault_injection_def validate_file_fits_def)
  have "CHR ''*'' # replicate 1 CHR ''/'' \<in> set (cf_allowed_origins (sf_cors sample_settings_conf))" by (simp add: sample_settings_conf_def)
  with accepted_settings [OF run] run show ?thesis by (auto simp: sample_settings_conf_def)
qed

end
