(* ===== verification/Clock.thy ===== *)
theory Clock
  imports Totp
begin

text \<open>
  The clock (\<open>auth/clock.py\<close>). Every expiry, sweep and \<open>since\<close> of the program compares stored
  timestamps as texts; the other theories hold them as numbers. Here the text itself is modelled,
  a \<open>datetime\<close> in UTC by its fields, and the two are shown to be ordered alike: the comparisons of
  the model are those of the code. \<open>strftime\<close> pads the year to four digits from the year 1000 on.
\<close>

section \<open>A date and time\<close>

record datetime =
  dt_year :: nat
  dt_month :: nat
  dt_day :: nat
  dt_hour :: nat
  dt_minute :: nat
  dt_second :: nat
  dt_microsecond :: nat

definition leap :: "nat \<Rightarrow> bool" where
  "leap y \<longleftrightarrow> y mod 4 = 0 \<and> (y mod 100 \<noteq> 0 \<or> y mod 400 = 0)"

definition days_in_month :: "nat \<Rightarrow> nat \<Rightarrow> nat" where
  "days_in_month y m = (if m = 2 then (if leap y then 29 else 28) else if m \<in> {4, 6, 9, 11} then 30 else 31)"

definition valid_datetime :: "datetime \<Rightarrow> bool" where
  "valid_datetime d \<longleftrightarrow> 1000 \<le> dt_year d \<and> dt_year d \<le> 9999 \<and> 1 \<le> dt_month d \<and> dt_month d \<le> 12
     \<and> 1 \<le> dt_day d \<and> dt_day d \<le> days_in_month (dt_year d) (dt_month d)
     \<and> dt_hour d < 24 \<and> dt_minute d < 60 \<and> dt_second d < 60 \<and> dt_microsecond d < 1000000"

text \<open>Its microseconds since the epoch, by the proleptic Gregorian calendar.\<close>

definition days_before_year :: "nat \<Rightarrow> nat" where
  "days_before_year y = (y - 1) * 365 + (y - 1) div 4 - (y - 1) div 100 + (y - 1) div 400"

definition days_before_month :: "nat \<Rightarrow> nat \<Rightarrow> nat" where
  "days_before_month y m = (\<Sum>k \<leftarrow> [1..<m]. days_in_month y k)"

definition ordinal :: "datetime \<Rightarrow> nat" where
  "ordinal d = days_before_year (dt_year d) + days_before_month (dt_year d) (dt_month d) + dt_day d"

definition epoch_ordinal :: nat where
  "epoch_ordinal = 719163"

definition day_micros :: "datetime \<Rightarrow> nat" where
  "day_micros d = ((dt_hour d * 60 + dt_minute d) * 60 + dt_second d) * 1000000 + dt_microsecond d"

definition instant_of :: "datetime \<Rightarrow> instant" where
  "instant_of d = (int (ordinal d) - int epoch_ordinal) * 86400000000 + int (day_micros d)"

section \<open>The text\<close>

text \<open>A number in exactly so many digits.\<close>

fun padded :: "nat \<Rightarrow> nat \<Rightarrow> string" where
  "padded 0 n = []"
| "padded (Suc w) n = padded w (n div 10) @ [digit (n mod 10)]"

definition iso_text :: "datetime \<Rightarrow> string" where
  "iso_text d =
     (let text = padded 4 (dt_year d) @ ''-'' @ padded 2 (dt_month d) @ ''-'' @ padded 2 (dt_day d) @ ''T''
        @ padded 2 (dt_hour d) @ '':'' @ padded 2 (dt_minute d) @ '':'' @ padded 2 (dt_second d) @ ''.''
        @ padded 6 (dt_microsecond d)
      in take (length text - 3) text @ ''Z'')"

text \<open>
  \<open>parse_iso\<close> on a text of the shape \<open>iso\<close> writes; other shapes \<open>strptime\<close> accepts (fewer digits, up
  to six decimals) are not modelled.
\<close>

definition unpadded :: "string \<Rightarrow> nat" where
  "unpadded s = foldl (\<lambda>a c. a * 10 + (of_char c - 48)) 0 s"

definition parse_text :: "string \<Rightarrow> datetime" where
  "parse_text s = \<lparr>dt_year = unpadded (take 4 s), dt_month = unpadded (take 2 (drop 5 s)), dt_day = unpadded (take 2 (drop 8 s)),
     dt_hour = unpadded (take 2 (drop 11 s)), dt_minute = unpadded (take 2 (drop 14 s)), dt_second = unpadded (take 2 (drop 17 s)),
     dt_microsecond = unpadded (take 3 (drop 20 s)) * 1000\<rparr>"

section \<open>Padded numbers\<close>

lemma length_padded [simp]: "length (padded w n) = w"
  by (induction w arbitrary: n) simp_all

lemma append_less: "length u = length (u' :: 'a :: linorder list) \<Longrightarrow> u @ v < u' @ v' \<longleftrightarrow> u < u' \<or> u = u' \<and> v < v'"
  by (induction u u' rule: list_induct2) auto

lemma of_digit: "a < 10 \<Longrightarrow> (of_char (digit a) :: nat) = 48 + a"
  by (simp add: digit_def)

lemma digit_less: "a < 10 \<Longrightarrow> b < 10 \<Longrightarrow> digit a < digit b \<longleftrightarrow> a < b"
  by (simp add: less_char_def of_digit)

lemma digit_inj: "a < 10 \<Longrightarrow> b < 10 \<Longrightarrow> digit a = digit b \<longleftrightarrow> a = b"
  by (metis add_left_cancel of_digit)

text \<open>Comparing by tens.\<close>

lemma tens_eq: "m div 10 = n div 10 \<Longrightarrow> m mod 10 = n mod 10 \<Longrightarrow> m = (n :: nat)"
  by (metis mult_div_mod_eq)

lemma tens_less: "m < n \<longleftrightarrow> m div 10 < n div 10 \<or> m div 10 = n div 10 \<and> m mod 10 < n mod (10 :: nat)"
proof -
  have base: "a * 10 + b < c * 10 + d \<longleftrightarrow> a < c \<or> a = c \<and> b < d" if "b < 10" "d < 10" for a b c d :: nat
    using that by linarith
  show ?thesis using base [of "m mod 10" "n mod 10" "m div 10" "n div 10"] by simp
qed

lemma padded_inj: "m < 10 ^ w \<Longrightarrow> n < 10 ^ w \<Longrightarrow> padded w m = padded w n \<longleftrightarrow> m = n"
proof (induction w arbitrary: m n)
  case (Suc w)
  then have "padded w (m div 10) = padded w (n div 10) \<longleftrightarrow> m div 10 = n div 10" by (simp add: less_mult_imp_div_less mult.commute)
  then show ?case by (auto simp: digit_inj intro: tens_eq)
qed simp

lemma padded_less: "m < 10 ^ w \<Longrightarrow> n < 10 ^ w \<Longrightarrow> padded w m < padded w n \<longleftrightarrow> m < n"
proof (induction w arbitrary: m n)
  case (Suc w)
  then have q: "m div 10 < 10 ^ w" "n div 10 < 10 ^ w" by (simp_all add: less_mult_imp_div_less mult.commute)
  show ?case unfolding tens_less [of m n] using Suc.IH [OF q] padded_inj [OF q] by (simp add: append_less digit_less)
qed simp

lemma unpadded_append: "unpadded (s @ [digit k]) = unpadded s * 10 + k" if "k < 10"
  using that by (simp add: unpadded_def digit_def)

lemma unpadded_padded: "n < 10 ^ w \<Longrightarrow> unpadded (padded w n) = n"
proof (induction w arbitrary: n)
  case 0
  then show ?case by (simp add: unpadded_def)
next
  case (Suc w)
  then have "unpadded (padded w (n div 10)) = n div 10" by (simp add: less_mult_imp_div_less mult.commute)
  then show ?case by (simp add: unpadded_append)
qed

lemma padded_split: "padded (w + k) n = padded w (n div 10 ^ k) @ padded k (n mod 10 ^ k)"
proof (induction k arbitrary: n)
  case (Suc k)
  have "n mod 10 ^ Suc k div 10 = n div 10 mod 10 ^ k" by (simp add: mod_mult2_eq)
  moreover have "n mod 10 ^ Suc k mod 10 = n mod 10" by (simp add: mod_mod_cancel)
  ultimately show ?case using Suc [of "n div 10"] by (simp add: div_mult2_eq)
qed simp

section \<open>The order of the texts\<close>

text \<open>The fields to the millisecond, first the most significant.\<close>

definition fields_ms :: "datetime \<Rightarrow> nat list" where
  "fields_ms d = [dt_year d, dt_month d, dt_day d, dt_hour d, dt_minute d, dt_second d, dt_microsecond d div 1000]"

definition text_ms :: "datetime \<Rightarrow> string" where
  "text_ms d = padded 4 (dt_year d) @ ''-'' @ padded 2 (dt_month d) @ ''-'' @ padded 2 (dt_day d) @ ''T''
     @ padded 2 (dt_hour d) @ '':'' @ padded 2 (dt_minute d) @ '':'' @ padded 2 (dt_second d) @ ''.''
     @ padded 3 (dt_microsecond d div 1000) @ ''Z''"

lemma iso_text_ms: "iso_text d = text_ms d"
proof -
  have "padded (3 + 3) (dt_microsecond d) = padded 3 (dt_microsecond d div 10 ^ 3) @ padded 3 (dt_microsecond d mod 10 ^ 3)"
    by (rule padded_split)
  then have six: "padded 6 (dt_microsecond d) = padded 3 (dt_microsecond d div 1000) @ padded 3 (dt_microsecond d mod 1000)" by simp
  have cut: "take (length (u @ v) - 3) (u @ v) = u" if "length v = 3" for u v :: string using that by simp
  let ?u = "padded 4 (dt_year d) @ ''-'' @ padded 2 (dt_month d) @ ''-'' @ padded 2 (dt_day d) @ ''T''
     @ padded 2 (dt_hour d) @ '':'' @ padded 2 (dt_minute d) @ '':'' @ padded 2 (dt_second d) @ ''.''
     @ padded 3 (dt_microsecond d div 1000)"
  have "iso_text d = take (length (?u @ padded 3 (dt_microsecond d mod 1000)) - 3) (?u @ padded 3 (dt_microsecond d mod 1000)) @ ''Z''"
    by (simp only: iso_text_def six Let_def append_assoc)
  also have "\<dots> = ?u @ ''Z''" by (simp only: cut length_padded)
  finally show ?thesis by (simp add: text_ms_def)
qed

lemma valid_bounds:
  assumes "valid_datetime d"
  shows "dt_year d < 10 ^ 4" "dt_month d < 10 ^ 2" "dt_day d < 10 ^ 2" "dt_hour d < 10 ^ 2" "dt_minute d < 10 ^ 2"
    "dt_second d < 10 ^ 2" "dt_microsecond d div 1000 < 10 ^ 3"
  using assms by (auto simp: valid_datetime_def days_in_month_def split: if_splits)

lemma text_order:
  assumes "valid_datetime a" "valid_datetime b"
  shows "text_ms a < text_ms b \<longleftrightarrow> fields_ms a < fields_ms b" and "text_ms a = text_ms b \<longleftrightarrow> fields_ms a = fields_ms b"
proof -
  note va = valid_bounds [OF assms(1)] and vb = valid_bounds [OF assms(2)]
  note less = padded_less [OF va(1) vb(1)] padded_less [OF va(2) vb(2)] padded_less [OF va(3) vb(3)] padded_less [OF va(4) vb(4)]
    padded_less [OF va(5) vb(5)] padded_less [OF va(6) vb(6)] padded_less [OF va(7) vb(7)]
  note eq = padded_inj [OF va(1) vb(1)] padded_inj [OF va(2) vb(2)] padded_inj [OF va(3) vb(3)] padded_inj [OF va(4) vb(4)]
    padded_inj [OF va(5) vb(5)] padded_inj [OF va(6) vb(6)] padded_inj [OF va(7) vb(7)]
  show "text_ms a < text_ms b \<longleftrightarrow> fields_ms a < fields_ms b"
    unfolding text_ms_def fields_ms_def by (simp add: append_less less eq del: padded.simps)
  show "text_ms a = text_ms b \<longleftrightarrow> fields_ms a = fields_ms b"
    unfolding text_ms_def fields_ms_def by (simp add: eq append_eq_append_conv del: padded.simps)
qed

section \<open>The order of the instants\<close>

lemma leap_count:
  fixes a b c z :: nat
  assumes "b \<le> a" "p400 \<longrightarrow> p100" "p100 \<longrightarrow> p4"
  shows "(z + 1) * 365 + (if p4 then Suc a else a) - (if p100 then Suc b else b) + (if p400 then Suc c else c)
    = z * 365 + a - b + c + 365 + (if p4 \<and> (\<not> p100 \<or> p400) then 1 else 0)"
  using assms by (cases p4; cases p100; cases p400) simp_all

lemma days_before_year_Suc:
  assumes "1 \<le> y"
  shows "days_before_year (Suc y) = days_before_year y + 365 + (if leap y then 1 else 0)"
proof -
  obtain z where y: "y = Suc z" using assms by (cases y) auto
  have "Suc z mod 400 = 0 \<longrightarrow> Suc z mod 100 = 0" "Suc z mod 100 = 0 \<longrightarrow> Suc z mod 4 = 0"
    using mod_mod_cancel [of 100 400 "Suc z"] mod_mod_cancel [of 4 100 "Suc z"] by auto
  moreover have "z div 100 \<le> z div 4" by (simp add: div_le_mono2)
  ultimately show ?thesis
    using leap_count [of "z div 100" "z div 4" "Suc z mod 400 = 0" "Suc z mod 100 = 0" "Suc z mod 4 = 0" z "z div 400"]
    by (simp add: days_before_year_def leap_def y div_Suc)
qed

lemma days_before_year_mono:
  assumes "1 \<le> y" "y < y'"
  shows "days_before_year y + 365 + (if leap y then 1 else 0) \<le> days_before_year y'"
  using assms(2)
proof (induction y')
  case (Suc k)
  show ?case
  proof (cases "y = k")
    case True
    then show ?thesis using days_before_year_Suc [OF assms(1)] by simp
  next
    case False
    then show ?thesis using Suc days_before_year_Suc [of k] assms(1) by simp
  qed
qed simp

lemma days_before_month_Suc: "1 \<le> m \<Longrightarrow> days_before_month y (Suc m) = days_before_month y m + days_in_month y m"
  by (simp add: days_before_month_def)

lemma days_before_month_mono:
  assumes "1 \<le> m" "m < m'"
  shows "days_before_month y m + days_in_month y m \<le> days_before_month y m'"
  using assms(2)
proof (induction m')
  case (Suc k)
  then show ?case using days_before_month_Suc [of m y] days_before_month_Suc [of k y] assms(1) by (cases "m = k") simp_all
qed simp

lemma days_in_year: "days_before_month y 13 = 365 + (if leap y then 1 else 0)"
  by (simp add: days_before_month_def days_in_month_def upt_rec)

text \<open>The ordinal grows with year, month and day.\<close>

lemma ordinal_mono:
  assumes "valid_datetime a" "valid_datetime b" "[dt_year a, dt_month a, dt_day a] < [dt_year b, dt_month b, dt_day b]"
  shows "ordinal a < ordinal b"
proof -
  have a: "1 \<le> dt_year a" "1 \<le> dt_month a" "dt_month a < 13" "dt_day a \<le> days_in_month (dt_year a) (dt_month a)"
    and b: "1 \<le> dt_day b" using assms(1,2) by (auto simp: valid_datetime_def)
  from assms(3) consider "dt_year a < dt_year b" | "dt_year a = dt_year b" "dt_month a < dt_month b"
    | "dt_year a = dt_year b" "dt_month a = dt_month b" "dt_day a < dt_day b" by auto
  then show ?thesis
  proof cases
    case 1
    have "days_before_month (dt_year a) (dt_month a) + dt_day a \<le> 365 + (if leap (dt_year a) then 1 else 0)"
      using days_before_month_mono [OF a(2,3), of "dt_year a"] a(4) days_in_year [of "dt_year a"] by simp
    then show ?thesis using days_before_year_mono [OF a(1) 1] b by (simp add: ordinal_def)
  next
    case 2
    then show ?thesis using days_before_month_mono [OF a(2) 2(2), of "dt_year b"] a(4) b by (simp add: ordinal_def)
  next
    case 3
    then show ?thesis by (simp add: ordinal_def)
  qed
qed

definition day_ms :: "datetime \<Rightarrow> nat" where
  "day_ms d = ((dt_hour d * 60 + dt_minute d) * 60 + dt_second d) * 1000 + dt_microsecond d div 1000"

lemma iso_instant: "iso (instant_of d) = (int (ordinal d) - int epoch_ordinal) * 86400000 + int (day_ms d)"
proof -
  have "day_micros d = ((dt_hour d * 60 + dt_minute d) * 60 + dt_second d) * 1000 * 1000 + dt_microsecond d"
    by (simp add: day_micros_def)
  then have "day_micros d div 1000 = day_ms d" by (simp add: day_ms_def)
  moreover have "(x * 86400000000 + int n) div 1000 = x * 86400000 + int (n div 1000)" for x n
    by (simp add: zdiv_int)
  ultimately show ?thesis by (simp add: iso_def instant_of_def)
qed

lemma day_scale:
  fixes a b e x y :: int
  assumes "a + 1 \<le> b" "x < 86400000" "0 \<le> y"
  shows "(a - e) * 86400000 + x < (b - e) * 86400000 + y"
proof -
  have "(a - e + 1) * 86400000 \<le> (b - e) * 86400000" using assms(1) by (intro mult_right_mono) simp_all
  then show ?thesis using assms(2,3) by (simp add: algebra_simps)
qed

lemma fields_instant_mono:
  assumes "valid_datetime a" "valid_datetime b" "fields_ms a < fields_ms b"
  shows "iso (instant_of a) < iso (instant_of b)"
proof -
  have day: "day_ms d < 86400000" if "valid_datetime d" for d using that by (auto simp: valid_datetime_def day_ms_def)
  from assms(3) consider "[dt_year a, dt_month a, dt_day a] < [dt_year b, dt_month b, dt_day b]"
    | "[dt_year a, dt_month a, dt_day a] = [dt_year b, dt_month b, dt_day b]" "day_ms a < day_ms b"
  proof -
    assume k: "[dt_year a, dt_month a, dt_day a] < [dt_year b, dt_month b, dt_day b] \<Longrightarrow> thesis"
      "[dt_year a, dt_month a, dt_day a] = [dt_year b, dt_month b, dt_day b] \<Longrightarrow> day_ms a < day_ms b \<Longrightarrow> thesis"
    have m: "dt_minute a < 60" "dt_second a < 60" "dt_microsecond a div 1000 < 1000"
      using assms(1) by (auto simp: valid_datetime_def)
    from assms(3) have "[dt_year a, dt_month a, dt_day a] < [dt_year b, dt_month b, dt_day b]
        \<or> [dt_year a, dt_month a, dt_day a] = [dt_year b, dt_month b, dt_day b]
          \<and> [dt_hour a, dt_minute a, dt_second a, dt_microsecond a div 1000] < [dt_hour b, dt_minute b, dt_second b, dt_microsecond b div 1000]"
      unfolding fields_ms_def by auto
    moreover have "day_ms a < day_ms b"
      if "[dt_hour a, dt_minute a, dt_second a, dt_microsecond a div 1000] < [dt_hour b, dt_minute b, dt_second b, dt_microsecond b div 1000]"
      using that m unfolding day_ms_def by auto
    ultimately show thesis using k by blast
  qed
  then show ?thesis
  proof cases
    case 1
    then have "ordinal a < ordinal b" by (rule ordinal_mono [OF assms(1,2)])
    then have "int (ordinal a) + 1 \<le> int (ordinal b)" by linarith
    moreover have "int (day_ms a) < 86400000" "0 \<le> int (day_ms b)" using day [OF assms(1)] by simp_all
    ultimately show ?thesis unfolding iso_instant by (rule day_scale)
  next
    case 2
    then have "ordinal a = ordinal b" by (simp add: ordinal_def)
    then show ?thesis using 2(2) by (simp add: iso_instant)
  qed
qed

text \<open>
  C40. Comparing timestamps as texts is comparing instants: for any two times of the years 1000 to
  9999 the stored texts compare, and are equal, exactly as the milliseconds of the instants the
  rest of the development holds; and reading a text back gives its instant, cut to the millisecond.
\<close>

theorem text_order_is_time_order:
  assumes "valid_datetime a" and "valid_datetime b"
  shows "(iso_text a < iso_text b \<longleftrightarrow> iso (instant_of a) < iso (instant_of b))
     \<and> (iso_text a = iso_text b \<longleftrightarrow> iso (instant_of a) = iso (instant_of b))
     \<and> instant_of (parse_text (iso_text a)) = parse_iso (iso (instant_of a))"
proof -
  note mono = fields_instant_mono [OF assms] fields_instant_mono [OF assms(2,1)]
  have "fields_ms a = fields_ms b \<Longrightarrow> iso (instant_of a) = iso (instant_of b)"
    by (simp add: fields_ms_def iso_instant ordinal_def day_ms_def)
  with mono have "fields_ms a < fields_ms b \<longleftrightarrow> iso (instant_of a) < iso (instant_of b)"
    "fields_ms a = fields_ms b \<longleftrightarrow> iso (instant_of a) = iso (instant_of b)"
    by (metis less_irrefl less_asym linorder_neqE)+
  moreover have "parse_text (iso_text a) = a\<lparr>dt_microsecond := dt_microsecond a div 1000 * 1000\<rparr>"
    using valid_bounds [OF assms(1)] unfolding iso_text_ms
    by (simp add: parse_text_def text_ms_def unpadded_padded del: padded.simps)
  moreover have "instant_of (a\<lparr>dt_microsecond := dt_microsecond a div 1000 * 1000\<rparr>) = parse_iso (iso (instant_of a))"
    by (simp add: iso_instant parse_iso_def) (simp add: instant_of_def ordinal_def day_micros_def day_ms_def)
  ultimately show ?thesis using text_order [OF assms] by (simp add: iso_text_ms)
qed

definition sample_time :: "nat \<Rightarrow> datetime" where
  "sample_time us = \<lparr>dt_year = 2024, dt_month = 2, dt_day = 29, dt_hour = 23, dt_minute = 59, dt_second = 59, dt_microsecond = us\<rparr>"

lemma text_order_is_time_order_witness:
  "iso_text (sample_time 1000) < iso_text (sample_time 999999)"
proof -
  have valid: "valid_datetime (sample_time 1000)" "valid_datetime (sample_time 999999)"
    by (simp_all add: valid_datetime_def sample_time_def days_in_month_def leap_def)
  have "iso (instant_of (sample_time 1000)) < iso (instant_of (sample_time 999999))"
    by (rule fields_instant_mono [OF valid]) (simp add: fields_ms_def sample_time_def)
  then show ?thesis using text_order_is_time_order [OF valid] by blast
qed

end
