(* ===== verification/Spec2Isabelle.thy ===== *)
theory Spec2Isabelle
  imports Login Self_Service Oidc Opencode_Handler Opencode_Execute Telemetry Storage Bench_Fixtures Log_Record Api_Surface Settings_Rules Clock
begin

text \<open>
  \<^bold>\<open>Ansina.\<close> A self-owned agent: a daemon (\<open>src/ansina\<close>) with a small local model, the Heart, that
  ticks for ever; a remote model, the Brain, to which the Heart may escalate; an optional coding
  agent, the executor, run as a child process; and one REST API in front of them with its own
  users, roles and step-up. Everything is kept in one SQLite database. All paths below are under
  \<open>src/ansina\<close>.

  \<^bold>\<open>How the parts interact.\<close> A request passes the gate (token, principal, route permission, sudo)
  and reaches a handler, which calls a repository, the run service or the loop. The boot
  migrates the database, reconciles catalog and builtin roles, makes sure of an administrator and
  audits that every route declares its permission. The loop collects a snapshot from its sources,
  asks the runtime, parses the reply as idle, act or escalate, and hands the decision to the
  journal handler, to the Brain or to the policy that intervenes on executor runs. The run
  service admits a run, its task drives the child through the runner, and the runner classifies
  what the child prints. Whatever leaves the program as text is redacted; telemetry writes it
  to spools of bounded size.

  \<^bold>\<open>How code becomes definitions.\<close> A method that reads and writes state and may raise is an operation
  (theory \<open>Prelude\<close>): a function from the state to an error or a result, paired with the state it
  leaves on either branch; \<open>op_bind\<close>, \<open>op_then\<close>, \<open>foreach\<close> and \<open>transaction\<close> are the sequencing of the
  code. Rows are records and a table is the list of its rows. Exceptions are constructors of an
  error datatype per component. \<open>await\<close> is where an operation is cut: a task is the list of its
  await-free stretches, and a step relation interleaves them. Hashes, HMAC, AES-GCM, JWT
  validation, HTTP, JSON parsing, regular expressions, the SQL of migrations, the model and the
  child are parameters of the definitions that use them. Definitions keep the names of the source;
  constructors and selectors carry a short prefix where several rows have the same field.

  \<^bold>\<open>Theories, from the bottom.\<close>
  \<^item> \<open>Prelude\<close>: operations, their rules (\<open>op_simps\<close>, \<open>keeps_intros\<close>), table and string helpers.
    \<open>Pytext\<close>: the methods of \<open>str\<close> used by the Heart and the executor.
  \<^item> Identity. \<open>Auth_Model\<close> is \<open>auth/models.py\<close> and \<open>policy.py\<close>, \<open>Clock\<close> is \<open>auth/clock.py\<close>,
    \<open>Repositories\<close> is \<open>auth/repositories.py\<close>, \<open>Integrity\<close> the database invariant over every sequence
    of repository calls. \<open>Access\<close> is the principal, \<open>authorize\<close>, \<open>require\<close> and the guards of
    \<open>auth/management.py\<close>; \<open>Management\<close> the handlers of the management routes; \<open>Escalation\<close>, \<open>LastAdmin\<close>
    and \<open>Governance\<close> prove that nobody hands out what it does not hold and that an administrator
    remains. \<open>Reconcile\<close> is \<open>auth/reconciler.py\<close>, \<open>Role_Sync\<close> is \<open>auth/role_sync.py\<close>.
  \<^item> Proof of identity. \<open>Lockout\<close> holds the failure bucket that \<open>auth/sudo.py\<close> and
    \<open>auth/login_throttle.py\<close> share, \<open>Login\<close> is the login route, \<open>Totp\<close> is \<open>auth/totp.py\<close> on bytes,
    \<open>Encryption\<close> is \<open>auth/encryption.py\<close>, \<open>Sudo\<close> is \<open>auth/step_up.py\<close> and \<open>sudo.py\<close>, \<open>Self_Service\<close> is
    \<open>api/routes/me.py\<close> and \<open>sudo.py\<close>, \<open>Oidc\<close> is \<open>auth/oidc.py\<close>, \<open>oidc_login.py\<close> and the callback.
  \<^item> The edge. \<open>Gate\<close> composes \<open>auth/authenticator.py\<close>, \<open>api/auth.py\<close> and \<open>require\<close>; \<open>Boot\<close> is
    \<open>auth/bootstrap.py\<close>, \<open>api/route_audit.py\<close> and the order of \<open>api/app.py\<close>; \<open>Api_Surface\<close> is the error
    shape, the request id, readiness and the executor, intake and tick routes.
  \<^item> The Heart. \<open>Tick\<close> is \<open>heart/tick/decision.py\<close>, \<open>snapshot.py\<close>, \<open>prompts.py\<close> and the slot arithmetic
    of \<open>loop.py\<close>; \<open>Tick_Loop\<close> the loop itself; \<open>Journal\<close> is \<open>heart/journal.py\<close>; \<open>Handlers\<close> the decision
    handlers and the fault injector; \<open>Heart\<close> the runtime guard, the sources and the assembly;
    \<open>Brain\<close> is \<open>brain/\<close>; \<open>Heart_Duties\<close> is \<open>heart/triage.py\<close>, \<open>curation.py\<close> and \<open>extraction.py\<close>;
    \<open>Bench\<close> the runners and gates of \<open>heart/eval\<close> that measure them, \<open>Bench_Fixtures\<close> its
    \<open>fixtures.py\<close>.
  \<^item> The executor. \<open>Opencode_Config\<close> is what confines the child (\<open>opencode/config.py\<close>, \<open>env.py\<close>,
    \<open>workspace.py\<close>, \<open>preflight.py\<close>), \<open>Opencode_Runs\<close> the table, \<open>Opencode_Service\<close> is
    \<open>opencode/service.py\<close>, \<open>Opencode_Lifecycle\<close> its step relation and invariant, \<open>Opencode_Runner\<close> is
    \<open>opencode/runner.py\<close> and \<open>events.py\<close>, \<open>Opencode_Execute\<close> the two composed, \<open>Opencode_Policy\<close> and
    \<open>Opencode_Handler\<close> the interventions of the Heart.
  \<^item> Services. \<open>Redaction\<close> is \<open>logging/redaction.py\<close>, \<open>Log_Record\<close> is \<open>logging/formatter.py\<close>, \<open>Telemetry\<close> is \<open>telemetry/\<close> and
    \<open>opencode/telemetry.py\<close>, \<open>Storage\<close> is \<open>storage/\<close>, \<open>Settings_Rules\<close> the validators of
    \<open>config/settings.py\<close>.
\<close>

text \<open>
  \<^bold>\<open>What is shown.\<close>
  \<^item> Identity: database integrity, fail-closed authorization, no escalation, the last administrator,
    exact reconciliation and role synchronisation, and that after any boot an administrator can
    use every audited route. The invariants rest on step relations with one rule per operation, one
    preservation lemma per rule, and rule induction.
  \<^item> Proof: lockout against brute force, tokens and sudo grants only on proof, one-time codes used
    once, enrolment that works end to end, OIDC logins backed by a verified token and not
    replayable, and the gate as the composition of all of it.
  \<^item> Heart: the exact reading of a reply, the closed form of the slot, the invariant of counters
    and breaker, the loop as a refinement of its step relation, a cycle that always returns, the
    breaker that trips exactly, Brain streams that end once, the journal as a bounded log,
    duties that never invent and keep their budget, bench gates that pass exactly when the fixtures
    were answered as the gate means it, and loaded fixture sets that can be measured.
  \<^item> Executor: the run life cycle under every interleaving, its backlog bound, the runner that
    always returns and only takes steps of the life cycle, the budgets of the policy, the
    environment of the child.
  \<^item> Services: redaction that lets no registered secret through, spools within their budgets,
    migrations that leave a version and compose, secrets from the environment only, timestamps
    whose texts are ordered like the instants.

  \<^bold>\<open>Interfaces.\<close> \<open>bucket_store\<close> (interpreted on the sudo and on the login buckets), \<open>step_up_verifier\<close>
  (password, TOTP), \<open>polite_adapter\<close> (the OpenAI-compatible adapter) and \<open>decision_handler\<close> (journal,
  escalation, fault injection, intervention) are locales; each provider's theory interprets
  them on the model's own operations.

  \<^bold>\<open>Loops, bounds and fuel.\<close> \<open>next_tick_number\<close> and the scheduling loop \<open>run\<close> are
  \<open>partial_function (option)\<close>: the first is proved to return for a positive interval, the second
  runs for ever by design, so its cycles are proved to return. \<open>brain_run\<close>, \<open>replace\<close>,
  \<open>digit_runs\<close>, \<open>word_runs\<close> and \<open>splitlines\<close> end by a measure. \<open>free_target\<close> counts up until a file name is free, with one
  unit of fuel more than there are files, which is enough because its names differ
  (\<open>write_line_budget\<close> states that a name is found). Texts have code points below 256. The clock of an
  operation is an argument; instants are microseconds, and \<open>Clock\<close> ties them to the stored texts
  for the years 1000 to 9999.

  \<^bold>\<open>Not modelled.\<close> Of the offline bench (\<open>heart/eval\<close>), the rendering, storing and publishing of
  reports; the bindings to the local model (\<open>heart/adapters\<close>, \<open>heart/selection.py\<close>, \<open>ml/\<close>) and to
  the operating system (\<open>process/handles.py\<close>, \<open>dev/\<close>), whose behaviour is a parameter; the
  configuration handed to the logging module; argument parsing and the assembly of the FastAPI application; how
  pydantic fills settings from their sources; threads below an await-free stretch, except for the
  closing of the database, where \<open>Storage\<close> interleaves them; the terminal client \<open>tui/\<close>, a separate
  program; scripts, deployment and tests.
\<close>

end
